(* ===== verification/Prelude.thy ===== *)
theory Prelude
  imports Main "HOL-Library.Word"
begin

text \<open>
  Shared vocabulary of the development: machine integers, results with faults, the
  \<^verbatim>\<open>do\<close>-\<^verbatim>\<open>while\<close> loop with fuel, byte buffers and the byte image of a word.

  \<^item> A C \<open>unsigned\<close> type is a word of its width. A C \<open>int\<close> is a HOL \<open>int\<close>; every implicit
    conversion of the source between the two is written with \<open>s32\<close>, \<open>int_of_u64\<close> or
    \<open>u64_of_int\<close> (two's complement, as both QEMU and Linux are compiled with wrap-around).
  \<^item> A function of the source that can touch memory it does not own, wait for ever, or loop
    for ever returns \<open>fault + result\<close>.
\<close>

unbundle bit_operations_syntax

type_synonym u8 = "8 word"
type_synonym u16 = "16 word"
type_synonym u32 = "32 word"
type_synonym u64 = "64 word"

named_theorems dev_defs \<open>definitions of the device's operations\<close>
named_theorems frame_simps \<open>fields an operation leaves unchanged\<close>

section \<open>Faults and results\<close>

text \<open>
  \<open>Out_Of_Bounds\<close>: the C code indexes an array outside its bounds (undefined behaviour).
  \<open>Blocked\<close>: a system call that never returns. \<open>Div_By_Zero\<close>: an integer division by zero.
  \<open>Null_Pointer\<close>: a null pointer is followed. \<open>Exited c\<close>: the program has called \<^verbatim>\<open>exit(c)\<close>.
  \<open>Out_Of_Fuel\<close>: the iteration bound of the model was too small; the termination lemmas show which bound is enough.
\<close>

datatype fault = Out_Of_Bounds | Blocked | Div_By_Zero | Null_Pointer | Exited int | Out_Of_Fuel

type_synonym 'a res = "fault + 'a"

fun bindR :: "'a res \<Rightarrow> ('a \<Rightarrow> 'b res) \<Rightarrow> 'b res" where
  "bindR (Inl e) f = Inl e"
| "bindR (Inr a) f = f a"

lemma bindR_Inr_iff [simp]: "bindR m f = Inr b \<longleftrightarrow> (\<exists>a. m = Inr a \<and> f a = Inr b)"
  by (cases m) auto

lemma bindR_Inl_iff: "bindR m f = Inl e \<longleftrightarrow> m = Inl e \<or> (\<exists>a. m = Inr a \<and> f a = Inl e)"
  by (cases m) auto

lemma bindR_assoc: "bindR (bindR m f) g = bindR m (\<lambda>a. bindR (f a) g)"
  by (cases m) auto

section \<open>C integer conversions\<close>

definition s32 :: "int \<Rightarrow> int" where
  "s32 x = sint (word_of_int x :: u32)"

definition int_of_u64 :: "u64 \<Rightarrow> int" where
  "int_of_u64 w = sint (ucast w :: u32)"

definition u64_of_int :: "int \<Rightarrow> u64" where
  "u64_of_int x = word_of_int x"

lemma s32_id [simp]:
  assumes "- (2 ^ 31) \<le> x" "x < 2 ^ 31" shows "s32 x = x"
  using assms by (simp add: s32_def signed_of_int signed_take_bit_int_eq_self)

lemma int_of_u64_small [simp]:
  assumes "unat w < 2 ^ 31" shows "int_of_u64 w = int (unat w)"
proof -
  have "(ucast w :: u32) = of_nat (unat w)"
    by simp
  then have "int_of_u64 w = signed_take_bit 31 (int (unat w))"
    unfolding int_of_u64_def by (simp add: signed_of_nat del: of_nat_unat)
  also have "\<dots> = int (unat w)"
  proof (rule signed_take_bit_int_eq_self)
    show "- (2 ^ 31) \<le> int (unat w)" by (rule order_trans [of _ 0]) simp_all
    have "int (unat w) < int (2 ^ 31)" using assms by (simp only: of_nat_less_iff)
    then show "int (unat w) < 2 ^ 31" by (simp only: of_nat_power of_nat_numeral)
  qed
  finally show ?thesis .
qed

lemma u64_of_int_nat [simp]: "u64_of_int (int n) = of_nat n"
  by (simp add: u64_of_int_def)

lemma unat_u64_of_int:
  assumes "0 \<le> x" "x < 2 ^ 64" shows "unat (u64_of_int x) = nat x"
  using assms by (simp add: u64_of_int_def unsigned_of_int take_bit_int_eq_self)

lemma unat_of_nat_u64: "n < 2 ^ 64 \<Longrightarrow> unat (of_nat n :: u64) = n"
  by (simp add: unsigned_of_nat take_bit_nat_eq_self)

lemma unat_u64_lt: "unat (w :: u64) < 2 ^ 64"
  using unsigned_less [of w, where ?'a = nat] by simp

section \<open>Pages\<close>

lemma div_mod_same_page:
  assumes "(x::nat) mod p + i < p"
  shows "(x + i) div p = x div p" "(x + i) mod p = x mod p + i"
proof -
  have "(x + i) mod p = (x mod p + i) mod p" by (rule mod_add_left_eq [symmetric])
  also have "\<dots> = x mod p + i" using assms by (rule mod_less)
  finally show "(x + i) mod p = x mod p + i" .
  show "(x + i) div p = x div p"
    using assms by (simp add: div_add1_eq [of x i p])
qed

lemma to_next_page: "(x::nat) + (4096 - x mod 4096) = Suc (x div 4096) * 4096"
proof -
  have "q * 4096 + r + (4096 - r) = Suc q * 4096" if "r < 4096" for q r :: nat
    using that by simp
  from this [of "x mod 4096" "x div 4096"] show ?thesis by (simp only: div_mult_mod_eq)
qed

section \<open>The do-while loop with fuel\<close>

text \<open>
  \<open>do_while n body s\<close> runs \<open>body\<close> at most \<open>n\<close> times; the body returns whether the loop
  condition still holds. A fault of the body ends the loop.
\<close>

fun do_while :: "nat \<Rightarrow> ('s \<Rightarrow> (bool \<times> 's) res) \<Rightarrow> 's \<Rightarrow> 's res" where
  "do_while 0 body s = Inl Out_Of_Fuel"
| "do_while (Suc n) body s =
     bindR (body s) (\<lambda>(again, s'). if again then do_while n body s' else Inr s')"

text \<open>More fuel never changes a result that is not itself the lack of fuel.\<close>

lemma do_while_more_fuel:
  assumes "do_while n body s = r" "r \<noteq> Inl Out_Of_Fuel"
  shows "do_while (n + k) body s = r"
  using assms
proof (induction n arbitrary: s)
  case 0
  then show ?case by simp
next
  case (Suc n)
  then show ?case by (cases "body s") (auto split: if_splits)
qed

text \<open>
  Partial correctness: \<open>keeps E P r\<close> when \<open>r\<close> is a result with \<open>P\<close> or a fault of \<open>E\<close>. One rule per
  construct of the code.
\<close>

definition keeps :: "fault set \<Rightarrow> ('a \<Rightarrow> bool) \<Rightarrow> 'a res \<Rightarrow> bool" where
  "keeps E P r \<longleftrightarrow> (case r of Inl e \<Rightarrow> e \<in> E | Inr x \<Rightarrow> P x)"

lemma keeps_simps [simp]: "keeps E P (Inr x) \<longleftrightarrow> P x" "keeps E P (Inl e) \<longleftrightarrow> e \<in> E"
  by (simp_all add: keeps_def)

lemma keeps_bind:
  "keeps E Q m \<Longrightarrow> (\<And>x. Q x \<Longrightarrow> keeps E P (f x)) \<Longrightarrow> keeps E P (bindR m f)"
  by (cases m) simp_all

lemma keeps_bind2:
  "keeps E (\<lambda>(x, y). Q x y) m \<Longrightarrow> (\<And>x y. Q x y \<Longrightarrow> keeps E P (f x y)) \<Longrightarrow>
     keeps E P (bindR m (\<lambda>(x, y). f x y))"
  by (cases m) auto

lemma keeps_Inr: "P x \<Longrightarrow> keeps E P (Inr x)"
  by simp

lemma keeps_if:
  "(b \<Longrightarrow> keeps E P r) \<Longrightarrow> (\<not> b \<Longrightarrow> keeps E P s) \<Longrightarrow> keeps E P (if b then r else s)"
  by simp

lemma keeps_mono: "keeps E P r \<Longrightarrow> (\<And>x. P x \<Longrightarrow> Q x) \<Longrightarrow> keeps E Q r"
  by (cases r) simp_all

lemma keeps_loop:
  assumes "P s" "\<And>s. P s \<Longrightarrow> keeps E (\<lambda>(b, t). if b then P t else Q t) (body s)" "Out_Of_Fuel \<in> E"
  shows "keeps E Q (do_while n body s)"
  using assms(1)
proof (induction n arbitrary: s)
  case 0
  then show ?case using assms(3) by simp
next
  case (Suc n)
  show ?case unfolding do_while.simps
    by (rule keeps_bind [OF assms(2) [OF Suc.prems]]) (auto intro: Suc.IH split: if_splits)
qed

lemma keeps_do_while:
  "P s \<Longrightarrow> (\<And>s. P s \<Longrightarrow> keeps E (\<lambda>(_, t). P t) (body s)) \<Longrightarrow> Out_Of_Fuel \<in> E \<Longrightarrow>
     keeps E P (do_while n body s)"
  by (rule keeps_loop [where P = P]) (auto elim: keeps_mono)

lemma keepsD: "keeps E P r \<Longrightarrow> r = Inr x \<Longrightarrow> P x" "keeps E P r \<Longrightarrow> r = Inl e \<Longrightarrow> e \<in> E"
  by simp_all

text \<open>
  The contract of a loop body: under the invariant it returns, and when the loop goes on the
  invariant is kept and the budget shrinks; when the loop ends the postcondition holds.
\<close>

locale bounded_loop =
  fixes body :: "'s \<Rightarrow> (bool \<times> 's) res"
    and inv :: "'s \<Rightarrow> bool"
    and budget :: "'s \<Rightarrow> nat"
    and post :: "'s \<Rightarrow> 's \<Rightarrow> bool"
  assumes body_returns: "inv s \<Longrightarrow> \<exists>b s'. body s = Inr (b, s')"
    and body_again: "inv s \<Longrightarrow> body s = Inr (True, s') \<Longrightarrow> inv s' \<and> budget s' < budget s"
    and post_again: "inv s \<Longrightarrow> body s = Inr (True, s') \<Longrightarrow> post s' t \<Longrightarrow> post s t"
    and post_stop: "inv s \<Longrightarrow> body s = Inr (False, t) \<Longrightarrow> post s t"
begin

lemma loop_total:
  "inv s \<Longrightarrow> budget s < n \<Longrightarrow> \<exists>t. do_while n body s = Inr t \<and> post s t"
proof (induction n arbitrary: s)
  case 0
  then show ?case by simp
next
  case (Suc n)
  from body_returns [OF Suc.prems(1)] obtain b s' where b: "body s = Inr (b, s')" by blast
  show ?case
  proof (cases b)
    case True
    with b Suc.prems body_again [of s s'] have "inv s'" "budget s' < n" by auto
    from Suc.IH [OF this] obtain t where "do_while n body s' = Inr t" "post s' t" by blast
    with b True Suc.prems post_again [of s s' t] show ?thesis by simp
  next
    case False
    with b Suc.prems post_stop [of s s'] show ?thesis by simp
  qed
qed

lemma loop_result:
  assumes "inv s" "do_while n body s = Inr t" shows "post s t"
proof -
  have "do_while (n + Suc (budget s)) body s = Inr t"
    using assms(2) by (rule do_while_more_fuel) simp
  moreover have "\<exists>t. do_while (n + Suc (budget s)) body s = Inr t \<and> post s t"
    by (rule loop_total [OF assms(1)]) simp
  ultimately show ?thesis by auto
qed

end

section \<open>Byte buffers\<close>

text \<open>
  A fixed C array is a function of the index, together with its size, which the operations
  check. \<open>blit b ofs bs\<close> stores the bytes \<open>bs\<close> from index \<open>ofs\<close> on; \<open>slice b ofs n\<close> reads
  \<open>n\<close> elements from there.
\<close>

definition blit :: "(nat \<Rightarrow> 'a) \<Rightarrow> nat \<Rightarrow> 'a list \<Rightarrow> nat \<Rightarrow> 'a" where
  "blit b ofs bs = (\<lambda>i. if ofs \<le> i \<and> i < ofs + length bs then bs ! (i - ofs) else b i)"

definition slice :: "(nat \<Rightarrow> 'a) \<Rightarrow> nat \<Rightarrow> nat \<Rightarrow> 'a list" where
  "slice b ofs n = map b [ofs..<ofs + n]"

lemma length_slice [simp]: "length (slice b ofs n) = n"
  by (simp add: slice_def)

lemma nth_slice [simp]: "i < n \<Longrightarrow> slice b ofs n ! i = b (ofs + i)"
  by (simp add: slice_def)

lemma slice_0 [simp]: "slice b ofs 0 = []"
  by (simp add: slice_def)

lemma slice_add: "slice b ofs (n + m) = slice b ofs n @ slice b (ofs + n) m"
  by (rule nth_equalityI) (auto simp: nth_append)

lemma slice_blit_same: "length bs = n \<Longrightarrow> slice (blit b ofs bs) ofs n = bs"
  by (rule nth_equalityI) (auto simp: blit_def)

lemma slice_blit_before: "ofs' + n \<le> ofs \<Longrightarrow> slice (blit b ofs bs) ofs' n = slice b ofs' n"
  by (rule nth_equalityI) (auto simp: blit_def)

lemma slice_blit_prefix:
  "length bs \<le> n \<Longrightarrow> slice (blit b 0 bs) 0 n = bs @ slice b (length bs) (n - length bs)"
  by (rule nth_equalityI) (auto simp: blit_def nth_append)

lemma blit_Nil [simp]: "blit b ofs [] = b"
  by (rule ext) (auto simp: blit_def)

lemma blit_Cons: "blit (b(k := x)) (Suc k) xs = blit b k (x # xs)"
proof
  fix i
  consider "i < k" | "i = k" | j where "i = Suc k + j" by (metis less_imp_Suc_add linorder_neqE_nat add_Suc)
  then show "blit (b(k := x)) (Suc k) xs i = blit b k (x # xs) i"
    by cases (simp_all add: blit_def)
qed

lemma blit_outside: "i < ofs \<or> ofs + length bs \<le> i \<Longrightarrow> blit b ofs bs i = b i"
  by (auto simp: blit_def)

section \<open>Counted loops and checked lists\<close>

text \<open>\<open>foldR f xs s\<close> is a \<^verbatim>\<open>for\<close> loop over the values \<open>xs\<close> with a body that may fault.\<close>

fun foldR :: "('i \<Rightarrow> 's \<Rightarrow> 's res) \<Rightarrow> 'i list \<Rightarrow> 's \<Rightarrow> 's res" where
  "foldR f [] s = Inr s"
| "foldR f (x # xs) s = bindR (f x s) (foldR f xs)"

definition load :: "'a list \<Rightarrow> int \<Rightarrow> 'a res" where
  "load xs i = (if 0 \<le> i \<and> i < int (length xs) then Inr (xs ! nat i) else Inl Out_Of_Bounds)"

definition store :: "'a list \<Rightarrow> int \<Rightarrow> 'a \<Rightarrow> 'a list res" where
  "store xs i v = (if 0 \<le> i \<and> i < int (length xs) then Inr (xs[nat i := v]) else Inl Out_Of_Bounds)"

lemma load_nat [simp]: "i < length xs \<Longrightarrow> load xs (int i) = Inr (xs ! i)"
  by (simp add: load_def)

lemma store_nat [simp]: "i < length xs \<Longrightarrow> store xs (int i) v = Inr (xs[i := v])"
  by (simp add: store_def)

lemma keeps_foldR:
  "P s \<Longrightarrow> (\<And>x s. P s \<Longrightarrow> keeps E P (f x s)) \<Longrightarrow> keeps E P (foldR f xs s)"
  by (induction xs arbitrary: s) (auto intro: keeps_bind)

lemma foldR_append: "foldR f (xs @ ys) = (\<lambda>s. bindR (foldR f xs s) (foldR f ys))"
  by (induction xs) (auto simp: bindR_assoc intro!: ext)

lemma foldR_concat: "foldR (\<lambda>x. foldR f (g x)) xs = foldR f (concat (map g xs))"
  by (induction xs) (auto simp: foldR_append intro!: ext)

lemma foldR_map: "foldR f (map g xs) = foldR (\<lambda>x. f (g x)) xs"
  by (induction xs) (auto intro!: ext)

lemma foldR_cong:
  assumes "\<And>x s. x \<in> set xs \<Longrightarrow> P s \<Longrightarrow> f x s = g x s"
    and "\<And>x s t. x \<in> set xs \<Longrightarrow> P s \<Longrightarrow> g x s = Inr t \<Longrightarrow> P t"
  shows "P s \<Longrightarrow> foldR f xs s = foldR g xs s"
  using assms
proof (induction xs arbitrary: s)
  case Nil
  then show ?case by simp
next
  case (Cons x xs)
  show ?case
  proof (cases "g x s")
    case (Inl e)
    then show ?thesis using Cons.prems(1,2) by simp
  next
    case (Inr t)
    have "P t" by (rule Cons.prems(3) [OF _ Cons.prems(1) Inr]) simp
    then have "foldR f xs t = foldR g xs t"
    proof (rule Cons.IH)
      show "f y s = g y s" if "y \<in> set xs" "P s" for y s
        using that by (intro Cons.prems(2)) simp_all
      show "P u" if "y \<in> set xs" "P s" "g y s = Inr u" for y s u
        by (rule Cons.prems(3) [of y s u]) (use that in simp_all)
    qed
    then show ?thesis using Cons.prems(1,2) Inr by simp
  qed
qed

lemma find_append:
  "find P (xs @ ys) = (case find P xs of None \<Rightarrow> find P ys | Some x \<Rightarrow> Some x)"
  by (induction xs) simp_all

text \<open>A loop that updates one cell again and again; a loop that updates each cell once.\<close>

lemma foldR_one_cell:
  "i < length xs \<Longrightarrow> foldR (\<lambda>k xs. Inr (xs[i := h k (xs ! i)])) ks xs =
     Inr (xs[i := fold h ks (xs ! i)])"
  by (induction ks arbitrary: xs) simp_all

lemma foldR_cells:
  assumes "distinct is" "\<forall>i \<in> set is. i < length xs"
  shows "foldR (\<lambda>i xs. Inr (xs[i := f i (xs ! i)])) is xs =
     Inr (map (\<lambda>i. if i \<in> set is then f i (xs ! i) else xs ! i) [0..<length xs])"
  using assms
proof (induction "is" arbitrary: xs)
  case Nil
  then show ?case by (simp add: map_nth)
next
  case (Cons a as)
  have "foldR (\<lambda>i xs. Inr (xs[i := f i (xs ! i)])) as (xs[a := f a (xs ! a)]) =
      Inr (map (\<lambda>i. if i \<in> set as then f i (xs[a := f a (xs ! a)] ! i)
        else xs[a := f a (xs ! a)] ! i) [0..<length xs])"
    using Cons.IH [of "xs[a := f a (xs ! a)]"] Cons.prems by simp
  then show ?case using Cons.prems by (auto simp: nth_list_update)
qed

text \<open>Storing the elements of an array in order, whatever it held.\<close>

lemma fill:
  assumes "length xs = N" "k \<le> N"
  shows "foldR (\<lambda>g mat. store mat (int g) (f g)) [0..<k] xs = Inr (map f [0..<k] @ drop k xs)"
  using assms(2)
proof (induction k)
  case (Suc k)
  have "drop k xs = xs ! k # drop (Suc k) xs" by (rule Cons_nth_drop_Suc [symmetric]) (use Suc assms(1) in simp)
  then have "store (map f [0..<k] @ drop k xs) (int k) (f k) = Inr (map f [0..<Suc k] @ drop (Suc k) xs)"
    using Suc.prems assms(1) by (simp add: list_update_append)
  then show ?case using Suc by (simp add: foldR_append)
qed simp

end
