(* ===== verification/Regs.thy ===== *)
theory Regs
  imports Prelude
begin

text \<open>
  The register map and limits of the device, \<^verbatim>\<open>include/hw/psipe_hw.h\<close>: the one header the
  emulated device and the kernel module share.
\<close>

section \<open>Hardware description (psipe\_hw.h)\<close>

definition PSIPE_HW_VENDOR_ID :: u16 where "PSIPE_HW_VENDOR_ID = 0x1b36"
definition PSIPE_HW_DEVICE_ID :: u16 where "PSIPE_HW_DEVICE_ID = 0x1100"
definition PSIPE_HW_REVISION :: u8 where "PSIPE_HW_REVISION = 0x01"
definition PSIPE_HW_BAR0_IRQ_0_RAISE :: u64 where "PSIPE_HW_BAR0_IRQ_0_RAISE = 0x00"
definition PSIPE_HW_BAR0_IRQ_0_LOWER :: u64 where "PSIPE_HW_BAR0_IRQ_0_LOWER = 0x08"
definition PSIPE_HW_BAR0_DMA_CFG_LEN :: u64 where "PSIPE_HW_BAR0_DMA_CFG_LEN = 0x10"
definition PSIPE_HW_BAR0_DMA_CFG_PGS :: u64 where "PSIPE_HW_BAR0_DMA_CFG_PGS = 0x18"
definition PSIPE_HW_BAR0_DMA_CFG_MOD :: u64 where "PSIPE_HW_BAR0_DMA_CFG_MOD = 0x20"
definition PSIPE_HW_BAR0_DMA_CFG_LEN_AVAIL :: u64 where "PSIPE_HW_BAR0_DMA_CFG_LEN_AVAIL = 0x28"
definition PSIPE_HW_BAR0_DMA_DOORBELL_RING :: u64 where "PSIPE_HW_BAR0_DMA_DOORBELL_RING = 0x30"
definition PSIPE_HW_BAR0_DMA_HANDLES :: u64 where "PSIPE_HW_BAR0_DMA_HANDLES = 0x38"
definition PSIPE_HW_BAR0_DMA_HANDLES_CNT :: nat where "PSIPE_HW_BAR0_DMA_HANDLES_CNT = 131072 + 1"
definition PSIPE_HW_BAR0_START :: u64 where "PSIPE_HW_BAR0_START = PSIPE_HW_BAR0_IRQ_0_RAISE"
definition PSIPE_HW_BAR0_END :: u64 where
  "PSIPE_HW_BAR0_END = PSIPE_HW_BAR0_DMA_HANDLES + 64 * of_nat PSIPE_HW_BAR0_DMA_HANDLES_CNT"
definition PSIPE_HW_DMA_ADDR_CAPABILITY :: nat where "PSIPE_HW_DMA_ADDR_CAPABILITY = 32"
definition PSIPE_HW_DMA_AREA_SIZE :: int where "PSIPE_HW_DMA_AREA_SIZE = 0x1000"
definition PSIPE_HW_IRQ_CNT :: nat where "PSIPE_HW_IRQ_CNT = 1"
definition PSIPE_HW_IRQ_INTX :: int where "PSIPE_HW_IRQ_INTX = 0"
definition PSIPE_HW_IRQ_WORK_ENDED_VECTOR :: nat where "PSIPE_HW_IRQ_WORK_ENDED_VECTOR = 0"
definition PSIPE_HW_IRQ_WORK_ENDED_ADDR :: u64 where
  "PSIPE_HW_IRQ_WORK_ENDED_ADDR = PSIPE_HW_BAR0_IRQ_0_RAISE"
definition PSIPE_HW_IRQ_WORK_ENDED_ACK_ADDR :: u64 where
  "PSIPE_HW_IRQ_WORK_ENDED_ACK_ADDR = PSIPE_HW_BAR0_IRQ_0_LOWER"

lemmas reg_defs =
  PSIPE_HW_BAR0_IRQ_0_RAISE_def PSIPE_HW_BAR0_IRQ_0_LOWER_def PSIPE_HW_BAR0_DMA_CFG_LEN_def
  PSIPE_HW_BAR0_DMA_CFG_PGS_def PSIPE_HW_BAR0_DMA_CFG_MOD_def
  PSIPE_HW_BAR0_DMA_CFG_LEN_AVAIL_def PSIPE_HW_BAR0_DMA_DOORBELL_RING_def
  PSIPE_HW_BAR0_DMA_HANDLES_def PSIPE_HW_BAR0_START_def PSIPE_HW_BAR0_END_def
  PSIPE_HW_BAR0_DMA_HANDLES_CNT_def PSIPE_HW_IRQ_WORK_ENDED_ADDR_def
  PSIPE_HW_IRQ_WORK_ENDED_ACK_ADDR_def

end
