(* ===== verification/Hw_Defs.thy ===== *)
theory Hw_Defs
  imports Regs
begin

text \<open>
  The constants of \<^verbatim>\<open>proxy.h\<close>, \<^verbatim>\<open>irq.h\<close> and \<^verbatim>\<open>psipe.h\<close>, and the state of the emulated
  device: the structures of \<^verbatim>\<open>dma.h\<close>, \<^verbatim>\<open>irq.h\<close>, \<^verbatim>\<open>proxy.h\<close> and \<^verbatim>\<open>psipe.h\<close> as records, field by field.
\<close>

section \<open>Constants of proxy.h, irq.h and psipe.h\<close>

definition PSIPE_IRQ_MAX_VECS :: nat where "PSIPE_IRQ_MAX_VECS = 4"
definition PSIPE_PROXY_PORT :: u16 where "PSIPE_PROXY_PORT = 8987"
definition PSIPE_PROXY_MAXQ :: int where "PSIPE_PROXY_MAXQ = 1"
definition PSIPE_SUCCESS :: int where "PSIPE_SUCCESS = 0"
definition PSIPE_FAILURE :: int where "PSIPE_FAILURE = -1"

definition PSIPE_REQ_NIL :: u32 where "PSIPE_REQ_NIL = 0x0"
definition PSIPE_REQ_ACK :: u32 where "PSIPE_REQ_ACK = 0x1"
definition PSIPE_REQ_SYN :: u32 where "PSIPE_REQ_SYN = 0x2"
definition PSIPE_REQ_RST :: u32 where "PSIPE_REQ_RST = 0x3"
definition PSIPE_REQ_SLN :: u32 where "PSIPE_REQ_SLN = 0x4"
definition PSIPE_REQ_RLN :: u32 where "PSIPE_REQ_RLN = 0x5"

lemmas req_defs =
  PSIPE_REQ_NIL_def PSIPE_REQ_ACK_def PSIPE_REQ_SYN_def PSIPE_REQ_RST_def
  PSIPE_REQ_SLN_def PSIPE_REQ_RLN_def

lemmas status_defs [simp] = PSIPE_SUCCESS_def PSIPE_FAILURE_def

section \<open>Device state\<close>

text \<open>\<^verbatim>\<open>DMA_BIT_MASK\<close> of dma.h.\<close>

definition DMA_BIT_MASK :: "nat \<Rightarrow> u64" where
  "DMA_BIT_MASK n = (if n = 64 then NOT 0 else push_bit n 1 - 1)"

text \<open>
  \<^verbatim>\<open>handles\<close> is an array of \<^verbatim>\<open>PSIPE_HW_BAR0_DMA_HANDLES_CNT\<close> addresses and
  \<^verbatim>\<open>buff\<close> one of \<^verbatim>\<open>PSIPE_HW_DMA_AREA_SIZE\<close> bytes: functions of the index, whose every
  use below checks the bound and returns \<open>Out_Of_Bounds\<close> beyond it.
\<close>

record DMAConfig =
  npages :: u64
  cfg_len :: u64
  len_avail :: u64
  cfg_mask :: u64
  page_size :: u64
  handles :: "nat \<Rightarrow> u64"

record DMACurrent =
  len_left :: u64
  cur_addr :: u64
  hnd_pos :: int

datatype DMAStatus = DMA_STATUS_IDLE | DMA_STATUS_EXECUTING | DMA_STATUS_OFF

datatype DMAMode = DMA_MODE_ACTIVE | DMA_MODE_PASSIVE

text \<open>The C value of the enumeration constant.\<close>

fun DMAMode_value :: "DMAMode \<Rightarrow> u64" where
  "DMAMode_value DMA_MODE_ACTIVE = 0"
| "DMAMode_value DMA_MODE_PASSIVE = 1"

record DMAEngine =
  config :: DMAConfig
  current :: DMACurrent
  status :: DMAStatus
  mode :: DMAMode
  buff :: "nat \<Rightarrow> u8"

text \<open>
  The C type is a union. Its two members share only the first bytes of the first vector's
  \<open>dev\<close> pointer, which no function reads or writes, so the flags are independent fields.
\<close>

record IRQStatus =
  msi_raised :: "nat \<Rightarrow> bool"
  pin_raised :: bool

record PSIPEProxyConn =
  sockd :: int
  sin_port :: u16
  s_addr :: u32

record PSIPEProxy =
  server :: PSIPEProxyConn
  client :: PSIPEProxyConn
  server_mode :: bool
  port :: u16

text \<open>
  \<open>env\<close> is everything outside the five C files that the device acts on: the QEMU PCI device it
  extends, guest memory and the sockets (see theory Host).
\<close>

record 'w PSIPEDevice =
  env :: 'w
  irq :: IRQStatus
  dma :: DMAEngine
  mmio_size :: u64
  proxy :: PSIPEProxy

end
