(* ===== verification/Host.thy ===== *)
theory Host
  imports Hw_Defs
begin

text \<open>
  What the device calls outside its own sources: QEMU's PCI, MSI and memory API and the socket
  calls of the host. They are parameters: a record of functions on an unknown world \<open>'w\<close>,
  passed to every definition that calls them. \<open>host_contract\<close> states the documented behaviour
  the end-to-end theorems rely on.
\<close>

section \<open>The parameters\<close>

text \<open>
  \<open>pci_dma_read w a n\<close> returns a \<^verbatim>\<open>MemTxResult\<close>, the \<open>n\<close> bytes stored in the caller's
  buffer and the new world. \<open>sock_recv w fd n\<close> returns the result of \<^verbatim>\<open>recv\<close>, the bytes it
  stored and the new world, or \<open>None\<close> when it never returns; \<open>sock_select w fd\<close> returns the
  result of \<^verbatim>\<open>select\<close> on the set holding \<open>fd\<close> and whether \<open>fd\<close> is set afterwards.
\<close>

record 'w host =
  qemu_target_page_size :: u64
  pci_dma_read :: "'w \<Rightarrow> u64 \<Rightarrow> nat \<Rightarrow> u32 \<times> u8 list \<times> 'w"
  pci_dma_write :: "'w \<Rightarrow> u64 \<Rightarrow> u8 list \<Rightarrow> u32 \<times> 'w"
  msi_enabled :: "'w \<Rightarrow> bool"
  msi_notify :: "'w \<Rightarrow> nat \<Rightarrow> 'w"
  pci_set_irq :: "'w \<Rightarrow> int \<Rightarrow> 'w"
  pci_config_set_interrupt_pin :: "'w \<Rightarrow> int \<Rightarrow> 'w"
  msi_init :: "'w \<Rightarrow> nat \<Rightarrow> 'w"
  msi_uninit :: "'w \<Rightarrow> 'w"
  pci_register_bar :: "'w \<Rightarrow> u64 \<Rightarrow> 'w"
  qmp_system_reset :: "'w \<Rightarrow> 'w"
  sock_select :: "'w \<Rightarrow> int \<Rightarrow> (int \<times> bool \<times> 'w) option"
  sock_recv :: "'w \<Rightarrow> int \<Rightarrow> nat \<Rightarrow> (int \<times> u8 list \<times> 'w) option"
  sock_send :: "'w \<Rightarrow> int \<Rightarrow> u8 list \<Rightarrow> int \<times> 'w"
  gethostbyname :: "'w \<Rightarrow> u32 option"
  sock_socket :: "'w \<Rightarrow> int \<times> 'w"
  sock_bind :: "'w \<Rightarrow> int \<Rightarrow> u16 \<Rightarrow> u32 \<Rightarrow> int \<times> 'w"
  sock_listen :: "'w \<Rightarrow> int \<Rightarrow> int \<Rightarrow> int \<times> 'w"
  sock_accept :: "'w \<Rightarrow> int \<Rightarrow> (int \<times> 'w) option"
  sock_connect :: "'w \<Rightarrow> int \<Rightarrow> u16 \<Rightarrow> u32 \<Rightarrow> int \<times> 'w"
  sock_close :: "'w \<Rightarrow> int \<Rightarrow> 'w"

section \<open>Documented behaviour\<close>

text \<open>
  What of the world the theorems look at: guest memory, the bytes waiting on the connection,
  the bytes sent on it.
\<close>

record 'w view =
  ram :: "'w \<Rightarrow> u64 \<Rightarrow> u8"
  inb :: "'w \<Rightarrow> u8 list"
  outb :: "'w \<Rightarrow> u8 list"

definition ram_bytes :: "(u64 \<Rightarrow> u8) \<Rightarrow> u64 \<Rightarrow> nat \<Rightarrow> u8 list" where
  "ram_bytes m a n = map (\<lambda>i. m (a + of_nat i)) [0..<n]"

definition ram_store :: "(u64 \<Rightarrow> u8) \<Rightarrow> u64 \<Rightarrow> u8 list \<Rightarrow> u64 \<Rightarrow> u8" where
  "ram_store m a bs = (\<lambda>x. if unat (x - a) < length bs then bs ! unat (x - a) else m x)"

lemma length_ram_bytes [simp]: "length (ram_bytes m a n) = n"
  by (simp add: ram_bytes_def)

lemma nth_ram_bytes [simp]: "i < n \<Longrightarrow> ram_bytes m a n ! i = m (a + of_nat i)"
  by (simp add: ram_bytes_def)

text \<open>DMA to guest memory succeeds and moves the bytes at the address.\<close>

definition dma_contract :: "'w host \<Rightarrow> 'w view \<Rightarrow> bool" where
  "dma_contract H v \<longleftrightarrow>
     (\<forall>w a n. pci_dma_read H w a n = (0, ram_bytes (ram v w) a n, w)) \<and>
     (\<forall>w a bs. fst (pci_dma_write H w a bs) = 0 \<and>
        ram v (snd (pci_dma_write H w a bs)) = ram_store (ram v w) a bs \<and>
        inb v (snd (pci_dma_write H w a bs)) = inb v w \<and>
        outb v (snd (pci_dma_write H w a bs)) = outb v w)"

text \<open>
  The connection is a reliable byte stream on which a request for at most the waiting bytes is
  served in full, and one on an empty stream waits.
\<close>

definition stream_contract :: "'w host \<Rightarrow> 'w view \<Rightarrow> bool" where
  "stream_contract H v \<longleftrightarrow>
     (\<forall>w fd bs. fst (sock_send H w fd bs) = int (length bs) \<and>
        ram v (snd (sock_send H w fd bs)) = ram v w \<and>
        inb v (snd (sock_send H w fd bs)) = inb v w \<and>
        outb v (snd (sock_send H w fd bs)) = outb v w @ bs) \<and>
     (\<forall>w fd n. 0 < n \<and> n \<le> length (inb v w) \<longrightarrow>
        (\<exists>w'. sock_recv H w fd n = Some (int n, take n (inb v w), w') \<and>
          ram v w' = ram v w \<and> inb v w' = drop n (inb v w) \<and> outb v w' = outb v w)) \<and>
     (\<forall>w fd n. inb v w = [] \<and> 0 < n \<longrightarrow> sock_recv H w fd n = None) \<and>
     (\<forall>w fd. sock_select H w fd = (if inb v w = [] then None else Some (1, True, w)))"

text \<open>Raising an interrupt leaves memory and the connection alone.\<close>

definition irq_contract :: "'w host \<Rightarrow> 'w view \<Rightarrow> bool" where
  "irq_contract H v \<longleftrightarrow>
     (\<forall>w n. ram v (msi_notify H w n) = ram v w \<and> inb v (msi_notify H w n) = inb v w \<and>
        outb v (msi_notify H w n) = outb v w) \<and>
     (\<forall>w l. ram v (pci_set_irq H w l) = ram v w \<and> inb v (pci_set_irq H w l) = inb v w \<and>
        outb v (pci_set_irq H w l) = outb v w)"

definition host_contract :: "'w host \<Rightarrow> 'w view \<Rightarrow> bool" where
  "host_contract H v \<longleftrightarrow> dma_contract H v \<and> stream_contract H v \<and> irq_contract H v"

lemma dma_read_contract:
  "host_contract H v \<Longrightarrow> pci_dma_read H w a n = (0, ram_bytes (ram v w) a n, w)"
  by (simp add: host_contract_def dma_contract_def)

lemma dma_write_contract:
  assumes "host_contract H v"
  obtains w' where "pci_dma_write H w a bs = (0, w')" "ram v w' = ram_store (ram v w) a bs"
    "inb v w' = inb v w" "outb v w' = outb v w"
  using assms unfolding host_contract_def dma_contract_def
  by (metis prod.collapse)

lemma send_contract:
  assumes "host_contract H v"
  obtains w' where "sock_send H w fd bs = (int (length bs), w')" "ram v w' = ram v w"
    "inb v w' = inb v w" "outb v w' = outb v w @ bs"
  using assms unfolding host_contract_def stream_contract_def
  by (metis prod.collapse)

lemma recv_contract:
  assumes "host_contract H v" "0 < n" "n \<le> length (inb v w)"
  obtains w' where "sock_recv H w fd n = Some (int n, take n (inb v w), w')"
    "ram v w' = ram v w" "inb v w' = drop n (inb v w)" "outb v w' = outb v w"
  using assms unfolding host_contract_def stream_contract_def by metis

lemma recv_blocks:
  "host_contract H v \<Longrightarrow> inb v w = [] \<Longrightarrow> 0 < n \<Longrightarrow> sock_recv H w fd n = None"
  by (simp add: host_contract_def stream_contract_def)

lemma select_contract:
  "host_contract H v \<Longrightarrow> sock_select H w fd = (if inb v w = [] then None else Some (1, True, w))"
  by (simp add: host_contract_def stream_contract_def)

section \<open>A reference world\<close>

text \<open>
  A concrete host that meets the contract, on which the witnesses run: memory, one duplex
  connection and a log of the interrupt and set-up calls.
\<close>

datatype host_event = Ev_msi nat | Ev_pin int | Ev_reset | Ev_close int | Ev_setup

record world =
  w_ram :: "u64 \<Rightarrow> u8"
  w_in :: "u8 list"
  w_out :: "u8 list"
  w_log :: "host_event list"

definition ref_recv :: "world \<Rightarrow> int \<Rightarrow> nat \<Rightarrow> (int \<times> u8 list \<times> world) option" where
  "ref_recv w fd n =
     (if w_in w = [] \<and> 0 < n then None
      else Some (int (length (take n (w_in w))), take n (w_in w),
                 w\<lparr>w_in := drop n (w_in w)\<rparr>))"

definition ref_host :: "world host" where
  "ref_host = \<lparr>
     qemu_target_page_size = 4096,
     pci_dma_read = (\<lambda>w a n. (0, ram_bytes (w_ram w) a n, w)),
     pci_dma_write = (\<lambda>w a bs. (0, w\<lparr>w_ram := ram_store (w_ram w) a bs\<rparr>)),
     msi_enabled = (\<lambda>w. True),
     msi_notify = (\<lambda>w n. w\<lparr>w_log := w_log w @ [Ev_msi n]\<rparr>),
     pci_set_irq = (\<lambda>w l. w\<lparr>w_log := w_log w @ [Ev_pin l]\<rparr>),
     pci_config_set_interrupt_pin = (\<lambda>w p. w\<lparr>w_log := w_log w @ [Ev_setup]\<rparr>),
     msi_init = (\<lambda>w n. w\<lparr>w_log := w_log w @ [Ev_setup]\<rparr>),
     msi_uninit = (\<lambda>w. w\<lparr>w_log := w_log w @ [Ev_setup]\<rparr>),
     pci_register_bar = (\<lambda>w s. w\<lparr>w_log := w_log w @ [Ev_setup]\<rparr>),
     qmp_system_reset = (\<lambda>w. w\<lparr>w_log := w_log w @ [Ev_reset]\<rparr>),
     sock_select = (\<lambda>w fd. if w_in w = [] then None else Some (1, True, w)),
     sock_recv = ref_recv,
     sock_send = (\<lambda>w fd bs. (int (length bs), w\<lparr>w_out := w_out w @ bs\<rparr>)),
     gethostbyname = (\<lambda>w. Some 0x0100007F),
     sock_socket = (\<lambda>w. (3, w)),
     sock_bind = (\<lambda>w fd p a. (0, w)),
     sock_listen = (\<lambda>w fd n. (0, w)),
     sock_accept = (\<lambda>w fd. Some (4, w)),
     sock_connect = (\<lambda>w fd p a. (0, w)),
     sock_close = (\<lambda>w fd. w\<lparr>w_log := w_log w @ [Ev_close fd]\<rparr>) \<rparr>"

definition ref_view :: "world view" where
  "ref_view = \<lparr>ram = w_ram, inb = w_in, outb = w_out\<rparr>"

lemma ref_host_contract: "host_contract ref_host ref_view"
  by (auto simp: host_contract_def dma_contract_def stream_contract_def irq_contract_def
      ref_host_def ref_view_def ref_recv_def min_def)

end
