(* ===== verification/Irq.thy ===== *)
theory Irq
  imports Host
begin

text \<open>
  Interrupts of the emulated device (src/src/hw/irq.c): raising, lowering and checking a vector
  over MSI or over the INTx pin, and the set-up functions.
\<close>

section \<open>Operations\<close>

definition psipe_irq_init_intx :: "'w host \<Rightarrow> 'w PSIPEDevice \<Rightarrow> 'w PSIPEDevice" where
  "psipe_irq_init_intx H dev =
     dev\<lparr>env := pci_config_set_interrupt_pin H (env dev) (PSIPE_HW_IRQ_INTX + 1)\<rparr>"

definition psipe_irq_init_msi :: "'w host \<Rightarrow> 'w PSIPEDevice \<Rightarrow> 'w PSIPEDevice" where
  "psipe_irq_init_msi H dev = dev\<lparr>env := msi_init H (env dev) PSIPE_HW_IRQ_CNT\<rparr>"

definition psipe_irq_raise_intx :: "'w host \<Rightarrow> 'w PSIPEDevice \<Rightarrow> 'w PSIPEDevice" where
  "psipe_irq_raise_intx H dev =
     (let dev = dev\<lparr>irq := (irq dev)\<lparr>pin_raised := True\<rparr>\<rparr>
      in dev\<lparr>env := pci_set_irq H (env dev) 1\<rparr>)"

definition psipe_irq_lower_intx :: "'w host \<Rightarrow> 'w PSIPEDevice \<Rightarrow> 'w PSIPEDevice" where
  "psipe_irq_lower_intx H dev =
     (let dev = dev\<lparr>irq := (irq dev)\<lparr>pin_raised := False\<rparr>\<rparr>
      in dev\<lparr>env := pci_set_irq H (env dev) 0\<rparr>)"

definition psipe_irq_check_intx :: "'w PSIPEDevice \<Rightarrow> int" where
  "psipe_irq_check_intx dev = of_bool (pin_raised (irq dev))"

definition psipe_irq_raise_msi :: "'w host \<Rightarrow> 'w PSIPEDevice \<Rightarrow> nat \<Rightarrow> 'w PSIPEDevice" where
  "psipe_irq_raise_msi H dev vector =
     (if vector \<ge> PSIPE_IRQ_MAX_VECS then dev
      else let dev = dev\<lparr>irq := (irq dev)\<lparr>msi_raised := (msi_raised (irq dev))(vector := True)\<rparr>\<rparr>
        in dev\<lparr>env := msi_notify H (env dev) vector\<rparr>)"

definition psipe_irq_lower_msi :: "'w PSIPEDevice \<Rightarrow> nat \<Rightarrow> 'w PSIPEDevice" where
  "psipe_irq_lower_msi dev vector =
     (if vector \<ge> PSIPE_IRQ_MAX_VECS then dev
      else if msi_raised (irq dev) vector
        then dev\<lparr>irq := (irq dev)\<lparr>msi_raised := (msi_raised (irq dev))(vector := False)\<rparr>\<rparr>
        else dev)"

definition psipe_irq_check_msi :: "'w PSIPEDevice \<Rightarrow> nat \<Rightarrow> int" where
  "psipe_irq_check_msi dev vector =
     (if vector \<ge> PSIPE_IRQ_MAX_VECS then 0 else of_bool (msi_raised (irq dev) vector))"

definition psipe_irq_raise :: "'w host \<Rightarrow> 'w PSIPEDevice \<Rightarrow> nat \<Rightarrow> 'w PSIPEDevice" where
  "psipe_irq_raise H dev vector =
     (if msi_enabled H (env dev) then psipe_irq_raise_msi H dev vector
      else psipe_irq_raise_intx H dev)"

definition psipe_irq_lower :: "'w host \<Rightarrow> 'w PSIPEDevice \<Rightarrow> nat \<Rightarrow> 'w PSIPEDevice" where
  "psipe_irq_lower H dev vector =
     (if msi_enabled H (env dev) then psipe_irq_lower_msi dev vector
      else psipe_irq_lower_intx H dev)"

definition psipe_irq_check :: "'w host \<Rightarrow> 'w PSIPEDevice \<Rightarrow> nat \<Rightarrow> int" where
  "psipe_irq_check H dev vector =
     (if msi_enabled H (env dev) then psipe_irq_check_msi dev vector
      else psipe_irq_check_intx dev)"

definition psipe_irq_reset :: "'w host \<Rightarrow> 'w PSIPEDevice \<Rightarrow> 'w PSIPEDevice" where
  "psipe_irq_reset H dev = fold (\<lambda>i dev. psipe_irq_lower H dev i) [0..<PSIPE_HW_IRQ_CNT] dev"

definition psipe_irq_init :: "'w host \<Rightarrow> 'w PSIPEDevice \<Rightarrow> 'w PSIPEDevice" where
  "psipe_irq_init H dev = psipe_irq_init_msi H (psipe_irq_init_intx H dev)"

definition psipe_irq_fini :: "'w host \<Rightarrow> 'w PSIPEDevice \<Rightarrow> 'w PSIPEDevice" where
  "psipe_irq_fini H dev =
     (let dev = psipe_irq_reset H dev in dev\<lparr>env := msi_uninit H (env dev)\<rparr>)"

lemmas irq_defs [dev_defs] =
  psipe_irq_raise_def psipe_irq_lower_def psipe_irq_check_def psipe_irq_raise_intx_def
  psipe_irq_lower_intx_def psipe_irq_check_intx_def psipe_irq_raise_msi_def
  psipe_irq_lower_msi_def psipe_irq_check_msi_def Let_def

section \<open>Lemmas\<close>

lemma irq_raise_frame [frame_simps, simp]:
  "dma (psipe_irq_raise H dev v) = dma dev"
  "proxy (psipe_irq_raise H dev v) = proxy dev"
  "mmio_size (psipe_irq_raise H dev v) = mmio_size dev"
  by (auto simp: irq_defs)

lemma irq_lower_frame [frame_simps, simp]:
  "dma (psipe_irq_lower H dev v) = dma dev"
  "proxy (psipe_irq_lower H dev v) = proxy dev"
  "mmio_size (psipe_irq_lower H dev v) = mmio_size dev"
  by (auto simp: irq_defs)

lemma irq_reset_frame [frame_simps, simp]:
  "dma (psipe_irq_reset H dev) = dma dev"
  "proxy (psipe_irq_reset H dev) = proxy dev"
  "mmio_size (psipe_irq_reset H dev) = mmio_size dev"
  by (simp_all add: psipe_irq_reset_def PSIPE_HW_IRQ_CNT_def)

lemma irq_raise_env:
  assumes "host_contract H v"
  shows "ram v (env (psipe_irq_raise H dev n)) = ram v (env dev)"
    "inb v (env (psipe_irq_raise H dev n)) = inb v (env dev)"
    "outb v (env (psipe_irq_raise H dev n)) = outb v (env dev)"
  using assms by (auto simp: irq_defs host_contract_def irq_contract_def)

lemma irq_lower_env:
  assumes "host_contract H v"
  shows "ram v (env (psipe_irq_lower H dev n)) = ram v (env dev)"
    "inb v (env (psipe_irq_lower H dev n)) = inb v (env dev)"
    "outb v (env (psipe_irq_lower H dev n)) = outb v (env dev)"
  using assms by (auto simp: irq_defs host_contract_def irq_contract_def)

text \<open>
  Notifying does not change whether MSI is in use: what the flag operations rely on when they
  choose the union member again.
\<close>

definition msi_stable :: "'w host \<Rightarrow> bool" where
  "msi_stable H \<longleftrightarrow>
     (\<forall>w n. msi_enabled H (msi_notify H w n) = msi_enabled H w) \<and>
     (\<forall>w l. msi_enabled H (pci_set_irq H w l) = msi_enabled H w)"

lemma ref_host_msi_stable: "msi_stable ref_host"
  by (simp add: msi_stable_def ref_host_def)

end
