(* ===== verification/Dma.thy ===== *)
theory Dma
  imports Irq
begin

text \<open>
  The DMA engine of the emulated device (src/src/hw/dma.c): the cursor over the scattered pages
  the driver announced, one page read from or written to guest memory at a time, the run state
  and the reset.
\<close>

section \<open>Operations\<close>

definition psipe_dma_mask :: "DMAEngine \<Rightarrow> u64 \<Rightarrow> u64" where
  "psipe_dma_mask eng addr = addr AND cfg_mask (config eng)"

text \<open>Reading and writing an element of \<^verbatim>\<open>handles[]\<close>, with the bound of the array.\<close>

definition handle_at :: "DMAConfig \<Rightarrow> int \<Rightarrow> u64 res" where
  "handle_at cfg pos =
     (if 0 \<le> pos \<and> pos < int PSIPE_HW_BAR0_DMA_HANDLES_CNT then Inr (handles cfg (nat pos))
      else Inl Out_Of_Bounds)"

definition set_handle :: "DMAConfig \<Rightarrow> int \<Rightarrow> u64 \<Rightarrow> DMAConfig res" where
  "set_handle cfg pos hnd =
     (if 0 \<le> pos \<and> pos < int PSIPE_HW_BAR0_DMA_HANDLES_CNT
      then Inr (cfg\<lparr>handles := (handles cfg)(nat pos := hnd)\<rparr>) else Inl Out_Of_Bounds)"

definition psipe_dma_init_current :: "DMAEngine \<Rightarrow> DMAEngine" where
  "psipe_dma_init_current eng =
     eng\<lparr>current := \<lparr>len_left = cfg_len (config eng), cur_addr = handles (config eng) 0,
           hnd_pos = 0\<rparr>\<rparr>"

text \<open>
  The \<^verbatim>\<open>int\<close> arguments are summed and compared as \<^verbatim>\<open>int\<close>; a negative length that passes the
  test reaches \<^verbatim>\<open>pci_dma_read\<close> as a huge unsigned one and leaves the buffer.
\<close>

definition psipe_dma_read ::
    "'w host \<Rightarrow> 'w PSIPEDevice \<Rightarrow> u64 \<Rightarrow> int \<Rightarrow> int \<Rightarrow> (int \<times> 'w PSIPEDevice) res" where
  "psipe_dma_read H dev addr len ofs =
     (if s32 (ofs + len) > PSIPE_HW_DMA_AREA_SIZE then Inr (-1, dev)
      else if len < 0 \<or> ofs < 0 \<or> ofs + len > PSIPE_HW_DMA_AREA_SIZE then Inl Out_Of_Bounds
      else case pci_dma_read H (env dev) addr (nat len) of (r, bs, w) \<Rightarrow>
        Inr (sint r, dev\<lparr>env := w,
               dma := (dma dev)\<lparr>buff := blit (buff (dma dev)) (nat ofs) (take (nat len) bs)\<rparr>\<rparr>))"

definition psipe_dma_write ::
    "'w host \<Rightarrow> 'w PSIPEDevice \<Rightarrow> u64 \<Rightarrow> int \<Rightarrow> int \<Rightarrow> (int \<times> 'w PSIPEDevice) res" where
  "psipe_dma_write H dev addr len ofs =
     (if s32 (ofs + len) > PSIPE_HW_DMA_AREA_SIZE then Inr (-1, dev)
      else if len < 0 \<or> ofs < 0 \<or> ofs + len > PSIPE_HW_DMA_AREA_SIZE then Inl Out_Of_Bounds
      else case pci_dma_write H (env dev) addr (slice (buff (dma dev)) (nat ofs) (nat len)) of
        (r, w) \<Rightarrow> Inr (sint r, dev\<lparr>env := w\<rparr>))"

text \<open>The comparison of the \<^verbatim>\<open>int\<close> position with \<^verbatim>\<open>npages\<close> is unsigned.\<close>

definition psipe_dma_next_addr :: "DMAEngine \<Rightarrow> (u64 \<times> DMAEngine) res" where
  "psipe_dma_next_addr eng =
     (if u64_of_int (hnd_pos (current eng)) < npages (config eng)
      then let pos = s32 (hnd_pos (current eng) + 1);
               eng = eng\<lparr>current := (current eng)\<lparr>hnd_pos := pos\<rparr>\<rparr>
        in bindR (handle_at (config eng) pos) (\<lambda>a. Inr (a, eng))
      else Inr (0, eng))"

text \<open>The last two assignments of both page functions.\<close>

definition dma_advance :: "'w PSIPEDevice \<Rightarrow> u64 \<Rightarrow> u64 \<Rightarrow> 'w PSIPEDevice" where
  "dma_advance dev addr len_want =
     dev\<lparr>dma := (dma dev)\<lparr>current := (current (dma dev))\<lparr>cur_addr := addr,
           len_left := len_left (current (dma dev)) - len_want\<rparr>\<rparr>\<rparr>"

definition psipe_dma_rx_page ::
    "'w host \<Rightarrow> 'w PSIPEDevice \<Rightarrow> (int \<times> 'w PSIPEDevice) res" where
  "psipe_dma_rx_page H dev =
     (let page = page_size (config (dma dev));
          mask = psipe_dma_mask (dma dev) (page - 1);
          addr = cur_addr (current (dma dev));
          ofs = addr AND mask;
          len_have = page - ofs;
          len_want = min page (len_left (current (dma dev)))
      in if len_want \<le> len_have then
           bindR (psipe_dma_read H dev addr (int_of_u64 len_want) 0) (\<lambda>(r, dev).
             if r < 0 then Inr (PSIPE_FAILURE, dev)
             else Inr (int_of_u64 len_want, dma_advance dev (addr + len_want) len_want))
         else
           bindR (psipe_dma_read H dev addr (int_of_u64 len_have) 0) (\<lambda>(r, dev).
             if r < 0 then Inr (PSIPE_FAILURE, dev)
             else bindR (psipe_dma_next_addr (dma dev)) (\<lambda>(addr, dm).
               let dev = dev\<lparr>dma := dm\<rparr>
               in if addr = 0 then Inr (PSIPE_FAILURE, dev)
                  else bindR (psipe_dma_read H dev addr (int_of_u64 (len_want - len_have))
                                (int_of_u64 len_have)) (\<lambda>(r, dev).
                    if r < 0 then Inr (PSIPE_FAILURE, dev)
                    else Inr (int_of_u64 len_want,
                           dma_advance dev (addr + (len_want - len_have)) len_want)))))"

text \<open>
  \<^verbatim>\<open>len_want\<close> is an \<^verbatim>\<open>int\<close> compared with the unsigned \<^verbatim>\<open>len_have\<close>: it is converted first.
\<close>

definition psipe_dma_tx_page ::
    "'w host \<Rightarrow> 'w PSIPEDevice \<Rightarrow> int \<Rightarrow> (int \<times> 'w PSIPEDevice) res" where
  "psipe_dma_tx_page H dev len_want =
     (let page = page_size (config (dma dev));
          mask = psipe_dma_mask (dma dev) (page - 1);
          addr = cur_addr (current (dma dev));
          ofs = addr AND mask;
          len_have = page - ofs;
          want = u64_of_int len_want
      in if len_want = 0 \<or> len_want = PSIPE_FAILURE then Inr (PSIPE_FAILURE, dev)
         else if want \<le> len_have then
           bindR (psipe_dma_write H dev addr len_want 0) (\<lambda>(r, dev).
             if r < 0 then Inr (PSIPE_FAILURE, dev)
             else Inr (PSIPE_SUCCESS, dma_advance dev (addr + want) want))
         else
           bindR (psipe_dma_write H dev addr (int_of_u64 len_have) 0) (\<lambda>(r, dev).
             if r < 0 then Inr (PSIPE_FAILURE, dev)
             else bindR (psipe_dma_next_addr (dma dev)) (\<lambda>(addr, dm).
               let dev = dev\<lparr>dma := dm\<rparr>
               in if addr = 0 then Inr (PSIPE_FAILURE, dev)
                  else bindR (psipe_dma_write H dev addr (int_of_u64 (want - len_have))
                                (int_of_u64 len_have)) (\<lambda>(r, dev).
                    if r < 0 then Inr (PSIPE_FAILURE, dev)
                    else Inr (PSIPE_SUCCESS, dma_advance dev (addr + (want - len_have)) want)))))"

text \<open>
  \<^verbatim>\<open>qatomic_cmpxchg\<close> stores \<open>EXECUTING\<close> if the status was \<open>IDLE\<close> and returns the old status.
\<close>

definition psipe_dma_begin_run :: "'w PSIPEDevice \<Rightarrow> int \<times> 'w PSIPEDevice" where
  "psipe_dma_begin_run dev =
     (let dm = psipe_dma_init_current (dma dev);
          old = status dm;
          dm = (if old = DMA_STATUS_IDLE then dm\<lparr>status := DMA_STATUS_EXECUTING\<rparr> else dm)
      in (if old = DMA_STATUS_EXECUTING then PSIPE_FAILURE else PSIPE_SUCCESS, dev\<lparr>dma := dm\<rparr>))"

definition psipe_dma_end_run :: "'w PSIPEDevice \<Rightarrow> 'w PSIPEDevice" where
  "psipe_dma_end_run dev = dev\<lparr>dma := (dma dev)\<lparr>status := DMA_STATUS_IDLE\<rparr>\<rparr>"

definition psipe_dma_add_handle :: "'w PSIPEDevice \<Rightarrow> u64 \<Rightarrow> 'w PSIPEDevice res" where
  "psipe_dma_add_handle dev handle =
     (let new_hnd = psipe_dma_mask (dma dev) handle;
          cfg = config (dma dev)
      in bindR (set_handle cfg (uint (npages cfg)) new_hnd) (\<lambda>cfg.
           Inr (dev\<lparr>dma := (dma dev)\<lparr>config := cfg\<lparr>npages := npages cfg + 1\<rparr>\<rparr>\<rparr>)))"

definition psipe_dma_is_idle :: "'w PSIPEDevice \<Rightarrow> bool" where
  "psipe_dma_is_idle dev \<longleftrightarrow> status (dma dev) = DMA_STATUS_IDLE"

definition psipe_dma_is_finished :: "'w PSIPEDevice \<Rightarrow> bool" where
  "psipe_dma_is_finished dev \<longleftrightarrow> len_left (current (dma dev)) = 0"

definition psipe_dma_reset :: "'w host \<Rightarrow> 'w PSIPEDevice \<Rightarrow> 'w PSIPEDevice" where
  "psipe_dma_reset H dev =
     dev\<lparr>dma := (dma dev)\<lparr>status := DMA_STATUS_IDLE,
           config := (config (dma dev))\<lparr>npages := 0, cfg_len := 0,
             page_size := qemu_target_page_size H, handles := (\<lambda>_. 0)\<rparr>,
           buff := (\<lambda>_. 0)\<rparr>\<rparr>"

definition psipe_dma_init :: "'w host \<Rightarrow> 'w PSIPEDevice \<Rightarrow> 'w PSIPEDevice" where
  "psipe_dma_init H dev =
     (let dev = psipe_dma_reset H dev
      in dev\<lparr>dma := (dma dev)\<lparr>config := (config (dma dev))\<lparr>cfg_mask :=
               DMA_BIT_MASK PSIPE_HW_DMA_ADDR_CAPABILITY\<rparr>\<rparr>\<rparr>)"

definition psipe_dma_fini :: "'w host \<Rightarrow> 'w PSIPEDevice \<Rightarrow> 'w PSIPEDevice" where
  "psipe_dma_fini H dev =
     (let dev = psipe_dma_reset H dev in dev\<lparr>dma := (dma dev)\<lparr>status := DMA_STATUS_OFF\<rparr>\<rparr>)"

end
