(* ===== verification/Wire.thy ===== *)
theory Wire
  imports Prelude
begin

text \<open>
  The byte image of the integers the proxies exchange. Both ends of the connection run on hosts
  with the same byte order; the model fixes it to little endian (\<open>le_bytes\<close>), and every use goes
  through the \<open>wire_codec\<close> contract below, which does not depend on the order. A variable that
  \<^verbatim>\<open>recv\<close> fills only in part keeps its other bytes (\<open>recv_into\<close>).
\<close>

definition le_bytes :: "nat \<Rightarrow> 'a::len word \<Rightarrow> u8 list" where
  "le_bytes n w = map (\<lambda>i. ucast (drop_bit (8 * i) w)) [0..<n]"

fun le_word :: "u8 list \<Rightarrow> 'a::len word" where
  "le_word [] = 0"
| "le_word (b # bs) = ucast b OR push_bit 8 (le_word bs)"

definition recv_into :: "nat \<Rightarrow> u8 list \<Rightarrow> 'a::len word \<Rightarrow> 'a word" where
  "recv_into n bs old = le_word (take n bs @ drop (length bs) (le_bytes n old))"

lemma length_le_bytes [simp]: "length (le_bytes n w) = n"
  by (simp add: le_bytes_def)

lemma bit_le_word:
  "bit (le_word bs :: 'a::len word) k \<longleftrightarrow>
     k < LENGTH('a) \<and> k div 8 < length bs \<and> bit (bs ! (k div 8)) (k mod 8)"
proof (induction bs arbitrary: k)
  case Nil
  then show ?case by simp
next
  case (Cons b bs)
  show ?case
  proof (cases "k < 8")
    case True
    then show ?thesis by (auto simp: bit_simps)
  next
    case False
    then have "\<not> bit b k" using bit_imp_le_length [of b k] by auto
    moreover have "k div 8 = Suc ((k - 8) div 8)" "(k - 8) mod 8 = k mod 8"
      using False by (simp_all add: le_div_geq le_mod_geq not_less)
    ultimately show ?thesis using False by (auto simp: bit_simps Cons.IH not_less)
  qed
qed

lemma le_word_le_bytes:
  assumes "LENGTH('a::len) \<le> 8 * n" shows "le_word (le_bytes n w) = (w :: 'a word)"
proof (rule bit_word_eqI)
  fix k assume "k < LENGTH('a)"
  with assms have "k div 8 < n" by auto
  then show "bit (le_word (le_bytes n w) :: 'a word) k = bit w k"
    using \<open>k < LENGTH('a)\<close> by (simp add: bit_le_word le_bytes_def bit_simps)
qed

lemma recv_into_full:
  assumes "length bs = n" shows "recv_into n bs old = le_word bs"
  using assms by (simp add: recv_into_def)

lemma recv_into_nothing:
  assumes "LENGTH('a::len) \<le> 8 * n" shows "recv_into n [] old = (old :: 'a word)"
  using assms by (simp add: recv_into_def le_word_le_bytes)

section \<open>The codec contract\<close>

text \<open>
  One value as a fixed run of bytes: encoding has a fixed length and decoding inverts it, which
  is all a reader of a byte stream needs.
\<close>

locale wire_codec =
  fixes enc :: "'a \<Rightarrow> u8 list"
    and dec :: "u8 list \<Rightarrow> 'a"
    and width :: nat
    and valid :: "'a \<Rightarrow> bool"
  assumes enc_length: "length (enc x) = width"
    and dec_enc: "valid x \<Longrightarrow> dec (enc x) = x"
begin

lemma take_enc: "take width (enc x @ rest) = enc x"
  by (simp add: enc_length)

lemma drop_enc: "drop width (enc x @ rest) = rest"
  by (simp add: enc_length)

lemma dec_stream: "valid x \<Longrightarrow> dec (take width (enc x @ rest)) = x"
  by (subst take_enc) (rule dec_enc)

lemma enc_inj: "valid x \<Longrightarrow> valid y \<Longrightarrow> enc x = enc y \<Longrightarrow> x = y"
  by (metis dec_enc)

lemmas codec_simps = enc_length take_enc drop_enc dec_stream

end

text \<open>The three values on the wire: a request, an available length, a page length.\<close>

definition enc_req :: "u32 \<Rightarrow> u8 list" where "enc_req r = le_bytes 4 r"
definition enc_len :: "u64 \<Rightarrow> u8 list" where "enc_len l = le_bytes 8 l"
definition enc_int :: "int \<Rightarrow> u8 list" where "enc_int x = le_bytes 4 (word_of_int x :: u32)"
definition dec_int :: "u8 list \<Rightarrow> int" where "dec_int bs = sint (le_word bs :: u32)"

interpretation req: wire_codec enc_req "le_word :: u8 list \<Rightarrow> u32" 4 "\<lambda>_. True"
  by unfold_locales (simp_all add: enc_req_def le_word_le_bytes)

interpretation avail: wire_codec enc_len "le_word :: u8 list \<Rightarrow> u64" 8 "\<lambda>_. True"
  by unfold_locales (simp_all add: enc_len_def le_word_le_bytes)

interpretation plen: wire_codec enc_int dec_int 4 "\<lambda>x. - (2 ^ 31) \<le> x \<and> x < 2 ^ 31"
  by unfold_locales
    (simp_all add: enc_int_def dec_int_def le_word_le_bytes signed_of_int
      signed_take_bit_int_eq_self)

end
