(* ===== verification/Proxy.thy ===== *)
theory Proxy
  imports Dma Wire
begin

text \<open>
  The proxy of the emulated device (src/src/hw/proxy.c): requests and pages over the socket that
  connects the two machines, and the connection set-up. The two mutually recursive functions of
  the source are cut here: \<open>psipe_proxy_handle_req\<close> and \<open>psipe_proxy_await_req\<close> take
  \<^verbatim>\<open>psipe_execute\<close>, which a \<open>SYN\<close> request runs, as the argument \<open>exec\<close>; theory Psipe passes it.
\<close>

section \<open>Requests\<close>

definition psipe_proxy_endpoint :: "'w PSIPEDevice \<Rightarrow> int" where
  "psipe_proxy_endpoint dev =
     (if server_mode (proxy dev) then sockd (client (proxy dev)) else sockd (server (proxy dev)))"

text \<open>
  \<^verbatim>\<open>FD_SET\<close> writes a bit of an array of \<^verbatim>\<open>FD_SETSIZE\<close> (1024) bits. \<^verbatim>\<open>select\<close> is called without
  a timeout; its result is used as a truth value.
\<close>

definition psipe_proxy_wait_req :: "'w host \<Rightarrow> 'w PSIPEDevice \<Rightarrow> (u32 \<times> 'w PSIPEDevice) res" where
  "psipe_proxy_wait_req H dev =
     (let con = psipe_proxy_endpoint dev
      in if con < 0 \<or> con \<ge> 1024 then Inl Out_Of_Bounds
         else case sock_select H (env dev) con of
           None \<Rightarrow> Inl Blocked
         | Some (r, is_set, w) \<Rightarrow>
             if r \<noteq> 0 \<and> is_set then
               (case sock_recv H w con 4 of
                  None \<Rightarrow> Inl Blocked
                | Some (_, bs, w) \<Rightarrow> Inr (recv_into 4 bs PSIPE_REQ_NIL, dev\<lparr>env := w\<rparr>))
             else Inr (PSIPE_REQ_NIL, dev\<lparr>env := w\<rparr>))"

definition psipe_proxy_issue_req :: "'w host \<Rightarrow> 'w PSIPEDevice \<Rightarrow> u32 \<Rightarrow> int \<times> 'w PSIPEDevice" where
  "psipe_proxy_issue_req H dev req =
     (case sock_send H (env dev) (psipe_proxy_endpoint dev) (enc_req req) of
        (r, w) \<Rightarrow> (if r < 0 then PSIPE_FAILURE else PSIPE_SUCCESS, dev\<lparr>env := w\<rparr>))"

definition set_len_avail :: "'w PSIPEDevice \<Rightarrow> u64 \<Rightarrow> 'w PSIPEDevice" where
  "set_len_avail dev l = dev\<lparr>dma := (dma dev)\<lparr>config := (config (dma dev))\<lparr>len_avail := l\<rparr>\<rparr>\<rparr>"

definition psipe_proxy_handle_req ::
    "('w PSIPEDevice \<Rightarrow> 'w PSIPEDevice res) \<Rightarrow> 'w host \<Rightarrow> 'w PSIPEDevice \<Rightarrow> u32
      \<Rightarrow> (int \<times> 'w PSIPEDevice) res" where
  "psipe_proxy_handle_req exec H dev req =
     (let con = psipe_proxy_endpoint dev
      in if req = PSIPE_REQ_SYN then bindR (exec dev) (\<lambda>dev. Inr (PSIPE_SUCCESS, dev))
         else if req = PSIPE_REQ_RST then
           Inr (PSIPE_SUCCESS, dev\<lparr>env := qmp_system_reset H (env dev)\<rparr>)
         else if req = PSIPE_REQ_SLN then
           (case psipe_proxy_issue_req H dev PSIPE_REQ_RLN of (_, dev) \<Rightarrow>
              (case sock_send H (env dev) con (enc_len (len_avail (config (dma dev)))) of
                 (_, w) \<Rightarrow> Inr (PSIPE_SUCCESS, dev\<lparr>env := w\<rparr>)))
         else if req = PSIPE_REQ_RLN then
           (case sock_recv H (env dev) con 8 of
              None \<Rightarrow> Inl Blocked
            | Some (_, bs, w) \<Rightarrow> Inr (PSIPE_SUCCESS,
                set_len_avail (dev\<lparr>env := w\<rparr>) (recv_into 8 bs (len_avail (config (dma dev))))))
         else if req = PSIPE_REQ_ACK then Inr (PSIPE_SUCCESS, dev)
         else Inr (PSIPE_FAILURE, dev))"

definition psipe_proxy_wait_and_handle_req ::
    "('w PSIPEDevice \<Rightarrow> 'w PSIPEDevice res) \<Rightarrow> 'w host \<Rightarrow> 'w PSIPEDevice
      \<Rightarrow> (int \<times> 'w PSIPEDevice) res" where
  "psipe_proxy_wait_and_handle_req exec H dev =
     bindR (psipe_proxy_wait_req H dev) (\<lambda>(req, dev). psipe_proxy_handle_req exec H dev req)"

text \<open>The loop of \<^verbatim>\<open>psipe_proxy_await_req\<close>; its state is \<^verbatim>\<open>new_req\<close> and the device.\<close>

definition await_body ::
    "'w host \<Rightarrow> u32 \<Rightarrow> u32 \<times> 'w PSIPEDevice \<Rightarrow> (bool \<times> u32 \<times> 'w PSIPEDevice) res" where
  "await_body H req = (\<lambda>(_, dev). bindR (psipe_proxy_wait_req H dev) (\<lambda>(new_req, dev).
     Inr (new_req \<noteq> word_of_int PSIPE_FAILURE \<and> new_req \<noteq> req, new_req, dev)))"

definition psipe_proxy_await_req ::
    "nat \<Rightarrow> ('w PSIPEDevice \<Rightarrow> 'w PSIPEDevice res) \<Rightarrow> 'w host \<Rightarrow> 'w PSIPEDevice \<Rightarrow> u32
      \<Rightarrow> (int \<times> 'w PSIPEDevice) res" where
  "psipe_proxy_await_req fuel exec H dev req =
     bindR (do_while fuel (await_body H req) (PSIPE_REQ_NIL, dev)) (\<lambda>(new_req, dev).
       psipe_proxy_handle_req exec H dev new_req)"

section \<open>Pages\<close>

text \<open>
  Both page functions are only called with \<^verbatim>\<open>dev->dma.buff\<close>, an array of
  \<^verbatim>\<open>PSIPE_HW_DMA_AREA_SIZE\<close> bytes. The length received is not compared with that size: receiving
  more bytes than fit is a fault. A count is converted to \<^verbatim>\<open>size_t\<close> at the call.
\<close>

definition psipe_proxy_rx_page :: "'w host \<Rightarrow> 'w PSIPEDevice \<Rightarrow> (int \<times> 'w PSIPEDevice) res" where
  "psipe_proxy_rx_page H dev =
     (let src = psipe_proxy_endpoint dev
      in case sock_recv H (env dev) src 4 of
           None \<Rightarrow> Inl Blocked
         | Some (r, bs, w) \<Rightarrow>
             let dev = dev\<lparr>env := w\<rparr>; len = sint (recv_into 4 bs (0 :: u32))
             in if r < 0 \<or> len = 0 then Inr (PSIPE_FAILURE, dev)
                else case sock_recv H (env dev) src (unat (u64_of_int len)) of
                  None \<Rightarrow> Inl Blocked
                | Some (r, bs, w) \<Rightarrow>
                    if int (length bs) > PSIPE_HW_DMA_AREA_SIZE then Inl Out_Of_Bounds
                    else let dev = dev\<lparr>env := w, dma := (dma dev)\<lparr>buff := blit (buff (dma dev)) 0 bs\<rparr>\<rparr>
                      in Inr (if r < 0 then PSIPE_FAILURE else len, dev))"

definition psipe_proxy_tx_page :: "'w host \<Rightarrow> 'w PSIPEDevice \<Rightarrow> int \<Rightarrow> (int \<times> 'w PSIPEDevice) res" where
  "psipe_proxy_tx_page H dev len =
     (let dst = psipe_proxy_endpoint dev
      in if len = 0 \<or> len \<le> 0 then Inr (PSIPE_FAILURE, dev)
         else case sock_send H (env dev) dst (enc_int len) of
           (r, w) \<Rightarrow>
             let dev = dev\<lparr>env := w\<rparr>
             in if r < 0 then Inr (PSIPE_FAILURE, dev)
                else if len > PSIPE_HW_DMA_AREA_SIZE then Inl Out_Of_Bounds
                else case sock_send H (env dev) dst (slice (buff (dma dev)) 0 (nat len)) of
                  (r, w) \<Rightarrow> Inr (if r < 0 then PSIPE_FAILURE else PSIPE_SUCCESS, dev\<lparr>env := w\<rparr>))"

section \<open>Set-up\<close>

definition psipe_proxy_get_mode :: "'w PSIPEDevice \<Rightarrow> bool" where
  "psipe_proxy_get_mode dev = server_mode (proxy dev)"

definition psipe_proxy_set_mode :: "'w PSIPEDevice \<Rightarrow> bool \<Rightarrow> 'w PSIPEDevice" where
  "psipe_proxy_set_mode dev m = dev\<lparr>proxy := (proxy dev)\<lparr>server_mode := m\<rparr>\<rparr>"

definition psipe_proxy_reset :: "'w PSIPEDevice \<Rightarrow> 'w PSIPEDevice" where
  "psipe_proxy_reset dev = dev"

text \<open>
  The connection test: the server sends \<open>ACK\<close> first and waits for one, the client the other way
  round. Neither reports its result to the caller.
\<close>

definition psipe_proxy_init_server ::
    "nat \<Rightarrow> ('w PSIPEDevice \<Rightarrow> 'w PSIPEDevice res) \<Rightarrow> 'w host \<Rightarrow> 'w PSIPEDevice \<Rightarrow> 'w PSIPEDevice res"
  where
  "psipe_proxy_init_server fuel exec H dev =
     (let srv = server (proxy dev)
      in case sock_bind H (env dev) (sockd srv) (sin_port srv) (s_addr srv) of (r, w) \<Rightarrow>
         let dev = dev\<lparr>env := w\<rparr>
         in if r < 0 then Inr dev
            else case sock_listen H (env dev) (sockd srv) PSIPE_PROXY_MAXQ of (r, w) \<Rightarrow>
              let dev = dev\<lparr>env := w\<rparr>
              in if r < 0 then Inr dev
                 else case sock_accept H (env dev) (sockd srv) of
                   None \<Rightarrow> Inl Blocked
                 | Some (fd, w) \<Rightarrow>
                     let dev = dev\<lparr>env := w,
                           proxy := (proxy dev)\<lparr>client := (client (proxy dev))\<lparr>sockd := fd\<rparr>\<rparr>\<rparr>
                     in if fd < 0 then Inr dev
                        else case psipe_proxy_issue_req H dev PSIPE_REQ_ACK of (r, dev) \<Rightarrow>
                          if r \<noteq> PSIPE_SUCCESS then Inr dev
                          else bindR (psipe_proxy_await_req fuel exec H dev PSIPE_REQ_ACK)
                                 (\<lambda>(_, dev). Inr dev))"

definition psipe_proxy_init_client ::
    "nat \<Rightarrow> ('w PSIPEDevice \<Rightarrow> 'w PSIPEDevice res) \<Rightarrow> 'w host \<Rightarrow> 'w PSIPEDevice \<Rightarrow> 'w PSIPEDevice res"
  where
  "psipe_proxy_init_client fuel exec H dev =
     (let srv = server (proxy dev)
      in case sock_connect H (env dev) (sockd srv) (sin_port srv) (s_addr srv) of (r, w) \<Rightarrow>
         let dev = dev\<lparr>env := w\<rparr>
         in if r < 0 then Inr dev
            else bindR (psipe_proxy_await_req fuel exec H dev PSIPE_REQ_ACK) (\<lambda>(r, dev).
              if r \<noteq> PSIPE_SUCCESS then Inr dev
              else Inr (snd (psipe_proxy_issue_req H dev PSIPE_REQ_ACK))))"

text \<open>\<^verbatim>\<open>htons\<close> on a little-endian host.\<close>

definition htons :: "u16 \<Rightarrow> u16" where
  "htons p = push_bit 8 p OR drop_bit 8 p"

definition psipe_proxy_init ::
    "nat \<Rightarrow> ('w PSIPEDevice \<Rightarrow> 'w PSIPEDevice res) \<Rightarrow> 'w host \<Rightarrow> 'w PSIPEDevice \<Rightarrow> 'w PSIPEDevice res"
  where
  "psipe_proxy_init fuel exec H dev =
     (case gethostbyname H (env dev) of
        None \<Rightarrow> Inr dev
      | Some a \<Rightarrow>
          (case sock_socket H (env dev) of (fd, w) \<Rightarrow>
             let dev = dev\<lparr>env := w,
                   proxy := (proxy dev)\<lparr>server := (server (proxy dev))\<lparr>sockd := fd\<rparr>\<rparr>\<rparr>
             in if fd < 0 then Inr dev
                else let dev = dev\<lparr>proxy := (proxy dev)\<lparr>server := (server (proxy dev))
                           \<lparr>sin_port := htons (port (proxy dev)), s_addr := a\<rparr>\<rparr>\<rparr>
                  in if server_mode (proxy dev) then psipe_proxy_init_server fuel exec H dev
                     else psipe_proxy_init_client fuel exec H dev))"

definition psipe_proxy_fini :: "'w host \<Rightarrow> 'w PSIPEDevice \<Rightarrow> 'w PSIPEDevice" where
  "psipe_proxy_fini H dev =
     (let dev = (if server_mode (proxy dev)
                 then dev\<lparr>env := sock_close H (env dev) (sockd (client (proxy dev)))\<rparr> else dev)
      in dev\<lparr>env := sock_close H (env dev) (sockd (server (proxy dev)))\<rparr>)"

end
