(* ===== verification/Scatter.thy ===== *)
theory Scatter
  imports Dma
begin

text \<open>
  What the DMA cursor means. The driver announces a buffer of \<open>cfg_len\<close> bytes as one handle per
  page it spans: the first handle is the address of the first byte, the others the addresses of
  whole pages. \<open>sg_phys cfg i\<close> is the guest address of byte \<open>i\<close> of that buffer. The lemmas show
  that one call of \<open>psipe_dma_rx_page\<close> or \<open>psipe_dma_tx_page\<close> moves exactly the next bytes of
  the buffer.
\<close>

section \<open>The buffer described by the handles\<close>

definition first_ofs :: "DMAConfig \<Rightarrow> nat" where
  "first_ofs cfg = unat (handles cfg 0) mod 4096"

definition sg_phys :: "DMAConfig \<Rightarrow> nat \<Rightarrow> u64" where
  "sg_phys cfg i =
     (let k = (first_ofs cfg + i) div 4096
      in if k = 0 then handles cfg 0 + of_nat i
         else handles cfg k + of_nat ((first_ofs cfg + i) mod 4096))"

definition sg_bytes :: "DMAConfig \<Rightarrow> (u64 \<Rightarrow> u8) \<Rightarrow> nat \<Rightarrow> nat \<Rightarrow> u8 list" where
  "sg_bytes cfg m from n = map (\<lambda>i. m (sg_phys cfg (from + i))) [0..<n]"

text \<open>
  A configuration the driver writes: 4 KiB pages, enough handles for the buffer, page-aligned
  non-null handles after the first. \<open>contiguous\<close> is the extra condition a page-aligned buffer
  needs (see \<open>aligned_scatter_reads_wrong_page\<close> in the theory Device\_Props).
\<close>

definition contiguous :: "DMAConfig \<Rightarrow> bool" where
  "contiguous cfg \<longleftrightarrow>
     (\<forall>k < unat (npages cfg). handles cfg k = handles cfg 0 + of_nat (4096 * k))"

definition sg_wf :: "DMAConfig \<Rightarrow> bool" where
  "sg_wf cfg \<longleftrightarrow>
     page_size cfg = 4096 \<and> cfg_mask cfg = DMA_BIT_MASK PSIPE_HW_DMA_ADDR_CAPABILITY \<and>
     first_ofs cfg + unat (cfg_len cfg) \<le> 4096 * unat (npages cfg) \<and>
     unat (npages cfg) \<le> PSIPE_HW_BAR0_DMA_HANDLES_CNT \<and>
     (\<forall>k < unat (npages cfg). 0 < k \<longrightarrow>
        handles cfg k \<noteq> 0 \<and> unat (handles cfg k) mod 4096 = 0) \<and>
     (first_ofs cfg = 0 \<longrightarrow> contiguous cfg)"

definition sg_cursor :: "DMAConfig \<Rightarrow> DMACurrent \<Rightarrow> nat \<Rightarrow> bool" where
  "sg_cursor cfg cur done \<longleftrightarrow>
     done \<le> unat (cfg_len cfg) \<and> len_left cur = of_nat (unat (cfg_len cfg) - done) \<and>
     (done < unat (cfg_len cfg) \<longrightarrow>
        done mod 4096 = 0 \<and> cur_addr cur = sg_phys cfg done \<and>
        (first_ofs cfg \<noteq> 0 \<longrightarrow> hnd_pos cur = int ((first_ofs cfg + done) div 4096)))"

lemma length_sg_bytes [simp]: "length (sg_bytes cfg m from n) = n"
  by (simp add: sg_bytes_def)

lemma sg_bytes_add: "sg_bytes cfg m from (a + b) = sg_bytes cfg m from a @ sg_bytes cfg m (from + a) b"
  by (rule nth_equalityI) (auto simp: sg_bytes_def nth_append)

section \<open>Address arithmetic\<close>

lemma unat_and_4095: "unat (a AND 4095 :: u64) = unat a mod 4096"
proof -
  have "a AND 4095 = take_bit 12 a"
    by (simp only: take_bit_eq_mask mask_eq_exp_minus_1) simp
  then have "unat (a AND 4095) = take_bit 12 (unat a)"
    by (simp only: unsigned_take_bit_eq)
  then show ?thesis by (simp add: take_bit_eq_mod)
qed

lemma unat_add_mod_page: "unat (a + of_nat m :: u64) mod 4096 = (unat a + m) mod 4096"
proof -
  have dvd: "(4096::nat) dvd 2 ^ 64" by simp
  have "unat (a + of_nat m :: u64) = (unat a + m mod 2 ^ 64) mod 2 ^ 64"
    by (simp only: unat_word_ariths unsigned_of_nat take_bit_eq_mod) simp
  then have "unat (a + of_nat m :: u64) mod 4096 = (unat a + m mod 2 ^ 64) mod 4096"
    using dvd by (simp only: mod_mod_cancel)
  also have "\<dots> = (unat a + m) mod 4096"
    by (metis dvd mod_add_right_eq mod_mod_cancel)
  finally show ?thesis .
qed

lemma page_mask:
  assumes "sg_wf (config eng)"
  shows "psipe_dma_mask eng (page_size (config eng) - 1) = 4095"
  using assms
  by (simp add: sg_wf_def psipe_dma_mask_def DMA_BIT_MASK_def PSIPE_HW_DMA_ADDR_CAPABILITY_def)

lemma unat_have:
  assumes "unat (x :: u64) = o'" "o' < 4096"
  shows "unat (4096 - x) = 4096 - o'"
proof -
  have "x \<le> 4096" using assms by (simp add: word_le_nat_alt)
  then show ?thesis using assms by (simp add: unat_sub)
qed

lemma sg_page_lt:
  assumes "sg_wf cfg" "i < unat (cfg_len cfg)"
  shows "(first_ofs cfg + i) div 4096 < unat (npages cfg)"
proof -
  have "first_ofs cfg + i < 4096 * unat (npages cfg)"
    using assms by (simp add: sg_wf_def)
  then show ?thesis by (simp add: less_mult_imp_div_less mult.commute)
qed

lemma sg_handle_aligned:
  "sg_wf cfg \<Longrightarrow> k < unat (npages cfg) \<Longrightarrow> 0 < k \<Longrightarrow> unat (handles cfg k) mod 4096 = 0"
  "sg_wf cfg \<Longrightarrow> k < unat (npages cfg) \<Longrightarrow> 0 < k \<Longrightarrow> handles cfg k \<noteq> 0"
  by (simp_all add: sg_wf_def)

lemma sg_phys_ofs:
  assumes wf: "sg_wf cfg" and i: "i < unat (cfg_len cfg)"
  shows "unat (sg_phys cfg i) mod 4096 = (first_ofs cfg + i) mod 4096"
proof -
  define k where "k = (first_ofs cfg + i) div 4096"
  define r where "r = (first_ofs cfg + i) mod 4096"
  have "unat (sg_phys cfg i) mod 4096 = r"
  proof (cases "k = 0")
    case True
    have "(unat (handles cfg 0) + i) mod 4096 = r"
      unfolding r_def first_ofs_def by (simp only: mod_add_left_eq)
    moreover have "sg_phys cfg i = handles cfg 0 + of_nat i"
      using True by (simp only: sg_phys_def Let_def k_def [symmetric]) simp
    ultimately show ?thesis by (simp only: unat_add_mod_page)
  next
    case False
    with wf sg_page_lt [OF wf i] have al: "unat (handles cfg k) mod 4096 = 0"
      by (intro sg_handle_aligned) (simp_all add: k_def)
    have "sg_phys cfg i = handles cfg k + of_nat r"
      using False by (simp only: sg_phys_def Let_def k_def [symmetric] r_def [symmetric]) simp
    then have "unat (sg_phys cfg i) mod 4096 = (unat (handles cfg k) + r) mod 4096"
      by (simp only: unat_add_mod_page)
    also have "\<dots> = r mod 4096" using al by (metis add_0 mod_add_left_eq)
    finally show ?thesis by (simp add: r_def)
  qed
  then show ?thesis by (simp only: r_def)
qed

text \<open>Inside one page addresses run on; at the page end they go on at the next handle.\<close>

lemma sg_phys_same_page:
  assumes "(first_ofs cfg + a) mod 4096 + i < 4096"
  shows "sg_phys cfg (a + i) = sg_phys cfg a + of_nat i"
  using div_mod_same_page [OF assms]
  by (simp only: sg_phys_def Let_def add.assoc [symmetric] of_nat_add) (simp add: ac_simps)

lemma sg_phys_next_page:
  assumes k: "k = Suc ((first_ofs cfg + a) div 4096)" and i: "i < 4096"
    and h: "hv = 4096 - (first_ofs cfg + a) mod 4096"
  shows "sg_phys cfg (a + hv + i) = handles cfg k + of_nat i"
proof -
  have "first_ofs cfg + (a + hv + i) = k * 4096 + i"
    using to_next_page [of "first_ofs cfg + a"] by (simp only: k h add.assoc)
  moreover have "(k * 4096 + i) div 4096 = k" "(k * 4096 + i) mod 4096 = i"
    using i by simp_all
  ultimately show ?thesis by (simp only: sg_phys_def Let_def) (simp add: k)
qed

lemma sg_phys_contiguous:
  assumes wf: "sg_wf cfg" and o: "first_ofs cfg = 0" and i: "i < unat (cfg_len cfg)"
  shows "sg_phys cfg i = handles cfg 0 + of_nat i"
proof -
  define k where "k = i div 4096"
  have "k < unat (npages cfg)" using sg_page_lt [OF wf i] by (simp add: o k_def)
  then have h: "handles cfg k = handles cfg 0 + of_nat (4096 * k)"
    using wf o unfolding sg_wf_def contiguous_def by blast
  have "sg_phys cfg i = handles cfg k + of_nat (i mod 4096)"
  proof (cases "k = 0")
    case True
    then have "i mod 4096 = i" by (simp add: k_def)
    with True show ?thesis by (simp only: sg_phys_def o Let_def add_0 k_def [symmetric]) simp
  next
    case False
    then show ?thesis by (simp only: sg_phys_def o Let_def add_0 k_def [symmetric]) simp
  qed
  also have "\<dots> = handles cfg 0 + of_nat (4096 * k + i mod 4096)"
    by (simp only: h of_nat_add add.assoc)
  also have "4096 * k + i mod 4096 = i" by (simp add: k_def)
  finally show ?thesis .
qed

section \<open>The cursor\<close>

text \<open>
  \<open>chunk cfg done\<close> is the size of the next page; \<open>in_page\<close> the part of it before the next page
  boundary of guest memory.
\<close>

definition chunk :: "DMAConfig \<Rightarrow> nat \<Rightarrow> nat" where
  "chunk cfg done = min 4096 (unat (cfg_len cfg) - done)"

definition in_page :: "DMAConfig \<Rightarrow> nat \<Rightarrow> nat" where
  "in_page cfg done = 4096 - (first_ofs cfg + done) mod 4096"

lemma in_page_bounds: "0 < in_page cfg done" "in_page cfg done \<le> 4096"
  by (simp_all add: in_page_def)

lemma chunk_bounds: "chunk cfg done \<le> 4096" "done < unat (cfg_len cfg) \<Longrightarrow> 0 < chunk cfg done"
    "done \<le> unat (cfg_len cfg) \<Longrightarrow> done + chunk cfg done \<le> unat (cfg_len cfg)"
  by (auto simp: chunk_def)

lemma chunk_full: "done + chunk cfg done < unat (cfg_len cfg) \<Longrightarrow> chunk cfg done = 4096"
  by (simp add: chunk_def min_def split: if_splits)

lemma cursor_len_left:
  assumes "sg_cursor cfg cur done"
  shows "unat (len_left cur) = unat (cfg_len cfg) - done"
proof -
  have "unat (cfg_len cfg) - done < 2 ^ 64"
    by (rule order_le_less_trans [OF diff_le_self]) (rule unat_u64_lt)
  with assms show ?thesis by (simp add: sg_cursor_def unat_of_nat_u64 del: of_nat_diff)
qed

lemma cursor_want:
  assumes "sg_cursor cfg cur done"
  shows "unat (min 4096 (len_left cur)) = chunk cfg done"
  using cursor_len_left [OF assms]
  by (auto simp: chunk_def min_def word_le_nat_alt)

lemma cursor_have:
  assumes wf: "sg_wf cfg" and cur: "sg_cursor cfg cur done" and less: "done < unat (cfg_len cfg)"
  shows "unat (4096 - (cur_addr cur AND 4095)) = in_page cfg done"
proof -
  have "unat (cur_addr cur AND 4095) = (first_ofs cfg + done) mod 4096"
    using cur less sg_phys_ofs [OF wf less] by (simp only: unat_and_4095 sg_cursor_def)
  then show ?thesis unfolding in_page_def by (rule unat_have) simp
qed

lemma cursor_finished_iff:
  assumes "sg_cursor cfg cur done"
  shows "len_left cur = 0 \<longleftrightarrow> done = unat (cfg_len cfg)"
proof -
  have "done \<le> unat (cfg_len cfg)" using assms by (simp add: sg_cursor_def)
  then show ?thesis using cursor_len_left [OF assms] by (auto simp flip: unat_eq_zero)
qed

lemma cursor_page_start:
  assumes "sg_cursor cfg cur done" "done < unat (cfg_len cfg)"
  shows "(first_ofs cfg + done) mod 4096 = first_ofs cfg" "cur_addr cur = sg_phys cfg done"
  using assms by (auto simp: sg_cursor_def first_ofs_def mod_add_eq
      simp flip: mod_add_right_eq [of _ "done"])

lemma cursor_start:
  assumes "sg_wf cfg"
  shows "sg_cursor cfg \<lparr>len_left = cfg_len cfg, cur_addr = handles cfg 0, hnd_pos = 0\<rparr> 0"
  by (simp add: sg_cursor_def sg_phys_def first_ofs_def)

text \<open>The addresses of the next chunk: before and after the page boundary.\<close>

lemma chunk_before_boundary:
  assumes cur: "sg_cursor cfg cur done" and less: "done < unat (cfg_len cfg)"
    and i: "i < in_page cfg done"
  shows "sg_phys cfg (done + i) = cur_addr cur + of_nat i"
proof -
  have "(first_ofs cfg + done) mod 4096 + i < 4096"
    using i by (simp add: in_page_def)
  then show ?thesis using cursor_page_start(2) [OF cur less] by (simp only: sg_phys_same_page)
qed

lemma chunk_after_boundary:
  assumes "i < 4096"
  shows "sg_phys cfg (done + in_page cfg done + i) =
     handles cfg (Suc ((first_ofs cfg + done) div 4096)) + of_nat i"
  using assms by (intro sg_phys_next_page) (simp_all add: in_page_def)

lemma len_left_step:
  assumes cur: "sg_cursor cfg cur done" and n: "done + n \<le> unat (cfg_len cfg)"
  shows "len_left cur - of_nat n = of_nat (unat (cfg_len cfg) - (done + n))"
proof -
  have "unat (cfg_len cfg) - done = (unat (cfg_len cfg) - (done + n)) + n" using n by simp
  then have "len_left cur = of_nat (unat (cfg_len cfg) - (done + n)) + of_nat n"
    using cur by (simp only: sg_cursor_def flip: of_nat_add)
  then show ?thesis by simp
qed

lemma cursor_step_near:
  assumes wf: "sg_wf cfg" and cur: "sg_cursor cfg cur done" and less: "done < unat (cfg_len cfg)"
    and near: "chunk cfg done \<le> in_page cfg done"
  shows "sg_cursor cfg (cur\<lparr>cur_addr := cur_addr cur + of_nat (chunk cfg done),
           len_left := len_left cur - of_nat (chunk cfg done)\<rparr>) (done + chunk cfg done)"
proof -
  let ?n = "chunk cfg done"
  have le: "done + ?n \<le> unat (cfg_len cfg)" using chunk_bounds(3) less by simp
  have more: "(done + ?n) mod 4096 = 0 \<and> first_ofs cfg = 0 \<and>
      cur_addr cur + of_nat ?n = sg_phys cfg (done + ?n)" if lt: "done + ?n < unat (cfg_len cfg)"
  proof -
    have n: "?n = 4096" using lt by (rule chunk_full)
    have d: "done mod 4096 = 0" using cur less by (simp add: sg_cursor_def)
    have "(first_ofs cfg + done) mod 4096 = 0" using near n by (simp add: in_page_def)
    then have o0: "first_ofs cfg = 0" using cursor_page_start(1) [OF cur less] by simp
    have "cur_addr cur + of_nat ?n = handles cfg 0 + of_nat (done + ?n)"
      using cursor_page_start(2) [OF cur less] sg_phys_contiguous [OF wf o0 less]
      by (simp only: of_nat_add add.assoc)
    then show ?thesis using o0 n d sg_phys_contiguous [OF wf o0 lt] by simp
  qed
  then show ?thesis using le len_left_step [OF cur le] by (auto simp: sg_cursor_def)
qed

lemma cursor_step_far:
  assumes wf: "sg_wf cfg" and cur: "sg_cursor cfg cur done" and less: "done < unat (cfg_len cfg)"
    and far: "in_page cfg done < chunk cfg done"
    and k: "k = Suc ((first_ofs cfg + done) div 4096)"
  shows "sg_cursor cfg (cur\<lparr>hnd_pos := int k,
           cur_addr := handles cfg k + of_nat (chunk cfg done - in_page cfg done),
           len_left := len_left cur - of_nat (chunk cfg done)\<rparr>) (done + chunk cfg done)"
proof -
  let ?n = "chunk cfg done" and ?h = "in_page cfg done"
  have le: "done + ?n \<le> unat (cfg_len cfg)" using chunk_bounds(3) less by simp
  have i: "?n - ?h < 4096"
    using chunk_bounds(1) [of cfg "done"] in_page_bounds(1) [of cfg "done"] by linarith
  have "done + ?h + (?n - ?h) = done + ?n" using far by simp
  with chunk_after_boundary [OF i, of cfg "done"] k
  have addr: "sg_phys cfg (done + ?n) = handles cfg k + of_nat (?n - ?h)" by simp
  have "(done + ?n) mod 4096 = 0 \<and> (first_ofs cfg + (done + ?n)) div 4096 = k"
    if lt: "done + ?n < unat (cfg_len cfg)"
  proof -
    have n: "?n = 4096" using lt by (rule chunk_full)
    have d: "done mod 4096 = 0" using cur less by (simp add: sg_cursor_def)
    show ?thesis using d k by (simp add: n add.assoc [symmetric])
  qed
  then show ?thesis using le len_left_step [OF cur le] addr by (auto simp: sg_cursor_def)
qed

lemma far_next_addr:
  assumes wf: "sg_wf (config eng)" and cur: "sg_cursor (config eng) (current eng) done"
    and less: "done < unat (cfg_len (config eng))"
    and far: "in_page (config eng) done < chunk (config eng) done"
    and k: "k = Suc ((first_ofs (config eng) + done) div 4096)"
  shows "psipe_dma_next_addr eng =
      Inr (handles (config eng) k, eng\<lparr>current := (current eng)\<lparr>hnd_pos := int k\<rparr>\<rparr>)"
    "handles (config eng) k \<noteq> 0"
proof -
  let ?c = "config eng"
  have o0: "first_ofs ?c \<noteq> 0"
    using far cursor_page_start(1) [OF cur less] chunk_bounds(1) [of ?c "done"]
    by (auto simp: in_page_def)
  then have pos: "hnd_pos (current eng) = int ((first_ofs ?c + done) div 4096)"
    using cur less by (simp add: sg_cursor_def)
  have b: "done + in_page ?c done < unat (cfg_len ?c)"
    using far chunk_bounds(3) [of "done" ?c] less by simp
  have "(first_ofs ?c + (done + in_page ?c done)) = k * 4096"
    using to_next_page [of "first_ofs ?c + done"] by (simp only: k in_page_def add.assoc)
  with sg_page_lt [OF wf b] have kn: "k < unat (npages ?c)" by simp
  then have cnt: "k < PSIPE_HW_BAR0_DMA_HANDLES_CNT" using wf by (simp add: sg_wf_def)
  then have small: "k < 2 ^ 31" by (simp add: PSIPE_HW_BAR0_DMA_HANDLES_CNT_def)
  have "u64_of_int (hnd_pos (current eng)) < npages ?c"
    using kn small by (simp add: pos k word_less_nat_alt unat_of_nat_u64)
  moreover have "s32 (hnd_pos (current eng) + 1) = int k"
    using small by (subst s32_id) (simp_all add: pos k)
  ultimately show "psipe_dma_next_addr eng =
      Inr (handles ?c k, eng\<lparr>current := (current eng)\<lparr>hnd_pos := int k\<rparr>\<rparr>)"
    using cnt by (simp add: psipe_dma_next_addr_def Let_def handle_at_def)
  show "handles ?c k \<noteq> 0" using wf kn k by (intro sg_handle_aligned(2)) simp_all
qed

end
