(* ===== verification/Pages.thy ===== *)
theory Pages
  imports Scatter
begin

text \<open>
  One page of the DMA engine against the buffer the handles describe: \<open>psipe_dma_rx_page\<close> fills
  the device's page buffer with the next bytes of the guest's buffer, \<open>psipe_dma_tx_page\<close>
  stores the device's page buffer there, and both move the cursor to the byte after.
\<close>

section \<open>Reading\<close>

lemma dma_read_ok:
  assumes H: "host_contract H v" and b: "ofs + n \<le> 4096"
  shows "psipe_dma_read H dev addr (int n) (int ofs) =
     Inr (0, dev\<lparr>dma := (dma dev)\<lparr>buff :=
       blit (buff (dma dev)) ofs (ram_bytes (ram v (env dev)) addr n)\<rparr>\<rparr>)"
proof -
  have "s32 (int ofs + int n) = int ofs + int n" using b by (intro s32_id) simp_all
  moreover have "dev\<lparr>env := env dev\<rparr> = dev" by simp
  ultimately show ?thesis
    using b by (simp add: psipe_dma_read_def PSIPE_HW_DMA_AREA_SIZE_def dma_read_contract [OF H])
qed

lemma ram_bytes_before:
  assumes cur: "sg_cursor cfg cur done" and less: "done < unat (cfg_len cfg)"
    and n: "n \<le> in_page cfg done"
  shows "ram_bytes m (cur_addr cur) n = sg_bytes cfg m done n"
  using chunk_before_boundary [OF cur less] n
  by (intro nth_equalityI) (simp_all add: sg_bytes_def)

lemma ram_bytes_after:
  assumes k: "k = Suc ((first_ofs cfg + done) div 4096)" and n: "n \<le> 4096"
  shows "ram_bytes m (handles cfg k) n = sg_bytes cfg m (done + in_page cfg done) n"
  using chunk_after_boundary [of _ cfg "done"] n
  by (intro nth_equalityI) (simp_all add: sg_bytes_def k)

text \<open>The words the code computes, as numbers.\<close>

lemma page_numbers:
  assumes wf: "sg_wf (config eng)" and cur: "sg_cursor (config eng) (current eng) done"
    and less: "done < unat (cfg_len (config eng))"
    and hv: "hv = page_size (config eng) -
        (cur_addr (current eng) AND psipe_dma_mask eng (page_size (config eng) - 1))"
  shows "unat hv = in_page (config eng) done"
    "unat (min (page_size (config eng)) (len_left (current eng))) = chunk (config eng) done"
    "page_size (config eng) = 4096"
proof -
  have ps: "page_size (config eng) = 4096" using wf by (simp add: sg_wf_def)
  show "unat hv = in_page (config eng) done"
    using cursor_have [OF wf cur less] page_mask [OF wf] by (simp only: hv ps)
  show "unat (min (page_size (config eng)) (len_left (current eng))) = chunk (config eng) done"
    unfolding ps by (rule cursor_want [OF cur])
  show "page_size (config eng) = 4096" by (rule ps)
qed

lemma word_of_unat: "unat (w :: u64) = n \<Longrightarrow> w = of_nat n"
  by auto

lemma rx_page_near:
  assumes H: "host_contract H v" and wf: "sg_wf (config (dma dev))"
    and cur: "sg_cursor (config (dma dev)) (current (dma dev)) done"
    and less: "done < unat (cfg_len (config (dma dev)))"
    and near: "chunk (config (dma dev)) done \<le> in_page (config (dma dev)) done"
  shows "\<exists>b c. psipe_dma_rx_page H dev =
      Inr (int (chunk (config (dma dev)) done),
           dev\<lparr>dma := (dma dev)\<lparr>buff := b, current := c\<rparr>\<rparr>) \<and>
      slice b 0 (chunk (config (dma dev)) done) =
        sg_bytes (config (dma dev)) (ram v (env dev)) done (chunk (config (dma dev)) done) \<and>
      sg_cursor (config (dma dev)) c (done + chunk (config (dma dev)) done)"
proof -
  let ?e = "dma dev" let ?c = "config ?e" let ?cur = "current ?e" let ?n = "chunk ?c done"
  define hv where "hv = page_size ?c - (cur_addr ?cur AND psipe_dma_mask ?e (page_size ?c - 1))"
  define want where "want = min (page_size ?c) (len_left ?cur)"
  note nums = page_numbers [OF wf cur less hv_def]
  have want: "want = of_nat ?n" using nums(2) by (intro word_of_unat) (simp add: want_def)
  have n: "?n \<le> 4096" by (rule chunk_bounds)
  have wi: "int_of_u64 want = int ?n"
    using n nums(2) by (subst int_of_u64_small) (simp_all add: want_def)
  have le: "want \<le> hv" using near nums by (simp add: word_le_nat_alt want_def)
  let ?b = "blit (buff ?e) 0 (ram_bytes (ram v (env dev)) (cur_addr ?cur) ?n)"
  let ?dev = "dev\<lparr>dma := ?e\<lparr>buff := ?b\<rparr>\<rparr>"
  have "psipe_dma_rx_page H dev = Inr (int ?n, dma_advance ?dev (cur_addr ?cur + want) want)"
    using le wi dma_read_ok [OF H, of 0 ?n dev "cur_addr ?cur"] n
    by (simp add: psipe_dma_rx_page_def Let_def flip: hv_def want_def)
  moreover have "slice ?b 0 ?n = sg_bytes ?c (ram v (env dev)) done ?n"
    using ram_bytes_before [OF cur less near] by (simp add: slice_blit_same)
  moreover have "sg_cursor ?c (?cur\<lparr>cur_addr := cur_addr ?cur + want,
      len_left := len_left ?cur - want\<rparr>) (done + ?n)"
    unfolding want by (rule cursor_step_near [OF wf cur less near])
  ultimately show ?thesis by (simp add: dma_advance_def) blast
qed

lemma rx_page_far:
  assumes H: "host_contract H v" and wf: "sg_wf (config (dma dev))"
    and cur: "sg_cursor (config (dma dev)) (current (dma dev)) done"
    and less: "done < unat (cfg_len (config (dma dev)))"
    and far: "in_page (config (dma dev)) done < chunk (config (dma dev)) done"
  shows "\<exists>b c. psipe_dma_rx_page H dev =
      Inr (int (chunk (config (dma dev)) done),
           dev\<lparr>dma := (dma dev)\<lparr>buff := b, current := c\<rparr>\<rparr>) \<and>
      slice b 0 (chunk (config (dma dev)) done) =
        sg_bytes (config (dma dev)) (ram v (env dev)) done (chunk (config (dma dev)) done) \<and>
      sg_cursor (config (dma dev)) c (done + chunk (config (dma dev)) done)"
proof -
  let ?e = "dma dev" let ?c = "config ?e" let ?cur = "current ?e" let ?n = "chunk ?c done"
  let ?h = "in_page ?c done" let ?m = "ram v (env dev)"
  define k where "k = Suc ((first_ofs ?c + done) div 4096)"
  define hv where "hv = page_size ?c - (cur_addr ?cur AND psipe_dma_mask ?e (page_size ?c - 1))"
  define want where "want = min (page_size ?c) (len_left ?cur)"
  note nums = page_numbers [OF wf cur less hv_def]
  have want: "want = of_nat ?n" using nums(2) by (intro word_of_unat) (simp add: want_def)
  have n: "?n \<le> 4096" by (rule chunk_bounds)
  have hle: "?h \<le> 4096" by (rule in_page_bounds)
  have uw: "unat want = ?n" using nums(2) by (simp add: want_def)
  have wi: "int_of_u64 want = int ?n" using n uw by (subst int_of_u64_small) simp_all
  have hi: "int_of_u64 hv = int ?h" using hle nums(1) by (subst int_of_u64_small) simp_all
  have nle: "\<not> want \<le> hv" using far nums(1) uw by (simp add: word_le_nat_alt)
  have ud: "unat (want - hv) = ?n - ?h" using nle nums(1) uw by (simp add: unat_sub)
  have di: "int_of_u64 (want - hv) = int (?n - ?h)"
    using n ud by (subst int_of_u64_small) simp_all
  have dw: "want - hv = of_nat (?n - ?h)" by (rule word_of_unat [OF ud])
  define b1 where "b1 = blit (buff ?e) 0 (ram_bytes ?m (cur_addr ?cur) ?h)"
  define b where "b = blit b1 ?h (ram_bytes ?m (handles ?c k) (?n - ?h))"
  note nx = far_next_addr [OF wf cur less far k_def]
  have nx': "psipe_dma_next_addr (?e\<lparr>buff := b1\<rparr>) =
      Inr (handles ?c k, ?e\<lparr>buff := b1, current := ?cur\<lparr>hnd_pos := int k\<rparr>\<rparr>)"
    using far_next_addr(1) [of "?e\<lparr>buff := b1\<rparr>" "done" k] wf cur less far k_def by simp
  have r1: "psipe_dma_read H dev (cur_addr ?cur) (int ?h) 0 = Inr (0, dev\<lparr>dma := ?e\<lparr>buff := b1\<rparr>\<rparr>)"
    using dma_read_ok [OF H, of 0 ?h dev] hle by (simp add: b1_def)
  let ?d2 = "dev\<lparr>dma := ?e\<lparr>buff := b1, current := ?cur\<lparr>hnd_pos := int k\<rparr>\<rparr>\<rparr>"
  have r2: "psipe_dma_read H ?d2 (handles ?c k) (int (?n - ?h)) (int ?h) =
      Inr (0, ?d2\<lparr>dma := (dma ?d2)\<lparr>buff := b\<rparr>\<rparr>)"
    using dma_read_ok [OF H, of ?h "?n - ?h" ?d2 "handles ?c k"] far n by (simp add: b_def)
  have "psipe_dma_rx_page H dev = Inr (int ?n, dma_advance (?d2\<lparr>dma := (dma ?d2)\<lparr>buff := b\<rparr>\<rparr>)
      (handles ?c k + (want - hv)) want)"
    unfolding psipe_dma_rx_page_def Let_def hv_def [symmetric] want_def [symmetric]
    by (simp add: nle hi di wi r1 nx' nx(2) r2)
  moreover have "slice b 0 ?n = sg_bytes ?c ?m done ?n"
  proof -
    have "?h + (?n - ?h) = ?n" using far by simp
    then have "slice b 0 ?n = slice b 0 ?h @ slice b (0 + ?h) (?n - ?h)"
      by (metis slice_add)
    also have "\<dots> = ram_bytes ?m (cur_addr ?cur) ?h @ ram_bytes ?m (handles ?c k) (?n - ?h)"
      by (simp add: b_def b1_def slice_blit_before slice_blit_same)
    also have "\<dots> = sg_bytes ?c ?m done (?h + (?n - ?h))"
      using ram_bytes_before [OF cur less order_refl] ram_bytes_after [OF k_def] n
      by (simp only: sg_bytes_add)
    finally show ?thesis using far by simp
  qed
  moreover have "sg_cursor ?c (?cur\<lparr>hnd_pos := int k, cur_addr := handles ?c k + (want - hv),
      len_left := len_left ?cur - want\<rparr>) (done + ?n)"
    unfolding dw unfolding want by (rule cursor_step_far [OF wf cur less far k_def])
  ultimately show ?thesis by (simp add: dma_advance_def) blast
qed

lemma rx_page_ok:
  assumes "host_contract H v" "sg_wf (config (dma dev))"
    "sg_cursor (config (dma dev)) (current (dma dev)) done"
    "done < unat (cfg_len (config (dma dev)))"
  obtains b c where
    "psipe_dma_rx_page H dev = Inr (int (chunk (config (dma dev)) done),
       dev\<lparr>dma := (dma dev)\<lparr>buff := b, current := c\<rparr>\<rparr>)"
    "slice b 0 (chunk (config (dma dev)) done) =
       sg_bytes (config (dma dev)) (ram v (env dev)) done (chunk (config (dma dev)) done)"
    "sg_cursor (config (dma dev)) c (done + chunk (config (dma dev)) done)"
  using rx_page_near [OF assms] rx_page_far [OF assms] by (meson not_le)

section \<open>Writing\<close>

text \<open>
  \<open>sg_written cfg m m' from bs\<close>: \<open>m'\<close> is \<open>m\<close> with the bytes of the buffer from \<open>from\<close> on
  replaced by \<open>bs\<close> and nothing else changed. The pages of a buffer that is written do not overlap
  (\<open>sg_inj\<close>), as no page is pinned twice for one mapping.
\<close>

definition sg_written :: "DMAConfig \<Rightarrow> (u64 \<Rightarrow> u8) \<Rightarrow> (u64 \<Rightarrow> u8) \<Rightarrow> nat \<Rightarrow> u8 list \<Rightarrow> bool" where
  "sg_written cfg m m' from bs \<longleftrightarrow>
     (\<forall>i < length bs. m' (sg_phys cfg (from + i)) = bs ! i) \<and>
     (\<forall>a. (\<forall>i < length bs. a \<noteq> sg_phys cfg (from + i)) \<longrightarrow> m' a = m a)"

definition sg_inj :: "DMAConfig \<Rightarrow> bool" where
  "sg_inj cfg \<longleftrightarrow> inj_on (sg_phys cfg) {..<unat (cfg_len cfg)}"

lemma sg_written_Nil [simp]: "sg_written cfg m m' from [] \<longleftrightarrow> m' = m"
  by (auto simp: sg_written_def)

lemma sg_written_append:
  assumes w1: "sg_written cfg m m1 from bs1"
    and w2: "sg_written cfg m1 m2 (from + length bs1) bs2"
    and inj: "sg_inj cfg" and b: "from + length (bs1 @ bs2) \<le> unat (cfg_len cfg)"
  shows "sg_written cfg m m2 from (bs1 @ bs2)"
  unfolding sg_written_def
proof (intro conjI allI impI)
  fix i assume i: "i < length (bs1 @ bs2)"
  show "m2 (sg_phys cfg (from + i)) = (bs1 @ bs2) ! i"
  proof (cases "i < length bs1")
    case True
    have "sg_phys cfg (from + i) \<noteq> sg_phys cfg (from + length bs1 + j)" if "j < length bs2" for j
    proof
      assume "sg_phys cfg (from + i) = sg_phys cfg (from + length bs1 + j)"
      from inj_onD [OF inj [unfolded sg_inj_def] this] have "from + i = from + length bs1 + j"
        using b that True by simp
      with True show False by simp
    qed
    then have "m2 (sg_phys cfg (from + i)) = m1 (sg_phys cfg (from + i))"
      using w2 by (simp add: sg_written_def)
    with w1 True show ?thesis by (simp add: sg_written_def nth_append)
  next
    case False
    then have "from + i = from + length bs1 + (i - length bs1)" "i - length bs1 < length bs2"
      using i by simp_all
    then have "m2 (sg_phys cfg (from + i)) = bs2 ! (i - length bs1)"
      using w2 unfolding sg_written_def by metis
    with False show ?thesis by (simp add: nth_append)
  qed
next
  fix a assume out: "\<forall>i < length (bs1 @ bs2). a \<noteq> sg_phys cfg (from + i)"
  have "a \<noteq> sg_phys cfg (from + length bs1 + j)" if "j < length bs2" for j
    using out [rule_format, of "length bs1 + j"] that by (simp add: add.assoc)
  moreover have "\<forall>i < length bs1. a \<noteq> sg_phys cfg (from + i)" using out by simp
  ultimately show "m2 a = m a" using w1 w2 by (simp add: sg_written_def)
qed

lemma ram_store_written:
  assumes "length bs < 2 ^ 64" "\<And>i. i < length bs \<Longrightarrow> sg_phys cfg (from + i) = a + of_nat i"
  shows "sg_written cfg m (ram_store m a bs) from bs"
  unfolding sg_written_def
proof (intro conjI allI impI)
  fix i assume "i < length bs"
  with assms show "ram_store m a bs (sg_phys cfg (from + i)) = bs ! i"
    by (simp add: ram_store_def unat_of_nat_u64)
next
  fix x assume out: "\<forall>i < length bs. x \<noteq> sg_phys cfg (from + i)"
  have "\<not> unat (x - a) < length bs"
  proof
    assume lt: "unat (x - a) < length bs"
    have "x = a + of_nat (unat (x - a))" by simp
    with assms(2) [OF lt] out lt show False by metis
  qed
  then show "ram_store m a bs x = m x" by (simp add: ram_store_def)
qed

lemma dma_write_ok:
  assumes H: "host_contract H v" and b: "ofs + n \<le> 4096"
  obtains w where "psipe_dma_write H dev addr (int n) (int ofs) = Inr (0, dev\<lparr>env := w\<rparr>)"
    "ram v w = ram_store (ram v (env dev)) addr (slice (buff (dma dev)) ofs n)"
    "inb v w = inb v (env dev)" "outb v w = outb v (env dev)"
proof -
  obtain w where w: "pci_dma_write H (env dev) addr (slice (buff (dma dev)) ofs n) = (0, w)"
    "ram v w = ram_store (ram v (env dev)) addr (slice (buff (dma dev)) ofs n)"
    "inb v w = inb v (env dev)" "outb v w = outb v (env dev)"
    using dma_write_contract [OF H] by metis
  have "s32 (int ofs + int n) = int ofs + int n" using b by (intro s32_id) simp_all
  then have "psipe_dma_write H dev addr (int n) (int ofs) = Inr (0, dev\<lparr>env := w\<rparr>)"
    using b w(1) by (simp add: psipe_dma_write_def PSIPE_HW_DMA_AREA_SIZE_def)
  with w show ?thesis using that by blast
qed

text \<open>The page function's result on a whole chunk.\<close>

definition tx_result :: "'w view \<Rightarrow> 'w PSIPEDevice \<Rightarrow> nat \<Rightarrow> 'w \<Rightarrow> DMACurrent \<Rightarrow> bool" where
  "tx_result v dev done w c \<longleftrightarrow>
     sg_written (config (dma dev)) (ram v (env dev)) (ram v w) done
       (slice (buff (dma dev)) 0 (chunk (config (dma dev)) done)) \<and>
     inb v w = inb v (env dev) \<and> outb v w = outb v (env dev) \<and>
     sg_cursor (config (dma dev)) c (done + chunk (config (dma dev)) done)"

lemma tx_page_near:
  assumes H: "host_contract H v" and wf: "sg_wf (config (dma dev))"
    and cur: "sg_cursor (config (dma dev)) (current (dma dev)) done"
    and less: "done < unat (cfg_len (config (dma dev)))"
    and near: "chunk (config (dma dev)) done \<le> in_page (config (dma dev)) done"
  shows "\<exists>w c. psipe_dma_tx_page H dev (int (chunk (config (dma dev)) done)) =
      Inr (0, dev\<lparr>env := w, dma := (dma dev)\<lparr>current := c\<rparr>\<rparr>) \<and> tx_result v dev done w c"
proof -
  let ?e = "dma dev" let ?c = "config ?e" let ?cur = "current ?e" let ?n = "chunk ?c done"
  define hv where "hv = page_size ?c - (cur_addr ?cur AND psipe_dma_mask ?e (page_size ?c - 1))"
  note nums = page_numbers [OF wf cur less hv_def]
  have n: "?n \<le> 4096" "0 < ?n" using chunk_bounds less by blast+
  have le: "of_nat ?n \<le> hv" using near nums n by (simp add: word_le_nat_alt unat_of_nat_u64)
  obtain w where w: "psipe_dma_write H dev (cur_addr ?cur) (int ?n) 0 = Inr (0, dev\<lparr>env := w\<rparr>)"
    "ram v w = ram_store (ram v (env dev)) (cur_addr ?cur) (slice (buff ?e) 0 ?n)"
    "inb v w = inb v (env dev)" "outb v w = outb v (env dev)"
    using dma_write_ok [OF H, of 0 ?n dev "cur_addr ?cur"] n by auto
  let ?cc = "?cur\<lparr>cur_addr := cur_addr ?cur + of_nat ?n, len_left := len_left ?cur - of_nat ?n\<rparr>"
  have "psipe_dma_tx_page H dev (int ?n) = Inr (0, dev\<lparr>env := w, dma := ?e\<lparr>current := ?cc\<rparr>\<rparr>)"
    using n by (simp add: psipe_dma_tx_page_def Let_def le w(1) dma_advance_def flip: hv_def)
  moreover have "sg_written ?c (ram v (env dev)) (ram v w) done (slice (buff ?e) 0 ?n)"
    unfolding w(2) using chunk_before_boundary [OF cur less] near n
    by (intro ram_store_written) simp_all
  moreover have "sg_cursor ?c ?cc (done + ?n)"
    by (rule cursor_step_near [OF wf cur less near])
  ultimately show ?thesis using w(3,4) unfolding tx_result_def by blast
qed

lemma tx_page_far:
  assumes H: "host_contract H v" and wf: "sg_wf (config (dma dev))"
    and inj: "sg_inj (config (dma dev))"
    and cur: "sg_cursor (config (dma dev)) (current (dma dev)) done"
    and less: "done < unat (cfg_len (config (dma dev)))"
    and far: "in_page (config (dma dev)) done < chunk (config (dma dev)) done"
  shows "\<exists>w c. psipe_dma_tx_page H dev (int (chunk (config (dma dev)) done)) =
      Inr (0, dev\<lparr>env := w, dma := (dma dev)\<lparr>current := c\<rparr>\<rparr>) \<and> tx_result v dev done w c"
proof -
  let ?e = "dma dev" let ?c = "config ?e" let ?cur = "current ?e" let ?n = "chunk ?c done"
  let ?h = "in_page ?c done"
  define k where "k = Suc ((first_ofs ?c + done) div 4096)"
  define hv where "hv = page_size ?c - (cur_addr ?cur AND psipe_dma_mask ?e (page_size ?c - 1))"
  note nums = page_numbers [OF wf cur less hv_def]
  have n: "?n \<le> 4096" "0 < ?n" using chunk_bounds less by blast+
  have hle: "?h \<le> 4096" by (rule in_page_bounds)
  have hi: "int_of_u64 hv = int ?h" using hle nums(1) by (subst int_of_u64_small) simp_all
  have nle: "\<not> of_nat ?n \<le> hv" using far nums(1) n by (simp add: word_le_nat_alt unat_of_nat_u64)
  have ud: "unat (of_nat ?n - hv) = ?n - ?h"
    using nle nums(1) n by (simp add: unat_sub unat_of_nat_u64)
  have di: "int_of_u64 (of_nat ?n - hv) = int (?n - ?h)"
    using n ud by (subst int_of_u64_small) simp_all
  have dw: "of_nat ?n - hv = of_nat (?n - ?h)" by (rule word_of_unat [OF ud])
  obtain w1 where w1: "psipe_dma_write H dev (cur_addr ?cur) (int ?h) 0 = Inr (0, dev\<lparr>env := w1\<rparr>)"
    "ram v w1 = ram_store (ram v (env dev)) (cur_addr ?cur) (slice (buff ?e) 0 ?h)"
    "inb v w1 = inb v (env dev)" "outb v w1 = outb v (env dev)"
    using dma_write_ok [OF H, of 0 ?h dev "cur_addr ?cur"] hle by auto
  note nx = far_next_addr [OF wf cur less far k_def]
  let ?d2 = "dev\<lparr>env := w1, dma := ?e\<lparr>current := ?cur\<lparr>hnd_pos := int k\<rparr>\<rparr>\<rparr>"
  have "?h + (?n - ?h) \<le> 4096" using far n by simp
  then obtain w where w: "psipe_dma_write H ?d2 (handles ?c k) (int (?n - ?h)) (int ?h) =
      Inr (0, ?d2\<lparr>env := w\<rparr>)"
    "ram v w = ram_store (ram v w1) (handles ?c k) (slice (buff ?e) ?h (?n - ?h))"
    "inb v w = inb v w1" "outb v w = outb v w1"
    using dma_write_ok [OF H, of ?h "?n - ?h" ?d2 "handles ?c k"] by auto
  let ?cc = "?cur\<lparr>hnd_pos := int k, cur_addr := handles ?c k + of_nat (?n - ?h),
      len_left := len_left ?cur - of_nat ?n\<rparr>"
  have "psipe_dma_tx_page H dev (int ?n) =
      Inr (0, dma_advance (?d2\<lparr>env := w\<rparr>) (handles ?c k + (of_nat ?n - hv)) (of_nat ?n))"
    unfolding psipe_dma_tx_page_def Let_def hv_def [symmetric]
    using n by (simp add: nle hi di w1(1) nx w(1))
  then have res: "psipe_dma_tx_page H dev (int ?n) =
      Inr (0, dev\<lparr>env := w, dma := ?e\<lparr>current := ?cc\<rparr>\<rparr>)"
    unfolding dw by (simp add: dma_advance_def)
  have le: "done + ?n \<le> unat (cfg_len ?c)" using chunk_bounds(3) less by simp
  have s1: "sg_written ?c (ram v (env dev)) (ram v w1) done (slice (buff ?e) 0 ?h)"
    unfolding w1(2) using chunk_before_boundary [OF cur less] hle
    by (intro ram_store_written) simp_all
  have s2: "sg_written ?c (ram v w1) (ram v w) (done + length (slice (buff ?e) 0 ?h))
      (slice (buff ?e) ?h (?n - ?h))"
    unfolding w(2) using chunk_after_boundary [of _ ?c "done"] n in_page_bounds(1) [of ?c "done"]
    by (intro ram_store_written) (simp_all add: k_def)
  have "slice (buff ?e) 0 ?n = slice (buff ?e) 0 ?h @ slice (buff ?e) ?h (?n - ?h)"
    using slice_add [of "buff ?e" 0 ?h "?n - ?h"] far by simp
  then have "sg_written ?c (ram v (env dev)) (ram v w) done (slice (buff ?e) 0 ?n)"
    using sg_written_append [OF s1 s2 inj] le far by simp
  moreover have "sg_cursor ?c ?cc (done + ?n)"
    by (rule cursor_step_far [OF wf cur less far k_def])
  ultimately show ?thesis using res w(3,4) w1(3,4) unfolding tx_result_def by metis
qed

lemma tx_page_ok:
  assumes "host_contract H v" "sg_wf (config (dma dev))" "sg_inj (config (dma dev))"
    "sg_cursor (config (dma dev)) (current (dma dev)) done"
    "done < unat (cfg_len (config (dma dev)))"
  obtains w c where
    "psipe_dma_tx_page H dev (int (chunk (config (dma dev)) done)) =
       Inr (0, dev\<lparr>env := w, dma := (dma dev)\<lparr>current := c\<rparr>\<rparr>)"
    "tx_result v dev done w c"
  using tx_page_near [OF assms(1,2,4,5)] tx_page_far [OF assms] by (meson not_le)

end
