(* ===== verification/Psipe.thy ===== *)
theory Psipe
  imports Proxy Pages
begin

text \<open>
  The core of the emulated device (src/src/hw/psipe.c): the two page loops and
  \<open>psipe_execute\<close>, which the doorbell and the \<open>SYN\<close> request run.
\<close>

section \<open>Operations\<close>

definition transfer_body :: "'w host \<Rightarrow> 'w PSIPEDevice \<Rightarrow> (bool \<times> 'w PSIPEDevice) res" where
  "transfer_body H dev =
     bindR (psipe_dma_rx_page H dev) (\<lambda>(len, dev).
     bindR (psipe_proxy_tx_page H dev len) (\<lambda>(ret, dev).
       Inr (ret \<noteq> PSIPE_FAILURE \<and> \<not> psipe_dma_is_finished dev, dev)))"

definition psipe_transfer_pages :: "nat \<Rightarrow> 'w host \<Rightarrow> 'w PSIPEDevice \<Rightarrow> 'w PSIPEDevice res" where
  "psipe_transfer_pages fuel H dev =
     (case psipe_dma_begin_run dev of (r, dev) \<Rightarrow>
        if r < 0 then Inr dev
        else bindR (do_while fuel (transfer_body H) dev) (\<lambda>dev. Inr (psipe_dma_end_run dev)))"

definition receive_body :: "'w host \<Rightarrow> 'w PSIPEDevice \<Rightarrow> (bool \<times> 'w PSIPEDevice) res" where
  "receive_body H dev =
     bindR (psipe_proxy_rx_page H dev) (\<lambda>(len, dev).
     bindR (psipe_dma_tx_page H dev len) (\<lambda>(ret, dev).
       Inr (ret \<noteq> PSIPE_FAILURE \<and> \<not> psipe_dma_is_finished dev, dev)))"

definition psipe_receive_pages :: "nat \<Rightarrow> 'w host \<Rightarrow> 'w PSIPEDevice \<Rightarrow> 'w PSIPEDevice res" where
  "psipe_receive_pages fuel H dev =
     (case psipe_dma_begin_run dev of (r, dev) \<Rightarrow>
        if r < 0 then Inr dev
        else bindR (do_while fuel (receive_body H) dev) (\<lambda>dev. Inr (psipe_dma_end_run dev)))"

text \<open>
  The fuel bounds the loops and the nesting of \<open>SYN\<close> requests. A failed run raises the interrupt
  like a completed one.
\<close>

fun psipe_execute :: "nat \<Rightarrow> 'w host \<Rightarrow> 'w PSIPEDevice \<Rightarrow> 'w PSIPEDevice res" where
  "psipe_execute 0 H dev = Inl Out_Of_Fuel"
| "psipe_execute (Suc n) H dev =
     bindR (case mode (dma dev) of
         DMA_MODE_ACTIVE \<Rightarrow> psipe_transfer_pages n H dev
       | DMA_MODE_PASSIVE \<Rightarrow>
           bindR (psipe_proxy_await_req n (\<lambda>d. psipe_execute n H d) H dev PSIPE_REQ_SLN)
             (\<lambda>(_, dev). psipe_receive_pages n H dev))
       (\<lambda>dev. Inr (psipe_irq_raise H dev PSIPE_HW_IRQ_WORK_ENDED_VECTOR))"

declare psipe_execute.simps [simp del]

end
