(* ===== verification/PageLoops.thy ===== *)
theory PageLoops
  imports Psipe
begin

text \<open>
  The two page loops against the byte stream between the devices. A buffer travels as a sequence
  of frames, each the length of a page and its bytes; \<open>psipe_transfer_pages\<close> writes exactly the
  frames of the bytes its handles describe and \<open>psipe_receive_pages\<close>, given the frames of as many
  bytes as it was configured for, stores them at the addresses its handles describe. Both loops
  are instances of \<open>bounded_loop\<close>, so both return.
\<close>

section \<open>Frames\<close>

definition page_frame :: "u8 list \<Rightarrow> u8 list" where
  "page_frame bs = enc_int (int (length bs)) @ bs"

function frames :: "u8 list \<Rightarrow> u8 list" where
  "frames bs = (if bs = [] then [] else page_frame (take 4096 bs) @ frames (drop 4096 bs))"
  by pat_completeness auto
termination by (relation "measure length") auto

declare frames.simps [simp del]

lemma frames_Nil [simp]: "frames [] = []"
  by (simp add: frames.simps)

lemma frames_step: "bs \<noteq> [] \<Longrightarrow> frames bs = page_frame (take 4096 bs) @ frames (drop 4096 bs)"
  by (subst frames.simps) simp

text \<open>The bytes still to move.\<close>

definition cursor_done :: "'w PSIPEDevice \<Rightarrow> nat" where
  "cursor_done dev = unat (cfg_len (config (dma dev))) - unat (len_left (current (dma dev)))"

definition remaining :: "'w PSIPEDevice \<Rightarrow> nat" where
  "remaining dev = unat (len_left (current (dma dev)))"

lemma cursor_done_eq:
  assumes "sg_cursor (config (dma dev)) (current (dma dev)) d"
  shows "cursor_done dev = d" "remaining dev = unat (cfg_len (config (dma dev))) - d"
  using cursor_len_left [OF assms] assms
  by (auto simp: cursor_done_def remaining_def sg_cursor_def)

definition mid_run :: "'w host \<Rightarrow> 'w view \<Rightarrow> 'w PSIPEDevice \<Rightarrow> bool" where
  "mid_run H v dev \<longleftrightarrow> host_contract H v \<and> sg_wf (config (dma dev)) \<and>
     sg_cursor (config (dma dev)) (current (dma dev)) (cursor_done dev) \<and>
     cursor_done dev < unat (cfg_len (config (dma dev)))"

text \<open>What a run never changes.\<close>

definition same_setup :: "'w PSIPEDevice \<Rightarrow> 'w PSIPEDevice \<Rightarrow> bool" where
  "same_setup s t \<longleftrightarrow> config (dma t) = config (dma s) \<and> mode (dma t) = mode (dma s) \<and>
     status (dma t) = status (dma s) \<and> irq t = irq s \<and> proxy t = proxy s \<and>
     mmio_size t = mmio_size s"

lemma same_setup_refl [simp]: "same_setup s s"
  by (simp add: same_setup_def)

lemma same_setup_trans: "same_setup s t \<Longrightarrow> same_setup t u \<Longrightarrow> same_setup s u"
  by (simp add: same_setup_def)

section \<open>Sending\<close>

definition send_post :: "'w view \<Rightarrow> 'w PSIPEDevice \<Rightarrow> 'w PSIPEDevice \<Rightarrow> bool" where
  "send_post v s t \<longleftrightarrow> same_setup s t \<and> len_left (current (dma t)) = 0 \<and>
     ram v (env t) = ram v (env s) \<and> inb v (env t) = inb v (env s) \<and>
     outb v (env t) = outb v (env s) @
       frames (sg_bytes (config (dma s)) (ram v (env s)) (cursor_done s) (remaining s))"

lemma tx_page_proxy:
  assumes H: "host_contract H v" and n: "0 < n" "n \<le> 4096"
  obtains w where "psipe_proxy_tx_page H dev (int n) = Inr (0, dev\<lparr>env := w\<rparr>)"
    "ram v w = ram v (env dev)" "inb v w = inb v (env dev)"
    "outb v w = outb v (env dev) @ page_frame (slice (buff (dma dev)) 0 n)"
proof -
  obtain w1 where w1: "sock_send H (env dev) (psipe_proxy_endpoint dev) (enc_int (int n)) =
      (int (length (enc_int (int n))), w1)" "ram v w1 = ram v (env dev)" "inb v w1 = inb v (env dev)"
    "outb v w1 = outb v (env dev) @ enc_int (int n)"
    using send_contract [OF H] by metis
  obtain w where w: "sock_send H w1 (psipe_proxy_endpoint dev) (slice (buff (dma dev)) 0 n) =
      (int n, w)" "ram v w = ram v w1" "inb v w = inb v w1"
    "outb v w = outb v w1 @ slice (buff (dma dev)) 0 n"
    using send_contract [OF H] by (metis length_slice)
  have "psipe_proxy_tx_page H dev (int n) = Inr (0, dev\<lparr>env := w\<rparr>)"
    using n w1(1) w(1) by (simp add: psipe_proxy_tx_page_def PSIPE_HW_DMA_AREA_SIZE_def)
  then show ?thesis using w w1 that by (simp add: page_frame_def)
qed

lemma transfer_step:
  assumes run: "mid_run H v s"
  obtains t where "transfer_body H s = Inr (len_left (current (dma t)) \<noteq> 0, t)"
    "same_setup s t" "ram v (env t) = ram v (env s)" "inb v (env t) = inb v (env s)"
    "outb v (env t) = outb v (env s) @ page_frame (sg_bytes (config (dma s)) (ram v (env s))
       (cursor_done s) (chunk (config (dma s)) (cursor_done s)))"
    "sg_cursor (config (dma s)) (current (dma t))
       (cursor_done s + chunk (config (dma s)) (cursor_done s))"
proof -
  let ?c = "config (dma s)" let ?d = "cursor_done s" let ?n = "chunk ?c ?d"
  have H: "host_contract H v" and wf: "sg_wf ?c" and cur: "sg_cursor ?c (current (dma s)) ?d"
    and less: "?d < unat (cfg_len ?c)"
    using run by (simp_all add: mid_run_def)
  obtain b c where rx: "psipe_dma_rx_page H s = Inr (int ?n, s\<lparr>dma := (dma s)\<lparr>buff := b, current := c\<rparr>\<rparr>)"
    "slice b 0 ?n = sg_bytes ?c (ram v (env s)) ?d ?n" "sg_cursor ?c c (?d + ?n)"
    using rx_page_ok [OF H wf cur less] by metis
  have n: "0 < ?n" "?n \<le> 4096" using chunk_bounds less by blast+
  let ?s = "s\<lparr>dma := (dma s)\<lparr>buff := b, current := c\<rparr>\<rparr>"
  obtain w where w: "psipe_proxy_tx_page H ?s (int ?n) = Inr (0, ?s\<lparr>env := w\<rparr>)"
    "ram v w = ram v (env ?s)" "inb v w = inb v (env ?s)"
    "outb v w = outb v (env ?s) @ page_frame (slice (buff (dma ?s)) 0 ?n)"
    by (rule tx_page_proxy [OF H n])
  show ?thesis
    by (rule that [of "?s\<lparr>env := w\<rparr>"])
      (simp_all add: transfer_body_def rx w psipe_dma_is_finished_def same_setup_def)
qed

lemma frames_sg_bytes:
  assumes "d < unat (cfg_len cfg)"
  shows "frames (sg_bytes cfg m d (unat (cfg_len cfg) - d)) =
     page_frame (sg_bytes cfg m d (chunk cfg d)) @
     frames (sg_bytes cfg m (d + chunk cfg d) (unat (cfg_len cfg) - (d + chunk cfg d)))"
proof -
  let ?L = "unat (cfg_len cfg)" let ?n = "chunk cfg d"
  have e: "?L - d = ?n + (?L - (d + ?n))" using chunk_bounds(3) [of d cfg] assms by simp
  have split: "sg_bytes cfg m d (?L - d) =
      sg_bytes cfg m d ?n @ sg_bytes cfg m (d + ?n) (?L - (d + ?n))"
    by (subst e) (rule sg_bytes_add)
  have "take 4096 (sg_bytes cfg m d (?L - d)) = sg_bytes cfg m d ?n \<and>
      drop 4096 (sg_bytes cfg m d (?L - d)) = sg_bytes cfg m (d + ?n) (?L - (d + ?n))"
  proof (cases "?n = 4096")
    case True
    then show ?thesis unfolding split by simp
  next
    case False
    then have "?L - (d + ?n) = 0" "?n < 4096" by (auto simp: chunk_def)
    then show ?thesis unfolding split by (simp add: sg_bytes_def)
  qed
  moreover have "sg_bytes cfg m d (?L - d) \<noteq> []" using assms by (simp add: sg_bytes_def)
  ultimately show ?thesis using frames_step by metis
qed

lemma mid_next:
  assumes mid: "mid_run H v s" and st: "same_setup s t"
    and cur: "sg_cursor (config (dma s)) (current (dma t))
       (cursor_done s + chunk (config (dma s)) (cursor_done s))"
  shows "cursor_done t = cursor_done s + chunk (config (dma s)) (cursor_done s)"
    "len_left (current (dma t)) \<noteq> 0 \<Longrightarrow> mid_run H v t"
    "remaining t < remaining s"
    "len_left (current (dma t)) = 0 \<Longrightarrow> remaining s \<le> 4096"
proof -
  let ?c = "config (dma s)" let ?d = "cursor_done s" let ?n = "chunk ?c ?d"
  from mid have less: "?d < unat (cfg_len ?c)" and cur0: "sg_cursor ?c (current (dma s)) ?d"
    by (simp_all add: mid_run_def)
  have c': "config (dma t) = ?c" using st by (simp add: same_setup_def)
  have n: "0 < ?n" "?d + ?n \<le> unat (cfg_len ?c)" using chunk_bounds less by simp_all
  have d': "cursor_done t = ?d + ?n" "remaining t = unat (cfg_len ?c) - (?d + ?n)"
    using cursor_done_eq [of t "?d + ?n"] cur c' by simp_all
  have fin: "len_left (current (dma t)) = 0 \<longleftrightarrow> ?d + ?n = unat (cfg_len ?c)"
    by (rule cursor_finished_iff [OF cur])
  note rem = cursor_done_eq(2) [OF cur0]
  show "cursor_done t = ?d + ?n" by (rule d'(1))
  show "mid_run H v t" if "len_left (current (dma t)) \<noteq> 0"
    using that mid cur c' d' fin n by (simp add: mid_run_def)
  show "remaining t < remaining s" using rem d' n less by simp
  show "remaining s \<le> 4096" if "len_left (current (dma t)) = 0"
    using that fin rem by (simp add: chunk_def)
qed

lemma send_post_step:
  assumes mid: "mid_run H v s" and body: "transfer_body H s = Inr (b, t)"
  shows "b \<longleftrightarrow> len_left (current (dma t)) \<noteq> 0" "remaining t < remaining s"
    "b \<Longrightarrow> mid_run H v t"
    "b \<Longrightarrow> send_post v t u \<Longrightarrow> send_post v s u"
    "\<not> b \<Longrightarrow> send_post v s t"
proof -
  let ?c = "config (dma s)" let ?d = "cursor_done s" let ?n = "chunk ?c ?d"
  from mid have less: "?d < unat (cfg_len ?c)" and cur: "sg_cursor ?c (current (dma s)) ?d"
    by (simp_all add: mid_run_def)
  have t: "b \<longleftrightarrow> len_left (current (dma t)) \<noteq> 0"
    "same_setup s t" "ram v (env t) = ram v (env s)" "inb v (env t) = inb v (env s)"
    "outb v (env t) = outb v (env s) @ page_frame (sg_bytes ?c (ram v (env s)) ?d ?n)"
    "sg_cursor ?c (current (dma t)) (?d + ?n)"
    using body by (auto intro: transfer_step [OF mid])
  have c': "config (dma t) = ?c" using t(2) by (simp add: same_setup_def)
  note nx = mid_next [OF mid t(2,6)]
  have rt: "remaining t = unat (cfg_len ?c) - (?d + ?n)"
    using cursor_done_eq(2) [of t "?d + ?n"] t(6) c' by simp
  note fr = frames_sg_bytes [OF less, of "ram v (env s)"]
  note rem = cursor_done_eq(2) [OF cur]
  show "b \<longleftrightarrow> len_left (current (dma t)) \<noteq> 0" by (rule t(1))
  show "remaining t < remaining s" by (rule nx(3))
  show "mid_run H v t" if b using that t(1) nx(2) by blast
  show "send_post v s u" if "b" "send_post v t u"
    using that t(2-5) c' nx(1) rt rem fr unfolding send_post_def by (auto intro: same_setup_trans)
  show "send_post v s t" if "\<not> b"
  proof -
    have z: "len_left (current (dma t)) = 0" using that t(1) by simp
    then have "frames (sg_bytes ?c (ram v (env s)) ?d (remaining s)) =
        page_frame (sg_bytes ?c (ram v (env s)) ?d ?n)"
      using fr cursor_finished_iff [OF t(6)] rem by (simp add: sg_bytes_def)
    with t(2-5) z show ?thesis unfolding send_post_def by simp
  qed
qed

interpretation send_loop: bounded_loop "transfer_body H" "mid_run H v" remaining "send_post v"
  for H v
  by unfold_locales (metis transfer_step, metis send_post_step, metis send_post_step,
    metis send_post_step)

section \<open>Receiving\<close>

definition mid_receive :: "'w host \<Rightarrow> 'w view \<Rightarrow> 'w PSIPEDevice \<Rightarrow> bool" where
  "mid_receive H v dev \<longleftrightarrow> mid_run H v dev \<and> sg_inj (config (dma dev)) \<and>
     (\<exists>ds rest. inb v (env dev) = frames ds @ rest \<and> length ds = remaining dev)"

definition receive_post :: "'w view \<Rightarrow> 'w PSIPEDevice \<Rightarrow> 'w PSIPEDevice \<Rightarrow> bool" where
  "receive_post v s t \<longleftrightarrow> same_setup s t \<and> len_left (current (dma t)) = 0 \<and>
     outb v (env t) = outb v (env s) \<and>
     (\<forall>ds rest. inb v (env s) = frames ds @ rest \<longrightarrow> length ds = remaining s \<longrightarrow>
        inb v (env t) = rest \<and>
        sg_written (config (dma s)) (ram v (env s)) (ram v (env t)) (cursor_done s) ds)"

lemma rx_page_proxy:
  assumes H: "host_contract H v" and n: "bs \<noteq> []" "length bs \<le> 4096"
    and inb: "inb v (env dev) = page_frame bs @ rest"
  obtains w where "psipe_proxy_rx_page H dev = Inr (int (length bs),
      dev\<lparr>env := w, dma := (dma dev)\<lparr>buff := blit (buff (dma dev)) 0 bs\<rparr>\<rparr>)"
    "ram v w = ram v (env dev)" "inb v w = rest" "outb v w = outb v (env dev)"
proof -
  let ?hd = "enc_int (int (length bs))"
  have i1: "inb v (env dev) = ?hd @ bs @ rest" using inb by (simp add: page_frame_def)
  have "4 \<le> length (inb v (env dev))" by (simp add: i1 plen.enc_length)
  then obtain w1 where w1: "sock_recv H (env dev) (psipe_proxy_endpoint dev) 4 = Some (4, ?hd, w1)"
    "ram v w1 = ram v (env dev)" "inb v w1 = bs @ rest" "outb v w1 = outb v (env dev)"
    using recv_contract [OF H, of 4 "env dev" "psipe_proxy_endpoint dev"]
    by (auto simp: i1 plen.codec_simps)
  have l: "sint (recv_into 4 ?hd (0 :: u32)) = int (length bs)"
    using plen.dec_enc [of "int (length bs)"] n
    by (simp add: recv_into_full plen.enc_length dec_int_def)
  have u: "unat (u64_of_int (int (length bs))) = length bs"
    using n by (simp only: u64_of_int_nat) (rule unat_of_nat_u64, simp)
  obtain w where w: "sock_recv H w1 (psipe_proxy_endpoint dev) (length bs) =
      Some (int (length bs), bs, w)" "ram v w = ram v w1" "inb v w = rest" "outb v w = outb v w1"
    using recv_contract [OF H, of "length bs" w1 "psipe_proxy_endpoint dev"] n w1(3) by auto
  have "psipe_proxy_rx_page H dev = Inr (int (length bs),
      dev\<lparr>env := w, dma := (dma dev)\<lparr>buff := blit (buff (dma dev)) 0 bs\<rparr>\<rparr>)"
    unfolding psipe_proxy_rx_page_def Let_def w1(1) option.case prod.case l u
    using n w(1) by (simp add: PSIPE_HW_DMA_AREA_SIZE_def)
  with w w1 show ?thesis using that by auto
qed

lemma receive_step:
  assumes run: "mid_run H v s" and inj: "sg_inj (config (dma s))"
    and inb: "inb v (env s) = page_frame bs @ rest"
    and len: "length bs = chunk (config (dma s)) (cursor_done s)"
  obtains t where "receive_body H s = Inr (len_left (current (dma t)) \<noteq> 0, t)"
    "same_setup s t" "inb v (env t) = rest" "outb v (env t) = outb v (env s)"
    "sg_written (config (dma s)) (ram v (env s)) (ram v (env t)) (cursor_done s) bs"
    "sg_cursor (config (dma s)) (current (dma t)) (cursor_done s + length bs)"
proof -
  let ?c = "config (dma s)" let ?d = "cursor_done s" let ?n = "chunk ?c ?d"
  have H: "host_contract H v" and wf: "sg_wf ?c" and cur: "sg_cursor ?c (current (dma s)) ?d"
    and less: "?d < unat (cfg_len ?c)"
    using run by (simp_all add: mid_run_def)
  have n: "0 < ?n" "?n \<le> 4096" using chunk_bounds less by blast+
  then have b: "bs \<noteq> []" "length bs \<le> 4096" using len by auto
  obtain w where w: "psipe_proxy_rx_page H s = Inr (int (length bs),
      s\<lparr>env := w, dma := (dma s)\<lparr>buff := blit (buff (dma s)) 0 bs\<rparr>\<rparr>)"
    "ram v w = ram v (env s)" "inb v w = rest" "outb v w = outb v (env s)"
    by (rule rx_page_proxy [OF H b inb])
  let ?s = "s\<lparr>env := w, dma := (dma s)\<lparr>buff := blit (buff (dma s)) 0 bs\<rparr>\<rparr>"
  have s': "config (dma ?s) = ?c" "current (dma ?s) = current (dma s)" by simp_all
  obtain w2 c where tx: "psipe_dma_tx_page H ?s (int ?n) =
      Inr (0, ?s\<lparr>env := w2, dma := (dma ?s)\<lparr>current := c\<rparr>\<rparr>)" "tx_result v ?s ?d w2 c"
    using tx_page_ok [of H v ?s ?d] H wf inj cur less unfolding s' by metis
  let ?t = "?s\<lparr>env := w2, dma := (dma ?s)\<lparr>current := c\<rparr>\<rparr>"
  have body: "receive_body H s = Inr (len_left (current (dma ?t)) \<noteq> 0, ?t)"
    using tx(1) by (simp add: receive_body_def w(1) len psipe_dma_is_finished_def)
  have "slice (buff (dma ?s)) 0 ?n = bs" by (simp add: slice_blit_same len)
  with tx(2) w have "sg_written ?c (ram v (env s)) (ram v w2) ?d bs" "inb v w2 = rest"
    "outb v w2 = outb v (env s)" "sg_cursor ?c c (?d + ?n)"
    by (simp_all add: tx_result_def)
  with body len show ?thesis
    by (intro that [of ?t]) (simp_all add: same_setup_def)
qed

lemma frames_take_chunk:
  assumes d: "sg_cursor (config (dma s)) (current (dma s)) (cursor_done s)"
    and less: "cursor_done s < unat (cfg_len (config (dma s)))" and l: "length ds = remaining s"
  shows "length (take 4096 ds) = chunk (config (dma s)) (cursor_done s)" "ds \<noteq> []"
  using cursor_done_eq(2) [OF d] less l by (auto simp: chunk_def)

text \<open>One iteration, for any frames the stream may be split into.\<close>

lemma receive_step_frames:
  assumes mid: "mid_run H v s" and inj: "sg_inj (config (dma s))"
    and es: "inb v (env s) = frames es @ r" "length es = remaining s"
  obtains t where "receive_body H s = Inr (len_left (current (dma t)) \<noteq> 0, t)"
    "same_setup s t" "inb v (env t) = frames (drop 4096 es) @ r" "outb v (env t) = outb v (env s)"
    "sg_written (config (dma s)) (ram v (env s)) (ram v (env t)) (cursor_done s) (take 4096 es)"
    "sg_cursor (config (dma s)) (current (dma t))
       (cursor_done s + chunk (config (dma s)) (cursor_done s))"
    "length (drop 4096 es) = remaining t"
proof -
  let ?c = "config (dma s)" let ?d = "cursor_done s" let ?n = "chunk ?c ?d"
  from mid have less: "?d < unat (cfg_len ?c)" and cur: "sg_cursor ?c (current (dma s)) ?d"
    by (simp_all add: mid_run_def)
  note tk = frames_take_chunk [OF cur less es(2)]
  have "inb v (env s) = page_frame (take 4096 es) @ frames (drop 4096 es) @ r"
    using es(1) frames_step [OF tk(2)] by simp
  from receive_step [OF mid inj this tk(1)] obtain t
    where t: "receive_body H s = Inr (len_left (current (dma t)) \<noteq> 0, t)" "same_setup s t"
      "inb v (env t) = frames (drop 4096 es) @ r" "outb v (env t) = outb v (env s)"
      "sg_written ?c (ram v (env s)) (ram v (env t)) ?d (take 4096 es)"
      "sg_cursor ?c (current (dma t)) (?d + length (take 4096 es))" by metis
  have c: "sg_cursor ?c (current (dma t)) (?d + ?n)" using t(6) tk(1) by simp
  have "config (dma t) = ?c" using t(2) by (simp add: same_setup_def)
  then have "length (drop 4096 es) = remaining t"
    using cursor_done_eq(2) [of t "?d + ?n"] c cursor_done_eq(2) [OF cur] es(2)
    by (auto simp: chunk_def min_def)
  with t c show ?thesis using that by blast
qed

lemma receive_post_stop:
  assumes run: "mid_receive H v s" and stop: "receive_body H s = Inr (False, t)"
  shows "receive_post v s t"
proof -
  from run have mid: "mid_run H v s" and inj: "sg_inj (config (dma s))"
    by (simp_all add: mid_receive_def)
  have "same_setup s t \<and> len_left (current (dma t)) = 0 \<and> outb v (env t) = outb v (env s) \<and>
      inb v (env t) = r \<and>
      sg_written (config (dma s)) (ram v (env s)) (ram v (env t)) (cursor_done s) es"
    if es: "inb v (env s) = frames es @ r" "length es = remaining s" for es r
  proof -
    obtain u where u: "receive_body H s = Inr (len_left (current (dma u)) \<noteq> 0, u)"
      "same_setup s u" "inb v (env u) = frames (drop 4096 es) @ r" "outb v (env u) = outb v (env s)"
      "sg_written (config (dma s)) (ram v (env s)) (ram v (env u)) (cursor_done s) (take 4096 es)"
      "sg_cursor (config (dma s)) (current (dma u))
         (cursor_done s + chunk (config (dma s)) (cursor_done s))"
      by (rule receive_step_frames [OF mid inj es]) blast
    have "u = t" "len_left (current (dma u)) = 0" using u(1) stop by auto
    moreover from this have "length es \<le> 4096"
      using mid_next(4) [OF mid u(2,6)] es(2) by simp
    ultimately show ?thesis using u by simp
  qed
  then show ?thesis using run unfolding receive_post_def mid_receive_def by blast
qed

lemma receive_post_again:
  assumes run: "mid_receive H v s" and again: "receive_body H s = Inr (True, t)"
    and p: "receive_post v t u"
  shows "receive_post v s u"
proof -
  let ?c = "config (dma s)"
  from run have mid: "mid_run H v s" and inj: "sg_inj ?c"
    by (simp_all add: mid_receive_def)
  have "same_setup s u \<and> outb v (env u) = outb v (env s) \<and> inb v (env u) = r \<and>
      sg_written ?c (ram v (env s)) (ram v (env u)) (cursor_done s) es"
    if es: "inb v (env s) = frames es @ r" "length es = remaining s" for es r
  proof -
    obtain t' where t': "receive_body H s = Inr (len_left (current (dma t')) \<noteq> 0, t')"
      "same_setup s t'" "inb v (env t') = frames (drop 4096 es) @ r" "outb v (env t') = outb v (env s)"
      "sg_written ?c (ram v (env s)) (ram v (env t')) (cursor_done s) (take 4096 es)"
      "sg_cursor ?c (current (dma t')) (cursor_done s + chunk ?c (cursor_done s))"
      "length (drop 4096 es) = remaining t'"
      by (rule receive_step_frames [OF mid inj es])
    have t: "t' = t" using t'(1) again by simp
    have l: "length (take 4096 es) = chunk ?c (cursor_done s)"
      using mid es(2) by (intro frames_take_chunk(1)) (simp_all add: mid_run_def)
    have w: "inb v (env u) = r"
      "sg_written ?c (ram v (env t)) (ram v (env u)) (cursor_done s + length (take 4096 es))
         (drop 4096 es)"
      using p t'(2,3,7) mid_next(1) [OF mid t'(2,6)] unfolding receive_post_def t l same_setup_def
      by simp_all
    have "cursor_done s + length es \<le> unat (cfg_len ?c)"
      using mid es(2) cursor_done_eq(2) [of s "cursor_done s"] by (simp add: mid_run_def)
    then have "sg_written ?c (ram v (env s)) (ram v (env u)) (cursor_done s)
        (take 4096 es @ drop 4096 es)"
      using t'(5) w(2) inj unfolding t by (intro sg_written_append) simp_all
    then show ?thesis using w(1) p t'(2,4) unfolding receive_post_def t
      by (auto intro: same_setup_trans)
  qed
  then show ?thesis using run p unfolding receive_post_def mid_receive_def by blast
qed

interpretation receive_loop:
  bounded_loop "receive_body H" "mid_receive H v" remaining "receive_post v" for H v
proof
  fix s t u
  assume run: "mid_receive H v s"
  from run have mid: "mid_run H v s" and inj: "sg_inj (config (dma s))"
    by (simp_all add: mid_receive_def)
  from run obtain ds rest where inb: "inb v (env s) = frames ds @ rest" "length ds = remaining s"
    by (auto simp: mid_receive_def)
  obtain t' where t': "receive_body H s = Inr (len_left (current (dma t')) \<noteq> 0, t')"
    "same_setup s t'" "inb v (env t') = frames (drop 4096 ds) @ rest"
    "sg_cursor (config (dma s)) (current (dma t'))
       (cursor_done s + chunk (config (dma s)) (cursor_done s))"
    "length (drop 4096 ds) = remaining t'"
    by (rule receive_step_frames [OF mid inj inb]) blast
  show "\<exists>b s'. receive_body H s = Inr (b, s')" using t'(1) by blast
  show "mid_receive H v t \<and> remaining t < remaining s" if again: "receive_body H s = Inr (True, t)"
  proof -
    have t: "t' = t" "len_left (current (dma t')) \<noteq> 0" using again t'(1) by auto
    with mid_next [OF mid t'(2,4)] t'(2,3,5) inj show ?thesis
      unfolding mid_receive_def same_setup_def by metis
  qed
  show "receive_post v s u" if "receive_body H s = Inr (True, t)" "receive_post v t u"
    by (rule receive_post_again [OF run that])
  show "receive_post v s t" if "receive_body H s = Inr (False, t)"
    by (rule receive_post_stop [OF run that])
qed

end
