(* ===== verification/Execute.thy ===== *)
theory Execute
  imports PageLoops
begin

text \<open>
  A whole run of the device (\<open>psipe_execute\<close>): the run state around the page loops, the exchange
  of the available length (\<open>SLN\<close> answered by \<open>RLN\<close>) that precedes a transfer, and the interrupt
  that ends it.
\<close>

section \<open>The page loops from an idle device\<close>

text \<open>A device that is configured for a run: the handles describe a non-empty buffer.\<close>

definition configured :: "'w PSIPEDevice \<Rightarrow> bool" where
  "configured dev \<longleftrightarrow> psipe_dma_is_idle dev \<and> sg_wf (config (dma dev)) \<and>
     0 < unat (cfg_len (config (dma dev)))"

definition buffer_len :: "'w PSIPEDevice \<Rightarrow> nat" where
  "buffer_len dev = unat (cfg_len (config (dma dev)))"

definition buffer_bytes :: "'w view \<Rightarrow> 'w PSIPEDevice \<Rightarrow> u8 list" where
  "buffer_bytes v dev = sg_bytes (config (dma dev)) (ram v (env dev)) 0 (buffer_len dev)"

lemma length_buffer_bytes [simp]: "length (buffer_bytes v dev) = buffer_len dev"
  by (simp add: buffer_bytes_def)

text \<open>The device while a run is on.\<close>

definition running :: "'w PSIPEDevice \<Rightarrow> 'w PSIPEDevice" where
  "running dev = dev\<lparr>dma := (psipe_dma_init_current (dma dev))\<lparr>status := DMA_STATUS_EXECUTING\<rparr>\<rparr>"

lemma begin_run_idle:
  "psipe_dma_is_idle dev \<Longrightarrow> psipe_dma_begin_run dev = (0, running dev)"
  by (simp add: psipe_dma_begin_run_def psipe_dma_is_idle_def running_def psipe_dma_init_current_def
      Let_def)

lemma running_simps [simp]:
  "env (running dev) = env dev" "config (dma (running dev)) = config (dma dev)"
  "mode (dma (running dev)) = mode (dma dev)" "irq (running dev) = irq dev"
  "proxy (running dev) = proxy dev" "mmio_size (running dev) = mmio_size dev"
  by (simp_all add: running_def psipe_dma_init_current_def)

lemma running_cursor:
  assumes "configured dev"
  shows "sg_cursor (config (dma dev)) (current (dma (running dev))) 0"
    "cursor_done (running dev) = 0" "remaining (running dev) = buffer_len dev"
proof -
  show c: "sg_cursor (config (dma dev)) (current (dma (running dev))) 0"
    using cursor_start [of "config (dma dev)"] assms
    by (simp add: configured_def running_def psipe_dma_init_current_def)
  show "cursor_done (running dev) = 0" "remaining (running dev) = buffer_len dev"
    using cursor_done_eq [of "running dev" 0] c by (simp_all add: buffer_len_def)
qed

lemma running_mid:
  assumes "host_contract H v" "configured dev" shows "mid_run H v (running dev)"
  using assms running_cursor [OF assms(2)] by (simp add: mid_run_def configured_def)

text \<open>What a run leaves unchanged, and the state it ends in.\<close>

definition run_over :: "'w PSIPEDevice \<Rightarrow> 'w PSIPEDevice \<Rightarrow> bool" where
  "run_over s t \<longleftrightarrow> psipe_dma_is_idle t \<and> psipe_dma_is_finished t \<and>
     config (dma t) = config (dma s) \<and> mode (dma t) = mode (dma s) \<and> proxy t = proxy s \<and>
     mmio_size t = mmio_size s"

lemma end_run_frame [simp]:
  "env (psipe_dma_end_run t) = env t" "irq (psipe_dma_end_run t) = irq t"
  by (simp_all add: psipe_dma_end_run_def)

lemma run_over_end:
  assumes "same_setup (running s) t" "len_left (current (dma t)) = 0"
  shows "run_over s (psipe_dma_end_run t)" "irq t = irq s"
  using assms
  by (simp_all add: run_over_def same_setup_def psipe_dma_end_run_def psipe_dma_is_idle_def
      psipe_dma_is_finished_def)

lemma transfer_pages_ok:
  assumes H: "host_contract H v" and c: "configured s" and fuel: "buffer_len s < fuel"
  obtains t where "psipe_transfer_pages fuel H s = Inr t" "run_over s t" "irq t = irq s"
    "ram v (env t) = ram v (env s)" "inb v (env t) = inb v (env s)"
    "outb v (env t) = outb v (env s) @ frames (buffer_bytes v s)"
proof -
  have idle: "psipe_dma_is_idle s" using c by (simp add: configured_def)
  obtain t where t: "do_while fuel (transfer_body H) (running s) = Inr t"
    "send_post v (running s) t"
    using send_loop.loop_total [OF running_mid [OF H c], of fuel] fuel running_cursor(3) [OF c]
    by auto
  have "psipe_transfer_pages fuel H s = Inr (psipe_dma_end_run t)"
    by (simp add: psipe_transfer_pages_def begin_run_idle [OF idle] t(1))
  moreover note run_over_end [of s t]
  ultimately show ?thesis
    using t(2) running_cursor [OF c] that [of "psipe_dma_end_run t"]
    by (simp add: send_post_def buffer_bytes_def)
qed

lemma receive_pages_ok:
  assumes H: "host_contract H v" and c: "configured s" and inj: "sg_inj (config (dma s))"
    and fuel: "buffer_len s < fuel"
    and inb: "inb v (env s) = frames ds @ rest" and len: "length ds = buffer_len s"
  obtains t where "psipe_receive_pages fuel H s = Inr t" "run_over s t" "irq t = irq s"
    "inb v (env t) = rest" "outb v (env t) = outb v (env s)"
    "sg_written (config (dma s)) (ram v (env s)) (ram v (env t)) 0 ds"
proof -
  have idle: "psipe_dma_is_idle s" using c by (simp add: configured_def)
  note cur = running_cursor [OF c]
  have "mid_receive H v (running s)"
    using running_mid [OF H c] inj inb len cur by (auto simp: mid_receive_def)
  from receive_loop.loop_total [OF this, of fuel] fuel cur(3)
  obtain t where t: "do_while fuel (receive_body H) (running s) = Inr t"
    "receive_post v (running s) t" by auto
  have "psipe_receive_pages fuel H s = Inr (psipe_dma_end_run t)"
    by (simp add: psipe_receive_pages_def begin_run_idle [OF idle] t(1))
  moreover note run_over_end [of s t]
  ultimately show ?thesis
    using t(2) cur inb len that [of "psipe_dma_end_run t"]
    by (simp add: receive_post_def)
qed

section \<open>Requests\<close>

text \<open>The socket of the connection, as \<^verbatim>\<open>FD_SET\<close> needs it.\<close>

definition connected :: "'w PSIPEDevice \<Rightarrow> bool" where
  "connected dev \<longleftrightarrow> 0 \<le> psipe_proxy_endpoint dev \<and> psipe_proxy_endpoint dev < 1024"

lemma endpoint_frame [simp]:
  "psipe_proxy_endpoint (dev\<lparr>env := w\<rparr>) = psipe_proxy_endpoint dev"
  "psipe_proxy_endpoint (dev\<lparr>dma := m\<rparr>) = psipe_proxy_endpoint dev"
  by (simp_all add: psipe_proxy_endpoint_def)

lemma wait_req_ok:
  assumes H: "host_contract H v" and c: "connected s" and inb: "inb v (env s) = enc_req r @ rest"
  obtains w where "psipe_proxy_wait_req H s = Inr (r, s\<lparr>env := w\<rparr>)"
    "ram v w = ram v (env s)" "inb v w = rest" "outb v w = outb v (env s)"
proof -
  have ne: "inb v (env s) \<noteq> []" "4 \<le> length (inb v (env s))"
    using inb req.enc_length [of r] by auto
  obtain w where w: "sock_recv H (env s) (psipe_proxy_endpoint s) 4 =
      Some (4, take 4 (inb v (env s)), w)" "ram v w = ram v (env s)"
    "inb v w = drop 4 (inb v (env s))" "outb v w = outb v (env s)"
    using recv_contract [OF H, of 4 "env s" "psipe_proxy_endpoint s"] ne by auto
  have "psipe_proxy_wait_req H s = Inr (r, s\<lparr>env := w\<rparr>)"
    using c ne w(1) by (simp add: psipe_proxy_wait_req_def connected_def Let_def not_le
        select_contract [OF H] inb req.codec_simps recv_into_full
        req.dec_enc [simplified])
  with w show ?thesis using that by (simp add: inb req.codec_simps)
qed

text \<open>On an empty stream the wait never returns.\<close>

lemma wait_req_blocks:
  assumes "host_contract H v" "connected s" "inb v (env s) = []"
  shows "psipe_proxy_wait_req H s = Inl Blocked"
  using assms by (simp add: psipe_proxy_wait_req_def connected_def Let_def not_le
      select_contract [OF assms(1)])

text \<open>The loop skips the requests it does not wait for.\<close>

definition skipped :: "u32 \<Rightarrow> u32 list \<Rightarrow> bool" where
  "skipped r rs \<longleftrightarrow> (\<forall>q \<in> set rs. q \<noteq> r \<and> q \<noteq> word_of_int PSIPE_FAILURE)"

lemma await_loop_ok:
  assumes H: "host_contract H v" and sk: "skipped r rs" and fuel: "length rs < fuel"
    and c: "connected s" and inb: "inb v (env s) = concat (map enc_req rs) @ enc_req r @ rest"
  shows "\<exists>w. do_while fuel (await_body H r) (q, s) = Inr (r, s\<lparr>env := w\<rparr>) \<and>
     ram v w = ram v (env s) \<and> inb v w = rest \<and> outb v w = outb v (env s)"
  using sk fuel c inb
proof (induction rs arbitrary: fuel q s)
  case Nil
  then obtain n where n: "fuel = Suc n" by (cases fuel) auto
  obtain w where w: "psipe_proxy_wait_req H s = Inr (r, s\<lparr>env := w\<rparr>)"
    "ram v w = ram v (env s)" "inb v w = rest" "outb v w = outb v (env s)"
    using wait_req_ok [OF H Nil.prems(3)] Nil.prems(4) by auto
  then show ?case by (auto simp: n await_body_def)
next
  case (Cons a rs)
  then obtain n where n: "fuel = Suc n" "length rs < n" by (cases fuel) auto
  have a: "a \<noteq> r" "a \<noteq> word_of_int PSIPE_FAILURE" "skipped r rs"
    using Cons.prems(1) by (auto simp: skipped_def)
  obtain w where w: "psipe_proxy_wait_req H s = Inr (a, s\<lparr>env := w\<rparr>)"
    "ram v w = ram v (env s)" "inb v w = concat (map enc_req rs) @ enc_req r @ rest"
    "outb v w = outb v (env s)"
    using wait_req_ok [OF H Cons.prems(3)] Cons.prems(4) by auto
  have "connected (s\<lparr>env := w\<rparr>)" using Cons.prems(3) by (simp add: connected_def)
  from Cons.IH [OF a(3) n(2) this, of a] w(2-4) obtain w'
    where "do_while n (await_body H r) (a, s\<lparr>env := w\<rparr>) = Inr (r, s\<lparr>env := w'\<rparr>)"
      "ram v w' = ram v (env s)" "inb v w' = rest" "outb v w' = outb v (env s)" by auto
  then show ?case using w(1) a by (auto simp: n await_body_def)
qed

lemma issue_req_ok:
  assumes "host_contract H v"
  obtains w where "psipe_proxy_issue_req H s r = (0, s\<lparr>env := w\<rparr>)" "ram v w = ram v (env s)"
    "inb v w = inb v (env s)" "outb v w = outb v (env s) @ enc_req r"
proof -
  obtain w where "sock_send H (env s) (psipe_proxy_endpoint s) (enc_req r) =
      (int (length (enc_req r)), w)" "ram v w = ram v (env s)" "inb v w = inb v (env s)"
    "outb v w = outb v (env s) @ enc_req r" by (rule send_contract [OF assms])
  then show ?thesis using that by (simp add: psipe_proxy_issue_req_def)
qed

text \<open>Answering a request for the available length, and taking the answer.\<close>

lemma handle_SLN_ok:
  assumes H: "host_contract H v"
  obtains w where "psipe_proxy_handle_req ex H s PSIPE_REQ_SLN = Inr (0, s\<lparr>env := w\<rparr>)"
    "ram v w = ram v (env s)" "inb v w = inb v (env s)"
    "outb v w = outb v (env s) @ enc_req PSIPE_REQ_RLN @ enc_len (len_avail (config (dma s)))"
proof -
  obtain w1 where w1: "psipe_proxy_issue_req H s PSIPE_REQ_RLN = (0, s\<lparr>env := w1\<rparr>)"
    "ram v w1 = ram v (env s)" "inb v w1 = inb v (env s)"
    "outb v w1 = outb v (env s) @ enc_req PSIPE_REQ_RLN" by (rule issue_req_ok [OF H])
  let ?l = "enc_len (len_avail (config (dma s)))"
  obtain w where w: "sock_send H w1 (psipe_proxy_endpoint s) ?l = (int (length ?l), w)"
    "ram v w = ram v w1" "inb v w = inb v w1" "outb v w = outb v w1 @ ?l"
    by (rule send_contract [OF H])
  have "psipe_proxy_handle_req ex H s PSIPE_REQ_SLN = Inr (0, s\<lparr>env := w\<rparr>)"
    using w1(1) w(1) by (simp add: psipe_proxy_handle_req_def Let_def PSIPE_REQ_SYN_def
        PSIPE_REQ_RST_def PSIPE_REQ_SLN_def)
  with w w1 show ?thesis using that by simp
qed

lemma handle_RLN_ok:
  assumes H: "host_contract H v" and inb: "inb v (env s) = enc_len l @ rest"
  obtains w where "psipe_proxy_handle_req ex H s PSIPE_REQ_RLN =
      Inr (0, set_len_avail (s\<lparr>env := w\<rparr>) l)"
    "ram v w = ram v (env s)" "inb v w = rest" "outb v w = outb v (env s)"
proof -
  have ne: "8 \<le> length (inb v (env s))" using inb avail.enc_length [of l] by auto
  obtain w where w: "sock_recv H (env s) (psipe_proxy_endpoint s) 8 =
      Some (8, take 8 (inb v (env s)), w)" "ram v w = ram v (env s)"
    "inb v w = drop 8 (inb v (env s))" "outb v w = outb v (env s)"
    using recv_contract [OF H, of 8 "env s" "psipe_proxy_endpoint s"] ne by auto
  have "psipe_proxy_handle_req ex H s PSIPE_REQ_RLN = Inr (0, set_len_avail (s\<lparr>env := w\<rparr>) l)"
    using w(1) by (simp add: psipe_proxy_handle_req_def Let_def req_defs inb
        avail.codec_simps recv_into_full avail.dec_enc [simplified])
  with w show ?thesis using that by (simp add: inb avail.codec_simps)
qed

section \<open>A run\<close>

text \<open>
  The active side: the frames of the buffer go out and the interrupt is raised. The passive side:
  waits for the request for its available length, answers it, stores the frames that follow.
\<close>

lemma set_len_avail_simps [simp]:
  "env (set_len_avail d l) = env d" "irq (set_len_avail d l) = irq d"
  "proxy (set_len_avail d l) = proxy d" "mmio_size (set_len_avail d l) = mmio_size d"
  "status (dma (set_len_avail d l)) = status (dma d)"
  "mode (dma (set_len_avail d l)) = mode (dma d)"
  "config (dma (set_len_avail d l)) = (config (dma d))\<lparr>len_avail := l\<rparr>"
  by (simp_all add: set_len_avail_def)

lemma run_over_frame [simp]:
  "run_over (s\<lparr>env := w\<rparr>) t \<longleftrightarrow> run_over s t"
  "run_over s (psipe_irq_raise H t n) \<longleftrightarrow> run_over s t"
  by (simp_all add: run_over_def psipe_dma_is_idle_def psipe_dma_is_finished_def)

lemma configured_env [simp]:
  "configured (s\<lparr>env := w\<rparr>) = configured s" "buffer_len (s\<lparr>env := w\<rparr>) = buffer_len s"
  by (simp_all add: configured_def buffer_len_def psipe_dma_is_idle_def)

text \<open>The interrupt flag of the vector, wherever the device keeps it.\<close>

definition work_ended :: "'w host \<Rightarrow> 'w PSIPEDevice \<Rightarrow> bool" where
  "work_ended H d \<longleftrightarrow> psipe_irq_check H d PSIPE_HW_IRQ_WORK_ENDED_VECTOR \<noteq> 0"

lemma raise_work_ended:
  "msi_stable H \<Longrightarrow> work_ended H (psipe_irq_raise H d PSIPE_HW_IRQ_WORK_ENDED_VECTOR)"
  by (auto simp: work_ended_def irq_defs msi_stable_def PSIPE_IRQ_MAX_VECS_def
      PSIPE_HW_IRQ_WORK_ENDED_VECTOR_def)

lemma lower_work_ended:
  "msi_stable H \<Longrightarrow> \<not> work_ended H (psipe_irq_lower H d PSIPE_HW_IRQ_WORK_ENDED_VECTOR)"
  by (auto simp: work_ended_def irq_defs msi_stable_def PSIPE_IRQ_MAX_VECS_def
      PSIPE_HW_IRQ_WORK_ENDED_VECTOR_def)

lemma execute_active:
  assumes H: "host_contract H v" and st: "msi_stable H" and c: "configured s"
    and m: "mode (dma s) = DMA_MODE_ACTIVE" and fuel: "Suc (buffer_len s) < fuel"
  obtains t where "psipe_execute fuel H s = Inr t" "run_over s t" "work_ended H t"
    "ram v (env t) = ram v (env s)" "inb v (env t) = inb v (env s)"
    "outb v (env t) = outb v (env s) @ frames (buffer_bytes v s)"
proof -
  obtain n where n: "fuel = Suc n" "buffer_len s < n" using fuel by (cases fuel) auto
  obtain t where t: "psipe_transfer_pages n H s = Inr t" "run_over s t"
    "ram v (env t) = ram v (env s)" "inb v (env t) = inb v (env s)"
    "outb v (env t) = outb v (env s) @ frames (buffer_bytes v s)"
    using transfer_pages_ok [OF H c n(2)] by metis
  let ?t = "psipe_irq_raise H t PSIPE_HW_IRQ_WORK_ENDED_VECTOR"
  have "psipe_execute fuel H s = Inr ?t" by (simp add: n(1) psipe_execute.simps m t(1))
  then show ?thesis
    using t(2-5) that [of ?t] raise_work_ended [OF st] irq_raise_env [OF H] by simp
qed

lemma await_SLN_ok:
  assumes H: "host_contract H v" and sk: "skipped PSIPE_REQ_SLN rs" and fuel: "length rs < fuel"
    and c: "connected s"
    and inb: "inb v (env s) = concat (map enc_req rs) @ enc_req PSIPE_REQ_SLN @ rest"
  obtains w where "psipe_proxy_await_req fuel ex H s PSIPE_REQ_SLN = Inr (0, s\<lparr>env := w\<rparr>)"
    "ram v w = ram v (env s)" "inb v w = rest"
    "outb v w = outb v (env s) @ enc_req PSIPE_REQ_RLN @ enc_len (len_avail (config (dma s)))"
proof -
  obtain w1 where w1: "do_while fuel (await_body H PSIPE_REQ_SLN) (PSIPE_REQ_NIL, s) =
      Inr (PSIPE_REQ_SLN, s\<lparr>env := w1\<rparr>)" "ram v w1 = ram v (env s)" "inb v w1 = rest"
    "outb v w1 = outb v (env s)"
    using await_loop_ok [OF H sk fuel c inb] by metis
  obtain w where w: "psipe_proxy_handle_req ex H (s\<lparr>env := w1\<rparr>) PSIPE_REQ_SLN =
      Inr (0, s\<lparr>env := w\<rparr>)" "ram v w = ram v w1" "inb v w = inb v w1"
    "outb v w = outb v w1 @ enc_req PSIPE_REQ_RLN @ enc_len (len_avail (config (dma s)))"
    using handle_SLN_ok [OF H, of ex "s\<lparr>env := w1\<rparr>"] by auto
  have "psipe_proxy_await_req fuel ex H s PSIPE_REQ_SLN = Inr (0, s\<lparr>env := w\<rparr>)"
    by (simp add: psipe_proxy_await_req_def w1(1) w(1))
  then show ?thesis using that [of w] w w1 by simp
qed

lemma execute_passive:
  assumes H: "host_contract H v" and st: "msi_stable H" and c: "configured s"
    and inj: "sg_inj (config (dma s))" and con: "connected s"
    and m: "mode (dma s) = DMA_MODE_PASSIVE"
    and fuel: "Suc (buffer_len s + length rs) < fuel"
    and sk: "skipped PSIPE_REQ_SLN rs"
    and inb: "inb v (env s) =
      concat (map enc_req rs) @ enc_req PSIPE_REQ_SLN @ frames ds @ rest"
    and len: "length ds = buffer_len s"
  obtains t where "psipe_execute fuel H s = Inr t" "run_over s t" "work_ended H t"
    "sg_written (config (dma s)) (ram v (env s)) (ram v (env t)) 0 ds" "inb v (env t) = rest"
    "outb v (env t) = outb v (env s) @ enc_req PSIPE_REQ_RLN @ enc_len (len_avail (config (dma s)))"
proof -
  obtain n where n: "fuel = Suc n" "buffer_len s < n" "length rs < n"
    using fuel by (cases fuel) auto
  obtain w where w: "psipe_proxy_await_req n (\<lambda>d. psipe_execute n H d) H s PSIPE_REQ_SLN =
      Inr (0, s\<lparr>env := w\<rparr>)" "ram v w = ram v (env s)" "inb v w = frames ds @ rest"
    "outb v w = outb v (env s) @ enc_req PSIPE_REQ_RLN @ enc_len (len_avail (config (dma s)))"
    by (rule await_SLN_ok [OF H sk n(3) con inb])
  obtain t where t: "psipe_receive_pages n H (s\<lparr>env := w\<rparr>) = Inr t" "run_over s t"
    "inb v (env t) = rest" "outb v (env t) = outb v w"
    "sg_written (config (dma s)) (ram v w) (ram v (env t)) 0 ds"
    using receive_pages_ok [OF H, of "s\<lparr>env := w\<rparr>" n ds rest] c inj n(2) w(3) len by auto
  let ?t = "psipe_irq_raise H t PSIPE_HW_IRQ_WORK_ENDED_VECTOR"
  have "psipe_execute fuel H s = Inr ?t"
    by (simp add: n(1) psipe_execute.simps m w(1) t(1))
  then show ?thesis
    using t(2-5) w that [of ?t] raise_work_ended [OF st] irq_raise_env [OF H] by simp
qed

text \<open>The active side's question: \<open>SLN\<close> goes out, the answer sets the available length.\<close>

lemma ask_len_ok:
  assumes H: "host_contract H v" and fuel: "0 < fuel" and con: "connected s"
    and inb: "inb v (env s) = enc_req PSIPE_REQ_RLN @ enc_len l @ rest"
  obtains w where "psipe_proxy_await_req fuel ex H (snd (psipe_proxy_issue_req H s PSIPE_REQ_SLN))
      PSIPE_REQ_RLN = Inr (0, set_len_avail (s\<lparr>env := w\<rparr>) l)"
    "ram v w = ram v (env s)" "inb v w = rest" "outb v w = outb v (env s) @ enc_req PSIPE_REQ_SLN"
proof -
  obtain w1 where w1: "psipe_proxy_issue_req H s PSIPE_REQ_SLN = (0, s\<lparr>env := w1\<rparr>)"
    "ram v w1 = ram v (env s)" "inb v w1 = inb v (env s)"
    "outb v w1 = outb v (env s) @ enc_req PSIPE_REQ_SLN" by (rule issue_req_ok [OF H])
  have "connected (s\<lparr>env := w1\<rparr>)" using con by (simp add: connected_def)
  then obtain w2 where w2: "do_while fuel (await_body H PSIPE_REQ_RLN) (PSIPE_REQ_NIL, s\<lparr>env := w1\<rparr>) =
      Inr (PSIPE_REQ_RLN, s\<lparr>env := w2\<rparr>)" "ram v w2 = ram v w1" "inb v w2 = enc_len l @ rest"
    "outb v w2 = outb v w1"
    using await_loop_ok [OF H, of PSIPE_REQ_RLN "[]" fuel "s\<lparr>env := w1\<rparr>" "enc_len l @ rest"]
      fuel inb w1(3) by (auto simp: skipped_def)
  obtain w where w: "psipe_proxy_handle_req ex H (s\<lparr>env := w2\<rparr>) PSIPE_REQ_RLN =
      Inr (0, set_len_avail (s\<lparr>env := w\<rparr>) l)" "ram v w = ram v w2" "inb v w = rest"
    "outb v w = outb v w2"
    using handle_RLN_ok [OF H, of "s\<lparr>env := w2\<rparr>" l rest ex] w2(3) by auto
  have "psipe_proxy_await_req fuel ex H (snd (psipe_proxy_issue_req H s PSIPE_REQ_SLN))
      PSIPE_REQ_RLN = Inr (0, set_len_avail (s\<lparr>env := w\<rparr>) l)"
    by (simp add: psipe_proxy_await_req_def w1(1) w2(1) w(1))
  then show ?thesis using that [of w] w w1 w2 by simp
qed

end
