(* ===== verification/Linux.thy ===== *)
theory Linux
  imports Regs
begin

text \<open>
  What the kernel module calls outside its own sources. The Linux functions are parameters: each
  is a function of the calls made so far, so that nothing is assumed about their results. Every
  call the module makes is appended to a trace; the resource theorems are about that trace. The
  device is reached through \<open>bus\<close>, the two MMIO accessors, on an unknown device state \<open>'d\<close>.
\<close>

section \<open>Error numbers\<close>

definition EIO :: int where "EIO = 5"
definition ENXIO :: int where "ENXIO = 6"
definition EAGAIN :: int where "EAGAIN = 11"
definition ENOMEM :: int where "ENOMEM = 12"
definition EFAULT :: int where "EFAULT = 14"
definition EINVAL :: int where "EINVAL = 22"
definition ENOTTY :: int where "ENOTTY = 25"
definition ENOSPC :: int where "ENOSPC = 28"
definition EMSGSIZE :: int where "EMSGSIZE = 90"

lemmas errno_defs =
  EIO_def ENXIO_def EAGAIN_def ENOMEM_def EFAULT_def EINVAL_def ENOTTY_def ENOSPC_def EMSGSIZE_def

section \<open>The structures of psipe\_module.h and psipe\_ioctl.h\<close>

definition PSIPE_MODE_ACTIVE :: int where "PSIPE_MODE_ACTIVE = 1"
definition PSIPE_MODE_PASSIVE :: int where "PSIPE_MODE_PASSIVE = 0"
definition PSIPE_MODE_OFF :: int where "PSIPE_MODE_OFF = -1"

lemmas kmode_defs = PSIPE_MODE_ACTIVE_def PSIPE_MODE_PASSIVE_def PSIPE_MODE_OFF_def

text \<open>The \<^verbatim>\<open>_IOW\<close> and \<^verbatim>\<open>_IO\<close> codes: direction, size, magic and number of the request.\<close>

definition ioc :: "u32 \<Rightarrow> u32 \<Rightarrow> u32 \<Rightarrow> u32" where
  "ioc dir sz nr = push_bit 30 dir OR push_bit 16 sz OR push_bit 8 0xe1 OR nr"

definition PSIPE_IOCTL_SEND :: u32 where "PSIPE_IOCTL_SEND = ioc 1 8 1"
definition PSIPE_IOCTL_RECV :: u32 where "PSIPE_IOCTL_RECV = ioc 1 8 2"
definition PSIPE_IOCTL_WAIT :: u32 where "PSIPE_IOCTL_WAIT = ioc 1 8 3"
definition PSIPE_IOCTL_FLUSH :: u32 where "PSIPE_IOCTL_FLUSH = ioc 0 0 4"

lemmas ioctl_defs =
  PSIPE_IOCTL_SEND_def PSIPE_IOCTL_RECV_def PSIPE_IOCTL_WAIT_def PSIPE_IOCTL_FLUSH_def ioc_def

lemma ioctl_codes [simp]:
  "PSIPE_IOCTL_SEND \<noteq> PSIPE_IOCTL_RECV" "PSIPE_IOCTL_SEND \<noteq> PSIPE_IOCTL_WAIT"
  "PSIPE_IOCTL_SEND \<noteq> PSIPE_IOCTL_FLUSH" "PSIPE_IOCTL_RECV \<noteq> PSIPE_IOCTL_WAIT"
  "PSIPE_IOCTL_RECV \<noteq> PSIPE_IOCTL_FLUSH" "PSIPE_IOCTL_WAIT \<noteq> PSIPE_IOCTL_FLUSH"
  "PSIPE_IOCTL_RECV \<noteq> PSIPE_IOCTL_SEND" "PSIPE_IOCTL_WAIT \<noteq> PSIPE_IOCTL_SEND"
  "PSIPE_IOCTL_FLUSH \<noteq> PSIPE_IOCTL_SEND" "PSIPE_IOCTL_WAIT \<noteq> PSIPE_IOCTL_RECV"
  "PSIPE_IOCTL_FLUSH \<noteq> PSIPE_IOCTL_RECV" "PSIPE_IOCTL_FLUSH \<noteq> PSIPE_IOCTL_WAIT"
  by (simp_all add: ioctl_defs)

record psipe_data =
  data_addr :: u64
  data_len :: u64

datatype dma_data_direction = DMA_BIDIRECTIONAL | DMA_TO_DEVICE | DMA_FROM_DEVICE | DMA_NONE

text \<open>
  \<^verbatim>\<open>struct psipe_dma\<close>. The page array and the scatter table are kept as the DMA addresses the
  mapping gave their entries.
\<close>

record psipe_dma =
  dma_mode :: int
  direction :: dma_data_direction
  sgl :: "u64 list"
  dma_npages :: u64
  nmapped :: u64
  dma_addr :: u64
  dma_len :: u64

datatype ioctl_fn = psipe_ioctl_send_fn | psipe_ioctl_recv_fn

record psipe_op =
  nwaiting :: int
  flag :: int
  op_id :: u64
  retval :: int
  op_fn :: ioctl_fn
  op_dma :: psipe_dma

section \<open>Calls\<close>

text \<open>A call with what it was given and, where the module looks at it, what it returned.\<close>

datatype kcall =
    Kmalloc_op
  | Kfree_op u64
  | Copy_from_user u64
  | Kmalloc_array int
  | Kfree_array
  | Pin_user_pages u64 int int
  | Unpin_user_pages int
  | Sg_alloc_table
  | Sg_free_table
  | Dma_map_sg dma_data_direction
  | Dma_unmap_sg dma_data_direction
  | Wake_up_all u64

type_synonym ktrace = "kcall list"

record linux =
  kmalloc_op :: "ktrace \<Rightarrow> psipe_op option"
  copy_from_user :: "ktrace \<Rightarrow> u64 \<Rightarrow> int \<times> psipe_data"
  kmalloc_array :: "ktrace \<Rightarrow> int \<Rightarrow> bool"
  pin_user_pages_fast :: "ktrace \<Rightarrow> u64 \<Rightarrow> int \<Rightarrow> int"
  pin_user_pages :: "ktrace \<Rightarrow> u64 \<Rightarrow> int \<Rightarrow> int"
  sg_alloc_table :: "ktrace \<Rightarrow> int \<Rightarrow> u32 \<Rightarrow> u64 \<Rightarrow> int"
  dma_map_sg :: "ktrace \<Rightarrow> psipe_dma \<Rightarrow> u32 \<times> u64 list"

record 'd bus =
  iowrite32 :: "'d \<Rightarrow> u64 \<Rightarrow> u32 \<Rightarrow> 'd res"
  ioread32 :: "'d \<Rightarrow> u64 \<Rightarrow> (u32 \<times> 'd) res"

section \<open>Resources in a trace\<close>

fun pins_of :: "kcall \<Rightarrow> int" where
  "pins_of (Pin_user_pages a n r) = (if 0 < r then r else 0)"
| "pins_of (Unpin_user_pages n) = - n"
| "pins_of _ = 0"

fun arrays_of :: "kcall \<Rightarrow> int" where
  "arrays_of (Kmalloc_array n) = 1"
| "arrays_of Kfree_array = -1"
| "arrays_of _ = 0"

fun tables_of :: "kcall \<Rightarrow> int" where
  "tables_of Sg_alloc_table = 1"
| "tables_of Sg_free_table = -1"
| "tables_of _ = 0"

definition pinned_pages :: "ktrace \<Rightarrow> int" where
  "pinned_pages tr = sum_list (map pins_of tr)"

definition page_arrays :: "ktrace \<Rightarrow> int" where
  "page_arrays tr = sum_list (map arrays_of tr)"

definition sg_tables :: "ktrace \<Rightarrow> int" where
  "sg_tables tr = sum_list (map tables_of tr)"

lemma resources_append [simp]:
  "pinned_pages (tr @ tr') = pinned_pages tr + pinned_pages tr'"
  "page_arrays (tr @ tr') = page_arrays tr + page_arrays tr'"
  "sg_tables (tr @ tr') = sg_tables tr + sg_tables tr'"
  by (simp_all add: pinned_pages_def page_arrays_def sg_tables_def)

lemma resources_Cons [simp]:
  "pinned_pages (c # tr) = pins_of c + pinned_pages tr"
  "page_arrays (c # tr) = arrays_of c + page_arrays tr"
  "sg_tables (c # tr) = tables_of c + sg_tables tr"
  "pinned_pages [] = 0" "page_arrays [] = 0" "sg_tables [] = 0"
  by (simp_all add: pinned_pages_def page_arrays_def sg_tables_def)

end
