(* ===== verification/Kdma.thy ===== *)
theory Kdma
  imports Linux
begin

text \<open>
  The DMA side of the kernel module (src/src/sw/kernel/psipe\_dma.c): pinning and mapping the pages
  of a user buffer, and programming the device's registers through MMIO. What the module relies
  on when it programs the device is the locale \<open>device_regs\<close>, which the device model
  interprets in theory Mmio.
\<close>

section \<open>Pinning and mapping\<close>

definition PAGE_MASK :: u64 where "PAGE_MASK = NOT 0xFFF"
definition PAGE_SHIFT :: nat where "PAGE_SHIFT = 12"

text \<open>\<^verbatim>\<open>first_page\<close>, \<^verbatim>\<open>last_page\<close> and \<^verbatim>\<open>npages\<close> are \<^verbatim>\<open>int\<close>.\<close>

definition page_count :: "u64 \<Rightarrow> u64 \<Rightarrow> int" where
  "page_count addr len =
     (let first_page = int_of_u64 (drop_bit PAGE_SHIFT (addr AND PAGE_MASK));
          last_page = int_of_u64 (drop_bit PAGE_SHIFT ((addr + len - 1) AND PAGE_MASK))
      in s32 (last_page - first_page + 1))"

definition psipe_dma_pin_pages ::
    "linux \<Rightarrow> ktrace \<Rightarrow> psipe_dma \<Rightarrow> int \<times> ktrace \<times> psipe_dma" where
  "psipe_dma_pin_pages L tr dma =
     (let ofs = (ucast (dma_addr dma AND NOT PAGE_MASK) :: u32);
          npages = page_count (dma_addr dma) (dma_len dma);
          dma = dma\<lparr>dma_npages := u64_of_int npages\<rparr>
      in if npages \<le> 0 \<or> npages > int PSIPE_HW_BAR0_DMA_HANDLES_CNT then (- EMSGSIZE, tr, dma)
         else if \<not> kmalloc_array L tr npages then (- ENOMEM, tr, dma)
         else
           let tr = tr @ [Kmalloc_array npages];
               pinned = pin_user_pages_fast L tr (dma_addr dma) npages;
               tr = tr @ [Pin_user_pages (dma_addr dma) npages pinned];
               retry = (pinned = - EFAULT \<or> pinned = - EAGAIN);
               pinned = (if retry then pin_user_pages L tr (dma_addr dma) npages else pinned);
               tr = (if retry then tr @ [Pin_user_pages (dma_addr dma) npages pinned] else tr)
           in if pinned < 0 then (pinned, tr @ [Kfree_array], dma)
              else if pinned \<noteq> npages then
                (- EFAULT, tr @ [Unpin_user_pages pinned, Kfree_array], dma)
              else
                let rv = sg_alloc_table L tr npages ofs (dma_len dma);
                    tr = tr @ [Sg_alloc_table]
                in if rv < 0 then
                     (rv, tr @ [Sg_free_table, Unpin_user_pages pinned, Kfree_array], dma)
                   else (0, tr, dma))"

definition psipe_dma_map_pages ::
    "linux \<Rightarrow> ktrace \<Rightarrow> psipe_dma \<Rightarrow> int \<times> ktrace \<times> psipe_dma" where
  "psipe_dma_map_pages L tr dma =
     (case dma_map_sg L tr dma of (n, addrs) \<Rightarrow>
        let dma = dma\<lparr>nmapped := ucast n, sgl := addrs\<rparr>
        in (int_of_u64 (nmapped dma), tr @ [Dma_map_sg (direction dma)], dma))"

definition psipe_dma_unmap_pages :: "ktrace \<Rightarrow> psipe_dma \<Rightarrow> ktrace" where
  "psipe_dma_unmap_pages tr dma = tr @ [Dma_unmap_sg (direction dma)]"

definition psipe_dma_unpin_pages :: "ktrace \<Rightarrow> psipe_dma \<Rightarrow> ktrace" where
  "psipe_dma_unpin_pages tr dma =
     tr @ [Unpin_user_pages (int (unat (dma_npages dma))), Kfree_array]"

section \<open>Programming the device\<close>

definition psipe_dma_write_setup ::
    "'d bus \<Rightarrow> 'd \<Rightarrow> psipe_dma \<Rightarrow> int \<Rightarrow> dma_data_direction \<Rightarrow> (psipe_dma \<times> 'd) res" where
  "psipe_dma_write_setup B d dma mode dir =
     (let dma = dma\<lparr>dma_mode := mode, direction := dir\<rparr>
      in bindR (iowrite32 B d PSIPE_HW_BAR0_DMA_CFG_MOD (word_of_int (dma_mode dma)))
           (\<lambda>d. Inr (dma, d)))"

text \<open>The loop over the scatter list; \<open>ofs\<close> is the byte offset of the next handle register.\<close>

fun write_handles :: "'d bus \<Rightarrow> 'd \<Rightarrow> u32 \<Rightarrow> u64 list \<Rightarrow> 'd res" where
  "write_handles B d ofs [] = Inr d"
| "write_handles B d ofs (h # hs) =
     bindR (iowrite32 B d (PSIPE_HW_BAR0_DMA_HANDLES + ucast ofs) (ucast h))
       (\<lambda>d. write_handles B d (ofs + 4) hs)"

definition psipe_dma_write_maps :: "'d bus \<Rightarrow> 'd \<Rightarrow> psipe_dma \<Rightarrow> 'd res" where
  "psipe_dma_write_maps B d dma =
     bindR (iowrite32 B d PSIPE_HW_BAR0_DMA_CFG_LEN (ucast (dma_len dma))) (\<lambda>d.
     bindR (iowrite32 B d PSIPE_HW_BAR0_DMA_CFG_PGS (ucast (nmapped dma))) (\<lambda>d.
       write_handles B d 0 (take (unat (nmapped dma)) (sgl dma))))"

definition psipe_dma_doorbell_ring :: "'d bus \<Rightarrow> 'd \<Rightarrow> 'd res" where
  "psipe_dma_doorbell_ring B d = iowrite32 B d PSIPE_HW_BAR0_DMA_DOORBELL_RING 1"

section \<open>Lemmas on pinning\<close>

lemma ucast_of_nat32: "n < 2 ^ 32 \<Longrightarrow> ucast (of_nat n :: u32) = (of_nat n :: u64)"
proof -
  assume "n < 2 ^ 32"
  then have "take_bit 32 n = n" by (rule take_bit_nat_eq_self)
  then show ?thesis by (simp add: unsigned_of_nat)
qed

lemma trunc32_id: "unat (w :: u64) < 2 ^ 32 \<Longrightarrow> ucast (ucast w :: u32) = w"
  using ucast_of_nat32 [of "unat w"] by simp


lemma PAGE_MASK_shift: "drop_bit PAGE_SHIFT (a AND PAGE_MASK) = drop_bit 12 (a :: u64)"
proof -
  have m: "PAGE_MASK = NOT (mask 12)" by (simp add: PAGE_MASK_def mask_eq_exp_minus_1)
  show ?thesis unfolding m PAGE_SHIFT_def by (rule bit_word_eqI) (auto simp: bit_simps dest: bit_imp_le_length)
qed

text \<open>
  The page numbers of a user address exceed an \<^verbatim>\<open>int\<close>; their difference is right all the same.
\<close>

lemma s32_nat_word: "k < 2 ^ 31 \<Longrightarrow> sint (of_nat k :: u32) = int k"
  using s32_id [of "int k"] by (simp add: s32_def)

lemma page_count_eq:
  assumes l: "0 < unat len" and w: "unat addr + unat len \<le> 2 ^ 64"
    and small: "Suc ((unat addr + unat len - 1) div 4096 - unat addr div 4096) < 2 ^ 31"
  shows "page_count addr len =
     int (Suc ((unat addr + unat len - 1) div 4096 - unat addr div 4096))"
proof -
  have u: "unat (addr + len - 1) = unat addr + unat len - 1"
  proof -
    have "addr + len - 1 = of_nat (unat addr + unat len - 1)"
      using l by (simp add: of_nat_diff)
    then show ?thesis using l w by (simp only:) (rule unat_of_nat_u64, linarith)
  qed
  have db: "(ucast (drop_bit 12 x) :: u32) = of_nat (unat x div 4096)" for x :: u64
  proof -
    have "unat (drop_bit 12 x) = unat x div 4096" by (simp add: drop_bit_eq_div unat_div_distrib)
    then show ?thesis by (metis of_nat_unat)
  qed
  let ?f = "unat addr div 4096" and ?l = "(unat addr + unat len - 1) div 4096"
  have le: "?f \<le> ?l" using l by (intro div_le_mono) linarith
  have "page_count addr len = sint ((of_nat ?l - of_nat ?f + 1) :: u32)"
    unfolding page_count_def Let_def PAGE_MASK_shift int_of_u64_def s32_def db u by simp
  also have "(of_nat ?l - of_nat ?f + 1 :: u32) = of_nat (Suc (?l - ?f))"
    using le by (simp add: of_nat_diff)
  also have "sint (of_nat (Suc (?l - ?f)) :: u32) = int (Suc (?l - ?f))"
    by (rule s32_nat_word [OF small])
  finally show ?thesis .
qed
text \<open>A failed pin leaves nothing behind; a successful one holds the pages, the array, the table.\<close>

lemma pin_pages_resources:
  assumes "psipe_dma_pin_pages L tr d = (rv, tr', d')"
  shows "rv < 0 \<Longrightarrow> pinned_pages tr' = pinned_pages tr \<and> page_arrays tr' = page_arrays tr \<and>
      sg_tables tr' = sg_tables tr"
    and "0 \<le> rv \<Longrightarrow> rv = 0 \<and> pinned_pages tr' = pinned_pages tr + int (unat (dma_npages d')) \<and>
      page_arrays tr' = page_arrays tr + 1 \<and> sg_tables tr' = sg_tables tr + 1 \<and>
      0 < dma_npages d' \<and> unat (dma_npages d') \<le> PSIPE_HW_BAR0_DMA_HANDLES_CNT"
proof -
  define np where "np = page_count (dma_addr d) (dma_len d)"
  have u: "unat (u64_of_int np) = nat np" if "0 < np" "np \<le> 131073"
    using that by (intro unat_u64_of_int) simp_all
  have ui: "uint (u64_of_int np) = np" if "0 < np" "np \<le> 131073"
    using u [OF that] that by (simp add: uint_nat)
  have pos: "0 < u64_of_int np" if "0 < np" "np \<le> 131073"
    using u [OF that] that by (simp add: word_gt_0_no word_greater_zero_iff flip: unat_gt_0)
  show "rv < 0 \<Longrightarrow> pinned_pages tr' = pinned_pages tr \<and> page_arrays tr' = page_arrays tr \<and>
      sg_tables tr' = sg_tables tr"
    using assms unfolding psipe_dma_pin_pages_def Let_def np_def [symmetric]
    by (auto simp: errno_defs split: if_splits)
  show "0 \<le> rv \<Longrightarrow> rv = 0 \<and> pinned_pages tr' = pinned_pages tr + int (unat (dma_npages d')) \<and>
      page_arrays tr' = page_arrays tr + 1 \<and> sg_tables tr' = sg_tables tr + 1 \<and>
      0 < dma_npages d' \<and> unat (dma_npages d') \<le> PSIPE_HW_BAR0_DMA_HANDLES_CNT"
    using assms u ui pos unfolding psipe_dma_pin_pages_def Let_def np_def [symmetric]
    by (auto simp: errno_defs PSIPE_HW_BAR0_DMA_HANDLES_CNT_def split: if_splits)
qed

section \<open>The device's registers, as the module relies on them\<close>

text \<open>
  The contract of the register file: a 32-bit write to a configuration register stores the value
  and leaves the other registers alone; a write to handle \<open>i\<close> below the announced number of pages,
  and inside the mapped register window (\<open>window\<close> handles), stores that handle.
\<close>

record regview =
  rv_len :: u64
  rv_npages :: u64
  rv_active :: bool
  rv_avail :: u64
  rv_handles :: "nat \<Rightarrow> u64"

abbreviation trunc32 :: "u64 \<Rightarrow> u64" where
  "trunc32 w \<equiv> ucast (ucast w :: u32)"

locale device_regs =
  fixes B :: "'d bus"
    and view :: "'d \<Rightarrow> regview"
    and ready :: "'d \<Rightarrow> bool"
    and window :: nat
  assumes write_len: "ready d \<Longrightarrow> \<exists>d'. iowrite32 B d PSIPE_HW_BAR0_DMA_CFG_LEN x = Inr d' \<and>
      ready d' \<and> view d' = (view d)\<lparr>rv_len := ucast x\<rparr>"
    and write_pgs: "ready d \<Longrightarrow> \<exists>d'. iowrite32 B d PSIPE_HW_BAR0_DMA_CFG_PGS x = Inr d' \<and>
      ready d' \<and> view d' = (view d)\<lparr>rv_npages := ucast x\<rparr>"
    and write_mod: "ready d \<Longrightarrow> \<exists>d'. iowrite32 B d PSIPE_HW_BAR0_DMA_CFG_MOD x = Inr d' \<and>
      ready d' \<and> view d' = (view d)\<lparr>rv_active := (0 < x)\<rparr>"
    and write_avail: "ready d \<Longrightarrow> \<exists>d'. iowrite32 B d PSIPE_HW_BAR0_DMA_CFG_LEN_AVAIL x = Inr d' \<and>
      ready d' \<and> view d' = (view d)\<lparr>rv_avail := ucast x\<rparr>"
    and write_handle: "ready d \<Longrightarrow> i < unat (rv_npages (view d)) \<Longrightarrow> i < window \<Longrightarrow>
      \<exists>d'. iowrite32 B d (PSIPE_HW_BAR0_DMA_HANDLES + of_nat (4 * i)) x = Inr d' \<and>
        ready d' \<and> view d' = (view d)\<lparr>rv_handles := (rv_handles (view d))(i := ucast x)\<rparr>"
    and window_small: "window < 2 ^ 20"
begin

lemma handles_written:
  assumes "ready d" "k + length hs \<le> unat (rv_npages (view d))" "k + length hs \<le> window"
  shows "\<exists>d'. write_handles B d (of_nat (4 * k)) hs = Inr d' \<and> ready d' \<and>
     view d' = (view d)\<lparr>rv_handles := blit (rv_handles (view d)) k (map trunc32 hs)\<rparr>"
  using assms
proof (induction hs arbitrary: d k)
  case Nil
  then show ?case by simp
next
  case (Cons h hs)
  have k: "k < unat (rv_npages (view d))" "k < window" using Cons.prems by simp_all
  then have "4 * k < 2 ^ 32" using window_small by simp
  then have uc: "(ucast (of_nat (4 * k) :: u32) :: u64) = of_nat (4 * k)" by (rule ucast_of_nat32)
  from write_handle [OF Cons.prems(1) k] obtain d1
    where d1: "iowrite32 B d (PSIPE_HW_BAR0_DMA_HANDLES + of_nat (4 * k)) (ucast h) = Inr d1"
      "ready d1" "view d1 = (view d)\<lparr>rv_handles := (rv_handles (view d))(k := trunc32 h)\<rparr>" by blast
  have n: "(of_nat (4 * k) :: u32) + 4 = of_nat (4 * Suc k)" by simp
  have le: "Suc k + length hs \<le> unat (rv_npages (view d1))" "Suc k + length hs \<le> window"
    using d1(3) Cons.prems by simp_all
  obtain d' where d': "write_handles B d1 (of_nat (4 * Suc k)) hs = Inr d'" "ready d'"
    "view d' = (view d1)\<lparr>rv_handles := blit (rv_handles (view d1)) (Suc k) (map trunc32 hs)\<rparr>"
    using Cons.IH [OF d1(2) le] by blast
  have "blit ((rv_handles (view d))(k := trunc32 h)) (Suc k) (map trunc32 hs) =
      blit (rv_handles (view d)) k (map trunc32 (h # hs))"
    by (simp only: blit_Cons list.map)
  with d' d1(3) have "view d' = (view d)\<lparr>rv_handles :=
      blit (rv_handles (view d)) k (map trunc32 (h # hs))\<rparr>" by simp
  moreover have "write_handles B d (of_nat (4 * k)) (h # hs) = Inr d'"
    using d1(1) d'(1) by (simp only: write_handles.simps uc n bindR.simps)
  ultimately show ?case using d'(2) by blast
qed

lemma maps_written:
  assumes "ready d" "unat (nmapped m) \<le> window" "unat (nmapped m) \<le> length (sgl m)"
  shows "\<exists>d'. psipe_dma_write_maps B d m = Inr d' \<and> ready d' \<and>
     view d' = (view d)\<lparr>rv_len := trunc32 (dma_len m), rv_npages := nmapped m,
       rv_handles := blit (rv_handles (view d)) 0 (map trunc32 (take (unat (nmapped m)) (sgl m)))\<rparr>"
proof -
  obtain d1 where d1: "iowrite32 B d PSIPE_HW_BAR0_DMA_CFG_LEN (ucast (dma_len m)) = Inr d1"
    "ready d1" "view d1 = (view d)\<lparr>rv_len := trunc32 (dma_len m)\<rparr>"
    using write_len [OF assms(1)] by blast
  obtain d2 where d2: "iowrite32 B d1 PSIPE_HW_BAR0_DMA_CFG_PGS (ucast (nmapped m)) = Inr d2"
    "ready d2" "view d2 = (view d1)\<lparr>rv_npages := trunc32 (nmapped m)\<rparr>"
    using write_pgs [OF d1(2)] by blast
  have "unat (nmapped m) < 2 ^ 32" using assms(2) window_small by simp
  then have t: "trunc32 (nmapped m) = nmapped m" by (rule trunc32_id)
  let ?hs = "take (unat (nmapped m)) (sgl m)"
  obtain d' where "write_handles B d2 (of_nat (4 * 0)) ?hs = Inr d'" "ready d'"
    "view d' = (view d2)\<lparr>rv_handles := blit (rv_handles (view d2)) 0 (map trunc32 ?hs)\<rparr>"
    using handles_written [OF d2(2), of 0 ?hs] assms d2(3) t by auto
  then show ?thesis using d1 d2 t by (auto simp: psipe_dma_write_maps_def)
qed

end

end
