(* ===== verification/Kqueue.thy ===== *)
theory Kqueue
  imports Kdma
begin

text \<open>
  The operation queue of the kernel module (src/src/sw/kernel/psipe\_queue.c) and the functions a
  queued operation runs, \<^verbatim>\<open>psipe_ioctl_send\<close> and \<^verbatim>\<open>psipe_ioctl_recv\<close> of psipe\_module.c, which
  the queue calls through a function pointer. A pointer to a queued operation is its \<open>op_id\<close>: the
  reachability invariant of theory Ksteps shows that ids are unique.
\<close>

section \<open>What an operation runs\<close>

definition psipe_check_size_avail :: "'d bus \<Rightarrow> 'd \<Rightarrow> psipe_dma \<Rightarrow> (bool \<times> 'd) res" where
  "psipe_check_size_avail B d dma =
     bindR (ioread32 B d PSIPE_HW_BAR0_DMA_CFG_LEN_AVAIL)
       (\<lambda>(x, d). Inr (dma_len dma \<le> ucast x, d))"

definition psipe_set_size_avail :: "'d bus \<Rightarrow> 'd \<Rightarrow> psipe_dma \<Rightarrow> 'd res" where
  "psipe_set_size_avail B d dma =
     iowrite32 B d PSIPE_HW_BAR0_DMA_CFG_LEN_AVAIL (ucast (dma_len dma))"

text \<open>The common second half of both functions, from \<^verbatim>\<open>psipe_dma_map_pages\<close> on.\<close>

definition map_and_ring ::
    "linux \<Rightarrow> 'd bus \<Rightarrow> 'd \<Rightarrow> ktrace \<Rightarrow> psipe_dma \<Rightarrow> (int \<times> 'd \<times> ktrace \<times> psipe_dma) res" where
  "map_and_ring L B d tr dma =
     (case psipe_dma_map_pages L tr dma of (rv, tr, dma) \<Rightarrow>
        if rv < 0 then Inr (rv, d, psipe_dma_unpin_pages tr dma, dma)
        else bindR (psipe_dma_write_maps B d dma) (\<lambda>d.
             bindR (psipe_dma_doorbell_ring B d) (\<lambda>d. Inr (rv, d, tr, dma))))"

definition psipe_ioctl_send ::
    "linux \<Rightarrow> 'd bus \<Rightarrow> 'd \<Rightarrow> ktrace \<Rightarrow> psipe_dma \<Rightarrow> (int \<times> 'd \<times> ktrace \<times> psipe_dma) res" where
  "psipe_ioctl_send L B d tr dma =
     bindR (psipe_dma_write_setup B d dma PSIPE_MODE_ACTIVE DMA_TO_DEVICE) (\<lambda>(dma, d).
     bindR (psipe_check_size_avail B d dma) (\<lambda>(fits, d).
       if \<not> fits then Inr (- EMSGSIZE, d, tr, dma) else map_and_ring L B d tr dma))"

definition psipe_ioctl_recv ::
    "linux \<Rightarrow> 'd bus \<Rightarrow> 'd \<Rightarrow> ktrace \<Rightarrow> psipe_dma \<Rightarrow> (int \<times> 'd \<times> ktrace \<times> psipe_dma) res" where
  "psipe_ioctl_recv L B d tr dma =
     bindR (psipe_dma_write_setup B d dma PSIPE_MODE_PASSIVE DMA_FROM_DEVICE) (\<lambda>(dma, d).
     bindR (psipe_set_size_avail B d dma) (\<lambda>d. map_and_ring L B d tr dma))"

fun run_ioctl_fn ::
    "ioctl_fn \<Rightarrow> linux \<Rightarrow> 'd bus \<Rightarrow> 'd \<Rightarrow> ktrace \<Rightarrow> psipe_dma \<Rightarrow>
      (int \<times> 'd \<times> ktrace \<times> psipe_dma) res" where
  "run_ioctl_fn psipe_ioctl_send_fn L B d tr dma = psipe_ioctl_send L B d tr dma"
| "run_ioctl_fn psipe_ioctl_recv_fn L B d tr dma = psipe_ioctl_recv L B d tr dma"

section \<open>The queue\<close>

text \<open>\<^verbatim>\<open>struct psipe_ops\<close>, with the device and the calls made so far.\<close>

record 'd kstate =
  hw :: 'd
  trace :: ktrace
  next_id :: u64
  active :: "psipe_op list"
  inactive :: "psipe_op list"

text \<open>
  A fresh operation has the contents \<^verbatim>\<open>kmalloc\<close> left in it; \<open>retval\<close> keeps them.
\<close>

definition psipe_ops_new :: "linux \<Rightarrow> ktrace \<Rightarrow> u32 \<Rightarrow> u64 \<Rightarrow> psipe_op option \<times> ktrace" where
  "psipe_ops_new L tr cmd uarg =
     (case kmalloc_op L tr of
        None \<Rightarrow> (None, tr)
      | Some op \<Rightarrow>
          let tr = tr @ [Kmalloc_op];
              fill = (\<lambda>f. case copy_from_user L tr uarg of (rv, data) \<Rightarrow>
                let tr = tr @ [Copy_from_user uarg]
                in if rv < 0 then (None, tr @ [Kfree_op (op_id op)])
                   else (Some (op\<lparr>op_dma := (op_dma op)\<lparr>dma_addr := data_addr data,
                           dma_len := data_len data, dma_mode := PSIPE_MODE_OFF\<rparr>,
                           op_fn := f, nwaiting := 0, flag := 0\<rparr>), tr))
          in if cmd = PSIPE_IOCTL_SEND then fill psipe_ioctl_send_fn
             else if cmd = PSIPE_IOCTL_RECV then fill psipe_ioctl_recv_fn
             else (None, tr @ [Kfree_op (op_id op)]))"

text \<open>The two parts of \<^verbatim>\<open>psipe_ops_init\<close> after the pin: the locked insertion, and the start.\<close>

definition ops_enqueue :: "'d kstate \<Rightarrow> psipe_op \<Rightarrow> 'd kstate" where
  "ops_enqueue s op =
     s\<lparr>active := active s @ [op\<lparr>op_id := next_id s\<rparr>], next_id := next_id s + 1\<rparr>"

text \<open>Updating the operation behind a pointer, wherever it is linked.\<close>

definition map_op :: "u64 \<Rightarrow> (psipe_op \<Rightarrow> psipe_op) \<Rightarrow> psipe_op list \<Rightarrow> psipe_op list" where
  "map_op i f = map (\<lambda>op. if op_id op = i then f op else op)"

definition update_op :: "u64 \<Rightarrow> (psipe_op \<Rightarrow> psipe_op) \<Rightarrow> 'd kstate \<Rightarrow> 'd kstate" where
  "update_op i f s = s\<lparr>active := map_op i f (active s), inactive := map_op i f (inactive s)\<rparr>"

definition start_op :: "linux \<Rightarrow> 'd bus \<Rightarrow> 'd kstate \<Rightarrow> psipe_op \<Rightarrow> (int \<times> 'd kstate) res" where
  "start_op L B s op =
     bindR (run_ioctl_fn (op_fn op) L B (hw s) (trace s) (op_dma op)) (\<lambda>(rv, d, tr, dma).
       Inr (rv, update_op (op_id op) (\<lambda>op. op\<lparr>op_dma := dma\<rparr>) (s\<lparr>hw := d, trace := tr\<rparr>)))"

definition psipe_ops_init ::
    "linux \<Rightarrow> 'd bus \<Rightarrow> 'd kstate \<Rightarrow> psipe_op option \<Rightarrow> (u64 \<times> 'd kstate) res" where
  "psipe_ops_init L B s op =
     (case op of
        None \<Rightarrow> Inr (u64_of_int (- EINVAL), s)
      | Some op \<Rightarrow>
          (case psipe_dma_pin_pages L (trace s) (op_dma op) of (rv, tr, dma) \<Rightarrow>
             let s = s\<lparr>trace := tr\<rparr>; op = op\<lparr>op_dma := dma\<rparr>
             in if rv < 0 then Inr (u64_of_int rv, s)
                else let empty = (active s = []); op = op\<lparr>op_id := next_id s\<rparr>; s = ops_enqueue s op
                  in if empty then
                       bindR (start_op L B s op) (\<lambda>(rv, s).
                         if rv < 0 then Inr (u64_of_int rv, s) else Inr (op_id op, s))
                     else Inr (op_id op, s)))"

definition psipe_ops_current :: "'d kstate \<Rightarrow> psipe_op option" where
  "psipe_ops_current s = (case active s of [] \<Rightarrow> None | op # _ \<Rightarrow> Some op)"

text \<open>\<^verbatim>\<open>list_move_tail\<close> takes the operation out of the list it is in.\<close>

definition list_del :: "u64 \<Rightarrow> psipe_op list \<Rightarrow> psipe_op list" where
  "list_del i = filter (\<lambda>op. op_id op \<noteq> i)"

definition psipe_ops_fini :: "'d kstate \<Rightarrow> psipe_op \<Rightarrow> 'd kstate" where
  "psipe_ops_fini s op =
     s\<lparr>trace := psipe_dma_unpin_pages (psipe_dma_unmap_pages (trace s) (op_dma op)) (op_dma op)
                  @ [Wake_up_all (op_id op)],
       active := list_del (op_id op) (active s),
       inactive := list_del (op_id op) (inactive s) @ [op\<lparr>flag := 1\<rparr>]\<rparr>"

text \<open>
  \<^verbatim>\<open>psipe_ops_wait\<close> before and after \<^verbatim>\<open>wait_event\<close>, when no other thread comes in between.
  \<open>ops_wait_leave\<close> is \<open>Blocked\<close> until the operation's flag is set. The code holds no lock in either
  part; theory Kwaiters takes every access to the operation as a step of its own.
\<close>

definition find_op :: "u64 \<Rightarrow> 'd kstate \<Rightarrow> psipe_op option" where
  "find_op i s = find (\<lambda>op. op_id op = i) (active s @ inactive s)"

definition ops_wait_enter :: "'d kstate \<Rightarrow> u64 \<Rightarrow> 'd kstate" where
  "ops_wait_enter s i = update_op i (\<lambda>op. op\<lparr>nwaiting := s32 (nwaiting op + 1)\<rparr>) s"

definition ops_wait_leave :: "'d kstate \<Rightarrow> u64 \<Rightarrow> (int \<times> 'd kstate) res" where
  "ops_wait_leave s i =
     (case find_op i s of
        None \<Rightarrow> Inl Out_Of_Bounds
      | Some op \<Rightarrow>
          if flag op \<noteq> 1 then Inl Blocked
          else let n = s32 (nwaiting op - 1);
                   s = update_op i (\<lambda>op. op\<lparr>nwaiting := n\<rparr>) s
            in Inr (retval op,
                 if n = 0 then s\<lparr>trace := trace s @ [Kfree_op i], active := list_del i (active s),
                                 inactive := list_del i (inactive s)\<rparr>
                 else s))"

definition psipe_ops_wait :: "'d kstate \<Rightarrow> psipe_op option \<Rightarrow> (int \<times> 'd kstate) res" where
  "psipe_ops_wait s op =
     (case op of
        None \<Rightarrow> Inr (- EINVAL, s)
      | Some op \<Rightarrow> ops_wait_leave (ops_wait_enter s (op_id op)) (op_id op))"

definition psipe_ops_next :: "linux \<Rightarrow> 'd bus \<Rightarrow> 'd kstate \<Rightarrow> 'd kstate res" where
  "psipe_ops_next L B s =
     (case psipe_ops_current s of
        None \<Rightarrow> Inr s
      | Some op \<Rightarrow>
          let s = psipe_ops_fini s op
          in case psipe_ops_current s of
               None \<Rightarrow> Inr s
             | Some op \<Rightarrow>
                 bindR (start_op L B s op) (\<lambda>(rv, s).
                   Inr (update_op (op_id op) (\<lambda>op. op\<lparr>retval := rv\<rparr>) s)))"

definition psipe_ops_get :: "'d kstate \<Rightarrow> u64 \<Rightarrow> psipe_op option" where
  "psipe_ops_get s i =
     (if i \<ge> next_id s then None
      else case find (\<lambda>op. op_id op = i) (active s) of
        Some op \<Rightarrow> Some op
      | None \<Rightarrow> find (\<lambda>op. op_id op = i) (inactive s))"

text \<open>One pass of \<^verbatim>\<open>list_for_each_safe\<close> over each list: what is kept and the calls made.\<close>

fun flush_active :: "ktrace \<Rightarrow> psipe_op list \<Rightarrow> ktrace \<times> psipe_op list" where
  "flush_active tr [] = (tr, [])"
| "flush_active tr (op # ops) =
     (if nwaiting op = 0 then
        flush_active (psipe_dma_unmap_pages (psipe_dma_unpin_pages tr (op_dma op)) (op_dma op)
                        @ [Kfree_op (op_id op)]) ops
      else case flush_active tr ops of (tr, kept) \<Rightarrow> (tr, op # kept))"

fun flush_inactive :: "ktrace \<Rightarrow> psipe_op list \<Rightarrow> ktrace \<times> psipe_op list" where
  "flush_inactive tr [] = (tr, [])"
| "flush_inactive tr (op # ops) =
     (if nwaiting op = 0 then flush_inactive (tr @ [Kfree_op (op_id op)]) ops
      else case flush_inactive tr ops of (tr, kept) \<Rightarrow> (tr, op # kept))"

definition psipe_ops_flush :: "'d kstate \<Rightarrow> int \<times> 'd kstate" where
  "psipe_ops_flush s =
     (case flush_active (trace s) (active s) of (tr, act) \<Rightarrow>
      case flush_inactive tr (inactive s) of (tr, inact) \<Rightarrow>
        (0, s\<lparr>trace := tr, active := act, inactive := inact\<rparr>))"

end
