(* ===== verification/Kirq.thy ===== *)
theory Kirq
  imports Kqueue
begin

text \<open>
  Interrupts of the kernel module (src/src/sw/kernel/psipe\_irq.c): the handler, which checks and
  acknowledges the device's flag and completes the running operation, and the set-up of the
  vectors. \<open>irq_line\<close> is what the handler relies on of the device's two interrupt registers;
  theory Mmio interprets it.
\<close>

section \<open>Operations\<close>

definition psipe_irq_check_and_ack :: "'d bus \<Rightarrow> 'd \<Rightarrow> (bool \<times> 'd) res" where
  "psipe_irq_check_and_ack B d =
     bindR (ioread32 B d PSIPE_HW_IRQ_WORK_ENDED_ADDR) (\<lambda>(x, d).
       if x \<noteq> 0 then bindR (iowrite32 B d PSIPE_HW_IRQ_WORK_ENDED_ACK_ADDR 1) (\<lambda>d. Inr (True, d))
       else Inr (False, d))"

datatype irqreturn_t = IRQ_NONE | IRQ_HANDLED

definition psipe_irq_handler ::
    "linux \<Rightarrow> 'd bus \<Rightarrow> 'd kstate \<Rightarrow> (irqreturn_t \<times> 'd kstate) res" where
  "psipe_irq_handler L B s =
     bindR (psipe_irq_check_and_ack B (hw s)) (\<lambda>(is_active, d).
       let s = s\<lparr>hw := d\<rparr>
       in if \<not> is_active then Inr (IRQ_NONE, s)
          else bindR (psipe_ops_next L B s) (\<lambda>s. Inr (IRQ_HANDLED, s)))"

section \<open>The interrupt registers\<close>

locale irq_line =
  fixes B :: "'d bus"
    and raised :: "'d \<Rightarrow> bool"
    and ok :: "'d \<Rightarrow> bool"
  assumes read_flag: "ok d \<Longrightarrow>
      \<exists>x. ioread32 B d PSIPE_HW_IRQ_WORK_ENDED_ADDR = Inr (x, d) \<and> (x \<noteq> 0 \<longleftrightarrow> raised d)"
    and ack_flag: "ok d \<Longrightarrow>
      \<exists>d'. iowrite32 B d PSIPE_HW_IRQ_WORK_ENDED_ACK_ADDR 1 = Inr d' \<and> ok d' \<and> \<not> raised d'"
begin

lemma check_and_ack:
  assumes "ok d"
  shows "\<exists>d'. psipe_irq_check_and_ack B d = Inr (raised d, d') \<and> ok d' \<and> \<not> raised d'"
proof -
  obtain x where x: "ioread32 B d PSIPE_HW_IRQ_WORK_ENDED_ADDR = Inr (x, d)"
    "x \<noteq> 0 \<longleftrightarrow> raised d" using read_flag [OF assms] by blast
  obtain d' where "iowrite32 B d PSIPE_HW_IRQ_WORK_ENDED_ACK_ADDR 1 = Inr d'" "ok d'"
    "\<not> raised d'" using ack_flag [OF assms] by blast
  with x assms show ?thesis by (cases "x = 0") (simp_all add: psipe_irq_check_and_ack_def)
qed

lemma spurious_irq:
  assumes "ok (hw s)" "\<not> raised (hw s)"
  shows "psipe_irq_handler L B s = Inr (IRQ_NONE, s)"
  using read_flag [OF assms(1)] assms(2)
  by (auto simp: psipe_irq_handler_def psipe_irq_check_and_ack_def)

lemma raised_irq:
  assumes "ok (hw s)" "raised (hw s)"
  shows "\<exists>d'. ok d' \<and> \<not> raised d' \<and> psipe_irq_handler L B s =
     bindR (psipe_ops_next L B (s\<lparr>hw := d'\<rparr>)) (\<lambda>s. Inr (IRQ_HANDLED, s))"
  using check_and_ack [OF assms(1)] assms(2) by (auto simp: psipe_irq_handler_def)

end

end
