(* ===== verification/Mmio.thy ===== *)
theory Mmio
  imports Execute Kdma Kirq
begin

text \<open>
  The register file of the emulated device (src/src/hw/mmio.c): decoding an access to the BAR,
  reading and writing each register, and the registers the kernel module programs as an instance
  of \<open>device_regs\<close>.
\<close>

section \<open>Operations\<close>

definition psipe_mmio_valid_access :: "u64 \<Rightarrow> nat \<Rightarrow> bool" where
  "psipe_mmio_valid_access addr sz \<longleftrightarrow> PSIPE_HW_BAR0_START \<le> addr \<and> addr \<le> PSIPE_HW_BAR0_END"

definition psipe_mmio_handle_pos :: "u64 \<Rightarrow> int" where
  "psipe_mmio_handle_pos addr = int_of_u64 ((addr - PSIPE_HW_BAR0_DMA_HANDLES) div 4)"

text \<open>The comparison of the \<^verbatim>\<open>int\<close> position with \<^verbatim>\<open>npages\<close> is unsigned.\<close>

definition psipe_mmio_write_handle :: "DMAEngine \<Rightarrow> u64 \<Rightarrow> u64 \<Rightarrow> DMAEngine res" where
  "psipe_mmio_write_handle eng addr hnd =
     (let pos = psipe_mmio_handle_pos addr
      in if u64_of_int pos \<ge> npages (config eng) then Inr eng
         else bindR (set_handle (config eng) pos hnd) (\<lambda>cfg. Inr (eng\<lparr>config := cfg\<rparr>)))"

definition psipe_mmio_read ::
    "nat \<Rightarrow> 'w host \<Rightarrow> 'w PSIPEDevice \<Rightarrow> u64 \<Rightarrow> nat \<Rightarrow> (u64 \<times> 'w PSIPEDevice) res" where
  "psipe_mmio_read fuel H dev addr sz =
     (let val = NOT 0 :: u64
      in if \<not> psipe_mmio_valid_access addr sz then Inr (val, dev)
         else if addr = PSIPE_HW_BAR0_IRQ_0_RAISE \<or> addr = PSIPE_HW_BAR0_IRQ_0_LOWER then
           Inr (u64_of_int (psipe_irq_check H dev 0), dev)
         else if addr = PSIPE_HW_BAR0_DMA_CFG_LEN then Inr (cfg_len (config (dma dev)), dev)
         else if addr = PSIPE_HW_BAR0_DMA_CFG_PGS then Inr (npages (config (dma dev)), dev)
         else if addr = PSIPE_HW_BAR0_DMA_CFG_MOD then Inr (DMAMode_value (mode (dma dev)), dev)
         else if addr = PSIPE_HW_BAR0_DMA_CFG_LEN_AVAIL then
           bindR (if mode (dma dev) = DMA_MODE_ACTIVE
                  then case psipe_proxy_issue_req H dev PSIPE_REQ_SLN of (_, dev) \<Rightarrow>
                    bindR (psipe_proxy_await_req fuel (\<lambda>d. psipe_execute fuel H d) H dev PSIPE_REQ_RLN)
                      (\<lambda>(_, dev). Inr dev)
                  else Inr dev)
             (\<lambda>dev. Inr (len_avail (config (dma dev)), dev))
         else Inr (val, dev))"

definition psipe_mmio_write ::
    "nat \<Rightarrow> 'w host \<Rightarrow> 'w PSIPEDevice \<Rightarrow> u64 \<Rightarrow> u64 \<Rightarrow> nat \<Rightarrow> 'w PSIPEDevice res" where
  "psipe_mmio_write fuel H dev addr val sz =
     (let eng = dma dev
      in if \<not> psipe_mmio_valid_access addr sz then Inr dev
         else if \<not> psipe_dma_is_idle dev then Inr dev
         else if addr = PSIPE_HW_BAR0_IRQ_0_RAISE then Inr (psipe_irq_raise H dev 0)
         else if addr = PSIPE_HW_BAR0_IRQ_0_LOWER then Inr (psipe_irq_lower H dev 0)
         else if addr = PSIPE_HW_BAR0_DMA_CFG_LEN then
           Inr (dev\<lparr>dma := eng\<lparr>config := (config eng)\<lparr>cfg_len := val\<rparr>\<rparr>\<rparr>)
         else if addr = PSIPE_HW_BAR0_DMA_CFG_PGS then
           Inr (dev\<lparr>dma := eng\<lparr>config := (config eng)\<lparr>npages := val\<rparr>\<rparr>\<rparr>)
         else if addr = PSIPE_HW_BAR0_DMA_CFG_MOD then
           Inr (dev\<lparr>dma := eng\<lparr>mode := (if val > 0 then DMA_MODE_ACTIVE else DMA_MODE_PASSIVE)\<rparr>\<rparr>)
         else if addr = PSIPE_HW_BAR0_DMA_CFG_LEN_AVAIL then
           Inr (dev\<lparr>dma := eng\<lparr>config := (config eng)\<lparr>len_avail := val\<rparr>\<rparr>\<rparr>)
         else if addr = PSIPE_HW_BAR0_DMA_DOORBELL_RING then psipe_execute fuel H dev
         else bindR (psipe_mmio_write_handle eng addr val) (\<lambda>eng. Inr (dev\<lparr>dma := eng\<rparr>)))"

definition psipe_mmio_reset :: "'w PSIPEDevice \<Rightarrow> 'w PSIPEDevice" where
  "psipe_mmio_reset dev = dev"

text \<open>The region has the size of one page; registering it makes it BAR 0.\<close>

definition psipe_mmio_init :: "'w host \<Rightarrow> 'w PSIPEDevice \<Rightarrow> 'w PSIPEDevice" where
  "psipe_mmio_init H dev =
     (let dev = dev\<lparr>mmio_size := qemu_target_page_size H\<rparr>
      in dev\<lparr>env := pci_register_bar H (env dev) (mmio_size dev)\<rparr>)"

definition psipe_mmio_fini :: "'w PSIPEDevice \<Rightarrow> 'w PSIPEDevice" where
  "psipe_mmio_fini dev = psipe_mmio_reset dev"

text \<open>The table QEMU calls the device through: the callbacks and the access sizes in bytes.\<close>

datatype device_endian = DEVICE_NATIVE_ENDIAN | DEVICE_BIG_ENDIAN | DEVICE_LITTLE_ENDIAN

record 'w MemoryRegionOps =
  op_read :: "nat \<Rightarrow> 'w host \<Rightarrow> 'w PSIPEDevice \<Rightarrow> u64 \<Rightarrow> nat \<Rightarrow> (u64 \<times> 'w PSIPEDevice) res"
  op_write :: "nat \<Rightarrow> 'w host \<Rightarrow> 'w PSIPEDevice \<Rightarrow> u64 \<Rightarrow> u64 \<Rightarrow> nat \<Rightarrow> 'w PSIPEDevice res"
  endianness :: device_endian
  valid_access :: "nat \<times> nat"
  impl_access :: "nat \<times> nat"

definition psipe_mmio_ops :: "'w MemoryRegionOps" where
  "psipe_mmio_ops = \<lparr>op_read = psipe_mmio_read, op_write = psipe_mmio_write,
     endianness = DEVICE_NATIVE_ENDIAN, valid_access = (4, 8), impl_access = (4, 8)\<rparr>"

text \<open>What QEMU lets through to the callbacks: an access of an admitted size inside the region.\<close>

definition admitted :: "'w PSIPEDevice \<Rightarrow> u64 \<Rightarrow> nat \<Rightarrow> bool" where
  "admitted dev addr sz \<longleftrightarrow>
     (case valid_access (psipe_mmio_ops :: 'w MemoryRegionOps) of (least, most) \<Rightarrow> least \<le> sz \<and> sz \<le> most) \<and>
     unat addr + sz \<le> unat (mmio_size dev)"

lemma admitted_iff: "admitted d a sz \<longleftrightarrow> 4 \<le> sz \<and> sz \<le> 8 \<and> unat a + sz \<le> unat (mmio_size d)"
  by (simp add: admitted_def psipe_mmio_ops_def)

section \<open>The register window\<close>

text \<open>
  A 32-bit access of the kernel module reaches \<open>psipe_mmio_ops\<close> when it lies in the region the
  device registered; the module maps no more than that, so an access beyond it is a fault of the
  module.
\<close>

definition dev_iowrite32 ::
    "nat \<Rightarrow> 'w host \<Rightarrow> 'w PSIPEDevice \<Rightarrow> u64 \<Rightarrow> u32 \<Rightarrow> 'w PSIPEDevice res" where
  "dev_iowrite32 fuel H dev addr x =
     (if unat addr + 4 \<le> unat (mmio_size dev) then psipe_mmio_write fuel H dev addr (ucast x) 4
      else Inl Out_Of_Bounds)"

definition dev_ioread32 ::
    "nat \<Rightarrow> 'w host \<Rightarrow> 'w PSIPEDevice \<Rightarrow> u64 \<Rightarrow> (u32 \<times> 'w PSIPEDevice) res" where
  "dev_ioread32 fuel H dev addr =
     (if unat addr + 4 \<le> unat (mmio_size dev)
      then bindR (psipe_mmio_read fuel H dev addr 4) (\<lambda>(x, dev). Inr (ucast x, dev))
      else Inl Out_Of_Bounds)"

definition dev_bus :: "nat \<Rightarrow> 'w host \<Rightarrow> 'w PSIPEDevice bus" where
  "dev_bus fuel H = \<lparr>iowrite32 = dev_iowrite32 fuel H, ioread32 = dev_ioread32 fuel H\<rparr>"

definition dev_view :: "'w PSIPEDevice \<Rightarrow> regview" where
  "dev_view dev = \<lparr>rv_len = cfg_len (config (dma dev)), rv_npages = npages (config (dma dev)),
     rv_active = (mode (dma dev) = DMA_MODE_ACTIVE), rv_avail = len_avail (config (dma dev)),
     rv_handles = handles (config (dma dev))\<rparr>"

definition dev_ready :: "'w PSIPEDevice \<Rightarrow> bool" where
  "dev_ready dev \<longleftrightarrow> psipe_dma_is_idle dev \<and> mmio_size dev = 4096"

text \<open>The number of handle registers in a 4 KiB window.\<close>

definition handle_window :: nat where "handle_window = (4096 - 0x38) div 4"

lemma handle_register_addr:
  assumes "i < handle_window"
  shows "unat (PSIPE_HW_BAR0_DMA_HANDLES + of_nat (4 * i)) = 56 + 4 * i"
proof -
  have "PSIPE_HW_BAR0_DMA_HANDLES + of_nat (4 * i) = of_nat (56 + 4 * i)"
    by (simp add: PSIPE_HW_BAR0_DMA_HANDLES_def)
  then show ?thesis
    using assms by (simp only:) (rule unat_of_nat_u64, simp add: handle_window_def)
qed

lemma handle_register_pos:
  assumes "i < handle_window"
  shows "psipe_mmio_handle_pos (PSIPE_HW_BAR0_DMA_HANDLES + of_nat (4 * i)) = int i"
proof -
  have b: "4 * i < 2 ^ 64" using assms by (simp add: handle_window_def)
  have "unat ((of_nat (4 * i) :: u64) div 4) = i"
    by (simp only: unat_div_distrib unat_of_nat_u64 [OF b]) simp
  then show ?thesis using assms
    by (simp add: psipe_mmio_handle_pos_def handle_window_def)
qed

lemma word_neq_of_unat: "unat (a :: u64) \<noteq> unat b \<Longrightarrow> a \<noteq> b"
  by auto

lemma handle_register_write:
  assumes ready: "dev_ready d" and i: "i < unat (npages (config (dma d)))" "i < handle_window"
  shows "dev_iowrite32 fuel H d (PSIPE_HW_BAR0_DMA_HANDLES + of_nat (4 * i)) x =
     Inr (d\<lparr>dma := (dma d)\<lparr>config := (config (dma d))\<lparr>handles :=
       (handles (config (dma d)))(i := ucast x)\<rparr>\<rparr>\<rparr>)"
proof -
  define a where "a = PSIPE_HW_BAR0_DMA_HANDLES + of_nat (4 * i)"
  have ua: "unat a = 56 + 4 * i" unfolding a_def by (rule handle_register_addr [OF i(2)])
  have pa: "psipe_mmio_handle_pos a = int i" unfolding a_def by (rule handle_register_pos [OF i(2)])
  have lt: "i < 1010" using i(2) by (simp add: handle_window_def)
  have neq: "a \<noteq> PSIPE_HW_BAR0_IRQ_0_RAISE" "a \<noteq> PSIPE_HW_BAR0_IRQ_0_LOWER"
    "a \<noteq> PSIPE_HW_BAR0_DMA_CFG_LEN" "a \<noteq> PSIPE_HW_BAR0_DMA_CFG_PGS"
    "a \<noteq> PSIPE_HW_BAR0_DMA_CFG_MOD" "a \<noteq> PSIPE_HW_BAR0_DMA_CFG_LEN_AVAIL"
    "a \<noteq> PSIPE_HW_BAR0_DMA_DOORBELL_RING"
    by (rule word_neq_of_unat, simp add: ua reg_defs)+
  have valid: "psipe_mmio_valid_access a 4"
    using ua lt by (simp add: psipe_mmio_valid_access_def reg_defs word_le_nat_alt)
  have "\<not> npages (config (dma d)) \<le> of_nat i"
    using i lt by (simp add: word_le_nat_alt unat_of_nat_u64)
  then have "psipe_mmio_write_handle (dma d) a (ucast x) =
      Inr ((dma d)\<lparr>config := (config (dma d))\<lparr>handles :=
        (handles (config (dma d)))(i := ucast x)\<rparr>\<rparr>)"
    using lt by (simp add: psipe_mmio_write_handle_def pa set_handle_def
        PSIPE_HW_BAR0_DMA_HANDLES_CNT_def)
  then show ?thesis
    using ready neq valid ua lt unfolding a_def [symmetric]
    by (simp add: dev_iowrite32_def psipe_mmio_write_def dev_ready_def)
qed

lemma ucast_pos_iff: "0 < (ucast (x :: u32) :: u64) \<longleftrightarrow> 0 < x"
  by transfer simp

text \<open>
  What programming the registers never touches, the device being idle: the environment, the
  interrupt flags, the proxy and the engine's own constants. \<open>d0\<close> is the device before.
\<close>

definition dev_kept :: "'w PSIPEDevice \<Rightarrow> 'w PSIPEDevice \<Rightarrow> bool" where
  "dev_kept d0 d \<longleftrightarrow> dev_ready d \<and> env d = env d0 \<and> irq d = irq d0 \<and> proxy d = proxy d0 \<and>
     cfg_mask (config (dma d)) = cfg_mask (config (dma d0)) \<and>
     page_size (config (dma d)) = page_size (config (dma d0))"

lemma dev_kept_refl: "dev_ready d \<Longrightarrow> dev_kept d d"
  by (simp add: dev_kept_def)

interpretation dev: device_regs "dev_bus fuel H" dev_view "dev_kept d0" handle_window
  for fuel H d0
proof
  fix d :: "'a PSIPEDevice" and x i
  assume r: "dev_kept d0 d"
  then have r0: "dev_ready d" by (simp add: dev_kept_def)
  note defs = dev_bus_def dev_iowrite32_def psipe_mmio_write_def psipe_mmio_valid_access_def
    dev_kept_def dev_ready_def dev_view_def psipe_dma_is_idle_def reg_defs Let_def
  show "\<exists>d'. iowrite32 (dev_bus fuel H) d PSIPE_HW_BAR0_DMA_CFG_LEN x = Inr d' \<and> dev_kept d0 d' \<and>
      dev_view d' = (dev_view d)\<lparr>rv_len := ucast x\<rparr>"
    using r by (simp add: defs)
  show "\<exists>d'. iowrite32 (dev_bus fuel H) d PSIPE_HW_BAR0_DMA_CFG_PGS x = Inr d' \<and> dev_kept d0 d' \<and>
      dev_view d' = (dev_view d)\<lparr>rv_npages := ucast x\<rparr>"
    using r by (simp add: defs)
  show "\<exists>d'. iowrite32 (dev_bus fuel H) d PSIPE_HW_BAR0_DMA_CFG_MOD x = Inr d' \<and> dev_kept d0 d' \<and>
      dev_view d' = (dev_view d)\<lparr>rv_active := (0 < x)\<rparr>"
    using r by (simp add: defs ucast_pos_iff)
  show "\<exists>d'. iowrite32 (dev_bus fuel H) d PSIPE_HW_BAR0_DMA_CFG_LEN_AVAIL x = Inr d' \<and>
      dev_kept d0 d' \<and> dev_view d' = (dev_view d)\<lparr>rv_avail := ucast x\<rparr>"
    using r by (simp add: defs)
  show "\<exists>d'. iowrite32 (dev_bus fuel H) d (PSIPE_HW_BAR0_DMA_HANDLES + of_nat (4 * i)) x = Inr d' \<and>
      dev_kept d0 d' \<and> dev_view d' = (dev_view d)\<lparr>rv_handles := (rv_handles (dev_view d))(i := ucast x)\<rparr>"
    if "i < unat (rv_npages (dev_view d))" "i < handle_window"
    using handle_register_write [OF r0, of i fuel H x] that r
    by (simp add: dev_bus_def dev_view_def dev_kept_def dev_ready_def psipe_dma_is_idle_def)
next
  show "handle_window < 2 ^ 20" by (simp add: handle_window_def)
qed

section \<open>Reading the available length, ringing the doorbell\<close>

lemma valid_access_of_unat: "unat a < 4096 \<Longrightarrow> psipe_mmio_valid_access a n"
  by (simp add: psipe_mmio_valid_access_def reg_defs word_le_nat_alt)

text \<open>A device that is active asks the peer before it answers.\<close>

lemma read_len_avail_active:
  assumes H: "host_contract H v" and fuel: "0 < fuel" and con: "connected d"
    and size: "mmio_size d = 4096" and m: "mode (dma d) = DMA_MODE_ACTIVE"
    and inb: "inb v (env d) = enc_req PSIPE_REQ_RLN @ enc_len l @ rest"
  obtains w where "dev_ioread32 fuel H d PSIPE_HW_BAR0_DMA_CFG_LEN_AVAIL =
      Inr (ucast l, set_len_avail (d\<lparr>env := w\<rparr>) l)"
    "ram v w = ram v (env d)" "inb v w = rest" "outb v w = outb v (env d) @ enc_req PSIPE_REQ_SLN"
proof -
  obtain w where w: "psipe_proxy_await_req fuel (\<lambda>d. psipe_execute fuel H d) H
      (snd (psipe_proxy_issue_req H d PSIPE_REQ_SLN)) PSIPE_REQ_RLN =
      Inr (0, set_len_avail (d\<lparr>env := w\<rparr>) l)"
    "ram v w = ram v (env d)" "inb v w = rest" "outb v w = outb v (env d) @ enc_req PSIPE_REQ_SLN"
    by (rule ask_len_ok [OF H fuel con inb])
  have "dev_ioread32 fuel H d PSIPE_HW_BAR0_DMA_CFG_LEN_AVAIL =
      Inr (ucast l, set_len_avail (d\<lparr>env := w\<rparr>) l)"
    using w(1) size m by (simp add: dev_ioread32_def psipe_mmio_read_def psipe_mmio_valid_access_def
        reg_defs case_prod_unfold Let_def)
  with w show ?thesis using that by blast
qed

text \<open>A passive device answers at once, with what the module stored.\<close>

lemma read_len_avail_passive:
  assumes "mmio_size d = 4096" "mode (dma d) = DMA_MODE_PASSIVE"
  shows "dev_ioread32 fuel H d PSIPE_HW_BAR0_DMA_CFG_LEN_AVAIL =
     Inr (ucast (len_avail (config (dma d))), d)"
  using assms by (simp add: dev_ioread32_def psipe_mmio_read_def psipe_mmio_valid_access_def
      reg_defs Let_def)

lemma doorbell_executes:
  assumes "dev_ready d"
  shows "psipe_dma_doorbell_ring (dev_bus fuel H) d = psipe_execute fuel H d"
  using assms by (simp add: psipe_dma_doorbell_ring_def dev_bus_def dev_iowrite32_def dev_ready_def
      psipe_mmio_write_def psipe_mmio_valid_access_def reg_defs Let_def)

text \<open>While a run is on, every write is ignored.\<close>

lemma write_while_busy:
  "\<not> psipe_dma_is_idle d \<Longrightarrow> psipe_mmio_write fuel H d a x n = Inr d"
  by (simp add: psipe_mmio_write_def Let_def)

section \<open>The interrupt line\<close>

definition dev_irq_ok :: "'w host \<Rightarrow> 'w PSIPEDevice \<Rightarrow> bool" where
  "dev_irq_ok H d \<longleftrightarrow> msi_stable H \<and> dev_ready d"

lemma dev_ready_lower [simp]: "dev_ready (psipe_irq_lower H d n) = dev_ready d"
  by (simp add: dev_ready_def psipe_dma_is_idle_def)

lemma irq_check_values: "psipe_irq_check H d n = 0 \<or> psipe_irq_check H d n = 1"
  by (auto simp: irq_defs of_bool_def)

lemma irq_check_word:
  "(ucast (u64_of_int (psipe_irq_check H d n)) :: u32) \<noteq> 0 \<longleftrightarrow> psipe_irq_check H d n \<noteq> 0"
  using irq_check_values [of H d n] by (auto simp: u64_of_int_def)

lemma read_flag_dev:
  assumes "dev_ready d"
  shows "ioread32 (dev_bus fuel H) d PSIPE_HW_IRQ_WORK_ENDED_ADDR =
     Inr (ucast (u64_of_int (psipe_irq_check H d 0)), d)"
  using assms by (simp add: dev_bus_def dev_ioread32_def psipe_mmio_read_def dev_ready_def
      psipe_mmio_valid_access_def reg_defs Let_def)

lemma ack_flag_dev:
  assumes "dev_ready d"
  shows "iowrite32 (dev_bus fuel H) d PSIPE_HW_IRQ_WORK_ENDED_ACK_ADDR 1 = Inr (psipe_irq_lower H d 0)"
  using assms by (simp add: dev_bus_def dev_iowrite32_def psipe_mmio_write_def dev_ready_def
      psipe_mmio_valid_access_def reg_defs Let_def)

lemma flag_is_work_ended:
  "(ucast (u64_of_int (psipe_irq_check H d 0)) :: u32) \<noteq> 0 \<longleftrightarrow> work_ended H d"
  using irq_check_word [of H d 0] by (simp add: work_ended_def PSIPE_HW_IRQ_WORK_ENDED_VECTOR_def)

lemma ack_lowers: "msi_stable H \<Longrightarrow> \<not> work_ended H (psipe_irq_lower H d 0)"
  using lower_work_ended [of H d] by (simp add: PSIPE_HW_IRQ_WORK_ENDED_VECTOR_def)

interpretation dev: irq_line "dev_bus fuel H" "work_ended H" "dev_irq_ok H" for fuel H
  by unfold_locales
    (auto simp: dev_irq_ok_def read_flag_dev ack_flag_dev flag_is_work_ended ack_lowers)

end
