(* ===== verification/Device.thy ===== *)
theory Device
  imports Mmio
begin

text \<open>
  The life of the emulated device (src/src/hw/psipe.c): instance creation, realisation, reset and
  removal, each composed of the parts' functions in the order of the source.
\<close>

section \<open>Operations\<close>

definition psipe_device_init :: "nat \<Rightarrow> 'w host \<Rightarrow> 'w PSIPEDevice \<Rightarrow> 'w PSIPEDevice res" where
  "psipe_device_init fuel H dev =
     psipe_proxy_init fuel (\<lambda>d. psipe_execute fuel H d) H
       (psipe_mmio_init H (psipe_dma_init H (psipe_irq_init H dev)))"

definition psipe_device_fini :: "'w host \<Rightarrow> 'w PSIPEDevice \<Rightarrow> 'w PSIPEDevice" where
  "psipe_device_fini H dev =
     psipe_proxy_fini H (psipe_mmio_fini (psipe_dma_fini H (psipe_irq_fini H dev)))"

definition psipe_device_reset :: "'w host \<Rightarrow> 'w PSIPEDevice \<Rightarrow> 'w PSIPEDevice" where
  "psipe_device_reset H dev =
     psipe_proxy_reset (psipe_mmio_reset (psipe_dma_reset H (psipe_irq_reset H dev)))"

text \<open>The two properties the instance registers are its defaults; the user may change both.\<close>

definition psipe_instance_init :: "'w PSIPEDevice \<Rightarrow> 'w PSIPEDevice" where
  "psipe_instance_init dev =
     dev\<lparr>proxy := (proxy dev)\<lparr>server_mode := True, port := PSIPE_PROXY_PORT\<rparr>\<rparr>"

text \<open>
  The class of the device. QEMU's constants \<^verbatim>\<open>DEVICE_CATEGORY_MISC\<close> and \<^verbatim>\<open>PCI_CLASS_OTHERS\<close> are
  the arguments \<open>misc\<close> and \<open>others\<close>.
\<close>

record 'w PCIDeviceClass =
  realize :: "nat \<Rightarrow> 'w host \<Rightarrow> 'w PSIPEDevice \<Rightarrow> 'w PSIPEDevice res"
  exit_device :: "'w host \<Rightarrow> 'w PSIPEDevice \<Rightarrow> 'w PSIPEDevice"
  vendor_id :: u16
  device_id :: u16
  revision :: u8
  class_id :: u16

record 'w DeviceClass =
  categories :: "nat set"
  desc :: string
  reset_device :: "'w host \<Rightarrow> 'w PSIPEDevice \<Rightarrow> 'w PSIPEDevice"

definition PSIPE_DEVICE_DESC :: string where "PSIPE_DEVICE_DESC = ''Proto-SIPE Device''"

definition psipe_class_init ::
    "nat \<Rightarrow> u16 \<Rightarrow> 'w DeviceClass \<times> 'w PCIDeviceClass \<Rightarrow> 'w DeviceClass \<times> 'w PCIDeviceClass" where
  "psipe_class_init misc others = (\<lambda>(dev_class, pci_dev_class).
     (dev_class\<lparr>categories := insert misc (categories dev_class), desc := PSIPE_DEVICE_DESC,
        reset_device := psipe_device_reset\<rparr>,
      pci_dev_class\<lparr>realize := psipe_device_init, exit_device := psipe_device_fini,
        vendor_id := PSIPE_HW_VENDOR_ID, device_id := PSIPE_HW_DEVICE_ID,
        revision := PSIPE_HW_REVISION, class_id := others\<rparr>))"

section \<open>Reset\<close>

lemma dma_reset_simps [simp]:
  "env (psipe_dma_reset H dev) = env dev" "irq (psipe_dma_reset H dev) = irq dev"
  "proxy (psipe_dma_reset H dev) = proxy dev" "mmio_size (psipe_dma_reset H dev) = mmio_size dev"
  "status (dma (psipe_dma_reset H dev)) = DMA_STATUS_IDLE"
  "npages (config (dma (psipe_dma_reset H dev))) = 0"
  "cfg_len (config (dma (psipe_dma_reset H dev))) = 0"
  "page_size (config (dma (psipe_dma_reset H dev))) = qemu_target_page_size H"
  "handles (config (dma (psipe_dma_reset H dev))) = (\<lambda>_. 0)"
  "cfg_mask (config (dma (psipe_dma_reset H dev))) = cfg_mask (config (dma dev))"
  "len_avail (config (dma (psipe_dma_reset H dev))) = len_avail (config (dma dev))"
  "mode (dma (psipe_dma_reset H dev)) = mode (dma dev)"
  "buff (dma (psipe_dma_reset H dev)) = (\<lambda>_. 0)"
  by (simp_all add: psipe_dma_reset_def)

lemma work_ended_dma_reset [simp]: "work_ended H (psipe_dma_reset H d) = work_ended H d"
  by (simp add: work_ended_def irq_defs)

lemma irq_reset_lowers: "msi_stable H \<Longrightarrow> \<not> work_ended H (psipe_irq_reset H d)"
  using lower_work_ended [of H d]
  by (simp add: psipe_irq_reset_def PSIPE_HW_IRQ_CNT_def PSIPE_HW_IRQ_WORK_ENDED_VECTOR_def)

text \<open>What init leaves of a device before the proxy looks for its peer.\<close>

lemma dma_init_simps [simp]:
  "status (dma (psipe_dma_init H d)) = DMA_STATUS_IDLE"
  "cfg_mask (config (dma (psipe_dma_init H d))) = DMA_BIT_MASK PSIPE_HW_DMA_ADDR_CAPABILITY"
  "page_size (config (dma (psipe_dma_init H d))) = qemu_target_page_size H"
  "proxy (psipe_dma_init H d) = proxy d" "irq (psipe_dma_init H d) = irq d"
  "mmio_size (psipe_dma_init H d) = mmio_size d"
  by (simp_all add: psipe_dma_init_def Let_def)

lemma mmio_init_simps [simp]:
  "dma (psipe_mmio_init H d) = dma d" "irq (psipe_mmio_init H d) = irq d"
  "proxy (psipe_mmio_init H d) = proxy d"
  "mmio_size (psipe_mmio_init H d) = qemu_target_page_size H"
  by (simp_all add: psipe_mmio_init_def Let_def)

definition before_proxy :: "'w host \<Rightarrow> 'w PSIPEDevice \<Rightarrow> 'w PSIPEDevice" where
  "before_proxy H dev = psipe_mmio_init H (psipe_dma_init H (psipe_irq_init H dev))"

lemma before_proxy_ready:
  assumes "qemu_target_page_size H = 4096"
  shows "dev_ready (before_proxy H dev)" "proxy (before_proxy H dev) = proxy dev"
  using assms by (simp_all add: before_proxy_def dev_ready_def psipe_dma_is_idle_def
      psipe_irq_init_def psipe_irq_init_msi_def psipe_irq_init_intx_def)

text \<open>A failure of the set-up calls leaves a device that is ready but has no peer.\<close>

lemma init_without_host_name:
  assumes "gethostbyname H (env (before_proxy H dev)) = None"
  shows "psipe_device_init fuel H dev = Inr (before_proxy H dev)"
  using assms by (simp add: psipe_device_init_def before_proxy_def psipe_proxy_init_def)

end
