(* ===== verification/Cstring.thy ===== *)
theory Cstring
  imports Prelude "HOL-Library.Char_ord"
begin

text \<open>
  What the user programs use of the C library on strings: \<^verbatim>\<open>strtol\<close> with its three outcomes (a value,
  no conversion, a value out of range), the decimal and hexadecimal conversions of \<^verbatim>\<open>printf\<close>,
  with the round trip between them, and \<^verbatim>\<open>getopt\<close>.
\<close>

section \<open>Digits\<close>

definition digit :: "nat \<Rightarrow> char \<Rightarrow> nat option" where
  "digit base c =
     (let v = (of_char c :: nat);
          d = if 48 \<le> v \<and> v \<le> 57 then v - 48
              else if 97 \<le> v \<and> v \<le> 122 then v - 87
              else if 65 \<le> v \<and> v \<le> 90 then v - 55 else base
      in if d < base then Some d else None)"

text \<open>The number that starts a string, and the rest.\<close>

fun digits :: "nat \<Rightarrow> nat \<Rightarrow> string \<Rightarrow> nat \<times> string" where
  "digits base acc [] = (acc, [])"
| "digits base acc (c # cs) =
     (case digit base c of
        None \<Rightarrow> (acc, c # cs)
      | Some d \<Rightarrow> digits base (acc * base + d) cs)"

definition is_space :: "char \<Rightarrow> bool" where
  "is_space c \<longleftrightarrow> (let v = (of_char c :: nat) in v = 32 \<or> (9 \<le> v \<and> v \<le> 13))"

text \<open>
  The base and the digits after an optional prefix: base 0 takes \<^verbatim>\<open>0x\<close> for 16 and \<^verbatim>\<open>0\<close> for 8. A prefix
  without a digit after it is the number zero.
\<close>

definition prefix :: "nat \<Rightarrow> string \<Rightarrow> nat \<times> string" where
  "prefix base cs =
     (case cs of
        z # x # d # _ \<Rightarrow>
          if (base = 0 \<or> base = 16) \<and> z = CHR ''0'' \<and> (x = CHR ''x'' \<or> x = CHR ''X'') \<and> digit 16 d \<noteq> None
          then (16, drop 2 cs)
          else (if base \<noteq> 0 then base else if z = CHR ''0'' then 8 else 10, cs)
      | z # _ \<Rightarrow> (if base \<noteq> 0 then base else if z = CHR ''0'' then 8 else 10, cs)
      | [] \<Rightarrow> (if base \<noteq> 0 then base else 10, cs))"

definition LONG_MAX :: int where "LONG_MAX = 2 ^ 63 - 1"
definition LONG_MIN :: int where "LONG_MIN = - (2 ^ 63)"

text \<open>
  \<open>strtol base cs\<close>: the value, whether there was a conversion (\<^verbatim>\<open>endptr\<close> is not the string), and whether
  \<^verbatim>\<open>errno\<close> is set to \<^verbatim>\<open>ERANGE\<close>.
\<close>

definition strtol :: "nat \<Rightarrow> string \<Rightarrow> int \<times> bool \<times> bool" where
  "strtol base cs =
     (let cs = dropWhile is_space cs;
          neg = (case cs of c # _ \<Rightarrow> c = CHR ''-'' | [] \<Rightarrow> False);
          cs = (case cs of c # r \<Rightarrow> if c = CHR ''-'' \<or> c = CHR ''+'' then r else cs | [] \<Rightarrow> cs)
      in case prefix base cs of (b, cs) \<Rightarrow>
         case cs of
           [] \<Rightarrow> (0, False, False)
         | c # _ \<Rightarrow>
             if digit b c = None then (0, False, False)
             else let n = int (fst (digits b 0 cs)); x = if neg then - n else n
               in if x > LONG_MAX then (LONG_MAX, True, True)
                  else if x < LONG_MIN then (LONG_MIN, True, True)
                  else (x, True, False))"

section \<open>Printing\<close>

definition digit_char :: "nat \<Rightarrow> char" where
  "digit_char d = char_of (if d < 10 then 48 + d else 87 + d)"

fun print_base :: "nat \<Rightarrow> nat \<Rightarrow> string" where
  "print_base base n =
     (if base < 2 \<or> n < base then [digit_char n]
      else print_base base (n div base) @ [digit_char (n mod base)])"

declare print_base.simps [simp del]

abbreviation dec :: "nat \<Rightarrow> string" where "dec \<equiv> print_base 10"
abbreviation hex :: "nat \<Rightarrow> string" where "hex \<equiv> print_base 16"

section \<open>Round trip\<close>

lemma of_char_char_of: "k < 256 \<Longrightarrow> (of_char (char_of k :: char) :: nat) = k"
  by (simp add: of_char_of)

lemma digit_digit_char [simp]:
  assumes "d < base" "base \<le> 36" shows "digit base (digit_char d) = Some d"
  using assms by (simp add: digit_def digit_char_def Let_def of_char_char_of)

lemma digits_append:
  assumes "\<forall>c \<in> set cs. digit base c \<noteq> None"
  shows "digits base acc (cs @ ds) = digits base (fst (digits base acc cs)) ds"
  using assms by (induction cs arbitrary: acc) auto

lemma digits_all:
  assumes "\<forall>c \<in> set cs. digit base c \<noteq> None"
  shows "snd (digits base acc cs) = []"
  using assms by (induction cs arbitrary: acc) auto

lemma print_base_small: "n < base \<Longrightarrow> print_base base n = [digit_char n]"
  by (subst print_base.simps) simp

lemma print_base_large:
  "2 \<le> base \<Longrightarrow> base \<le> n \<Longrightarrow>
     print_base base n = print_base base (n div base) @ [digit_char (n mod base)]"
  by (subst print_base.simps) simp

text \<open>Induction over the digits of a number.\<close>

lemma digits_induct [consumes 1, case_names small large]:
  assumes "2 \<le> base"
    and "\<And>n. n < base \<Longrightarrow> P n" "\<And>n. base \<le> n \<Longrightarrow> P (n div base) \<Longrightarrow> P n"
  shows "P (n :: nat)"
proof (induction n rule: less_induct)
  case (less n)
  have "n div base < n" if "base \<le> n" by (rule div_less_dividend) (use that assms(1) in simp_all)
  with less assms(2,3) show ?case by (cases "n < base") simp_all
qed

lemma print_base_digit_chars:
  assumes "2 \<le> base" shows "set (print_base base n) \<subseteq> digit_char ` {..<base}"
  using assms
proof (induction n rule: digits_induct)
  case (small n)
  then show ?case by (simp add: print_base_small)
next
  case (large n)
  then show ?case using assms by (simp add: print_base_large)
qed

lemma print_base_valid:
  assumes "2 \<le> base" "base \<le> 36" shows "\<forall>c \<in> set (print_base base n). digit base c \<noteq> None"
  using print_base_digit_chars [OF assms(1), of n] assms(2) by auto

lemma digits_print_base:
  assumes "2 \<le> base" "base \<le> 36" shows "fst (digits base 0 (print_base base n)) = n"
  using assms(1)
proof (induction n rule: digits_induct)
  case (small n)
  then show ?case using assms by (simp add: print_base_small)
next
  case (large n)
  then show ?case using assms print_base_valid [OF assms, of "n div base"]
    by (simp add: print_base_large digits_append div_mult_mod_eq)
qed

lemma print_0 [simp]: "dec 0 = ''0''" "hex 0 = ''0''"
  by code_simp+

text \<open>A printed number starts with the digit zero only when it is zero.\<close>

lemma print_base_first:
  assumes "2 \<le> base"
  obtains d cs where "print_base base n = digit_char d # cs" "d < base" "0 < n \<longrightarrow> 0 < d"
proof -
  have "\<exists>d cs. print_base base n = digit_char d # cs \<and> d < base \<and> (0 < n \<longrightarrow> 0 < d)"
    using assms
  proof (induction n rule: digits_induct)
    case (small n)
    then show ?case by (auto simp: print_base_small)
  next
    case (large n)
    then show ?case using assms by (auto simp: print_base_large div_greater_zero_iff)
  qed
  with that show ?thesis by blast
qed

lemma of_digit_char: "d < 10 \<Longrightarrow> (of_char (digit_char d) :: nat) = 48 + d"
  by (simp add: digit_char_def of_char_char_of)

lemma digit_char_eq: "d < 10 \<Longrightarrow> digit_char d = c \<longleftrightarrow> 48 + d = (of_char c :: nat)"
  by (metis of_digit_char of_char_eq_iff)

lemma digit_char_plain:
  assumes "d < 10"
  shows "\<not> is_space (digit_char d)" "digit_char d \<noteq> CHR ''-''" "digit_char d \<noteq> CHR ''+''"
    "digit_char d \<noteq> CHR ''x''" "digit_char d \<noteq> CHR ''X''" "digit_char d = CHR ''0'' \<longleftrightarrow> d = 0"
  using assms by (simp_all add: digit_char_eq of_digit_char is_space_def)

text \<open>Decimal digits with no leading zero are read in base ten.\<close>

lemma prefix_print:
  assumes "0 < n" "base = 0 \<or> base = 10" shows "prefix base (dec n) = (10, dec n)"
proof -
  obtain d cs where p: "dec n = digit_char d # cs" "d < 10" "0 < d"
    by (rule print_base_first [of 10 n]) (use assms(1) in auto)
  then show ?thesis using digit_char_plain [of d] assms(2)
    by (auto simp: prefix_def split: list.splits)
qed

lemma strtol_print:
  assumes "int n \<le> LONG_MAX" "base = 0 \<or> base = 10"
  shows "strtol base (dec n) = (int n, True, False)"
proof (cases "n = 0")
  case True
  have "dec 0 = ''0''" by simp
  moreover have "strtol 0 ''0'' = (0, True, False)" "strtol 10 ''0'' = (0, True, False)" by code_simp+
  ultimately show ?thesis using True assms(2) by auto
next
  case False
  obtain d cs where p: "dec n = digit_char d # cs" "d < 10" "0 < n \<longrightarrow> 0 < d"
    by (rule print_base_first [of 10 n]) auto
  have "fst (digits 10 0 (digit_char d # cs)) = n"
    using digits_print_base [of 10 n] p(1) by simp
  moreover have "digit 10 (digit_char d) = Some d" using p(2) by simp
  moreover have "prefix base (digit_char d # cs) = (10, digit_char d # cs)"
    using prefix_print [OF _ assms(2), of n] False p(1) by simp
  ultimately show ?thesis unfolding p(1) strtol_def Let_def
    using digit_char_plain [OF p(2)] assms(1) by (simp add: LONG_MIN_def del: digits.simps)
qed

section \<open>getopt\<close>

text \<open>
  The options \<^verbatim>\<open>getopt\<close> returns for the arguments after the program's name, each with its \<^verbatim>\<open>optarg\<close>.
  An unknown option and one whose argument is missing are \<^verbatim>\<open>?\<close>. As in the GNU library a word that
  is not an option is passed over and \<^verbatim>\<open>--\<close> ends the options.
\<close>

type_synonym opt = "char \<times> string option"

text \<open>Whether a character is an option and whether it takes an argument.\<close>

fun opt_spec :: "string \<Rightarrow> char \<Rightarrow> bool option" where
  "opt_spec [] c = None"
| "opt_spec (x # xs) c =
     (if x = c \<and> c \<noteq> CHR '':'' then Some (case xs of y # _ \<Rightarrow> y = CHR '':'' | [] \<Rightarrow> False)
      else opt_spec xs c)"

text \<open>The options of one word, and the words that follow them.\<close>

fun getopt_word :: "string \<Rightarrow> string \<Rightarrow> string list \<Rightarrow> opt list \<times> string list" where
  "getopt_word spec [] ws = ([], ws)"
| "getopt_word spec (c # cs) ws =
     (case opt_spec spec c of
        None \<Rightarrow> (case getopt_word spec cs ws of (os, ws) \<Rightarrow> ((CHR ''?'', None) # os, ws))
      | Some False \<Rightarrow> (case getopt_word spec cs ws of (os, ws) \<Rightarrow> ((c, None) # os, ws))
      | Some True \<Rightarrow>
          if cs \<noteq> [] then ([(c, Some cs)], ws)
          else case ws of [] \<Rightarrow> ([(CHR ''?'', None)], []) | w # ws \<Rightarrow> ([(c, Some w)], ws))"

lemma getopt_word_length: "getopt_word spec cs ws = (os, ws') \<Longrightarrow> length ws' \<le> length ws"
  by (induction cs arbitrary: os)
    (auto split: option.splits bool.splits prod.splits if_splits list.splits)

function getopt :: "string \<Rightarrow> string list \<Rightarrow> opt list" where
  "getopt spec [] = []"
| "getopt spec (w # ws) =
     (if w = ''--'' then []
      else if hd (w @ ''x'') = CHR ''-'' \<and> length w > 1 then
        (case getopt_word spec (tl w) ws of (os, ws) \<Rightarrow> os @ getopt spec ws)
      else getopt spec ws)"
  by pat_completeness auto

termination
  by (relation "measure (\<lambda>(spec, ws). length ws)")
    (auto dest!: getopt_word_length [OF sym])

text \<open>An option with its argument in the next word.\<close>

lemma getopt_pair:
  assumes "opt_spec spec c = Some True" "c \<noteq> CHR ''-''"
  shows "getopt spec ([CHR ''-'', c] # w # ws) = (c, Some w) # getopt spec ws"
  using assms by simp

text \<open>Every option that takes an argument has one.\<close>

lemma getopt_word_args:
  assumes "getopt_word spec cs ws = (os, ws')" "opt_spec spec (CHR ''?'') = None" "(c, None) \<in> set os"
  shows "opt_spec spec c \<noteq> Some True"
  using assms
  by (induction cs arbitrary: os)
    (auto split: option.splits bool.splits prod.splits if_splits list.splits)

lemma getopt_args:
  assumes "(c, None) \<in> set (getopt spec ws)" "opt_spec spec (CHR ''?'') = None"
  shows "opt_spec spec c \<noteq> Some True"
  using assms
proof (induction spec ws rule: getopt.induct)
  case (2 spec w ws)
  obtain os ws' where p: "getopt_word spec (tl w) ws = (os, ws')" by (cases "getopt_word spec (tl w) ws")
  show ?case using 2 p getopt_word_args [OF p 2(4)] by (auto split: if_splits)
qed simp

end
