(* ===== verification/Kmodule.thy ===== *)
theory Kmodule
  imports Kirq Cstring
begin

text \<open>
  The entry points of the kernel module (src/src/sw/kernel/psipe\_module.c): the ioctl dispatcher
  and \<^verbatim>\<open>open\<close> on the character device, the probe and remove functions of the PCI driver with
  their resources, the module's own set-up, and the name of the device node.
\<close>

section \<open>File operations\<close>

text \<open>
  \<^verbatim>\<open>psipe_ioctl\<close>; the \<^verbatim>\<open>long\<close> it returns is the handle of a send or receive, converted from
  \<^verbatim>\<open>psipe_handle_t\<close>.
\<close>

definition psipe_ioctl ::
    "linux \<Rightarrow> 'd bus \<Rightarrow> 'd kstate \<Rightarrow> u32 \<Rightarrow> u64 \<Rightarrow> (int \<times> 'd kstate) res" where
  "psipe_ioctl L B s cmd arg =
     (if cmd = PSIPE_IOCTL_SEND \<or> cmd = PSIPE_IOCTL_RECV then
        (case psipe_ops_new L (trace s) cmd arg of (op, tr) \<Rightarrow>
           bindR (psipe_ops_init L B (s\<lparr>trace := tr\<rparr>) op) (\<lambda>(i, s). Inr (sint i, s)))
      else if cmd = PSIPE_IOCTL_WAIT then psipe_ops_wait s (psipe_ops_get s arg)
      else if cmd = PSIPE_IOCTL_FLUSH then Inr (psipe_ops_flush s)
      else Inr (- ENOTTY, s))"

text \<open>The minor number of the inode and the length of the BAR; the file is attached on success.\<close>

definition psipe_open :: "u32 \<Rightarrow> u64 \<Rightarrow> int" where
  "psipe_open minor bar_len =
     (if minor \<noteq> 0 then - ENXIO else if bar_len = 0 then - EIO else 0)"

section \<open>Probe and remove\<close>

text \<open>
  The calls of probe and remove that take or give back something, and the results of the calls of
  one probe, as parameters. \<open>pe_device_create\<close> is \<^verbatim>\<open>PTR_ERR\<close> of the result when it is an error.
\<close>

datatype presource =
    Dev_struct | Pci_enabled | Bus_master | Mem_regions | Bar_mapping | Chrdev_region | Cdev
  | Class_device | Irq_vectors | Irq_line | Dev_class | Pci_driver

datatype pcall = Take presource | Give presource

record probe_env =
  pe_kmalloc :: bool
  pe_enable :: int
  pe_set_mask :: int
  pe_mem_bars :: u32
  pe_request_regions :: int
  pe_iomap :: bool
  pe_alloc_chrdev :: int
  pe_cdev_add :: int
  pe_device_create :: int
  pe_msi_enabled :: bool
  pe_vec_count :: int
  pe_online_cpus :: int
  pe_alloc_vectors :: int
  pe_irq_vector :: int
  pe_request_irq :: int

definition psipe_irq_enable_vectors :: "probe_env \<Rightarrow> int \<times> pcall list" where
  "psipe_irq_enable_vectors P =
     (let irq_vecs_req = min (pe_vec_count P) (pe_online_cpus P + 1);
          irq_vecs = pe_alloc_vectors P
      in if irq_vecs < 0 then (- ENOSPC, [])
         else if irq_vecs \<noteq> irq_vecs_req then (- ENOSPC, [Take Irq_vectors, Give Irq_vectors])
         else if pe_irq_vector P < 0 then (- EINVAL, [Take Irq_vectors, Give Irq_vectors])
         else if pe_request_irq P \<noteq> 0 then
           (pe_request_irq P, [Take Irq_vectors, Give Irq_vectors])
         else (0, [Take Irq_vectors, Take Irq_line]))"

definition psipe_irq_enable :: "probe_env \<Rightarrow> int \<times> pcall list" where
  "psipe_irq_enable P = (if \<not> pe_msi_enabled P then (-1, []) else psipe_irq_enable_vectors P)"

text \<open>\<^verbatim>\<open>psipe_dev_clean\<close> unmaps the BAR when it is mapped.\<close>

definition psipe_dev_clean :: "bool \<Rightarrow> pcall list" where
  "psipe_dev_clean mapped = (if mapped then [Give Bar_mapping] else [])"

definition psipe_dev_init :: "probe_env \<Rightarrow> int \<times> pcall list" where
  "psipe_dev_init P =
     (if \<not> pe_iomap P then (- ENOMEM, psipe_dev_clean False) else (0, [Take Bar_mapping]))"

text \<open>The labels of \<^verbatim>\<open>psipe_probe\<close>, each falling through to the next.\<close>

definition err_pci_enable :: "pcall list" where
  "err_pci_enable = [Give Dev_struct]"
definition err_dma_set_mask :: "pcall list" where
  "err_dma_set_mask = Give Pci_enabled # err_pci_enable"
definition err_req_region :: "pcall list" where
  "err_req_region = Give Bus_master # err_dma_set_mask"
definition err_dev_init :: "pcall list" where
  "err_dev_init = Give Mem_regions # err_req_region"
definition err_alloc_chrdev :: "pcall list" where
  "err_alloc_chrdev = psipe_dev_clean True @ err_dev_init"
definition err_cdev_add :: "pcall list" where
  "err_cdev_add = Give Chrdev_region # err_alloc_chrdev"
definition err_device_create :: "pcall list" where
  "err_device_create = Give Cdev # err_cdev_add"
definition err_irq_enable :: "pcall list" where
  "err_irq_enable = Give Class_device # err_device_create"

text \<open>
  The result and the calls, in order. When no memory BAR 0 is found, \<^verbatim>\<open>err\<close> still holds the 0 of
  the call before.
\<close>

definition psipe_probe :: "probe_env \<Rightarrow> int \<times> pcall list" where
  "psipe_probe P =
     (if \<not> pe_kmalloc P then (- ENOMEM, [])
      else let tr = [Take Dev_struct]
      in if pe_enable P \<noteq> 0 then (pe_enable P, tr @ err_pci_enable)
      else let tr = tr @ [Take Pci_enabled, Take Bus_master]
      in if pe_set_mask P \<noteq> 0 then (pe_set_mask P, tr @ err_dma_set_mask)
      else if pe_mem_bars P AND 1 = 0 then (pe_set_mask P, tr @ err_req_region)
      else if pe_request_regions P \<noteq> 0 then (pe_request_regions P, tr @ err_req_region)
      else let tr = tr @ [Take Mem_regions]
      in case psipe_dev_init P of (err, calls) \<Rightarrow>
        let tr = tr @ calls
        in if err \<noteq> 0 then (err, tr @ err_dev_init)
           else if pe_alloc_chrdev P \<noteq> 0 then (pe_alloc_chrdev P, tr @ err_alloc_chrdev)
           else let tr = tr @ [Take Chrdev_region]
           in if pe_cdev_add P \<noteq> 0 then (pe_cdev_add P, tr @ err_cdev_add)
           else let tr = tr @ [Take Cdev]
           in if pe_device_create P < 0 then (pe_device_create P, tr @ err_device_create)
           else let tr = tr @ [Take Class_device]
           in case psipe_irq_enable P of (err, calls) \<Rightarrow>
             if err \<noteq> 0 then (err, tr @ calls @ err_irq_enable) else (0, tr @ calls))"

definition psipe_remove :: "pcall list" where
  "psipe_remove =
     [Give Class_device, Give Cdev, Give Chrdev_region] @ psipe_dev_clean True @
     [Give Bus_master, Give Irq_line, Give Mem_regions, Give Pci_enabled, Give Dev_struct]"

section \<open>The module\<close>

text \<open>
  Loading and unloading: \<open>class_err\<close> is \<^verbatim>\<open>PTR_ERR\<close> of the class when it is an error, \<open>reg_err\<close> the
  result of registering the driver.
\<close>

definition psipe_module_init :: "int \<Rightarrow> int \<Rightarrow> int \<times> pcall list" where
  "psipe_module_init class_err reg_err =
     (if class_err < 0 then (class_err, [])
      else if reg_err \<noteq> 0 then (reg_err, [Take Dev_class, Give Dev_class])
      else (0, [Take Dev_class, Take Pci_driver]))"

definition psipe_module_exit :: "pcall list" where
  "psipe_module_exit = [Give Pci_driver, Give Dev_class]"

text \<open>
  The name of the device from its domain, bus and \<^verbatim>\<open>devfn\<close> (slot and function), and the node below
  \<^verbatim>\<open>/dev\<close> with its mode: \<open>mode\<close> is whether the caller asks for it, \<open>ok\<close> whether there is memory.
\<close>

definition PCI_SLOT :: "u32 \<Rightarrow> u32" where "PCI_SLOT devfn = drop_bit 3 devfn AND 0x1f"
definition PCI_FUNC :: "u32 \<Rightarrow> u32" where "PCI_FUNC devfn = devfn AND 7"

definition device_name :: "u32 \<Rightarrow> u8 \<Rightarrow> u32 \<Rightarrow> string" where
  "device_name domain bus devfn =
     ''d'' @ hex (unat domain) @ ''b'' @ hex (unat bus) @ ''d'' @ hex (unat (PCI_SLOT devfn)) @
     ''f'' @ hex (unat (PCI_FUNC devfn)) @ ''_bar0''"

definition psipe_devnode :: "bool \<Rightarrow> bool \<Rightarrow> string \<Rightarrow> nat option \<times> string option" where
  "psipe_devnode mode ok name =
     (if mode then Some 438 else None, if ok then Some (''psipe/'' @ name) else None)"

text \<open>
  The tables handed to Linux: the ids of the devices the driver takes (\<open>Some\<close>, up to the
  terminator), its callbacks, and those of the node. \<^verbatim>\<open>PCI_DEVICE\<close> leaves the subsystem ids open.
\<close>

record pci_device_id =
  id_vendor :: u16
  id_device :: u16

definition psipe_id_table :: "pci_device_id option list" where
  "psipe_id_table =
     [Some \<lparr>id_vendor = PSIPE_HW_VENDOR_ID, id_device = PSIPE_HW_DEVICE_ID\<rparr>, None]"

record pci_driver =
  drv_name :: string
  id_table :: "pci_device_id option list"
  probe :: "probe_env \<Rightarrow> int \<times> pcall list"
  remove :: "pcall list"

definition psipe_pci_driver :: pci_driver where
  "psipe_pci_driver = \<lparr>drv_name = ''psipe'', id_table = psipe_id_table, probe = psipe_probe,
     remove = psipe_remove\<rparr>"

record 'd file_operations =
  open_file :: "u32 \<Rightarrow> u64 \<Rightarrow> int"
  unlocked_ioctl :: "linux \<Rightarrow> 'd bus \<Rightarrow> 'd kstate \<Rightarrow> u32 \<Rightarrow> u64 \<Rightarrow> (int \<times> 'd kstate) res"

definition psipe_fops :: "'d file_operations" where
  "psipe_fops = \<lparr>open_file = psipe_open, unlocked_ioctl = psipe_ioctl\<rparr>"

section \<open>What is held\<close>

text \<open>What is held after a run of calls. Giving back what is not held is an error.\<close>

fun held :: "presource set \<Rightarrow> pcall list \<Rightarrow> presource set option" where
  "held R [] = Some R"
| "held R (Take r # cs) = (if r \<in> R then None else held (insert r R) cs)"
| "held R (Give r # cs) = (if r \<in> R then held (R - {r}) cs else None)"

lemma held_append:
  "held R (cs @ ds) = (case held R cs of None \<Rightarrow> None | Some R' \<Rightarrow> held R' ds)"
  by (induction R cs rule: held.induct) auto

lemmas unwind_defs =
  err_pci_enable_def err_dma_set_mask_def err_req_region_def err_dev_init_def
  err_alloc_chrdev_def err_cdev_add_def err_device_create_def err_irq_enable_def
  psipe_dev_clean_def

end
