(* ===== verification/System.thy ===== *)
theory System
  imports Device Kmodule
begin

text \<open>
  The kernel module on the device: \<^verbatim>\<open>psipe_ioctl_send\<close> and \<^verbatim>\<open>psipe_ioctl_recv\<close> run against the
  register file of theory Mmio. Each lemma follows one ioctl from the buffer the module pinned to
  the bytes on the connection or in guest memory.
\<close>

section \<open>The driver and the device\<close>

text \<open>
  The module's driver takes the device: the ids of the device's class are in its table, before the
  terminator. Its 32-bit accesses are of a size the register file accepts.
\<close>

lemma driver_takes_device:
  "psipe_class_init misc others k = (dc, pc) \<Longrightarrow>
     Some \<lparr>id_vendor = vendor_id pc, id_device = device_id pc\<rparr> \<in>
       set (takeWhile (\<lambda>x. x \<noteq> None) (id_table psipe_pci_driver))"
  by (auto simp: psipe_class_init_def psipe_pci_driver_def psipe_id_table_def split: prod.splits)

lemma access_size_valid:
  "fst (valid_access psipe_mmio_ops) \<le> 4 \<and> 4 \<le> snd (valid_access psipe_mmio_ops)"
  by (simp add: psipe_mmio_ops_def)

section \<open>Programming the device\<close>

text \<open>
  The handle table the module wrote describes a buffer: what \<^verbatim>\<open>dma_map_sg\<close> returned, on a device
  with 4 KiB pages and 32-bit addresses.
\<close>

definition mapped_config :: "DMAConfig \<Rightarrow> psipe_dma \<Rightarrow> DMAConfig" where
  "mapped_config cfg m = cfg\<lparr>cfg_len := trunc32 (dma_len m), npages := nmapped m,
     handles := blit (handles cfg) 0 (map trunc32 (take (unat (nmapped m)) (sgl m)))\<rparr>"

text \<open>The registers and what programming keeps determine the device's configuration.\<close>

lemma view_config:
  assumes "dev_kept d0 d" "dev_view d = r"
  shows "config (dma d) = (config (dma d0))\<lparr>cfg_len := rv_len r, npages := rv_npages r,
      len_avail := rv_avail r, handles := rv_handles r\<rparr>"
    "mode (dma d) = (if rv_active r then DMA_MODE_ACTIVE else DMA_MODE_PASSIVE)"
proof -
  show "config (dma d) = (config (dma d0))\<lparr>cfg_len := rv_len r, npages := rv_npages r,
      len_avail := rv_avail r, handles := rv_handles r\<rparr>"
    by (rule DMAConfig.equality) (use assms in \<open>auto simp: dev_kept_def dev_view_def\<close>)
  show "mode (dma d) = (if rv_active r then DMA_MODE_ACTIVE else DMA_MODE_PASSIVE)"
    using assms(2) by (cases "mode (dma d)") (auto simp: dev_view_def)
qed

lemma mapped_view:
  assumes "dev_kept d0 d"
  shows "(config (dma d0))\<lparr>cfg_len := trunc32 (dma_len m), npages := nmapped m,
      len_avail := rv_avail (dev_view d),
      handles := blit (rv_handles (dev_view d)) 0 (map trunc32 (take (unat (nmapped m)) (sgl m)))\<rparr> =
      mapped_config (config (dma d)) m"
  using assms by (intro DMAConfig.equality) (auto simp: mapped_config_def dev_kept_def dev_view_def)

text \<open>From the maps to the doorbell.\<close>

lemma write_maps_dev:
  assumes r: "dev_kept d0 d" and n: "unat (nmapped m) \<le> handle_window"
    "unat (nmapped m) \<le> length (sgl m)"
  obtains d' where "psipe_dma_write_maps (dev_bus fuel H) d m = Inr d'" "dev_kept d0 d'"
    "config (dma d') = mapped_config (config (dma d)) m" "mode (dma d') = mode (dma d)"
proof -
  obtain d' where d': "psipe_dma_write_maps (dev_bus fuel H) d m = Inr d'" "dev_kept d0 d'"
    "dev_view d' = (dev_view d)\<lparr>rv_len := trunc32 (dma_len m), rv_npages := nmapped m,
       rv_handles := blit (rv_handles (dev_view d)) 0 (map trunc32 (take (unat (nmapped m)) (sgl m)))\<rparr>"
    using dev.maps_written [OF r n] by blast
  have "mode (dma d') = (if rv_active (dev_view d) then DMA_MODE_ACTIVE else DMA_MODE_PASSIVE)"
    using view_config(2) [OF d'(2,3)] by simp
  moreover have "\<dots> = mode (dma d)" using view_config(2) [OF r refl] by simp
  ultimately show ?thesis
    using d' view_config(1) [OF d'(2,3)] mapped_view [OF r, of m] that by simp
qed

text \<open>What \<^verbatim>\<open>dma_map_sg\<close> must have returned, and the device it is written to.\<close>

definition mapping_ok :: "linux \<Rightarrow> ktrace \<Rightarrow> DMAConfig \<Rightarrow> psipe_dma \<Rightarrow> psipe_dma \<Rightarrow> bool" where
  "mapping_ok L tr cfg m m' \<longleftrightarrow> (\<exists>tr' rv. psipe_dma_map_pages L tr m = (rv, tr', m') \<and> 0 \<le> rv) \<and>
     unat (nmapped m') \<le> handle_window \<and> unat (nmapped m') \<le> length (sgl m') \<and>
     sg_wf (mapped_config cfg m') \<and> 0 < unat (trunc32 (dma_len m'))"

lemma map_and_ring_dev:
  assumes r: "dev_kept d0 d" and map: "mapping_ok L tr (config (dma d)) m m'"
  obtains rv tr' d' where "0 \<le> rv" "dev_kept d0 d'" "mode (dma d') = mode (dma d)"
    "config (dma d') = mapped_config (config (dma d)) m'" "configured d'"
    "map_and_ring L (dev_bus fuel H) d tr m =
       bindR (psipe_execute fuel H d') (\<lambda>d. Inr (rv, d, tr', m'))"
proof -
  obtain rv tr' where p: "psipe_dma_map_pages L tr m = (rv, tr', m')" "0 \<le> rv"
    and n: "unat (nmapped m') \<le> handle_window" "unat (nmapped m') \<le> length (sgl m')"
    and wf: "sg_wf (mapped_config (config (dma d)) m')" "0 < unat (trunc32 (dma_len m'))"
    using map by (auto simp: mapping_ok_def)
  obtain d' where d': "psipe_dma_write_maps (dev_bus fuel H) d m' = Inr d'" "dev_kept d0 d'"
    "config (dma d') = mapped_config (config (dma d)) m'" "mode (dma d') = mode (dma d)"
    by (rule write_maps_dev [OF r n])
  have rd: "dev_ready d'" using d'(2) by (simp add: dev_kept_def)
  have "configured d'"
    using rd wf d'(3) by (simp add: configured_def dev_ready_def mapped_config_def)
  moreover have "map_and_ring L (dev_bus fuel H) d tr m =
      bindR (psipe_execute fuel H d') (\<lambda>d. Inr (rv, d, tr', m'))"
    using p by (simp add: map_and_ring_def d'(1) doorbell_executes [OF rd])
  ultimately show ?thesis using d' p(2) that by blast
qed

section \<open>The two ioctls on the device\<close>

text \<open>The available length is no part of the buffer's description.\<close>

lemma sg_len_avail [simp]:
  "sg_phys (cfg\<lparr>len_avail := l\<rparr>) = sg_phys cfg"
  "sg_bytes (cfg\<lparr>len_avail := l\<rparr>) = sg_bytes cfg"
  "sg_wf (cfg\<lparr>len_avail := l\<rparr>) = sg_wf cfg"
  "sg_inj (cfg\<lparr>len_avail := l\<rparr>) = sg_inj cfg"
  "sg_written (cfg\<lparr>len_avail := l\<rparr>) = sg_written cfg"
  "mapped_config (cfg\<lparr>len_avail := l\<rparr>) m = (mapped_config cfg m)\<lparr>len_avail := l\<rparr>"
proof -
  show p: "sg_phys (cfg\<lparr>len_avail := l\<rparr>) = sg_phys cfg"
    by (rule ext) (simp add: sg_phys_def first_ofs_def Let_def)
  show "sg_bytes (cfg\<lparr>len_avail := l\<rparr>) = sg_bytes cfg"
    by (intro ext) (simp add: sg_bytes_def p)
  show "sg_wf (cfg\<lparr>len_avail := l\<rparr>) = sg_wf cfg"
    by (simp add: sg_wf_def first_ofs_def contiguous_def)
  show "sg_inj (cfg\<lparr>len_avail := l\<rparr>) = sg_inj cfg"
    by (simp add: sg_inj_def p)
  show "sg_written (cfg\<lparr>len_avail := l\<rparr>) = sg_written cfg"
    by (intro ext) (simp add: sg_written_def p)
qed (simp add: mapped_config_def)

lemma mapping_len_avail [simp]:
  "mapping_ok L tr (cfg\<lparr>len_avail := l\<rparr>) m m' = mapping_ok L tr cfg m m'"
  by (simp add: mapping_ok_def)

lemma connected_kept: "dev_kept d0 d \<Longrightarrow> connected d = connected d0"
  by (simp add: connected_def psipe_proxy_endpoint_def dev_kept_def)

lemma run_over_ready: "run_over s t \<Longrightarrow> dev_ready s \<Longrightarrow> dev_ready t"
  by (simp add: run_over_def dev_ready_def)

text \<open>The mode and direction each ioctl writes before the mapping.\<close>

definition send_dma :: "psipe_dma \<Rightarrow> psipe_dma" where
  "send_dma m = m\<lparr>dma_mode := PSIPE_MODE_ACTIVE, direction := DMA_TO_DEVICE\<rparr>"

definition recv_dma :: "psipe_dma \<Rightarrow> psipe_dma" where
  "recv_dma m = m\<lparr>dma_mode := PSIPE_MODE_PASSIVE, direction := DMA_FROM_DEVICE\<rparr>"

lemma write_setup_dev:
  assumes r: "dev_ready d"
  obtains d' where "psipe_dma_write_setup (dev_bus fuel H) d m md dir =
      Inr (m\<lparr>dma_mode := md, direction := dir\<rparr>, d')"
    "dev_kept d d'" "config (dma d') = config (dma d)"
    "mode (dma d') = (if (0 :: u32) < word_of_int md then DMA_MODE_ACTIVE else DMA_MODE_PASSIVE)"
proof -
  obtain d' where d': "iowrite32 (dev_bus fuel H) d PSIPE_HW_BAR0_DMA_CFG_MOD (word_of_int md) = Inr d'"
    "dev_kept d d'" "dev_view d' = (dev_view d)\<lparr>rv_active := ((0 :: u32) < word_of_int md)\<rparr>"
    using dev.write_mod [OF dev_kept_refl [OF r]] by blast
  have "config (dma d') = config (dma d)"
    using view_config(1) [OF d'(2,3)] by (simp add: dev_view_def)
  with d' view_config(2) [OF d'(2,3)] show ?thesis
    using that by (simp add: psipe_dma_write_setup_def)
qed

text \<open>What a run leaves of the device besides its interrupt: the peer and the buffer's description.\<close>

definition left_by :: "psipe_dma \<Rightarrow> 'w PSIPEDevice \<Rightarrow> 'w PSIPEDevice \<Rightarrow> bool" where
  "left_by m d t \<longleftrightarrow> proxy t = proxy d \<and>
     (\<exists>l. config (dma t) = (mapped_config (config (dma d)) m)\<lparr>len_avail := l\<rparr>)"

lemma send_on_device_left:
  assumes H: "host_contract H v" and st: "msi_stable H" and r: "dev_ready d" and con: "connected d"
    and inb: "inb v (env d) = enc_req PSIPE_REQ_RLN @ enc_len l @ rest"
    and fits: "dma_len m \<le> trunc32 l"
    and map: "mapping_ok L tr (config (dma d)) (send_dma m) m'"
    and fuel: "Suc (unat (trunc32 (dma_len m'))) < fuel"
  obtains rv t tr' where
    "psipe_ioctl_send L (dev_bus fuel H) d tr m = Inr (rv, t, tr', m')" "0 \<le> rv" "dev_ready t"
    "work_ended H t" "inb v (env t) = rest" "ram v (env t) = ram v (env d)"
    "outb v (env t) = outb v (env d) @ enc_req PSIPE_REQ_SLN @
       frames (sg_bytes (mapped_config (config (dma d)) m') (ram v (env d)) 0
         (unat (trunc32 (dma_len m'))))"
    "left_by m' d t"
proof -
  obtain d1 where d1: "psipe_dma_write_setup (dev_bus fuel H) d m PSIPE_MODE_ACTIVE DMA_TO_DEVICE =
      Inr (send_dma m, d1)" "dev_kept d d1" "config (dma d1) = config (dma d)"
    "mode (dma d1) = DMA_MODE_ACTIVE"
    using write_setup_dev [OF r, of fuel H m PSIPE_MODE_ACTIVE DMA_TO_DEVICE]
    by (auto simp: send_dma_def PSIPE_MODE_ACTIVE_def)
  have env1: "env d1 = env d" and con1: "connected d1" and size1: "mmio_size d1 = 4096"
    and r1: "dev_ready d1"
    using d1(2) con connected_kept [OF d1(2)] by (simp_all add: dev_kept_def dev_ready_def)
  have f0: "0 < fuel" using fuel by simp
  obtain w where w: "dev_ioread32 fuel H d1 PSIPE_HW_BAR0_DMA_CFG_LEN_AVAIL =
      Inr (ucast l, set_len_avail (d1\<lparr>env := w\<rparr>) l)"
    "ram v w = ram v (env d)" "inb v w = rest" "outb v w = outb v (env d) @ enc_req PSIPE_REQ_SLN"
    using read_len_avail_active [OF H f0 con1 size1 d1(4)] inb unfolding env1 by metis
  define d2 where "d2 = set_len_avail (d1\<lparr>env := w\<rparr>) l"
  have d2: "dev_ready d2" "env d2 = w" "mode (dma d2) = DMA_MODE_ACTIVE"
    "config (dma d2) = (config (dma d))\<lparr>len_avail := l\<rparr>" "proxy d2 = proxy d"
    using r1 d1 by (simp_all add: d2_def dev_ready_def psipe_dma_is_idle_def dev_kept_def)
  have map2: "mapping_ok L tr (config (dma d2)) (send_dma m) m'" using map by (simp add: d2(4))
  obtain rv tr' d3 where d3: "0 \<le> rv" "dev_kept d2 d3" "mode (dma d3) = mode (dma d2)"
    "config (dma d3) = mapped_config (config (dma d2)) m'" "configured d3"
    "map_and_ring L (dev_bus fuel H) d2 tr (send_dma m) =
       bindR (psipe_execute fuel H d3) (\<lambda>d. Inr (rv, d, tr', m'))"
    by (rule map_and_ring_dev [OF dev_kept_refl [OF d2(1)] map2])
  have c3: "config (dma d3) = (mapped_config (config (dma d)) m')\<lparr>len_avail := l\<rparr>"
    "env d3 = w" "dev_ready d3"
    using d3(2,4) d2 by (simp_all add: dev_kept_def)
  have len: "buffer_len d3 = unat (trunc32 (dma_len m'))"
    by (simp add: buffer_len_def c3 mapped_config_def)
  have bytes: "buffer_bytes v d3 = sg_bytes (mapped_config (config (dma d)) m') (ram v (env d)) 0
      (unat (trunc32 (dma_len m')))"
    by (simp add: buffer_bytes_def len c3 w(2))
  obtain t where t: "psipe_execute fuel H d3 = Inr t" "run_over d3 t" "work_ended H t"
    "ram v (env t) = ram v (env d3)" "inb v (env t) = inb v (env d3)"
    "outb v (env t) = outb v (env d3) @ frames (buffer_bytes v d3)"
    using execute_active [OF H st d3(5)] d3(3) d2(3) fuel len by metis
  have "ioread32 (dev_bus fuel H) d1 PSIPE_HW_BAR0_DMA_CFG_LEN_AVAIL = Inr (ucast l, d2)"
    using w(1) by (simp add: dev_bus_def d2_def)
  then have "psipe_ioctl_send L (dev_bus fuel H) d tr m = Inr (rv, t, tr', m')"
    using fits d3(6) t(1)
    by (simp add: psipe_ioctl_send_def d1(1) psipe_check_size_avail_def send_dma_def)
  moreover have "left_by m' d t"
    using t(2) c3(1) d2(5) d3(2) by (auto simp: left_by_def run_over_def dev_kept_def)
  ultimately show ?thesis
    using d3(1) t w c3(2) bytes run_over_ready [OF t(2) c3(3)] that by simp
qed

lemma send_on_device:
  assumes H: "host_contract H v" and st: "msi_stable H" and r: "dev_ready d" and con: "connected d"
    and inb: "inb v (env d) = enc_req PSIPE_REQ_RLN @ enc_len l @ rest"
    and fits: "dma_len m \<le> trunc32 l"
    and map: "mapping_ok L tr (config (dma d)) (send_dma m) m'"
    and fuel: "Suc (unat (trunc32 (dma_len m'))) < fuel"
  obtains rv t tr' where
    "psipe_ioctl_send L (dev_bus fuel H) d tr m = Inr (rv, t, tr', m')" "0 \<le> rv" "dev_ready t"
    "work_ended H t" "inb v (env t) = rest" "ram v (env t) = ram v (env d)"
    "outb v (env t) = outb v (env d) @ enc_req PSIPE_REQ_SLN @
       frames (sg_bytes (mapped_config (config (dma d)) m') (ram v (env d)) 0
         (unat (trunc32 (dma_len m'))))"
  by (rule send_on_device_left [OF assms]) (rule that)

lemma recv_on_device_left:
  assumes H: "host_contract H v" and st: "msi_stable H" and r: "dev_ready d" and con: "connected d"
    and inb: "inb v (env d) =
      concat (map enc_req rs) @ enc_req PSIPE_REQ_SLN @ frames ds @ rest"
    and sk: "skipped PSIPE_REQ_SLN rs"
    and len: "length ds = unat (trunc32 (dma_len m'))"
    and map: "mapping_ok L tr (config (dma d)) (recv_dma m) m'"
    and inj: "sg_inj (mapped_config (config (dma d)) m')"
    and fuel: "Suc (length ds + length rs) < fuel"
  obtains rv t tr' where
    "psipe_ioctl_recv L (dev_bus fuel H) d tr m = Inr (rv, t, tr', m')" "0 \<le> rv" "dev_ready t"
    "work_ended H t" "inb v (env t) = rest"
    "sg_written (mapped_config (config (dma d)) m') (ram v (env d)) (ram v (env t)) 0 ds"
    "outb v (env t) = outb v (env d) @ enc_req PSIPE_REQ_RLN @ enc_len (trunc32 (dma_len m))"
    "left_by m' d t"
proof -
  obtain d1 where d1: "psipe_dma_write_setup (dev_bus fuel H) d m PSIPE_MODE_PASSIVE DMA_FROM_DEVICE =
      Inr (recv_dma m, d1)" "dev_kept d d1" "config (dma d1) = config (dma d)"
    "mode (dma d1) = DMA_MODE_PASSIVE"
    using write_setup_dev [OF r, of fuel H m PSIPE_MODE_PASSIVE DMA_FROM_DEVICE]
    by (auto simp: recv_dma_def PSIPE_MODE_PASSIVE_def)
  let ?l = "trunc32 (dma_len m)"
  obtain d2 where d2: "iowrite32 (dev_bus fuel H) d1 PSIPE_HW_BAR0_DMA_CFG_LEN_AVAIL
      (ucast (dma_len m)) = Inr d2" "dev_kept d d2" "dev_view d2 = (dev_view d1)\<lparr>rv_avail := ?l\<rparr>"
    using dev.write_avail [OF d1(2)] by blast
  have m2: "mode (dma d2) = DMA_MODE_PASSIVE"
    using view_config(2) [OF d2(2,3)] d1(4) by (simp add: dev_view_def)
  have c2: "config (dma d2) = (config (dma d))\<lparr>len_avail := ?l\<rparr>"
    using view_config(1) [OF d2(2,3)] d1(3) by (simp add: dev_view_def)
  have map2: "mapping_ok L tr (config (dma d2)) (recv_dma m) m'" using map by (simp add: c2)
  obtain rv tr' d3 where d3: "0 \<le> rv" "dev_kept d d3" "mode (dma d3) = mode (dma d2)"
    "config (dma d3) = mapped_config (config (dma d2)) m'" "configured d3"
    "map_and_ring L (dev_bus fuel H) d2 tr (recv_dma m) =
       bindR (psipe_execute fuel H d3) (\<lambda>d. Inr (rv, d, tr', m'))"
    by (rule map_and_ring_dev [OF d2(2) map2])
  have c3: "config (dma d3) = (mapped_config (config (dma d)) m')\<lparr>len_avail := ?l\<rparr>"
    "env d3 = env d" "dev_ready d3" "connected d3"
    using d3(2,4) c2 con connected_kept [OF d3(2)] by (simp_all add: dev_kept_def)
  have len3: "length ds = buffer_len d3"
    by (simp add: buffer_len_def c3 mapped_config_def len)
  have inj3: "sg_inj (config (dma d3))" using inj by (simp add: c3)
  have m3: "mode (dma d3) = DMA_MODE_PASSIVE" using d3(3) m2 by simp
  have inb3: "inb v (env d3) = concat (map enc_req rs) @ enc_req PSIPE_REQ_SLN @ frames ds @ rest"
    using inb by (simp add: c3)
  have f3: "Suc (buffer_len d3 + length rs) < fuel" using fuel len3 by simp
  obtain t where t: "psipe_execute fuel H d3 = Inr t" "run_over d3 t" "work_ended H t"
    "sg_written (config (dma d3)) (ram v (env d3)) (ram v (env t)) 0 ds" "inb v (env t) = rest"
    "outb v (env t) = outb v (env d3) @ enc_req PSIPE_REQ_RLN @ enc_len (len_avail (config (dma d3)))"
    by (rule execute_passive [OF H st d3(5) inj3 c3(4) m3 f3 sk inb3 len3])
  have "psipe_ioctl_recv L (dev_bus fuel H) d tr m = Inr (rv, t, tr', m')"
    using d2(1) d3(6) t(1)
    by (simp add: psipe_ioctl_recv_def d1(1) psipe_set_size_avail_def recv_dma_def)
  moreover have "left_by m' d t"
    using t(2) c3(1) d3(2) by (auto simp: left_by_def run_over_def dev_kept_def)
  ultimately show ?thesis using d3(1) t c3 run_over_ready [OF t(2) c3(3)] that by simp
qed

lemma recv_on_device:
  assumes H: "host_contract H v" and st: "msi_stable H" and r: "dev_ready d" and con: "connected d"
    and inb: "inb v (env d) =
      concat (map enc_req rs) @ enc_req PSIPE_REQ_SLN @ frames ds @ rest"
    and sk: "skipped PSIPE_REQ_SLN rs"
    and len: "length ds = unat (trunc32 (dma_len m'))"
    and map: "mapping_ok L tr (config (dma d)) (recv_dma m) m'"
    and inj: "sg_inj (mapped_config (config (dma d)) m')"
    and fuel: "Suc (length ds + length rs) < fuel"
  obtains rv t tr' where
    "psipe_ioctl_recv L (dev_bus fuel H) d tr m = Inr (rv, t, tr', m')" "0 \<le> rv" "dev_ready t"
    "work_ended H t" "inb v (env t) = rest"
    "sg_written (mapped_config (config (dma d)) m') (ram v (env d)) (ram v (env t)) 0 ds"
    "outb v (env t) = outb v (env d) @ enc_req PSIPE_REQ_RLN @ enc_len (trunc32 (dma_len m))"
  by (rule recv_on_device_left [OF assms]) (rule that)

text \<open>A buffer the peer has no room for is refused after the question, before anything is mapped.\<close>

lemma send_refused:
  assumes H: "host_contract H v" and r: "dev_ready d" and con: "connected d"
    and inb: "inb v (env d) = enc_req PSIPE_REQ_RLN @ enc_len l @ rest"
    and big: "trunc32 l < dma_len m" and fuel: "0 < fuel"
  obtains t where "psipe_ioctl_send L (dev_bus fuel H) d tr m = Inr (- EMSGSIZE, t, tr, send_dma m)"
    "dev_ready t" "irq t = irq d" "inb v (env t) = rest" "ram v (env t) = ram v (env d)"
    "outb v (env t) = outb v (env d) @ enc_req PSIPE_REQ_SLN"
proof -
  obtain d1 where d1: "psipe_dma_write_setup (dev_bus fuel H) d m PSIPE_MODE_ACTIVE DMA_TO_DEVICE =
      Inr (send_dma m, d1)" "dev_kept d d1" "config (dma d1) = config (dma d)"
    "mode (dma d1) = DMA_MODE_ACTIVE"
    using write_setup_dev [OF r, of fuel H m PSIPE_MODE_ACTIVE DMA_TO_DEVICE]
    by (auto simp: send_dma_def PSIPE_MODE_ACTIVE_def)
  have e: "env d1 = env d" "connected d1" "mmio_size d1 = 4096" "dev_ready d1" "irq d1 = irq d"
    using d1(2) con connected_kept [OF d1(2)] by (simp_all add: dev_kept_def dev_ready_def)
  obtain w where w: "dev_ioread32 fuel H d1 PSIPE_HW_BAR0_DMA_CFG_LEN_AVAIL =
      Inr (ucast l, set_len_avail (d1\<lparr>env := w\<rparr>) l)"
    "ram v w = ram v (env d)" "inb v w = rest" "outb v w = outb v (env d) @ enc_req PSIPE_REQ_SLN"
    using read_len_avail_active [OF H fuel e(2,3) d1(4)] inb unfolding e(1) by metis
  let ?t = "set_len_avail (d1\<lparr>env := w\<rparr>) l"
  have "ioread32 (dev_bus fuel H) d1 PSIPE_HW_BAR0_DMA_CFG_LEN_AVAIL = Inr (ucast l, ?t)"
    using w(1) by (simp add: dev_bus_def)
  then have "psipe_ioctl_send L (dev_bus fuel H) d tr m = Inr (- EMSGSIZE, ?t, tr, send_dma m)"
    using big by (simp add: psipe_ioctl_send_def d1(1) psipe_check_size_avail_def send_dma_def not_le)
  moreover have "dev_ready ?t" using e(4) by (simp add: dev_ready_def psipe_dma_is_idle_def)
  ultimately show ?thesis using w(2-4) e(5) that by simp
qed

section \<open>A buffer across the connection\<close>

text \<open>
  One side of a transfer: a host and its view, a ready connected device, the operation before and
  after the mapping.
\<close>

definition side_ok ::
    "'w host \<Rightarrow> 'w view \<Rightarrow> 'w PSIPEDevice \<Rightarrow> linux \<Rightarrow> ktrace \<Rightarrow> psipe_dma \<Rightarrow> psipe_dma \<Rightarrow> bool" where
  "side_ok H v d L tr m m' \<longleftrightarrow> host_contract H v \<and> msi_stable H \<and> dev_ready d \<and> connected d \<and>
     mapping_ok L tr (config (dma d)) m m' \<and> unat (dma_len m) < 2 ^ 32"

lemma mapping_dma_len:
  "psipe_dma_map_pages L tr m = (rv, tr', m') \<Longrightarrow> dma_len m' = dma_len m"
  by (auto simp: psipe_dma_map_pages_def Let_def split: prod.splits)

end
