(* ===== verification/Ksteps.thy ===== *)
theory Ksteps
  imports Kmodule
begin

text \<open>
  The kernel module as a transition system: any number of callers issue ioctls and wait for
  operations while interrupts complete them. The reachability invariant, and the queue as an
  instance of \<open>work_queue\<close>: operations complete in the order they were submitted.
\<close>

section \<open>Steps\<close>

text \<open>
  One step is a send, receive or flush ioctl, one interrupt, a waiter going to sleep, or a woken
  waiter returning, as a whole: no other thread comes in between. What can happen when one does, at the
  accesses that \<^verbatim>\<open>ops->lock\<close> does not protect, is the subject of theory Kwaiters, where these
  steps are the runs that nobody overtakes.
\<close>

inductive kstep :: "linux \<Rightarrow> 'd bus \<Rightarrow> 'd kstate \<Rightarrow> 'd kstate \<Rightarrow> bool"
  for L :: linux and B :: "'d bus" where
  submit: "cmd = PSIPE_IOCTL_SEND \<or> cmd = PSIPE_IOCTL_RECV \<Longrightarrow>
    psipe_ioctl L B s cmd arg = Inr (rv, t) \<Longrightarrow> kstep L B s t"
| interrupt: "psipe_irq_handler L B s = Inr (r, t) \<Longrightarrow> kstep L B s t"
| sleep: "psipe_ops_get s i = Some op \<Longrightarrow> kstep L B s (ops_wait_enter s i)"
| wake: "find_op i s = Some op \<Longrightarrow> 0 < nwaiting op \<Longrightarrow> ops_wait_leave s i = Inr (rv, t) \<Longrightarrow>
    kstep L B s t"
| flush: "psipe_ioctl L B s PSIPE_IOCTL_FLUSH arg = Inr (rv, t) \<Longrightarrow> kstep L B s t"

inductive_cases kstepE: "kstep L B s t"

text \<open>The module as \<^verbatim>\<open>psipe_dev_init\<close> leaves it.\<close>

definition kinit :: "'d \<Rightarrow> 'd kstate" where
  "kinit d = \<lparr>hw = d, trace = [], next_id = 0, active = [], inactive = []\<rparr>"

text \<open>Reachable while the 64-bit id has not wrapped around.\<close>

inductive kreach :: "linux \<Rightarrow> 'd bus \<Rightarrow> 'd \<Rightarrow> 'd kstate \<Rightarrow> bool"
  for L :: linux and B :: "'d bus" and d :: 'd where
  kreach_init: "kreach L B d (kinit d)"
| kreach_step: "kreach L B d s \<Longrightarrow> kstep L B s t \<Longrightarrow> unat (next_id s) < 2 ^ 64 - 1 \<Longrightarrow>
    kreach L B d t"

section \<open>The invariant\<close>

fun woken_of :: "kcall \<Rightarrow> u64 list" where
  "woken_of (Wake_up_all i) = [i]"
| "woken_of _ = []"

text \<open>The operations completed so far, in the order of their completion.\<close>

definition completed :: "ktrace \<Rightarrow> u64 list" where
  "completed tr = concat (map woken_of tr)"

definition op_ids :: "psipe_op list \<Rightarrow> nat list" where
  "op_ids ops = map (\<lambda>op. unat (op_id op)) ops"

definition kinv :: "'d kstate \<Rightarrow> bool" where
  "kinv s \<longleftrightarrow>
     sorted_wrt (<) (map unat (completed (trace s)) @ op_ids (active s)) \<and>
     (\<forall>i \<in> set (completed (trace s)). unat i < unat (next_id s)) \<and>
     (\<forall>i \<in> set (op_ids (active s)). i < unat (next_id s)) \<and>
     distinct (op_ids (inactive s)) \<and>
     op_id ` set (inactive s) \<subseteq> set (completed (trace s)) \<and>
     (\<forall>op \<in> set (active s). flag op = 0) \<and> (\<forall>op \<in> set (inactive s). flag op = 1)"

lemma completed_append [simp]: "completed (tr @ tr') = completed tr @ completed tr'"
  by (simp add: completed_def)

lemma completed_simps [simp]:
  "completed [] = []" "completed (c # tr) = woken_of c @ completed tr"
  by (simp_all add: completed_def)

text \<open>The module's own calls never wake anybody outside \<open>psipe_ops_fini\<close>.\<close>

lemma pin_completed: "psipe_dma_pin_pages L tr m = (rv, tr', m') \<Longrightarrow> completed tr' = completed tr"
  by (auto simp: psipe_dma_pin_pages_def Let_def split: if_splits)

lemma map_completed: "psipe_dma_map_pages L tr m = (rv, tr', m') \<Longrightarrow> completed tr' = completed tr"
  by (auto simp: psipe_dma_map_pages_def Let_def split: prod.splits)

lemma unpin_completed [simp]:
  "completed (psipe_dma_unpin_pages tr m) = completed tr"
  "completed (psipe_dma_unmap_pages tr m) = completed tr"
  by (simp_all add: psipe_dma_unpin_pages_def psipe_dma_unmap_pages_def)

lemma ring_completed:
  "map_and_ring L B d tr m = Inr (rv, d', tr', m') \<Longrightarrow> completed tr' = completed tr"
  by (auto simp: map_and_ring_def dest: map_completed split: prod.splits if_splits)

lemma run_completed:
  "run_ioctl_fn f L B d tr m = Inr (rv, d', tr', m') \<Longrightarrow> completed tr' = completed tr"
  by (cases f) (auto simp: psipe_ioctl_send_def psipe_ioctl_recv_def split: if_splits
      dest!: ring_completed)

lemma new_completed: "psipe_ops_new L tr cmd arg = (op, tr') \<Longrightarrow> completed tr' = completed tr"
  by (auto simp: psipe_ops_new_def Let_def split: option.splits prod.splits if_splits)

lemma new_flag: "psipe_ops_new L tr cmd arg = (Some op, tr') \<Longrightarrow> flag op = 0"
  by (auto simp: psipe_ops_new_def Let_def split: option.splits prod.splits if_splits)

section \<open>What the operations do to ids and flags\<close>

lemma op_ids_simps [simp]:
  "op_ids [] = []" "op_ids (op # ops) = unat (op_id op) # op_ids ops"
  "op_ids (ops @ ops') = op_ids ops @ op_ids ops'"
  by (simp_all add: op_ids_def)

lemma op_ids_map_op:
  assumes "\<And>op. op_id (f op) = op_id op" shows "op_ids (map_op i f ops) = op_ids ops"
  using assms by (simp add: op_ids_def map_op_def)

lemma set_map_op: "op \<in> set (map_op i f ops) \<Longrightarrow> \<exists>op' \<in> set ops. op = op' \<or> op = f op'"
  by (auto simp: map_op_def split: if_splits)

lemma op_id_map_op:
  assumes "\<And>op. op_id (f op) = op_id op"
  shows "op_id ` set (map_op i f ops) = op_id ` set ops"
proof -
  have "map op_id (map_op i f ops) = map op_id ops" using assms by (simp add: map_op_def)
  then show ?thesis by (metis list.set_map)
qed

lemma kinv_update_op:
  assumes inv: "kinv s" and f: "\<And>op. op_id (f op) = op_id op" "\<And>op. flag (f op) = flag op"
  shows "kinv (update_op i f s)"
proof -
  have "flag op = 0" if a: "op \<in> set (map_op i f (active s))" for op
    using set_map_op [OF a] inv f(2) by (auto simp: kinv_def)
  moreover have "flag op = 1" if a: "op \<in> set (map_op i f (inactive s))" for op
    using set_map_op [OF a] inv f(2) by (auto simp: kinv_def)
  ultimately show ?thesis
    using inv op_ids_map_op [of f] op_id_map_op [of f] f(1)
    unfolding kinv_def update_op_def by simp
qed

lemma kinv_frame: "kinv s \<Longrightarrow> completed tr = completed (trace s) \<Longrightarrow> kinv (s\<lparr>hw := d, trace := tr\<rparr>)"
  by (simp add: kinv_def)

lemma kinv_trace: "kinv s \<Longrightarrow> completed tr = completed (trace s) \<Longrightarrow> kinv (s\<lparr>trace := tr\<rparr>)"
  by (simp add: kinv_def)

lemma kinv_hw [simp]: "kinv (s\<lparr>hw := d\<rparr>) = kinv s"
  by (simp add: kinv_def)

lemma kinv_start:
  assumes "kinv s" "start_op L B s op = Inr (rv, t)"
  shows "kinv t"
proof -
  obtain d tr m where r: "run_ioctl_fn (op_fn op) L B (hw s) (trace s) (op_dma op) = Inr (rv, d, tr, m)"
    "t = update_op (op_id op) (\<lambda>op. op\<lparr>op_dma := m\<rparr>) (s\<lparr>hw := d, trace := tr\<rparr>)"
    using assms(2) by (auto simp: start_op_def)
  show ?thesis unfolding r(2)
    by (intro kinv_update_op kinv_frame assms(1) run_completed [OF r(1)]) simp_all
qed

lemma set_op_ids: "set (op_ids ops) = unat ` op_id ` set ops"
  by (simp add: op_ids_def image_image)

lemma unat_u64_eq [simp]: "unat (a :: u64) = unat b \<longleftrightarrow> a = b"
  by (simp add: word_unat_eq_iff)

text \<open>The ids of all operations are different, and those of the queue in order.\<close>

lemma kinv_distinct:
  assumes inv: "kinv s"
  shows "distinct (map op_id (active s @ inactive s))" "sorted_wrt (<) (map op_id (active s))"
proof -
  have "sorted_wrt (<) (op_ids (active s))" "distinct (op_ids (inactive s))"
    using inv by (simp_all add: kinv_def sorted_wrt_append)
  moreover have "sorted_wrt (<) (op_ids ops) \<Longrightarrow> sorted_wrt (<) (map op_id ops) \<and> distinct (map op_id ops)"
    "distinct (op_ids ops) \<Longrightarrow> distinct (map op_id ops)" for ops
    by (induction ops) (auto simp: set_op_ids word_less_nat_alt)
  moreover have "op_id ` set (active s) \<inter> op_id ` set (inactive s) = {}"
    using inv by (fastforce simp: kinv_def sorted_wrt_append set_op_ids)
  ultimately show "distinct (map op_id (active s @ inactive s))"
    "sorted_wrt (<) (map op_id (active s))" by auto
qed

lemma kinv_fresh:
  assumes "kinv s" "op \<in> set (active s @ inactive s)" shows "op_id op < next_id s"
  using assms by (auto simp: kinv_def set_op_ids word_less_nat_alt)

lemma kinv_enqueue:
  assumes inv: "kinv s" and f: "flag op = 0" and w: "unat (next_id s) < 2 ^ 64 - 1"
  shows "kinv (ops_enqueue s op)"
proof -
  have n: "unat (next_id s + 1) = Suc (unat (next_id s))"
    using w by (simp add: unat_word_ariths)
  show ?thesis
    using inv f unfolding kinv_def ops_enqueue_def
    by (auto simp: n sorted_wrt_append less_Suc_eq)
qed

lemma kinv_init: "kinv (kinit d)"
  by (simp add: kinv_def kinit_def)

lemma kinv_submit:
  assumes inv: "kinv s" and w: "unat (next_id s) < 2 ^ 64 - 1"
    and init: "psipe_ops_init L B s op = Inr (i, t)" and f: "\<And>o'. op = Some o' \<Longrightarrow> flag o' = 0"
  shows "kinv t"
proof (cases op)
  case None
  then show ?thesis using init inv by (simp add: psipe_ops_init_def)
next
  case (Some o')
  obtain rv tr m where p: "psipe_dma_pin_pages L (trace s) (op_dma o') = (rv, tr, m)"
    by (cases "psipe_dma_pin_pages L (trace s) (op_dma o')") auto
  let ?s = "s\<lparr>trace := tr\<rparr>" let ?o = "o'\<lparr>op_dma := m, op_id := next_id s\<rparr>"
  have inv': "kinv ?s" by (rule kinv_trace [OF inv pin_completed [OF p]])
  then have e: "kinv (ops_enqueue ?s ?o)" using kinv_enqueue [of ?s ?o] f [OF Some] w by simp
  show ?thesis
    using init inv' e p Some
    by (auto simp: psipe_ops_init_def Let_def split: if_splits dest: kinv_start)
qed

lemma list_del_head:
  assumes "unat (op_id op) \<notin> set (op_ids ops)" shows "list_del (op_id op) (op # ops) = ops"
  using assms by (auto simp: list_del_def set_op_ids image_iff intro!: filter_True)

lemma list_del_other:
  assumes "i \<notin> op_id ` set ops" shows "list_del i ops = ops"
  using assms by (auto simp: list_del_def intro!: filter_True)

lemma kinv_head:
  assumes "kinv s" "active s = op # ops"
  shows "unat (op_id op) \<notin> set (op_ids ops)" "op_id op \<notin> set (completed (trace s))"
    "op_id op \<notin> op_id ` set (inactive s)"
  using assms by (auto simp: kinv_def sorted_wrt_append)

text \<open>Completing the head: it leaves the active list and is the next to wake up its waiters.\<close>

lemma fini_head:
  assumes inv: "kinv s" and a: "active s = op # ops"
  shows "active (psipe_ops_fini s op) = ops"
    "inactive (psipe_ops_fini s op) = inactive s @ [op\<lparr>flag := 1\<rparr>]"
    "completed (trace (psipe_ops_fini s op)) = completed (trace s) @ [op_id op]"
    "next_id (psipe_ops_fini s op) = next_id s"
  using kinv_head [OF inv a] a
  by (simp_all add: psipe_ops_fini_def list_del_head list_del_other)

lemma kinv_fini:
  assumes inv: "kinv s" and a: "active s = op # ops"
  shows "kinv (psipe_ops_fini s op)"
proof -
  have "unat (op_id op) \<notin> set (op_ids (inactive s))"
    using kinv_head(3) [OF inv a] by (auto simp: set_op_ids)
  then show ?thesis
    using inv kinv_head [OF inv a] unfolding kinv_def fini_head [OF inv a] a by auto
qed

lemma kinv_next:
  assumes inv: "kinv s" and n: "psipe_ops_next L B s = Inr t"
  shows "kinv t"
proof (cases "active s")
  case Nil
  then show ?thesis using n inv by (simp add: psipe_ops_next_def psipe_ops_current_def)
next
  case (Cons op ops)
  note f = kinv_fini [OF inv Cons] and a = fini_head(1) [OF inv Cons]
  show ?thesis
  proof (cases ops)
    case Nil
    then show ?thesis using n f a Cons by (simp add: psipe_ops_next_def psipe_ops_current_def Let_def)
  next
    case (Cons op' ops')
    obtain rv u where u: "start_op L B (psipe_ops_fini s op) op' = Inr (rv, u)"
      "t = update_op (op_id op') (\<lambda>op. op\<lparr>retval := rv\<rparr>) u"
      using n a Cons \<open>active s = op # ops\<close>
      by (auto simp: psipe_ops_next_def psipe_ops_current_def Let_def)
    show ?thesis unfolding u(2) by (intro kinv_update_op kinv_start [OF f u(1)]) simp_all
  qed
qed

text \<open>Dropping operations keeps the invariant.\<close>

lemma sorted_wrt_filter_right:
  assumes "sorted_wrt R (xs @ map f ys)" shows "sorted_wrt R (xs @ map f (filter P ys))"
  using assms by (auto simp: sorted_wrt_append sorted_wrt_map intro: sorted_wrt_filter)

lemma kinv_filter:
  assumes inv: "kinv s" and c: "completed tr = completed (trace s)"
  shows "kinv (s\<lparr>trace := tr, active := filter P (active s), inactive := filter Q (inactive s)\<rparr>)"
proof -
  have "sorted_wrt (<) (map unat (completed (trace s)) @ op_ids (filter P (active s)))"
    using inv unfolding kinv_def op_ids_def by (intro sorted_wrt_filter_right) blast
  moreover have "distinct (op_ids (filter Q (inactive s)))"
    using inv unfolding kinv_def op_ids_def by (intro distinct_map_filter) blast
  ultimately show ?thesis
    using inv c unfolding kinv_def by (auto simp: set_op_ids)
qed

lemma kinv_leave:
  assumes inv: "kinv s" and l: "ops_wait_leave s i = Inr (rv, t)"
  shows "kinv t"
proof -
  obtain op where op: "find_op i s = Some op" using l by (auto simp: ops_wait_leave_def split: option.splits)
  define n where "n = s32 (nwaiting op - 1)"
  define u where "u = update_op i (\<lambda>op. op\<lparr>nwaiting := n\<rparr>) s"
  have u: "kinv u" unfolding u_def by (intro kinv_update_op inv) simp_all
  have t: "t = (if n = 0 then u\<lparr>trace := trace u @ [Kfree_op i], active := list_del i (active u),
      inactive := list_del i (inactive u)\<rparr> else u)"
    using l op by (simp add: ops_wait_leave_def Let_def n_def u_def split: if_splits)
  show ?thesis
    using u kinv_filter [OF u, of "trace u @ [Kfree_op i]"] unfolding t list_del_def by simp
qed

lemma flush_active_spec:
  "flush_active tr ops = (tr', kept) \<Longrightarrow>
     kept = filter (\<lambda>op. nwaiting op \<noteq> 0) ops \<and> completed tr' = completed tr"
  by (induction tr ops arbitrary: tr' kept rule: flush_active.induct)
    (auto split: if_splits prod.splits)

lemma flush_inactive_spec:
  "flush_inactive tr ops = (tr', kept) \<Longrightarrow>
     kept = filter (\<lambda>op. nwaiting op \<noteq> 0) ops \<and> completed tr' = completed tr"
  by (induction tr ops arbitrary: tr' kept rule: flush_inactive.induct)
    (auto split: if_splits prod.splits)

lemma flush_spec:
  assumes "psipe_ops_flush s = (rv, t)"
  obtains tr where "completed tr = completed (trace s)" "rv = 0"
    "t = s\<lparr>trace := tr, active := filter (\<lambda>op. nwaiting op \<noteq> 0) (active s),
           inactive := filter (\<lambda>op. nwaiting op \<noteq> 0) (inactive s)\<rparr>"
  using assms unfolding psipe_ops_flush_def
  by (auto split: prod.splits dest!: flush_active_spec flush_inactive_spec)

lemma kinv_flush: "kinv s \<Longrightarrow> psipe_ops_flush s = (rv, t) \<Longrightarrow> kinv t"
  by (elim flush_spec) (simp add: kinv_filter)

lemma kinv_step:
  assumes "kstep L B s t" "kinv s" "unat (next_id s) < 2 ^ 64 - 1"
  shows "kinv t"
  using assms(1)
proof cases
  case (submit cmd arg rv)
  obtain op tr where n: "psipe_ops_new L (trace s) cmd arg = (op, tr)"
    by (cases "psipe_ops_new L (trace s) cmd arg") auto
  obtain i where i: "psipe_ops_init L B (s\<lparr>trace := tr\<rparr>) op = Inr (i, t)"
    using submit n by (auto simp: psipe_ioctl_def)
  show ?thesis
    by (rule kinv_submit [OF kinv_trace [OF assms(2) new_completed [OF n]] _ i])
      (use assms(3) n new_flag in auto)
next
  case (interrupt r)
  then show ?thesis using assms(2)
    by (auto simp: psipe_irq_handler_def Let_def split: if_splits dest: kinv_next [rotated])
next
  case (sleep i op)
  then show ?thesis using assms(2) by (simp add: ops_wait_enter_def kinv_update_op)
next
  case (wake i op rv)
  then show ?thesis using assms(2) kinv_leave by blast
next
  case (flush arg rv)
  then show ?thesis using assms(2) kinv_flush [of s rv t] by (simp add: psipe_ioctl_def)
qed

lemma kreach_kinv: "kreach L B d s \<Longrightarrow> kinv s"
  by (induction rule: kreach.induct) (auto intro: kinv_init kinv_step)

section \<open>The queue is first-in first-out\<close>

text \<open>
  What a queue of work promises: a submission appends, a completion moves the head to the end of
  the finished work.
\<close>

locale work_queue =
  fixes waiting :: "'s \<Rightarrow> 'i list"
    and finished :: "'s \<Rightarrow> 'i list"
    and inv :: "'s \<Rightarrow> bool"
    and submitted :: "'s \<Rightarrow> 's \<Rightarrow> bool"
    and completes :: "'s \<Rightarrow> 's \<Rightarrow> bool"
  assumes submit_law: "inv s \<Longrightarrow> submitted s t \<Longrightarrow>
      inv t \<and> finished t = finished s \<and> (\<exists>new. waiting t = waiting s @ new)"
    and complete_law: "inv s \<Longrightarrow> completes s t \<Longrightarrow>
      inv t \<and> finished t = finished s @ take 1 (waiting s) \<and> waiting t = drop 1 (waiting s)"
begin

lemma history:
  assumes "(\<lambda>s t. submitted s t \<or> completes s t)\<^sup>*\<^sup>* s t" "inv s"
  shows "inv t \<and> (\<exists>new. finished t @ waiting t = finished s @ waiting s @ new)"
  using assms
proof (induction rule: rtranclp_induct)
  case base
  then show ?case by simp
next
  case (step t u)
  then obtain new where t: "inv t" "finished t @ waiting t = finished s @ waiting s @ new" by blast
  from step(2) show ?case
  proof
    assume "submitted t u"
    with submit_law [OF t(1)] t(2) show ?thesis by (metis append_assoc)
  next
    assume "completes t u"
    from complete_law [OF t(1) this] have "inv u" "finished u @ waiting u = finished t @ waiting t"
      by (simp_all only: append_assoc append_take_drop_id)
    with t(2) show ?thesis by metis
  qed
qed

lemma completions:
  "(completes ^^ n) s t \<Longrightarrow> inv s \<Longrightarrow>
     inv t \<and> finished t = finished s @ take n (waiting s) \<and> waiting t = drop n (waiting s)"
proof (induction n arbitrary: t)
  case 0
  then show ?case by simp
next
  case (Suc n)
  then obtain u where u: "(completes ^^ n) s u" "completes u t" by auto
  have i: "inv u" "finished u = finished s @ take n (waiting s)" "waiting u = drop n (waiting s)"
    using Suc.IH [OF u(1) Suc.prems(2)] by auto
  have "finished t = finished s @ (take n (waiting s) @ take 1 (drop n (waiting s)))"
    "waiting t = drop 1 (drop n (waiting s))" "inv t"
    using complete_law [OF i(1) u(2)] i(2,3) by simp_all
  moreover have "take n (waiting s) @ take 1 (drop n (waiting s)) = take (Suc n) (waiting s)"
    using take_add [of n 1 "waiting s"] by simp
  ultimately show ?case by (simp add: drop_drop)
qed

end

lemma map_op_ids: "(\<And>op. op_id (f op) = op_id op) \<Longrightarrow> map op_id (map_op i f ops) = map op_id ops"
  by (simp add: map_op_def)

lemma map_op_other: "i \<notin> op_id ` set ops \<Longrightarrow> map_op i f ops = ops"
  by (auto simp: map_op_def intro!: map_idI)

lemma start_ids:
  assumes "start_op L B s op = Inr (rv, t)"
  shows "map op_id (active t) = map op_id (active s) \<and> completed (trace t) = completed (trace s) \<and>
    next_id t = next_id s"
  using assms by (auto simp: start_op_def update_op_def map_op_ids dest: run_completed)

lemma init_ids:
  assumes "psipe_ops_init L B s op = Inr (i, t)"
  shows "(map op_id (active t) = map op_id (active s) \<and> next_id t = next_id s \<or>
      map op_id (active t) = map op_id (active s) @ [next_id s] \<and> next_id t = next_id s + 1) \<and>
     completed (trace t) = completed (trace s)"
proof (cases op)
  case None
  then show ?thesis using assms by (simp add: psipe_ops_init_def)
next
  case (Some o')
  obtain rv tr m where p: "psipe_dma_pin_pages L (trace s) (op_dma o') = (rv, tr, m)"
    by (cases "psipe_dma_pin_pages L (trace s) (op_dma o')") auto
  show ?thesis
    using assms p Some pin_completed [OF p]
    by (auto simp: psipe_ops_init_def Let_def ops_enqueue_def split: if_splits dest!: start_ids)
qed

lemma next_ids:
  assumes inv: "kinv s" and n: "psipe_ops_next L B s = Inr t"
  shows "map op_id (active t) = drop 1 (map op_id (active s)) \<and>
     completed (trace t) = completed (trace s) @ take 1 (map op_id (active s))"
proof (cases "active s")
  case Nil
  then show ?thesis using n by (simp add: psipe_ops_next_def psipe_ops_current_def)
next
  case (Cons op ops)
  note a = fini_head [OF inv Cons]
  show ?thesis
    using n a Cons
    by (cases ops) (auto simp: psipe_ops_next_def psipe_ops_current_def Let_def update_op_def
        map_op_ids dest!: start_ids)
qed

text \<open>The module's submission and completion, on the ids.\<close>

definition submits :: "linux \<Rightarrow> 'd bus \<Rightarrow> 'd kstate \<Rightarrow> 'd kstate \<Rightarrow> bool" where
  "submits L B s t \<longleftrightarrow> (\<exists>op i. psipe_ops_init L B s (Some op) = Inr (i, t) \<and> flag op = 0) \<and>
     unat (next_id s) < 2 ^ 64 - 1"

definition finishes :: "linux \<Rightarrow> 'd bus \<Rightarrow> 'd kstate \<Rightarrow> 'd kstate \<Rightarrow> bool" where
  "finishes L B s t \<longleftrightarrow> psipe_ops_next L B s = Inr t"

interpretation ops: work_queue "\<lambda>s. map op_id (active s)" "\<lambda>s. completed (trace s)" kinv
  "submits L B" "finishes L B" for L B
proof
  fix s t :: "'a kstate"
  assume inv: "kinv s"
  show "kinv t \<and> completed (trace t) = completed (trace s) \<and>
      (\<exists>new. map op_id (active t) = map op_id (active s) @ new)" if sub: "submits L B s t"
  proof -
    obtain op i where i: "psipe_ops_init L B s (Some op) = Inr (i, t)" "flag op = 0"
      "unat (next_id s) < 2 ^ 64 - 1" using sub unfolding submits_def by blast
    have "kinv t" by (rule kinv_submit [OF inv i(3,1)]) (simp add: i(2))
    with init_ids [OF i(1)] show ?thesis by auto
  qed
  show "kinv t \<and> completed (trace t) = completed (trace s) @ take 1 (map op_id (active s)) \<and>
      map op_id (active t) = drop 1 (map op_id (active s))" if "finishes L B s t"
    using that kinv_next [OF inv] next_ids [OF inv] unfolding finishes_def by metis
qed

end
