(* ===== verification/Examples.thy ===== *)
theory Examples
  imports System Ksteps
begin

text \<open>
  Concrete instances on which the witnesses run: a device on the reference world of theory Host, a
  16-byte buffer over two pages that are not adjacent in guest memory, and a Linux whose calls
  succeed.
\<close>

section \<open>A device\<close>

definition ref_handles :: "nat \<Rightarrow> u64" where
  "ref_handles k = (if k = 0 then 0x1FF8 else 0x5000)"

definition ref_config :: DMAConfig where
  "ref_config = \<lparr>npages = 2, cfg_len = 16, len_avail = 16,
     cfg_mask = DMA_BIT_MASK PSIPE_HW_DMA_ADDR_CAPABILITY, page_size = 4096, handles = ref_handles\<rparr>"

definition ref_world :: "u8 list \<Rightarrow> world" where
  "ref_world i = \<lparr>w_ram = (\<lambda>a. 3 * ucast a + 1), w_in = i, w_out = [], w_log = []\<rparr>"

definition ref_dev :: "DMAMode \<Rightarrow> u8 list \<Rightarrow> world PSIPEDevice" where
  "ref_dev m i = \<lparr>env = ref_world i, irq = \<lparr>msi_raised = (\<lambda>_. False), pin_raised = False\<rparr>,
     dma = \<lparr>config = ref_config, current = \<lparr>len_left = 0, cur_addr = 0, hnd_pos = 0\<rparr>,
            status = DMA_STATUS_IDLE, mode = m, buff = (\<lambda>_. 0)\<rparr>,
     mmio_size = 4096,
     proxy = \<lparr>server = \<lparr>sockd = 3, sin_port = 0, s_addr = 0\<rparr>,
              client = \<lparr>sockd = 4, sin_port = 0, s_addr = 0\<rparr>, server_mode = True,
              port = PSIPE_PROXY_PORT\<rparr>\<rparr>"

lemma ref_dev_simps [simp]:
  "env (ref_dev m i) = ref_world i" "config (dma (ref_dev m i)) = ref_config"
  "mode (dma (ref_dev m i)) = m" "mmio_size (ref_dev m i) = 4096"
  "status (dma (ref_dev m i)) = DMA_STATUS_IDLE"
  by (simp_all add: ref_dev_def)

lemma ref_view_simps [simp]:
  "inb ref_view (ref_world i) = i" "outb ref_view (ref_world i) = []"
  "ram ref_view (ref_world i) a = 3 * ucast a + 1"
  by (simp_all add: ref_view_def ref_world_def)

lemma ref_config_simps [simp]:
  "npages ref_config = 2" "cfg_len ref_config = 16" "len_avail ref_config = 16"
  "cfg_mask ref_config = DMA_BIT_MASK PSIPE_HW_DMA_ADDR_CAPABILITY" "page_size ref_config = 4096"
  "handles ref_config 0 = 0x1FF8" "handles ref_config (Suc k) = 0x5000" "first_ofs ref_config = 4088"
  by (simp_all add: ref_config_def ref_handles_def first_ofs_def)

lemma ref_sg_wf: "sg_wf ref_config"
  by (auto simp: sg_wf_def PSIPE_HW_BAR0_DMA_HANDLES_CNT_def gr0_conv_Suc)

lemma ref_sg_phys:
  "sg_phys ref_config i = (if i < 8 then 0x1FF8 + of_nat i else 0x5000 + of_nat (i - 8))"
  if "i < 16"
proof (cases "i < 8")
  case True
  then have "(4088 + i) div 4096 = 0" by simp
  then show ?thesis using True by (simp add: sg_phys_def)
next
  case False
  then have "(4088 + i) div 4096 = Suc 0" "(4088 + i) mod 4096 = i - 8"
    using that by (simp_all add: le_div_geq le_mod_geq)
  then show ?thesis using False by (simp add: sg_phys_def)
qed

lemma of_nat_u64_eq: "m < 2 ^ 64 \<Longrightarrow> n < 2 ^ 64 \<Longrightarrow> (of_nat m :: u64) = of_nat n \<longleftrightarrow> m = n"
  by (metis unat_of_nat_u64)

lemma ref_sg_inj: "sg_inj ref_config"
  unfolding sg_inj_def
proof (rule inj_onI)
  fix i j
  assume i: "i \<in> {..<unat (cfg_len ref_config)}" and j: "j \<in> {..<unat (cfg_len ref_config)}"
    and eq: "sg_phys ref_config i = sg_phys ref_config j"
  have p: "sg_phys ref_config k = of_nat (if k < 8 then 0x1FF8 + k else 0x5000 + (k - 8))"
    if "k < 16" for k
    using ref_sg_phys [OF that] by simp
  define f where "f = (\<lambda>k :: nat. if k < 8 then 0x1FF8 + k else 0x5000 + (k - 8))"
  have lt: "i < 16" "j < 16" using i j by simp_all
  have "(of_nat (f i) :: u64) = of_nat (f j)"
    using eq p [OF lt(1)] p [OF lt(2)] unfolding f_def by metis
  moreover have "f i < 2 ^ 64" "f j < 2 ^ 64" using lt by (simp_all add: f_def)
  ultimately have "f i = f j" by (simp only: of_nat_u64_eq)
  then show "i = j" using lt by (auto simp: f_def split: if_splits)
qed

lemma ref_configured [simp]: "configured (ref_dev m i)" "buffer_len (ref_dev m i) = 16"
  by (simp_all add: configured_def buffer_len_def psipe_dma_is_idle_def ref_sg_wf)

lemma ref_connected [simp]: "connected (ref_dev m i)"
  by (simp add: connected_def psipe_proxy_endpoint_def ref_dev_def)

lemma ref_ready [simp]: "dev_ready (ref_dev m i)"
  by (simp add: dev_ready_def psipe_dma_is_idle_def)

lemma ref_page_mask [simp]:
  "cfg_mask (config e) = DMA_BIT_MASK PSIPE_HW_DMA_ADDR_CAPABILITY \<Longrightarrow> psipe_dma_mask e 4095 = 4095"
  by (simp add: psipe_dma_mask_def DMA_BIT_MASK_def PSIPE_HW_DMA_ADDR_CAPABILITY_def)

text \<open>A host that cannot look up names: the device stays as it is before the proxy is set up.\<close>

definition lone_host :: "world host" where
  "lone_host = ref_host\<lparr>gethostbyname := (\<lambda>_. None)\<rparr>"

definition lone_dev :: "world PSIPEDevice" where
  "lone_dev = before_proxy lone_host (ref_dev DMA_MODE_ACTIVE [])"

lemma lone_page_size [simp]: "qemu_target_page_size lone_host = 4096"
  by (simp add: lone_host_def ref_host_def)

lemma lone_init: "psipe_device_init n lone_host (ref_dev DMA_MODE_ACTIVE []) = Inr lone_dev"
  unfolding lone_dev_def by (rule init_without_host_name) (simp add: lone_host_def)

lemma lone_connected [simp]: "connected lone_dev"
  by (simp add: lone_dev_def before_proxy_ready(2) connected_def psipe_proxy_endpoint_def ref_dev_def)

section \<open>A Linux\<close>

definition ref_dma :: psipe_dma where
  "ref_dma = \<lparr>dma_mode = PSIPE_MODE_OFF, direction = DMA_NONE, sgl = [], dma_npages = 2, nmapped = 0,
     dma_addr = 0x7FFF00001FF8, dma_len = 16\<rparr>"

definition ref_op :: psipe_op where
  "ref_op = \<lparr>nwaiting = 7, flag = 9, op_id = 0, retval = 42, op_fn = psipe_ioctl_recv_fn,
     op_dma = ref_dma\<rparr>"

definition ref_linux :: linux where
  "ref_linux = \<lparr>
     kmalloc_op = (\<lambda>_. Some ref_op),
     copy_from_user = (\<lambda>_ _. (0, \<lparr>data_addr = 0x7FFF00001FF8, data_len = 16\<rparr>)),
     kmalloc_array = (\<lambda>_ _. True),
     pin_user_pages_fast = (\<lambda>_ _ n. n),
     pin_user_pages = (\<lambda>_ _ n. n),
     sg_alloc_table = (\<lambda>_ _ _ _. 0),
     dma_map_sg = (\<lambda>_ _. (2, [0x1FF8, 0x5000]))\<rparr>"

definition ref_mapped :: "psipe_dma \<Rightarrow> psipe_dma" where
  "ref_mapped m = m\<lparr>nmapped := 2, sgl := [0x1FF8, 0x5000]\<rparr>"

lemma ref_map_pages:
  "psipe_dma_map_pages ref_linux tr m = (2, tr @ [Dma_map_sg (direction m)], ref_mapped m)"
  by (simp add: psipe_dma_map_pages_def ref_linux_def ref_mapped_def)

lemma ref_mapped_config:
  assumes "dma_len m = 16"
  shows "mapped_config ref_config (ref_mapped m) = ref_config"
proof -
  have "blit ref_handles 0 [0x1FF8, 0x5000] = ref_handles"
    by (rule ext) (auto simp: blit_def ref_handles_def less_Suc_eq)
  then show ?thesis using assms by (simp add: mapped_config_def ref_mapped_def ref_config_def)
qed

lemma ref_mapping_ok:
  assumes "dma_len m = 16" shows "mapping_ok ref_linux tr ref_config m (ref_mapped m)"
  using ref_map_pages [of tr m] ref_sg_wf ref_mapped_config [OF assms] assms
  by (simp add: mapping_ok_def ref_mapped_def handle_window_def)

section \<open>A module with two operations\<close>

text \<open>A device that counts register writes and always has room for 16 bytes.\<close>

definition ref_bus :: "nat bus" where
  "ref_bus = \<lparr>iowrite32 = (\<lambda>d _ _. Inr (Suc d)), ioread32 = (\<lambda>d _. Inr (16, d))\<rparr>"

definition ref_calls :: ktrace where
  "ref_calls = [Kmalloc_op, Copy_from_user 0, Kmalloc_array 2,
     Pin_user_pages 0x7FFF00001FF8 2 2, Sg_alloc_table]"

definition ref_queued :: "u64 \<Rightarrow> psipe_op" where
  "ref_queued i = ref_op\<lparr>op_id := i, flag := 0, nwaiting := 0, op_fn := psipe_ioctl_send_fn\<rparr>"

definition ref_running :: "u64 \<Rightarrow> psipe_op" where
  "ref_running i = (ref_queued i)\<lparr>op_dma := ref_mapped (send_dma ref_dma)\<rparr>"

lemma ref_queued_simps [simp]:
  "op_id (ref_queued i) = i" "flag (ref_queued i) = 0" "op_dma (ref_queued i) = ref_dma"
  "op_fn (ref_queued i) = psipe_ioctl_send_fn" "retval (ref_queued i) = 42"
  "op_id (ref_running i) = i" "flag (ref_running i) = 0"
  "op_dma (ref_running i) = ref_mapped (send_dma ref_dma)"
  by (simp_all add: ref_queued_def ref_running_def ref_op_def)

text \<open>After one send, and after two.\<close>

definition ref_s1 :: "nat kstate" where
  "ref_s1 = \<lparr>hw = 6, trace = ref_calls @ [Dma_map_sg DMA_TO_DEVICE], next_id = 1,
     active = [ref_running 0], inactive = []\<rparr>"

definition ref_s2 :: "nat kstate" where
  "ref_s2 = \<lparr>hw = 6, trace = ref_calls @ [Dma_map_sg DMA_TO_DEVICE] @ ref_calls, next_id = 2,
     active = [ref_running 0, ref_queued 1], inactive = []\<rparr>"

lemma ref_ops_new:
  "psipe_ops_new ref_linux tr PSIPE_IOCTL_SEND 0 =
     (Some (ref_queued 0), tr @ [Kmalloc_op, Copy_from_user 0])"
  by (simp add: psipe_ops_new_def ref_linux_def ref_op_def ref_dma_def ref_queued_def)

lemma ref_pin:
  "psipe_dma_pin_pages ref_linux tr ref_dma =
     (0, tr @ [Kmalloc_array 2, Pin_user_pages 0x7FFF00001FF8 2 2, Sg_alloc_table], ref_dma)"
proof -
  have "page_count 0x7FFF00001FF8 16 = 2" by (simp add: page_count_eq)
  then show ?thesis
    by (simp add: psipe_dma_pin_pages_def ref_dma_def ref_linux_def Let_def EFAULT_def EAGAIN_def
        PSIPE_HW_BAR0_DMA_HANDLES_CNT_def u64_of_int_def)
qed

lemma ref_start:
  "psipe_ioctl_send ref_linux ref_bus d tr ref_dma =
     Inr (2, d + 6, tr @ [Dma_map_sg DMA_TO_DEVICE], ref_mapped (send_dma ref_dma))"
proof -
  have e: "send_dma ref_dma = ref_dma\<lparr>dma_mode := PSIPE_MODE_ACTIVE, direction := DMA_TO_DEVICE\<rparr>"
    by (simp add: send_dma_def)
  have l: "dma_len ref_dma = 16" by (simp add: ref_dma_def)
  show ?thesis
    by (simp add: psipe_ioctl_send_def psipe_dma_write_setup_def psipe_check_size_avail_def
        map_and_ring_def ref_map_pages psipe_dma_write_maps_def psipe_dma_doorbell_ring_def
        ref_bus_def e l ref_mapped_def)
qed

lemma ref_send1: "psipe_ioctl ref_linux ref_bus (kinit 0) PSIPE_IOCTL_SEND 0 = Inr (0, ref_s1)"
  by (simp add: psipe_ioctl_def ref_ops_new psipe_ops_init_def ref_pin kinit_def Let_def
      ops_enqueue_def start_op_def ref_start update_op_def map_op_def ref_s1_def ref_calls_def
      ref_queued_def ref_running_def ref_op_def)

lemma ref_send2: "psipe_ioctl ref_linux ref_bus ref_s1 PSIPE_IOCTL_SEND 0 = Inr (1, ref_s2)"
  by (simp add: psipe_ioctl_def ref_ops_new psipe_ops_init_def ref_pin Let_def
      ops_enqueue_def ref_s1_def ref_s2_def ref_calls_def ref_queued_def ref_op_def)

lemma ref_reach: "kreach ref_linux ref_bus 0 ref_s2"
proof -
  have "kreach ref_linux ref_bus 0 ref_s1"
    by (rule kreach_step [OF kreach_init submit [OF _ ref_send1]]) (simp_all add: kinit_def)
  then show ?thesis
    by (rule kreach_step [OF _ submit [OF _ ref_send2]]) (simp_all add: ref_s1_def)
qed

lemma ref_s2_simps [simp]:
  "active ref_s2 = [ref_running 0, ref_queued 1]" "inactive ref_s2 = []" "next_id ref_s2 = 2"
  "completed (trace ref_s2) = []"
  by (simp_all add: ref_s2_def ref_calls_def)

text \<open>The first interrupt completes operation 0 and starts operation 1.\<close>

definition ref_s3 :: "nat kstate" where
  "ref_s3 = \<lparr>hw = 12, trace = trace ref_s2 @ [Dma_unmap_sg DMA_TO_DEVICE, Unpin_user_pages 2,
       Kfree_array, Wake_up_all 0, Dma_map_sg DMA_TO_DEVICE], next_id = 2,
     active = [(ref_running 1)\<lparr>retval := 2\<rparr>], inactive = [(ref_running 0)\<lparr>flag := 1\<rparr>]\<rparr>"

lemma ref_next: "psipe_ops_next ref_linux ref_bus ref_s2 = Inr ref_s3"
proof -
  have "dma_npages (ref_mapped (send_dma ref_dma)) = 2"
    "direction (ref_mapped (send_dma ref_dma)) = DMA_TO_DEVICE"
    by (simp_all add: ref_mapped_def send_dma_def ref_dma_def)
  then show ?thesis
    by (simp add: psipe_ops_next_def psipe_ops_current_def psipe_ops_fini_def Let_def list_del_def
        psipe_dma_unmap_pages_def psipe_dma_unpin_pages_def start_op_def ref_start update_op_def
        map_op_def ref_s3_def ref_s2_def ref_running_def ref_queued_def ref_op_def)
qed

end
