(* ===== verification/Dev_Steps.thy ===== *)
theory Dev_Steps
  imports Device
begin

text \<open>
  The emulated device as a state machine: what a guest can do to it (register accesses of every admitted
  size and resets) while the rest of the world changes, from the state \<^verbatim>\<open>psipe_device_init\<close> leaves. Nothing is
  assumed of the host: DMA and sockets return what they like. The invariant of the reachable states,
  and what follows for the arrays of the device.
\<close>

section \<open>Steps\<close>

text \<open>
  An access has 4 to 8 bytes and a value of its size. The page counts written are at most \<open>cap\<close>: with a
  32-bit access that is no restriction from \<open>cap = 2 ^ 32 - 1\<close> on, but an 8-byte access can write a count
  for which a negative position passes for a handle (theory Device\_Props).
\<close>

inductive dstep :: "nat \<Rightarrow> 'w host \<Rightarrow> u64 \<Rightarrow> 'w PSIPEDevice \<Rightarrow> 'w PSIPEDevice \<Rightarrow> bool"
  for fuel :: nat and H :: "'w host" and cap :: u64 where
  reg_write: "admitted d a sz \<Longrightarrow> unat x < 2 ^ (8 * sz) \<Longrightarrow> a = PSIPE_HW_BAR0_DMA_CFG_PGS \<longrightarrow> x \<le> cap \<Longrightarrow>
    psipe_mmio_write fuel H d a x sz = Inr t \<Longrightarrow> dstep fuel H cap d t"
| reg_read: "admitted d a sz \<Longrightarrow> psipe_mmio_read fuel H d a sz = Inr (x, t) \<Longrightarrow> dstep fuel H cap d t"
| bus_reset: "dstep fuel H cap d (psipe_device_reset H d)"
| world: "dstep fuel H cap d (d\<lparr>env := w\<rparr>)"

inductive_cases dstepE: "dstep fuel H cap d t"

inductive dreach :: "nat \<Rightarrow> 'w host \<Rightarrow> u64 \<Rightarrow> 'w PSIPEDevice \<Rightarrow> bool"
  for fuel :: nat and H :: "'w host" and cap :: u64 where
  dreach_init: "psipe_device_init fuel H dev = Inr d \<Longrightarrow> dreach fuel H cap d"
| dreach_step: "dreach fuel H cap d \<Longrightarrow> dstep fuel H cap d t \<Longrightarrow> dreach fuel H cap t"

section \<open>What a run leaves alone\<close>

text \<open>A run, and a request of the peer, change of the configuration at most the available length.\<close>

definition setup_kept :: "'w PSIPEDevice \<Rightarrow> 'w PSIPEDevice \<Rightarrow> bool" where
  "setup_kept s t \<longleftrightarrow> mode (dma t) = mode (dma s) \<and> proxy t = proxy s \<and> mmio_size t = mmio_size s \<and>
     (\<exists>l. config (dma t) = (config (dma s))\<lparr>len_avail := l\<rparr>)"

definition idle_kept :: "'w PSIPEDevice \<Rightarrow> 'w PSIPEDevice \<Rightarrow> bool" where
  "idle_kept s t \<longleftrightarrow> setup_kept s t \<and>
     (status (dma s) = DMA_STATUS_IDLE \<longrightarrow> status (dma t) = DMA_STATUS_IDLE)"

lemma same_avail [simp]: "\<exists>l. c = c\<lparr>len_avail := l\<rparr>"
  by (rule exI [of _ "len_avail c"]) simp

lemma setup_kept_refl [simp]: "setup_kept s s"
  by (simp add: setup_kept_def)

lemma setup_kept_trans: "setup_kept s t \<Longrightarrow> setup_kept t u \<Longrightarrow> setup_kept s u"
  by (fastforce simp: setup_kept_def)

lemma setup_keptI:
  "dma t = dma s \<Longrightarrow> proxy t = proxy s \<Longrightarrow> mmio_size t = mmio_size s \<Longrightarrow> setup_kept s t"
  by (simp add: setup_kept_def)

lemma setup_kept_same:
  "config (dma t) = config (dma s) \<Longrightarrow> mode (dma t) = mode (dma s) \<Longrightarrow> proxy t = proxy s \<Longrightarrow>
     mmio_size t = mmio_size s \<Longrightarrow> setup_kept s t"
  by (simp add: setup_kept_def)

lemma idle_kept_refl [simp]: "idle_kept s s"
  by (simp add: idle_kept_def)

lemma idle_kept_trans: "idle_kept s t \<Longrightarrow> idle_kept t u \<Longrightarrow> idle_kept s u"
  by (auto simp: idle_kept_def intro: setup_kept_trans)

lemma idle_keptI:
  "dma t = dma s \<Longrightarrow> proxy t = proxy s \<Longrightarrow> mmio_size t = mmio_size s \<Longrightarrow> idle_kept s t"
  by (simp add: idle_kept_def setup_keptI)

lemma idle_kept_avail [simp]: "idle_kept s (set_len_avail (s\<lparr>env := w\<rparr>) l)"
  by (auto simp: idle_kept_def setup_kept_def)

text \<open>The parts of a run, for any fault they end with.\<close>

abbreviation still :: "'w PSIPEDevice \<Rightarrow> 'a \<times> 'w PSIPEDevice \<Rightarrow> bool" where
  "still s \<equiv> \<lambda>(_, t). setup_kept s t"

lemma dma_read_kept: "setup_kept s d \<Longrightarrow> keeps UNIV (still s) (psipe_dma_read H d a n k)"
  unfolding psipe_dma_read_def
  by (auto intro!: keeps_if elim!: setup_kept_trans intro: setup_kept_same split: prod.splits)

lemma dma_write_kept: "setup_kept s d \<Longrightarrow> keeps UNIV (still s) (psipe_dma_write H d a n k)"
  unfolding psipe_dma_write_def
  by (auto intro!: keeps_if elim!: setup_kept_trans intro: setup_kept_same split: prod.splits)

lemma next_addr_kept:
  "setup_kept s d \<Longrightarrow>
     keeps UNIV (\<lambda>(_, f). setup_kept s (d\<lparr>dma := f\<rparr>)) (psipe_dma_next_addr (dma d))"
  unfolding psipe_dma_next_addr_def Let_def handle_at_def
  by (auto elim!: setup_kept_trans intro: setup_kept_same)

lemma advance_kept: "setup_kept s d \<Longrightarrow> setup_kept s (dma_advance d a n)"
  by (auto simp: dma_advance_def elim!: setup_kept_trans intro: setup_kept_same)

lemmas page_steps =
  keeps_bind2 [OF dma_read_kept] keeps_bind2 [OF dma_write_kept] keeps_bind2 [OF next_addr_kept]

lemma rx_page_kept: "setup_kept s d \<Longrightarrow> keeps UNIV (still s) (psipe_dma_rx_page H d)"
  unfolding psipe_dma_rx_page_def Let_def
  by (intro keeps_if page_steps keeps_Inr) (auto intro: advance_kept)

lemma tx_page_kept: "setup_kept s d \<Longrightarrow> keeps UNIV (still s) (psipe_dma_tx_page H d n)"
  unfolding psipe_dma_tx_page_def Let_def
  by (intro keeps_if page_steps keeps_Inr) (auto intro: advance_kept)

lemma proxy_tx_kept: "setup_kept s d \<Longrightarrow> keeps UNIV (still s) (psipe_proxy_tx_page H d n)"
  unfolding psipe_proxy_tx_page_def Let_def
  by (auto elim!: setup_kept_trans intro: setup_kept_same split: prod.splits)

lemma proxy_rx_kept: "setup_kept s d \<Longrightarrow> keeps UNIV (still s) (psipe_proxy_rx_page H d)"
  unfolding psipe_proxy_rx_page_def Let_def
  by (auto elim!: setup_kept_trans intro: setup_kept_same split: prod.splits option.splits)

lemma bodies_kept:
  "setup_kept s d \<Longrightarrow> keeps UNIV (still s) (transfer_body H d)"
  "setup_kept s d \<Longrightarrow> keeps UNIV (still s) (receive_body H d)"
  unfolding transfer_body_def receive_body_def
  by (intro keeps_bind2 [OF rx_page_kept] keeps_bind2 [OF tx_page_kept] keeps_bind2 [OF proxy_tx_kept]
      keeps_bind2 [OF proxy_rx_kept] keeps_Inr; simp)+

lemma begin_run_kept:
  assumes "psipe_dma_begin_run s = (r, t)"
  shows "setup_kept s t" "r < 0 \<Longrightarrow> status (dma t) = status (dma s)" "hnd_pos (current (dma t)) = 0"
  using assms by (auto simp: psipe_dma_begin_run_def psipe_dma_init_current_def Let_def
      PSIPE_SUCCESS_def intro!: setup_kept_same split: if_splits)

lemma end_run_kept: "setup_kept s d \<Longrightarrow> idle_kept s (psipe_dma_end_run d)"
  by (auto simp: idle_kept_def psipe_dma_end_run_def elim!: setup_kept_trans intro: setup_kept_same)

lemma begin_run_refused: "psipe_dma_begin_run s = (r, t) \<Longrightarrow> r < 0 \<Longrightarrow> idle_kept s t"
  using begin_run_kept(1,2) [of s r t] by (simp add: idle_kept_def)

lemma pages_kept:
  "keeps UNIV (idle_kept s) (psipe_transfer_pages n H s)"
  "keeps UNIV (idle_kept s) (psipe_receive_pages n H s)"
  unfolding psipe_transfer_pages_def psipe_receive_pages_def
  by (auto split: prod.splits intro!: keeps_if
      keeps_bind [OF keeps_do_while [where P = "setup_kept s"]] bodies_kept end_run_kept
      dest: begin_run_kept begin_run_refused)

text \<open>Requests, when what a \<open>SYN\<close> request runs keeps the set-up.\<close>

abbreviation stays :: "'w PSIPEDevice \<Rightarrow> 'a \<times> 'w PSIPEDevice \<Rightarrow> bool" where
  "stays s \<equiv> \<lambda>(_, t). idle_kept s t"

lemma idle_kept_env [simp]: "idle_kept s (t\<lparr>env := w\<rparr>) \<longleftrightarrow> idle_kept s t"
  by (simp add: idle_kept_def setup_kept_def)

lemma issue_kept [simp]: "idle_kept s (snd (psipe_proxy_issue_req H d r)) \<longleftrightarrow> idle_kept s d"
  by (simp add: psipe_proxy_issue_req_def split: prod.splits)

lemma issue_kept_pair: "psipe_proxy_issue_req H d r = (x, t) \<Longrightarrow> idle_kept s t \<longleftrightarrow> idle_kept s d"
  using issue_kept [of s H d r] by simp

lemma wait_req_kept: "idle_kept s d \<Longrightarrow> keeps UNIV (stays s) (psipe_proxy_wait_req H d)"
  by (auto simp: psipe_proxy_wait_req_def Let_def split: option.splits prod.splits)

lemma set_len_avail_kept: "idle_kept s d \<Longrightarrow> idle_kept s (set_len_avail d l)"
  by (auto simp: idle_kept_def setup_kept_def)

lemma handle_req_kept:
  assumes "idle_kept s d" "\<And>d. keeps UNIV (idle_kept d) (exec d)"
  shows "keeps UNIV (stays s) (psipe_proxy_handle_req exec H d r)"
  unfolding psipe_proxy_handle_req_def Let_def using assms(1)
  by (auto intro!: keeps_if keeps_bind [OF assms(2)] set_len_avail_kept
      split: prod.splits option.splits simp: issue_kept_pair elim: idle_kept_trans)

lemma await_req_kept:
  assumes "idle_kept s d" "\<And>d. keeps UNIV (idle_kept d) (exec d)"
  shows "keeps UNIV (stays s) (psipe_proxy_await_req n exec H d r)"
  unfolding psipe_proxy_await_req_def await_body_def
  by (rule keeps_bind2 [OF keeps_do_while [where P = "stays s"]])
    (auto intro!: assms(1) keeps_bind2 [OF wait_req_kept] handle_req_kept [OF _ assms(2)])

lemma execute_kept: "keeps UNIV (idle_kept d) (psipe_execute n H d)"
proof (induction n arbitrary: d)
  case 0
  then show ?case by (simp add: psipe_execute.simps)
next
  case (Suc n)
  have r: "idle_kept d t \<Longrightarrow> keeps UNIV (idle_kept d) (psipe_receive_pages n H t)" for t
    by (rule keeps_mono [OF pages_kept(2)]) (rule idle_kept_trans)
  have "idle_kept d t \<Longrightarrow> idle_kept d (psipe_irq_raise H t k)" for t k
    by (erule idle_kept_trans) (simp add: idle_keptI)
  then show ?case unfolding psipe_execute.simps
    by (auto split: DMAMode.splits intro!: keeps_bind [where Q = "idle_kept d"] pages_kept r
        keeps_bind2 [OF await_req_kept [OF idle_kept_refl Suc]])
qed

section \<open>The invariant\<close>

text \<open>
  On a host with 4 KiB pages: idle between two steps, the page size and the mask as set up, a window
  of one page, a page count up to \<open>cap\<close> and no handle behind those the window reaches. The \<open>cap\<close> is
  small enough that no negative position is below it: those of the addresses before the handles are the
  last 14 numbers of 64 bits.
\<close>

definition plain :: "DMAConfig \<Rightarrow> bool" where
  "plain cfg \<longleftrightarrow> page_size cfg = 4096 \<and>
     cfg_mask cfg = DMA_BIT_MASK PSIPE_HW_DMA_ADDR_CAPABILITY"

definition settled :: "u64 \<Rightarrow> 'w PSIPEDevice \<Rightarrow> bool" where
  "settled cap d \<longleftrightarrow> dev_ready d \<and> plain (config (dma d)) \<and>
     npages (config (dma d)) \<le> cap \<and> unat cap \<le> 2 ^ 64 - 14 \<and>
     (\<forall>k \<ge> handle_window. handles (config (dma d)) k = 0)"

lemma settled_idle_kept: "settled cap s \<Longrightarrow> idle_kept s t \<Longrightarrow> settled cap t"
  by (auto simp: settled_def dev_ready_def psipe_dma_is_idle_def idle_kept_def setup_kept_def plain_def)

lemma settled_frame [simp]:
  "settled cap (d\<lparr>env := w\<rparr>) = settled cap d" "settled cap (d\<lparr>proxy := x\<rparr>) = settled cap d"
  "settled cap (psipe_irq_lower H d k) = settled cap d" "settled cap (psipe_irq_raise H d k) = settled cap d"
  by (simp_all add: settled_def dev_ready_def psipe_dma_is_idle_def)

text \<open>The register writes. Handles are written only inside the window: the page count has 32 bits.\<close>

lemma handle_pos_negative:
  assumes "unat a < 56"
  shows "psipe_mmio_handle_pos a = int (unat a div 4) - 14"
proof -
  let ?w = "(a - PSIPE_HW_BAR0_DMA_HANDLES) div 4" and ?j = "unat a div 4"
  have "unat (a - PSIPE_HW_BAR0_DMA_HANDLES) = 2 ^ 64 + unat a - 56"
    using assms by (simp add: unat_sub_if_size PSIPE_HW_BAR0_DMA_HANDLES_def word_size)
  then have "unat ?w = 2 ^ 62 - 14 + ?j" by (simp add: unat_div)
  moreover have "(2 :: nat) ^ 62 = 1073741824 * 2 ^ 32" by simp
  ultimately have "uint ?w = (int ?j - 14) + 1073741824 * 2 ^ 32"
    by (simp add: uint_nat)
  then have "(ucast ?w :: u32) = word_of_int ((int ?j - 14) + 1073741824 * 2 ^ 32)"
    by (metis word_of_int_uint ucast_eq)
  also have "\<dots> = word_of_int (int ?j - 14)" by simp
  finally have "int_of_u64 ?w = s32 (int ?j - 14)" by (simp add: int_of_u64_def s32_def)
  also have "\<dots> = int ?j - 14" using assms by (intro s32_id) auto
  finally show ?thesis by (simp add: psipe_mmio_handle_pos_def)
qed

lemma negative_as_u64:
  assumes "x < 0" "- (2 ^ 64) \<le> x" shows "int (unat (u64_of_int x)) = x + 2 ^ 64"
proof -
  have "uint (u64_of_int x) = x mod 2 ^ 64" by (simp add: u64_of_int_def uint_word_of_int)
  also have "\<dots> = x + 2 ^ 64"
    using assms by (subst mod_add_self2 [symmetric]) (rule mod_pos_pos_trivial; simp)
  finally show ?thesis by (simp only: uint_nat)
qed

lemma handle_pos_below:
  assumes "unat a < 56" shows "2 ^ 64 - 14 \<le> unat (u64_of_int (psipe_mmio_handle_pos a))"
proof -
  let ?p = "psipe_mmio_handle_pos a"
  have p: "- 14 \<le> ?p" "?p < 0" using assms by (simp_all add: handle_pos_negative)
  have "int (unat (u64_of_int ?p)) = ?p + 2 ^ 64" using p by (intro negative_as_u64) simp_all
  moreover have "int (2 ^ 64 - 14) \<le> ?p + 2 ^ 64" using p(1) by simp
  ultimately show ?thesis by (metis of_nat_le_iff)
qed

lemma handle_pos_inside:
  assumes "56 \<le> unat a" "unat a + 4 \<le> 4096"
  shows "psipe_mmio_handle_pos a = int ((unat a - 56) div 4)" "(unat a - 56) div 4 < handle_window"
proof -
  have "unat (a - PSIPE_HW_BAR0_DMA_HANDLES) = unat a - 56"
    using assms(1) by (subst unat_sub) (simp_all add: PSIPE_HW_BAR0_DMA_HANDLES_def word_le_nat_alt)
  then have u: "unat ((a - PSIPE_HW_BAR0_DMA_HANDLES) div 4) = (unat a - 56) div 4"
    by (simp add: unat_div)
  have "(unat a - 56) div 4 < 2 ^ 31" using assms(2) by simp
  then show "psipe_mmio_handle_pos a = int ((unat a - 56) div 4)"
    unfolding psipe_mmio_handle_pos_def using u by (subst int_of_u64_small) simp_all
  show "(unat a - 56) div 4 < handle_window" using assms by (simp add: handle_window_def)
qed

lemma write_handle_window:
  assumes s: "settled cap d" and a: "unat a + 4 \<le> 4096"
    and w: "u64_of_int (psipe_mmio_handle_pos a) < npages (config (dma d))"
  shows "0 \<le> psipe_mmio_handle_pos a" "nat (psipe_mmio_handle_pos a) < handle_window"
proof -
  have "\<not> unat a < 56"
    using handle_pos_below [of a] w s by (auto simp: settled_def word_less_nat_alt word_le_nat_alt)
  then have "56 \<le> unat a" by simp
  from handle_pos_inside [OF this a]
  show "0 \<le> psipe_mmio_handle_pos a" "nat (psipe_mmio_handle_pos a) < handle_window" by simp_all
qed

lemma window_in_array: "handle_window < PSIPE_HW_BAR0_DMA_HANDLES_CNT"
  by (simp add: handle_window_def PSIPE_HW_BAR0_DMA_HANDLES_CNT_def)

lemma write_handle_settled:
  assumes "settled cap d" "unat a + 4 \<le> 4096"
  shows "keeps {} (\<lambda>e. settled cap (d\<lparr>dma := e\<rparr>)) (psipe_mmio_write_handle (dma d) a x)"
  using write_handle_window [OF assms] assms(1) window_in_array
  by (auto simp: psipe_mmio_write_handle_def Let_def set_handle_def settled_def dev_ready_def
      psipe_dma_is_idle_def plain_def not_le)

text \<open>A register access keeps the invariant, whatever it runs; outside a run it leaves no array.\<close>

lemma dev_update_settled [simp]:
  "settled cap d \<Longrightarrow> settled cap (d\<lparr>dma := (dma d)\<lparr>config := (config (dma d))\<lparr>cfg_len := x\<rparr>\<rparr>\<rparr>)"
  "settled cap d \<Longrightarrow> settled cap (d\<lparr>dma := (dma d)\<lparr>config := (config (dma d))\<lparr>len_avail := x\<rparr>\<rparr>\<rparr>)"
  "settled cap d \<Longrightarrow> settled cap (d\<lparr>dma := (dma d)\<lparr>mode := m\<rparr>\<rparr>)"
  "settled cap d \<Longrightarrow> x \<le> cap \<Longrightarrow> settled cap (d\<lparr>dma := (dma d)\<lparr>config := (config (dma d))\<lparr>npages := x\<rparr>\<rparr>\<rparr>)"
  by (simp_all add: settled_def dev_ready_def psipe_dma_is_idle_def plain_def)

lemma settled_admitted: "settled cap d \<Longrightarrow> admitted d a sz \<Longrightarrow> unat a + 4 \<le> 4096"
  by (simp add: admitted_iff settled_def dev_ready_def)

lemma mmio_write_settled:
  assumes s: "settled cap d" and a: "admitted d a sz"
    and x: "a = PSIPE_HW_BAR0_DMA_CFG_PGS \<longrightarrow> x \<le> cap"
  shows "keeps UNIV (settled cap) (psipe_mmio_write fuel H d a x sz)"
proof -
  from write_handle_settled [OF s settled_admitted [OF s a], of x]
  have h: "keeps UNIV (\<lambda>e. settled cap (d\<lparr>dma := e\<rparr>)) (psipe_mmio_write_handle (dma d) a x)"
    by (cases "psipe_mmio_write_handle (dma d) a x") simp_all
  have e: "keeps UNIV (settled cap) (psipe_execute fuel H d)"
    by (rule keeps_mono [OF execute_kept]) (rule settled_idle_kept [OF s])
  show ?thesis
    unfolding psipe_mmio_write_def Let_def
    by (intro keeps_if keeps_Inr keeps_bind [OF h] e) (use s x in simp_all)
qed

lemma mmio_read_settled:
  assumes s: "settled cap d" shows "keeps UNIV (\<lambda>(_, t). settled cap t) (psipe_mmio_read fuel H d a sz)"
proof -
  have w: "keeps UNIV (stays d) (psipe_proxy_await_req fuel (\<lambda>d. psipe_execute fuel H d) H t r)"
    if "psipe_proxy_issue_req H d q = (y, t)" for t q r y
    by (rule await_req_kept [OF _ execute_kept]) (simp add: issue_kept_pair [OF that])
  have "keeps UNIV (stays d) (psipe_mmio_read fuel H d a sz)"
    unfolding psipe_mmio_read_def Let_def
    by (intro keeps_if keeps_Inr keeps_bind [where Q = "idle_kept d"])
      (auto split: prod.splits intro!: keeps_bind2 [OF w])
  then show ?thesis by (rule keeps_mono) (auto intro: settled_idle_kept [OF s])
qed

text \<open>The 32-bit accesses of the kernel module.\<close>

abbreviation module_cap :: u64 where "module_cap \<equiv> 0xFFFFFFFF"

lemma ucast_below: "(ucast (x :: u32) :: u64) \<le> module_cap" "unat (ucast (x :: u32) :: u64) < 2 ^ 32"
proof -
  have x: "unat x < 2 ^ 32" using unsigned_less [of x, where ?'a = nat] by simp
  then have "unat (ucast x :: u64) = unat x" by (simp add: unsigned_ucast_eq take_bit_nat_eq_self)
  with x show "unat (ucast x :: u64) < 2 ^ 32" "(ucast x :: u64) \<le> module_cap"
    by (simp_all add: word_le_nat_alt)
qed

lemma module_access:
  "dev_iowrite32 fuel H d a x = Inr t \<Longrightarrow> dstep fuel H module_cap d t"
  "dev_ioread32 fuel H d a = Inr (y, t) \<Longrightarrow> dstep fuel H module_cap d t"
proof -
  assume w: "dev_iowrite32 fuel H d a x = Inr t"
  show "dstep fuel H module_cap d t"
    by (rule reg_write [of d a 4 "ucast x"])
      (use w ucast_below [of x] in \<open>simp_all add: dev_iowrite32_def admitted_iff split: if_splits\<close>)
next
  assume r: "dev_ioread32 fuel H d a = Inr (y, t)"
  then obtain z where "psipe_mmio_read fuel H d a 4 = Inr (z, t)" "unat a + 4 \<le> unat (mmio_size d)"
    by (auto simp: dev_ioread32_def split: if_splits)
  then show "dstep fuel H module_cap d t" by (intro reg_read [of d a 4]) (simp_all add: admitted_iff)
qed

section \<open>The reachable states\<close>

text \<open>Setting the device up, on any host with 4 KiB pages, whether the connection is made or not.\<close>

lemma before_proxy_settled:
  assumes "qemu_target_page_size H = 4096" "unat cap \<le> 2 ^ 64 - 14" shows "settled cap (before_proxy H dev)"
proof -
  have "config (dma (before_proxy H dev)) = config (dma (psipe_dma_init H (psipe_irq_init H dev)))"
    by (simp add: before_proxy_def)
  then show ?thesis
    using before_proxy_ready [OF assms(1), of dev] assms
    by (simp add: settled_def plain_def psipe_dma_init_def psipe_dma_reset_def Let_def)
qed

lemma await_settled:
  "settled cap d \<Longrightarrow> keeps UNIV (\<lambda>(_, t). settled cap t) (psipe_proxy_await_req n (\<lambda>d. psipe_execute m H d) H d r)"
  by (rule keeps_mono [OF await_req_kept [OF idle_kept_refl execute_kept]])
    (auto intro: settled_idle_kept)

lemma issue_settled: "psipe_proxy_issue_req H d r = (x, t) \<Longrightarrow> settled cap t \<longleftrightarrow> settled cap d"
  by (auto simp: psipe_proxy_issue_req_def split: prod.splits)

lemma proxy_init_settled:
  "settled cap d \<Longrightarrow> keeps UNIV (settled cap) (psipe_proxy_init_server n (\<lambda>d. psipe_execute m H d) H d)"
  "settled cap d \<Longrightarrow> keeps UNIV (settled cap) (psipe_proxy_init_client n (\<lambda>d. psipe_execute m H d) H d)"
  unfolding psipe_proxy_init_server_def psipe_proxy_init_client_def Let_def
  by (auto split: prod.splits option.splits simp: issue_settled
      intro!: keeps_if keeps_bind2 [OF await_settled])
    (metis issue_settled prod.collapse)

lemma device_init_settled:
  assumes "qemu_target_page_size H = 4096" "unat cap \<le> 2 ^ 64 - 14"
  shows "keeps UNIV (settled cap) (psipe_device_init fuel H dev)"
  using before_proxy_settled [OF assms, of dev]
  unfolding psipe_device_init_def before_proxy_def [symmetric] psipe_proxy_init_def Let_def
  by (auto split: prod.splits option.splits intro!: keeps_if proxy_init_settled)

lemma reset_settled:
  assumes "qemu_target_page_size H = 4096" "settled cap d" shows "settled cap (psipe_device_reset H d)"
  using assms by (simp add: psipe_device_reset_def psipe_mmio_reset_def psipe_proxy_reset_def
      settled_def dev_ready_def psipe_dma_is_idle_def plain_def)

lemma step_settled:
  assumes "dstep fuel H cap d t" "qemu_target_page_size H = 4096" "settled cap d" shows "settled cap t"
  using assms(1)
proof cases
  case (reg_write a sz x)
  then show ?thesis using mmio_write_settled [OF assms(3), of a sz x fuel H] by simp
next
  case (reg_read a sz x)
  then show ?thesis using mmio_read_settled [OF assms(3), of fuel H a sz] by simp
qed (simp_all add: assms reset_settled)

lemma dreach_settled:
  "dreach fuel H cap d \<Longrightarrow> qemu_target_page_size H = 4096 \<Longrightarrow> unat cap \<le> 2 ^ 64 - 14 \<Longrightarrow> settled cap d"
proof (induction rule: dreach.induct)
  case (dreach_init dev d)
  then show ?case using device_init_settled [of H cap fuel dev] by simp
qed (rule step_settled)

end
