(* ===== verification/Adverse.thy ===== *)
theory Adverse
  imports Device
begin

text \<open>
  The device when the environment does not keep the contract: termination of the send loop for any
  host, and the behaviour on a peer that disappears, that announces pages of the wrong size, and on
  buffers the cursor does not follow.
\<close>

section \<open>The send loop ends on any host\<close>

lemma dma_read_frame:
  "psipe_dma_read H d a n k = Inr (r, d') \<Longrightarrow>
     current (dma d') = current (dma d) \<and> config (dma d') = config (dma d)"
  by (auto simp: psipe_dma_read_def split: if_splits prod.splits)

lemma next_addr_frame:
  "psipe_dma_next_addr e = Inr (a, e') \<Longrightarrow>
     len_left (current e') = len_left (current e) \<and> config e' = config e"
  by (auto simp: psipe_dma_next_addr_def Let_def split: if_splits)

lemma int_of_u64_0 [simp]: "int_of_u64 0 = 0"
  by simp

lemma rx_page_progress:
  assumes "psipe_dma_rx_page H s = Inr (len, t)" "0 < len"
  shows "remaining t < remaining s"
proof -
  define want where "want = min (page_size (config (dma s))) (len_left (current (dma s)))"
  have "len = int_of_u64 want \<and> len_left (current (dma t)) = len_left (current (dma s)) - want"
    using assms unfolding psipe_dma_rx_page_def Let_def want_def [symmetric]
    by (auto simp: dma_advance_def split: if_splits prod.splits
        dest!: dma_read_frame next_addr_frame)
  then have w: "want \<noteq> 0" "len_left (current (dma t)) = len_left (current (dma s)) - want"
    using assms(2) by (auto simp del: int_of_u64_small)
  have le: "want \<le> len_left (current (dma s))" by (simp add: want_def)
  then have "unat (len_left (current (dma s)) - want) = unat (len_left (current (dma s))) - unat want"
    by (rule unat_sub)
  moreover have "0 < unat want" "unat want \<le> unat (len_left (current (dma s)))"
    using w(1) le by (simp_all add: unat_gt_0 word_le_nat_alt)
  ultimately show ?thesis using w(2) by (simp add: remaining_def)
qed

lemma proxy_tx_frame:
  "psipe_proxy_tx_page H d len = Inr (r, d') \<Longrightarrow> dma d' = dma d \<and> (r \<noteq> PSIPE_FAILURE \<longrightarrow> 0 < len)"
  by (auto simp: psipe_proxy_tx_page_def Let_def split: if_splits prod.splits)

lemma transfer_progress:
  assumes "transfer_body H s = Inr (True, t)" shows "remaining t < remaining s"
proof -
  obtain len d r where "psipe_dma_rx_page H s = Inr (len, d)"
    "psipe_proxy_tx_page H d len = Inr (r, t)" "r \<noteq> PSIPE_FAILURE"
    using assms by (auto simp: transfer_body_def)
  then show ?thesis
    using rx_page_progress [of H s len d] proxy_tx_frame [of H d len r t] by (simp add: remaining_def)
qed

text \<open>Faults other than the lack of fuel are still possible; the loop itself is bounded.\<close>

lemma no_fuel_parts:
  "psipe_dma_read H d a n k \<noteq> Inl Out_Of_Fuel" "psipe_dma_next_addr e \<noteq> Inl Out_Of_Fuel"
  "psipe_proxy_tx_page H d len \<noteq> Inl Out_Of_Fuel"
  by (auto simp: psipe_dma_read_def psipe_dma_next_addr_def handle_at_def psipe_proxy_tx_page_def
      bindR_Inl_iff Let_def split: if_splits prod.splits)

lemma rx_page_no_fuel: "psipe_dma_rx_page H s \<noteq> Inl Out_Of_Fuel"
  unfolding psipe_dma_rx_page_def Let_def
  by (auto simp: bindR_Inl_iff no_fuel_parts split: if_splits prod.splits)

lemma body_no_fuel: "transfer_body H s \<noteq> Inl Out_Of_Fuel"
  by (auto simp: transfer_body_def bindR_Inl_iff no_fuel_parts rx_page_no_fuel split: prod.splits)

lemma transfer_loop_bounded:
  "remaining s < fuel \<Longrightarrow> do_while fuel (transfer_body H) s \<noteq> Inl Out_Of_Fuel"
proof (induction fuel arbitrary: s)
  case 0
  then show ?case by simp
next
  case (Suc n)
  show ?case
  proof (cases "transfer_body H s")
    case (Inl e)
    then show ?thesis using body_no_fuel [of H s] by simp
  next
    case (Inr bt)
    then obtain b t where bt: "transfer_body H s = Inr (b, t)" by (cases bt) auto
    show ?thesis
    proof (cases b)
      case True
      have "remaining t < n" using transfer_progress [of H s t] bt True Suc.prems by simp
      then show ?thesis using Suc.IH [of t] bt True by simp
    next
      case False
      then show ?thesis using bt by simp
    qed
  qed
qed

lemma begin_run_remaining:
  "psipe_dma_begin_run s = (r, t) \<Longrightarrow> remaining t = buffer_len s"
  by (auto simp: psipe_dma_begin_run_def psipe_dma_init_current_def remaining_def buffer_len_def
      Let_def split: if_splits)

lemma transfer_pages_bounded:
  assumes "buffer_len s < fuel" shows "psipe_transfer_pages fuel H s \<noteq> Inl Out_Of_Fuel"
proof -
  obtain r t where b: "psipe_dma_begin_run s = (r, t)" by (cases "psipe_dma_begin_run s") auto
  have "do_while fuel (transfer_body H) t \<noteq> Inl Out_Of_Fuel"
    using assms begin_run_remaining [OF b] by (intro transfer_loop_bounded) simp
  then show ?thesis
    by (cases "do_while fuel (transfer_body H) t") (auto simp: psipe_transfer_pages_def b)
qed

section \<open>A peer that closed the connection\<close>

text \<open>
  What the sockets do at the end of the stream: the descriptor is readable and \<^verbatim>\<open>recv\<close> returns 0
  at once.
\<close>

definition at_eof :: "'w host \<Rightarrow> bool" where
  "at_eof H \<longleftrightarrow> (\<forall>w fd n. sock_select H w fd = Some (1, True, w) \<and> sock_recv H w fd n = Some (0, [], w))"

lemma wait_req_eof:
  assumes "at_eof H" "connected s"
  shows "psipe_proxy_wait_req H s = Inr (PSIPE_REQ_NIL, s)"
  using assms by (simp add: at_eof_def psipe_proxy_wait_req_def connected_def Let_def not_le
      recv_into_nothing)

lemma await_eof_loop:
  assumes "at_eof H" "connected s" "r \<noteq> PSIPE_REQ_NIL"
  shows "do_while fuel (await_body H r) (q, s) = Inl Out_Of_Fuel"
  using wait_req_eof [OF assms(1,2)] assms(3)
  by (induction fuel arbitrary: q) (simp_all add: await_body_def req_defs)

section \<open>Pages of the wrong size\<close>

text \<open>A header that announces more than the page buffer holds.\<close>

lemma rx_page_overflow:
  assumes H: "host_contract H v" and len: "4096 < length bs" "length bs < 2 ^ 31"
    and inb: "inb v (env s) = enc_int (int (length bs)) @ bs @ rest"
  shows "psipe_proxy_rx_page H s = Inl Out_Of_Bounds"
proof -
  let ?hd = "enc_int (int (length bs))"
  have "4 \<le> length (inb v (env s))" by (simp add: inb plen.enc_length)
  then obtain w1 where w1: "sock_recv H (env s) (psipe_proxy_endpoint s) 4 = Some (4, ?hd, w1)"
    "inb v w1 = bs @ rest"
    using recv_contract [OF H, of 4 "env s" "psipe_proxy_endpoint s"]
    by (auto simp: inb plen.codec_simps)
  have l: "sint (recv_into 4 ?hd (0 :: u32)) = int (length bs)"
    using plen.dec_enc [of "int (length bs)"] len
    by (simp add: recv_into_full plen.enc_length dec_int_def)
  have u: "unat (u64_of_int (int (length bs))) = length bs"
    using len by (simp only: u64_of_int_nat) (rule unat_of_nat_u64, simp)
  have ne: "bs \<noteq> []" using len by auto
  obtain w where w: "sock_recv H w1 (psipe_proxy_endpoint s) (length bs) = Some (int (length bs), bs, w)"
    using recv_contract [OF H, of "length bs" w1 "psipe_proxy_endpoint s"] ne w1(2) by auto
  show ?thesis
    unfolding psipe_proxy_rx_page_def Let_def w1(1) option.case prod.case l u
    using len w by (auto simp: PSIPE_HW_DMA_AREA_SIZE_def)
qed

text \<open>
  A page longer than what is left of the buffer: the whole page is stored, and the count of bytes
  left wraps around below zero, so the run does not end.
\<close>

lemma tx_page_underflow:
  assumes H: "host_contract H v" and pg: "page_size (config (dma s)) = 4096"
    and want: "u64_of_int len \<le> 4096 - (cur_addr (current (dma s)) AND psipe_dma_mask (dma s) 4095)"
    and len: "0 < len" "len \<le> 4096" and over: "unat (len_left (current (dma s))) < nat len"
  shows "\<exists>t. psipe_dma_tx_page H s len = Inr (PSIPE_SUCCESS, t) \<and> \<not> psipe_dma_is_finished t \<and>
     remaining t = 2 ^ 64 + remaining s - nat len \<and>
     ram v (env t) = ram_store (ram v (env s)) (cur_addr (current (dma s)))
       (slice (buff (dma s)) 0 (nat len))"
proof -
  obtain w where w: "psipe_dma_write H s (cur_addr (current (dma s))) (int (nat len)) (int 0) =
      Inr (0, s\<lparr>env := w\<rparr>)"
    "ram v w = ram_store (ram v (env s)) (cur_addr (current (dma s))) (slice (buff (dma s)) 0 (nat len))"
    by (rule dma_write_ok [OF H, of 0 "nat len"]) (use len in simp)
  let ?l = "len_left (current (dma s))" let ?w = "u64_of_int len"
  let ?t = "dma_advance (s\<lparr>env := w\<rparr>) (cur_addr (current (dma s)) + ?w) ?w"
  have uw: "unat ?w = nat len" using len by (intro unat_u64_of_int) simp_all
  have sub: "unat (?l - ?w) = 2 ^ 64 + unat ?l - nat len"
    using over uw by (simp add: unat_sub_if_size word_size)
  have "psipe_dma_tx_page H s len = Inr (PSIPE_SUCCESS, ?t)"
    using w(1) want len by (simp add: psipe_dma_tx_page_def pg Let_def)
  moreover have "\<not> psipe_dma_is_finished ?t"
  proof
    assume "psipe_dma_is_finished ?t"
    then have "unat (?l - ?w) = 0" by (simp add: psipe_dma_is_finished_def dma_advance_def)
    then show False using sub len by simp
  qed
  ultimately show ?thesis
    using w(2) sub by (auto simp: dma_advance_def remaining_def)
qed

section \<open>Page-aligned buffers and the last handle\<close>

text \<open>
  A chunk that ends exactly at a page boundary leaves the address behind it as the next one; the
  cursor does not move on to the next handle.
\<close>

lemma aligned_page_runs_on:
  assumes H: "host_contract H v" and pg: "page_size (config (dma s)) = 4096"
    and al: "cur_addr (current (dma s)) AND psipe_dma_mask (dma s) 4095 = 0"
    and left: "4096 \<le> len_left (current (dma s))"
  shows "\<exists>t. psipe_dma_rx_page H s = Inr (4096, t) \<and>
     slice (buff (dma t)) 0 4096 = ram_bytes (ram v (env s)) (cur_addr (current (dma s))) 4096 \<and>
     cur_addr (current (dma t)) = cur_addr (current (dma s)) + 4096 \<and>
     len_left (current (dma t)) = len_left (current (dma s)) - 4096 \<and>
     hnd_pos (current (dma t)) = hnd_pos (current (dma s)) \<and> config (dma t) = config (dma s) \<and>
     env t = env s"
proof -
  have w: "min (page_size (config (dma s))) (len_left (current (dma s))) = 4096"
    using left by (simp add: pg)
  have i: "int_of_u64 4096 = 4096" by simp
  let ?b = "blit (buff (dma s)) 0 (ram_bytes (ram v (env s)) (cur_addr (current (dma s))) 4096)"
  have r: "psipe_dma_read H s (cur_addr (current (dma s))) 4096 0 = Inr (0, s\<lparr>dma := (dma s)\<lparr>buff := ?b\<rparr>\<rparr>)"
    using dma_read_ok [OF H, of 0 4096 s "cur_addr (current (dma s))"] by simp
  show ?thesis
    unfolding psipe_dma_rx_page_def Let_def w i r using al
    by (simp add: pg r dma_advance_def slice_blit_same)
qed

text \<open>The bound check of \<^verbatim>\<open>psipe_dma_next_addr\<close> is made before the increment.\<close>

lemma next_addr_past_end:
  assumes "hnd_pos (current e) = int p" "Suc p = unat (npages (config e))"
    "unat (npages (config e)) \<le> PSIPE_HW_BAR0_DMA_HANDLES_CNT"
  shows "psipe_dma_next_addr e =
     (if Suc p < PSIPE_HW_BAR0_DMA_HANDLES_CNT
      then Inr (handles (config e) (unat (npages (config e))),
                e\<lparr>current := (current e)\<lparr>hnd_pos := int (Suc p)\<rparr>\<rparr>)
      else Inl Out_Of_Bounds)"
proof -
  have p: "p < 131073" using assms(2,3) by (simp add: PSIPE_HW_BAR0_DMA_HANDLES_CNT_def)
  have u: "unat (of_nat p :: u64) = p" using p by (intro unat_of_nat_u64) simp
  have "(of_nat p :: u64) < npages (config e)"
    using assms(2) u by (simp add: word_less_nat_alt)
  moreover have "s32 (1 + int p) = int (Suc p)" using p by (simp add: s32_id)
  ultimately show ?thesis
    using assms(1,2) p by (simp add: psipe_dma_next_addr_def handle_at_def Let_def add.commute
        PSIPE_HW_BAR0_DMA_HANDLES_CNT_def)
qed

end
