(* ===== verification/Dev_Safety.thy ===== *)
theory Dev_Safety
  imports Dev_Steps Adverse
begin

text \<open>
  What a guest can make the emulated device do to its own arrays, the page buffer and \<^verbatim>\<open>handles[]\<close>,
  from any state the invariant of theory Dev_Steps describes and with nothing assumed of the host.
\<close>

section \<open>A run that sends\<close>

abbreviation safe :: "('a \<Rightarrow> bool) \<Rightarrow> 'a res \<Rightarrow> bool" where
  "safe \<equiv> keeps (- {Out_Of_Bounds})"

lemma safe_def: "safe (\<lambda>_. True) r \<longleftrightarrow> r \<noteq> Inl Out_Of_Bounds"
  by (cases r) simp_all

text \<open>
  The invariant of the run: the cursor stands on a handle inside the window. Behind the window all
  handles are null, and a null handle ends the run.
\<close>

definition cursor_inside :: "'w PSIPEDevice \<Rightarrow> bool" where
  "cursor_inside d \<longleftrightarrow> plain (config (dma d)) \<and> (\<forall>k \<ge> handle_window. handles (config (dma d)) k = 0) \<and>
     0 \<le> hnd_pos (current (dma d)) \<and> hnd_pos (current (dma d)) < int handle_window"

lemma cursor_inside_frame [simp]:
  "cursor_inside (d\<lparr>env := w\<rparr>) = cursor_inside d"
  "cursor_inside (d\<lparr>dma := (dma d)\<lparr>buff := b\<rparr>\<rparr>) = cursor_inside d"
  "cursor_inside (dma_advance d a n) = cursor_inside d"
  by (simp_all add: cursor_inside_def dma_advance_def)

lemma dma_read_safe:
  "cursor_inside d \<Longrightarrow> 0 \<le> n \<Longrightarrow> 0 \<le> k \<Longrightarrow> k + n \<le> 4096 \<Longrightarrow>
     safe (\<lambda>(_, t). cursor_inside t) (psipe_dma_read H d a n k)"
  by (auto simp: psipe_dma_read_def PSIPE_HW_DMA_AREA_SIZE_def cursor_inside_def split: prod.splits)

lemma next_addr_safe:
  assumes "cursor_inside d"
  shows "safe (\<lambda>(a, e). a \<noteq> 0 \<longrightarrow> cursor_inside (d\<lparr>dma := e\<rparr>)) (psipe_dma_next_addr (dma d))"
proof -
  have s: "s32 (hnd_pos (current (dma d)) + 1) = hnd_pos (current (dma d)) + 1"
    using assms by (intro s32_id) (simp_all add: cursor_inside_def handle_window_def)
  have "\<not> handle_window \<le> nat (hnd_pos (current (dma d)) + 1)"
    if "handles (config (dma d)) (nat (hnd_pos (current (dma d)) + 1)) \<noteq> 0"
    using assms that by (auto simp: cursor_inside_def)
  then show ?thesis
    using assms unfolding psipe_dma_next_addr_def Let_def s
    by (auto simp: handle_at_def cursor_inside_def window_in_array PSIPE_HW_BAR0_DMA_HANDLES_CNT_def
        handle_window_def)
qed

text \<open>A chunk of a page never leaves the page buffer, whatever length is left.\<close>

lemma page_split:
  fixes x l :: u64
  defines "want \<equiv> min 4096 l" and "have' \<equiv> 4096 - (x AND 4095)"
  shows "0 \<le> int_of_u64 want" "int_of_u64 want \<le> 4096"
    "0 \<le> int_of_u64 have'" "int_of_u64 have' \<le> 4096"
    "\<not> want \<le> have' \<Longrightarrow> 0 \<le> int_of_u64 (want - have')"
    "\<not> want \<le> have' \<Longrightarrow> int_of_u64 have' + int_of_u64 (want - have') \<le> 4096"
proof -
  have small: "int_of_u64 y = int (unat y)" if "unat y \<le> 4096" for y
    using that by (intro int_of_u64_small) simp
  have "unat (x AND 4095) < 4096"
    using word_and_le1 [of x 4095] by (simp add: word_le_nat_alt)
  then have "unat have' = 4096 - unat (x AND 4095)"
    unfolding have'_def by (intro unat_have) simp_all
  then have h: "unat have' \<le> 4096" by simp
  have "want \<le> 4096" by (simp add: want_def)
  then have w: "unat want \<le> 4096" by (simp add: word_le_nat_alt)
  show "0 \<le> int_of_u64 want" "int_of_u64 want \<le> 4096" "0 \<le> int_of_u64 have'" "int_of_u64 have' \<le> 4096"
    using small [OF h] small [OF w] h w by linarith+
  assume "\<not> want \<le> have'"
  then have d: "unat (want - have') = unat want - unat have'" "unat have' \<le> unat want"
    by (simp_all add: unat_sub word_le_nat_alt)
  then have e: "unat (want - have') \<le> 4096" using w by simp
  show "0 \<le> int_of_u64 (want - have')" "int_of_u64 have' + int_of_u64 (want - have') \<le> 4096"
    using small [OF h] small [OF e] h w d by linarith+
qed

lemma plain_mask: "cursor_inside d \<Longrightarrow> page_size (config (dma d)) = 4096 \<and> psipe_dma_mask (dma d) 4095 = 4095"
  by (simp add: cursor_inside_def plain_def psipe_dma_mask_def DMA_BIT_MASK_def
      PSIPE_HW_DMA_ADDR_CAPABILITY_def)

lemma rx_page_safe:
  assumes d: "cursor_inside d"
  shows "safe (\<lambda>(n, t). n \<le> 4096 \<and> (n \<noteq> PSIPE_FAILURE \<longrightarrow> cursor_inside t)) (psipe_dma_rx_page H d)"
proof -
  let ?l = "len_left (current (dma d))" and ?x = "cur_addr (current (dma d))"
  note n = page_split(1,2) [of ?l] page_split(3,4) [of ?x] page_split(5,6) [where x = ?x and l = ?l]
  have m: "page_size (config (dma d)) = 4096" "psipe_dma_mask (dma d) (4096 - 1) = 4095"
    using plain_mask [OF d] by simp_all
  show ?thesis
    unfolding psipe_dma_rx_page_def Let_def m
    by (intro keeps_if keeps_bind2 [OF dma_read_safe] keeps_bind2 [OF next_addr_safe] keeps_Inr)
      (use d n in \<open>simp_all add: PSIPE_FAILURE_def\<close>)
qed

lemma proxy_tx_safe:
  assumes "n \<le> 4096" "n \<noteq> PSIPE_FAILURE \<longrightarrow> cursor_inside d"
  shows "safe (\<lambda>(r, t). r \<noteq> PSIPE_FAILURE \<longrightarrow> cursor_inside t) (psipe_proxy_tx_page H d n)"
  using assms by (auto simp: psipe_proxy_tx_page_def Let_def PSIPE_HW_DMA_AREA_SIZE_def
      split: prod.splits)

lemma transfer_body_safe:
  "cursor_inside d \<Longrightarrow> safe (\<lambda>(b, t). if b then cursor_inside t else True) (transfer_body H d)"
  unfolding transfer_body_def
  by (intro keeps_bind2 [OF rx_page_safe] keeps_bind2 [OF proxy_tx_safe] keeps_Inr) auto

lemma settled_cursor:
  assumes "settled cap d" "psipe_dma_begin_run d = (r, t)" shows "cursor_inside t"
  using begin_run_kept(1,3) [OF assms(2)] assms(1)
  by (auto simp: cursor_inside_def settled_def setup_kept_def plain_def handle_window_def)

lemma transfer_pages_safe:
  assumes "settled cap d" shows "safe (\<lambda>_. True) (psipe_transfer_pages n H d)"
proof (cases "psipe_dma_begin_run d")
  case (Pair r t)
  have "safe (\<lambda>_. True) (do_while n (transfer_body H) t)"
    by (rule keeps_loop [where P = cursor_inside, OF settled_cursor [OF assms Pair]])
      (simp_all add: transfer_body_safe)
  then show ?thesis
    unfolding psipe_transfer_pages_def Pair by (auto intro: keeps_bind)
qed

lemma execute_safe:
  assumes "settled cap d" "mode (dma d) = DMA_MODE_ACTIVE"
  shows "safe (\<lambda>_. True) (psipe_execute n H d)"
proof (cases n)
  case (Suc n)
  then show ?thesis using assms transfer_pages_safe [OF assms(1), of n H]
    by (auto simp: psipe_execute.simps intro: keeps_bind)
qed (simp add: psipe_execute.simps)

section \<open>The registers\<close>

text \<open>Waiting for a request: any endpoint \<^verbatim>\<open>FD_SET\<close> can take will do.\<close>

lemma await_safe:
  assumes c: "connected d" and r: "req \<noteq> PSIPE_REQ_SYN"
  shows "safe (\<lambda>_. True) (psipe_proxy_await_req n exec H d req)"
proof -
  have w: "safe (\<lambda>(_, t). connected t) (psipe_proxy_wait_req H t)" if "connected t" for t
    using that by (auto simp: psipe_proxy_wait_req_def Let_def connected_def split: option.splits prod.splits)
  have "safe (\<lambda>(q, _). q = word_of_int PSIPE_FAILURE \<or> q = req)
      (do_while n (await_body H req) (PSIPE_REQ_NIL, d))"
    by (rule keeps_loop [where P = "\<lambda>(_, t). connected t"])
      (auto simp: c await_body_def intro!: keeps_bind2 [OF w])
  then show ?thesis unfolding psipe_proxy_await_req_def
  proof (rule keeps_bind2)
    fix q t assume "q = word_of_int PSIPE_FAILURE \<or> q = req"
    then have "q \<noteq> PSIPE_REQ_SYN" using r by (auto simp: PSIPE_FAILURE_def PSIPE_REQ_SYN_def)
    then show "safe (\<lambda>_. True) (psipe_proxy_handle_req exec H t q)"
      by (auto simp: psipe_proxy_handle_req_def Let_def split: prod.splits option.splits)
  qed
qed

lemma mmio_read_safe:
  assumes d: "connected d"
  shows "safe (\<lambda>_. True) (psipe_mmio_read fuel H d a sz)"
proof -
  have w: "safe (\<lambda>_. True) (psipe_proxy_await_req fuel (\<lambda>d. psipe_execute fuel H d) H t PSIPE_REQ_RLN)"
    if "psipe_proxy_issue_req H d q = (y, t)" for t q y
    using that d by (intro await_safe)
      (auto simp: psipe_proxy_issue_req_def connected_def PSIPE_REQ_RLN_def PSIPE_REQ_SYN_def split: prod.splits)
  show ?thesis
    unfolding psipe_mmio_read_def Let_def
    by (intro keeps_if keeps_Inr keeps_bind [where Q = "\<lambda>_. True"])
      (auto split: prod.splits intro!: keeps_bind [OF w])
qed

lemma mmio_write_safe:
  assumes d: "settled cap d" and a: "admitted d a sz"
    and m: "mode (dma d) = DMA_MODE_ACTIVE \<or> a \<noteq> PSIPE_HW_BAR0_DMA_DOORBELL_RING"
  shows "safe (\<lambda>_. True) (psipe_mmio_write fuel H d a x sz)"
proof -
  have h: "safe (\<lambda>_. True) (psipe_mmio_write_handle (dma d) a x)"
    using write_handle_settled [OF d settled_admitted [OF d a], of x]
    by (cases "psipe_mmio_write_handle (dma d) a x") simp_all
  show ?thesis
    unfolding psipe_mmio_write_def Let_def
    by (intro keeps_if keeps_Inr keeps_bind [OF h]) (use m execute_safe [OF d] in simp_all)
qed

end
