(* ===== verification/Device_Props.thy ===== *)
theory Device_Props
  imports Examples Dev_Safety
begin

text \<open>
  The properties of the emulated device, each with a witness on the reference world.
\<close>

section \<open>Runs\<close>

text \<open>
  C7. \<^verbatim>\<open>psipe_execute\<close> on an active device: the connection receives exactly the frames of the
  buffer the handles describe (a length and the bytes for every page, in order), nothing is read
  from it, guest memory is unchanged, the engine is idle and the interrupt is raised. The loop
  needs at most one iteration per byte.
\<close>

theorem execute_sends_buffer:
  assumes "host_contract H v" "msi_stable H" "configured s" "mode (dma s) = DMA_MODE_ACTIVE"
    "Suc (buffer_len s) < fuel"
  shows "\<exists>t. psipe_execute fuel H s = Inr t \<and> run_over s t \<and> work_ended H t \<and>
     ram v (env t) = ram v (env s) \<and> inb v (env t) = inb v (env s) \<and>
     outb v (env t) = outb v (env s) @ frames (buffer_bytes v s)"
  by (rule execute_active [OF assms]) blast

theorem execute_sends_buffer_witness:
  "\<exists>t. psipe_execute 20 ref_host (ref_dev DMA_MODE_ACTIVE []) = Inr t \<and> work_ended ref_host t \<and>
     outb ref_view (env t) = frames (buffer_bytes ref_view (ref_dev DMA_MODE_ACTIVE []))"
  using execute_sends_buffer [OF ref_host_contract ref_host_msi_stable,
      of "ref_dev DMA_MODE_ACTIVE []" 20] by auto

text \<open>
  C8. \<^verbatim>\<open>psipe_execute\<close> on a passive device: other requests are skipped until the peer asks for the
  available length; the answer goes out; the frames that follow are stored at the addresses the
  handles describe, and nowhere else; what comes after them stays on the connection; the interrupt
  is raised.
\<close>

theorem execute_receives_buffer:
  assumes "host_contract H v" "msi_stable H" "configured s" "sg_inj (config (dma s))"
    "connected s" "mode (dma s) = DMA_MODE_PASSIVE" "Suc (buffer_len s + length rs) < fuel"
    "skipped PSIPE_REQ_SLN rs"
    "inb v (env s) = concat (map enc_req rs) @ enc_req PSIPE_REQ_SLN @ frames ds @ rest"
    "length ds = buffer_len s"
  shows "\<exists>t. psipe_execute fuel H s = Inr t \<and> run_over s t \<and> work_ended H t \<and>
     sg_written (config (dma s)) (ram v (env s)) (ram v (env t)) 0 ds \<and> inb v (env t) = rest \<and>
     outb v (env t) =
       outb v (env s) @ enc_req PSIPE_REQ_RLN @ enc_len (len_avail (config (dma s)))"
  by (rule execute_passive [OF assms]) blast

theorem execute_receives_buffer_witness:
  "\<exists>t. psipe_execute 30 ref_host (ref_dev DMA_MODE_PASSIVE
       (concat (map enc_req [PSIPE_REQ_ACK]) @ enc_req PSIPE_REQ_SLN @ frames (replicate 16 7) @ [9])) =
     Inr t \<and> work_ended ref_host t \<and> inb ref_view (env t) = [9] \<and>
     sg_written ref_config (\<lambda>a. 3 * ucast a + 1) (ram ref_view (env t)) 0 (replicate 16 7)"
proof -
  have "skipped PSIPE_REQ_SLN [PSIPE_REQ_ACK]" by (simp add: skipped_def req_defs)
  moreover have "ram ref_view (ref_world i) = (\<lambda>a. 3 * ucast a + 1)" for i by (rule ext) simp
  ultimately show ?thesis
    using execute_receives_buffer [OF ref_host_contract ref_host_msi_stable,
        of "ref_dev DMA_MODE_PASSIVE (concat (map enc_req [PSIPE_REQ_ACK]) @ enc_req PSIPE_REQ_SLN @
              frames (replicate 16 7) @ [9])" "[PSIPE_REQ_ACK]" 30 "replicate 16 7" "[9]"]
    by (auto simp: ref_sg_inj)
qed

section \<open>Pages\<close>

text \<open>
  C9. \<^verbatim>\<open>psipe_dma_rx_page\<close> gathers one page: it returns the size of the next chunk, leaves in the
  page buffer exactly the next bytes of the guest's buffer, also across a page boundary where
  memory goes on at another handle, and moves the cursor past them.
\<close>

theorem rx_page_gathers:
  assumes "host_contract H v" "sg_wf (config (dma s))"
    "sg_cursor (config (dma s)) (current (dma s)) k" "k < unat (cfg_len (config (dma s)))"
  shows "\<exists>t. psipe_dma_rx_page H s = Inr (int (chunk (config (dma s)) k), t) \<and>
     slice (buff (dma t)) 0 (chunk (config (dma s)) k) =
       sg_bytes (config (dma s)) (ram v (env s)) k (chunk (config (dma s)) k) \<and>
     sg_cursor (config (dma s)) (current (dma t)) (k + chunk (config (dma s)) k) \<and>
     config (dma t) = config (dma s) \<and> env t = env s"
proof -
  obtain b c where "psipe_dma_rx_page H s = Inr (int (chunk (config (dma s)) k),
       s\<lparr>dma := (dma s)\<lparr>buff := b, current := c\<rparr>\<rparr>)"
    "slice b 0 (chunk (config (dma s)) k) =
       sg_bytes (config (dma s)) (ram v (env s)) k (chunk (config (dma s)) k)"
    "sg_cursor (config (dma s)) c (k + chunk (config (dma s)) k)"
    by (rule rx_page_ok [OF assms])
  then show ?thesis by auto
qed

theorem rx_page_gathers_witness:
  "\<exists>t. psipe_dma_rx_page ref_host (running (ref_dev DMA_MODE_ACTIVE [])) = Inr (16, t) \<and>
     slice (buff (dma t)) 0 16 = sg_bytes ref_config (\<lambda>a. 3 * ucast a + 1) 0 16"
proof -
  have "ram ref_view (ref_world i) = (\<lambda>a. 3 * ucast a + 1)" for i by (rule ext) simp
  moreover have "sg_cursor ref_config (current (dma (running (ref_dev DMA_MODE_ACTIVE [])))) 0"
    using running_cursor(1) [of "ref_dev DMA_MODE_ACTIVE []"] by simp
  ultimately show ?thesis
    using rx_page_gathers [OF ref_host_contract, of "running (ref_dev DMA_MODE_ACTIVE [])" 0]
    by (auto simp: ref_sg_wf chunk_def)
qed

text \<open>
  C10. \<^verbatim>\<open>psipe_dma_tx_page\<close> scatters one page: the page buffer's bytes are stored at the next
  addresses of the guest's buffer and guest memory is changed nowhere else.
\<close>

theorem tx_page_scatters:
  assumes "host_contract H v" "sg_wf (config (dma s))" "sg_inj (config (dma s))"
    "sg_cursor (config (dma s)) (current (dma s)) k" "k < unat (cfg_len (config (dma s)))"
  shows "\<exists>t. psipe_dma_tx_page H s (int (chunk (config (dma s)) k)) = Inr (PSIPE_SUCCESS, t) \<and>
     sg_written (config (dma s)) (ram v (env s)) (ram v (env t)) k
       (slice (buff (dma s)) 0 (chunk (config (dma s)) k)) \<and>
     sg_cursor (config (dma s)) (current (dma t)) (k + chunk (config (dma s)) k) \<and>
     config (dma t) = config (dma s)"
proof -
  obtain w c where "psipe_dma_tx_page H s (int (chunk (config (dma s)) k)) =
      Inr (0, s\<lparr>env := w, dma := (dma s)\<lparr>current := c\<rparr>\<rparr>)" "tx_result v s k w c"
    using tx_page_ok [OF assms] by metis
  then show ?thesis by (auto simp: tx_result_def)
qed

theorem tx_page_scatters_witness:
  "\<exists>t. psipe_dma_tx_page ref_host (running (ref_dev DMA_MODE_PASSIVE [])) 16 = Inr (0, t) \<and>
     sg_written ref_config (\<lambda>a. 3 * ucast a + 1) (ram ref_view (env t)) 0
       (slice (buff (dma (running (ref_dev DMA_MODE_PASSIVE [])))) 0 16)"
proof -
  have "ram ref_view (ref_world i) = (\<lambda>a. 3 * ucast a + 1)" for i by (rule ext) simp
  moreover have "sg_cursor ref_config (current (dma (running (ref_dev DMA_MODE_PASSIVE [])))) 0"
    using running_cursor(1) [of "ref_dev DMA_MODE_PASSIVE []"] by simp
  ultimately show ?thesis
    using tx_page_scatters [OF ref_host_contract, of "running (ref_dev DMA_MODE_PASSIVE [])" 0]
    by (auto simp: ref_sg_wf ref_sg_inj chunk_def)
qed

section \<open>The exchange of the available length\<close>

text \<open>
  Reading the register \<^verbatim>\<open>LEN_AVAIL\<close> of an active device asks the peer: the question goes out,
  the answer, once it arrives, is both the value read and the device's new available length;
  nothing after it is consumed, memory is unchanged.
\<close>

theorem read_len_avail_asks_peer:
  assumes "host_contract H v" "0 < fuel" "connected d" "mmio_size d = 4096"
    "mode (dma d) = DMA_MODE_ACTIVE"
    "inb v (env d) = enc_req PSIPE_REQ_RLN @ enc_len l @ rest"
  shows "\<exists>w. dev_ioread32 fuel H d PSIPE_HW_BAR0_DMA_CFG_LEN_AVAIL =
      Inr (ucast l, set_len_avail (d\<lparr>env := w\<rparr>) l) \<and>
     ram v w = ram v (env d) \<and> inb v w = rest \<and> outb v w = outb v (env d) @ enc_req PSIPE_REQ_SLN"
  by (rule read_len_avail_active [OF assms]) blast

theorem read_len_avail_asks_peer_witness:
  "\<exists>w. dev_ioread32 1 ref_host (ref_dev DMA_MODE_ACTIVE (enc_req PSIPE_REQ_RLN @ enc_len 77 @ [5]))
       PSIPE_HW_BAR0_DMA_CFG_LEN_AVAIL =
     Inr (77, set_len_avail
       ((ref_dev DMA_MODE_ACTIVE (enc_req PSIPE_REQ_RLN @ enc_len 77 @ [5]))\<lparr>env := w\<rparr>) 77) \<and>
     inb ref_view w = [5]"
  using read_len_avail_asks_peer [OF ref_host_contract, of 1
      "ref_dev DMA_MODE_ACTIVE (enc_req PSIPE_REQ_RLN @ enc_len 77 @ [5])" 77 "[5]"] by auto

text \<open>
  C27. Waiting for a request on a connection whose peer has closed it never returns: \<^verbatim>\<open>recv\<close> gives
  nothing, the request stays \<^verbatim>\<open>NIL\<close>, and the loop of \<^verbatim>\<open>psipe_proxy_await_req\<close> goes on whatever the
  number of iterations.
\<close>

theorem await_req_spins_at_eof:
  assumes "at_eof H" "connected s" "r \<noteq> PSIPE_REQ_NIL"
  shows "psipe_proxy_await_req fuel ex H s r = Inl Out_Of_Fuel"
  by (simp add: psipe_proxy_await_req_def await_eof_loop [OF assms])

theorem await_req_spins_at_eof_witness:
  "psipe_proxy_await_req 1000 Inr
     (ref_host\<lparr>sock_select := (\<lambda>w _. Some (1, True, w)), sock_recv := (\<lambda>w _ _. Some (0, [], w))\<rparr>)
     (ref_dev DMA_MODE_PASSIVE []) PSIPE_REQ_SLN = Inl Out_Of_Fuel"
  by (rule await_req_spins_at_eof) (simp_all add: at_eof_def req_defs)

section \<open>Loops\<close>

text \<open>
  C26. The send loop ends on any host, whatever the DMA and socket calls return and whatever the
  configuration: more iterations than the announced length are never needed.
\<close>

theorem transfer_pages_terminates:
  assumes "buffer_len s < fuel"
  shows "psipe_transfer_pages fuel H s \<noteq> Inl Out_Of_Fuel"
  by (rule transfer_pages_bounded [OF assms])

theorem transfer_pages_terminates_witness:
  "psipe_transfer_pages 17 (ref_host\<lparr>pci_dma_read := (\<lambda>w _ n. (2, [], w))\<rparr>)
     (ref_dev DMA_MODE_ACTIVE []) \<noteq> Inl Out_Of_Fuel"
  by (rule transfer_pages_terminates) simp

text \<open>
  A second run is refused while one executes: \<^verbatim>\<open>psipe_transfer_pages\<close> and
  \<^verbatim>\<open>psipe_receive_pages\<close> then touch neither memory nor the connection and leave the run state
  \<open>EXECUTING\<close>; but the cursor of the run in progress has been set back to the start.
\<close>

theorem second_run_refused:
  assumes "status (dma s) = DMA_STATUS_EXECUTING"
  shows "psipe_transfer_pages fuel H s = Inr (s\<lparr>dma := psipe_dma_init_current (dma s)\<rparr>) \<and>
     psipe_receive_pages fuel H s = Inr (s\<lparr>dma := psipe_dma_init_current (dma s)\<rparr>)"
  using assms by (simp add: psipe_transfer_pages_def psipe_receive_pages_def psipe_dma_begin_run_def
      psipe_dma_init_current_def Let_def)

theorem second_run_refused_witness:
  "psipe_transfer_pages 0 ref_host (running (ref_dev DMA_MODE_ACTIVE [])) =
     Inr ((running (ref_dev DMA_MODE_ACTIVE []))\<lparr>dma :=
       psipe_dma_init_current (dma (running (ref_dev DMA_MODE_ACTIVE [])))\<rparr>)"
  using second_run_refused [of "running (ref_dev DMA_MODE_ACTIVE [])" 0 ref_host]
  by (simp add: running_def)

section \<open>Registers and interrupts\<close>

text \<open>
  While a run executes every register write is ignored: configuration, doorbell and interrupt
  acknowledgement included.
\<close>

theorem busy_device_ignores_writes:
  assumes "\<not> psipe_dma_is_idle d"
  shows "psipe_mmio_write fuel H d addr val sz = Inr d"
  by (rule write_while_busy [OF assms])

theorem busy_device_ignores_writes_witness:
  "psipe_mmio_write 0 ref_host (running (ref_dev DMA_MODE_ACTIVE [])) 0x10 5 4 =
     Inr (running (ref_dev DMA_MODE_ACTIVE []))"
  by (rule busy_device_ignores_writes) (simp add: running_def psipe_dma_is_idle_def)

text \<open>
  With MSI, raising a vector sets its flag and lowering it clears it, and no other vector's
  flag changes.
\<close>

theorem msi_flags:
  assumes "msi_stable H" "msi_enabled H (env d)" "n < PSIPE_IRQ_MAX_VECS"
  shows "psipe_irq_check H (psipe_irq_raise H d n) k = (if k = n then 1 else psipe_irq_check H d k) \<and>
     psipe_irq_check H (psipe_irq_lower H d n) k = (if k = n then 0 else psipe_irq_check H d k)"
  using assms by (auto simp: irq_defs msi_stable_def)

theorem msi_flags_witness:
  "psipe_irq_check ref_host (psipe_irq_raise ref_host (ref_dev DMA_MODE_ACTIVE []) 2) 2 = 1 \<and>
   psipe_irq_check ref_host (psipe_irq_raise ref_host (ref_dev DMA_MODE_ACTIVE []) 2) 1 = 0"
proof -
  have "msi_enabled ref_host w" for w by (simp add: ref_host_def)
  then show ?thesis
    using msi_flags [OF ref_host_msi_stable, of "ref_dev DMA_MODE_ACTIVE []" 2]
    by (auto simp: PSIPE_IRQ_MAX_VECS_def irq_defs ref_dev_def)
qed

text \<open>
  Realising the device, up to the search for its peer, and resetting it both leave an idle
  engine with no pages announced and a lowered interrupt; reset keeps the mode and the connection.
\<close>

theorem reset_state:
  assumes "msi_stable H"
  shows "psipe_dma_is_idle (psipe_device_reset H d) \<and> \<not> work_ended H (psipe_device_reset H d) \<and>
     npages (config (dma (psipe_device_reset H d))) = 0 \<and>
     handles (config (dma (psipe_device_reset H d))) = (\<lambda>_. 0) \<and>
     mode (dma (psipe_device_reset H d)) = mode (dma d) \<and>
     proxy (psipe_device_reset H d) = proxy d"
  using irq_reset_lowers [OF assms, of d]
  by (simp add: psipe_device_reset_def psipe_mmio_reset_def psipe_proxy_reset_def
      psipe_dma_is_idle_def)

theorem reset_state_witness:
  "npages (config (dma (psipe_device_reset ref_host (ref_dev DMA_MODE_ACTIVE [])))) = 0 \<and>
   \<not> work_ended ref_host (psipe_device_reset ref_host (ref_dev DMA_MODE_ACTIVE []))"
  using reset_state [OF ref_host_msi_stable, of "ref_dev DMA_MODE_ACTIVE []"] by blast

section \<open>What a guest can do\<close>

text \<open>
  C22. From \<^verbatim>\<open>psipe_device_init\<close> on, whatever the guest has written to the registers by accesses of
  every size \<^verbatim>\<open>psipe_mmio_ops\<close> admits, at any address of the region, and whatever the host has returned
  and the peer has sent, provided the page counts written were at most \<open>2 ^ 64 - 14\<close> (those of 32-bit
  accesses are): no access leaves the page buffer or \<^verbatim>\<open>handles[]\<close>, with one exception, the doorbell of
  a passive device. C38 shows that the proviso is needed.
\<close>

theorem device_access_safe:
  assumes "dreach fuel H cap d" "unat cap \<le> 2 ^ 64 - 14" "qemu_target_page_size H = 4096" "connected d"
    "admitted d a sz"
  shows "psipe_mmio_read fuel H d a sz \<noteq> Inl Out_Of_Bounds \<and>
     (mode (dma d) = DMA_MODE_ACTIVE \<or> a \<noteq> PSIPE_HW_BAR0_DMA_DOORBELL_RING \<longrightarrow>
      psipe_mmio_write fuel H d a x sz \<noteq> Inl Out_Of_Bounds)"
  using mmio_read_safe [OF assms(4), of fuel H a sz]
    mmio_write_safe [OF dreach_settled [OF assms(1,3,2)] assms(5), of fuel H x]
  by (simp add: safe_def)

theorem device_access_safe_witness:
  "dreach 3 lone_host (2 ^ 40) (lone_dev\<lparr>dma := (dma lone_dev)\<lparr>config := (config (dma lone_dev))\<lparr>npages := 2 ^ 40\<rparr>\<rparr>\<rparr>) \<and>
   psipe_mmio_write 3 lone_host
     (lone_dev\<lparr>dma := (dma lone_dev)\<lparr>config := (config (dma lone_dev))\<lparr>npages := 2 ^ 40\<rparr>\<rparr>\<rparr>) 0x04 5 4
     \<noteq> Inl Out_Of_Bounds"
  (is "dreach _ _ _ ?d \<and> _")
proof -
  have s: "settled 0xFFFFFFFF lone_dev"
    by (rule dreach_settled [OF dreach_init [OF lone_init]]) (simp_all add: lone_page_size)
  have adm: "admitted lone_dev a 8 = (unat a + 8 \<le> 4096)" "admitted ?d a 4 = (unat a + 4 \<le> 4096)" for a
    using s by (simp_all add: admitted_iff settled_def dev_ready_def)
  have "psipe_mmio_write 3 lone_host lone_dev PSIPE_HW_BAR0_DMA_CFG_PGS (2 ^ 40) 8 = Inr ?d"
    using s by (simp add: psipe_mmio_write_def psipe_mmio_valid_access_def settled_def dev_ready_def
        psipe_dma_is_idle_def reg_defs Let_def)
  then have "dstep 3 lone_host (2 ^ 40) lone_dev ?d"
    by (intro reg_write [of lone_dev PSIPE_HW_BAR0_DMA_CFG_PGS 8 "2 ^ 40"]) (simp_all add: adm reg_defs)
  from dreach_step [OF dreach_init [OF lone_init] this] have r: "dreach 3 lone_host (2 ^ 40) ?d" .
  have "connected lone_dev" by simp
  then have "connected ?d" by (auto simp: connected_def psipe_proxy_endpoint_def split: if_splits)
  from device_access_safe [OF r _ lone_page_size this adm(2) [THEN iffD2], of "0x04" 5] r show ?thesis
    by (simp add: reg_defs)
qed

text \<open>
  C38. With an 8-byte access, which \<^verbatim>\<open>psipe_mmio_ops\<close> admits, the page count gets 64 bits, and the
  unsigned comparison with it no longer refuses a negative position: the next write between two
  registers is one before \<^verbatim>\<open>handles[]\<close>.
\<close>

theorem guest_writes_before_array:
  assumes "psipe_dma_is_idle d" "unat a < 52" "unat a mod 8 = 4"
  shows "bindR (psipe_mmio_write fuel H d PSIPE_HW_BAR0_DMA_CFG_PGS (NOT 0) 8)
       (\<lambda>d. psipe_mmio_write fuel H d a x 4) = Inl Out_Of_Bounds"
proof -
  have neq: "a \<noteq> PSIPE_HW_BAR0_IRQ_0_RAISE" "a \<noteq> PSIPE_HW_BAR0_IRQ_0_LOWER"
    "a \<noteq> PSIPE_HW_BAR0_DMA_CFG_LEN" "a \<noteq> PSIPE_HW_BAR0_DMA_CFG_PGS"
    "a \<noteq> PSIPE_HW_BAR0_DMA_CFG_MOD" "a \<noteq> PSIPE_HW_BAR0_DMA_CFG_LEN_AVAIL"
    "a \<noteq> PSIPE_HW_BAR0_DMA_DOORBELL_RING"
    using assms(3) by (auto simp: reg_defs)
  have v: "psipe_mmio_valid_access a 4" by (rule valid_access_of_unat) (use assms(2) in simp)
  have p: "- 14 \<le> psipe_mmio_handle_pos a" "psipe_mmio_handle_pos a < - 1"
    using assms(2) by (simp_all add: handle_pos_negative)
  then have "int (unat (u64_of_int (psipe_mmio_handle_pos a))) < int (2 ^ 64 - 1)"
    by (subst negative_as_u64) simp_all
  then have "unat (u64_of_int (psipe_mmio_handle_pos a)) < 2 ^ 64 - 1" by (simp only: of_nat_less_iff)
  then have "\<not> - 1 \<le> u64_of_int (psipe_mmio_handle_pos a)"
    by (simp only: word_le_nat_alt unsigned_minus_1_eq_mask mask_eq_exp_minus_1) simp
  then show ?thesis
    using assms(1) neq v p
    by (simp add: psipe_mmio_write_def psipe_mmio_write_handle_def psipe_mmio_valid_access_def Let_def
        set_handle_def psipe_dma_is_idle_def reg_defs)
qed

theorem guest_writes_before_array_witness:
  "bindR (psipe_mmio_write 0 ref_host (ref_dev DMA_MODE_ACTIVE []) PSIPE_HW_BAR0_DMA_CFG_PGS (NOT 0) 8)
     (\<lambda>d. psipe_mmio_write 0 ref_host d 0x04 7 4) = Inl Out_Of_Bounds"
  by (rule guest_writes_before_array) (simp_all add: psipe_dma_is_idle_def)

section \<open>Where the code does not do what it means to\<close>

text \<open>
  C36. A page whose bytes end at a page boundary (any page of a page-aligned buffer) leaves the
  cursor at the address after it, and not at the next handle, whatever the handles are: of a
  page-aligned buffer the device reads physically adjacent memory.
\<close>

theorem aligned_scatter_reads_wrong_page:
  assumes "host_contract H v" "page_size (config (dma s)) = 4096"
    "cur_addr (current (dma s)) AND psipe_dma_mask (dma s) 4095 = 0"
    "4096 \<le> len_left (current (dma s))"
  shows "\<exists>t. psipe_dma_rx_page H s = Inr (4096, t) \<and>
     cur_addr (current (dma t)) = cur_addr (current (dma s)) + 4096 \<and>
     hnd_pos (current (dma t)) = hnd_pos (current (dma s))"
  using aligned_page_runs_on [OF assms] by blast

theorem aligned_scatter_reads_wrong_page_witness:
  "\<exists>t. psipe_dma_rx_page ref_host (running ((ref_dev DMA_MODE_ACTIVE [])
         \<lparr>dma := (dma (ref_dev DMA_MODE_ACTIVE []))\<lparr>config := ref_config
            \<lparr>cfg_len := 8192, handles := (\<lambda>k. if k = 0 then 0x10000 else 0x30000)\<rparr>\<rparr>\<rparr>)) = Inr (4096, t) \<and>
     cur_addr (current (dma t)) = 0x11000"
proof -
  let ?s = "running ((ref_dev DMA_MODE_ACTIVE [])
         \<lparr>dma := (dma (ref_dev DMA_MODE_ACTIVE []))\<lparr>config := ref_config
            \<lparr>cfg_len := 8192, handles := (\<lambda>k. if k = 0 then 0x10000 else 0x30000)\<rparr>\<rparr>\<rparr>)"
  have c: "cur_addr (current (dma ?s)) = 0x10000" "len_left (current (dma ?s)) = 8192"
    by (simp_all add: running_def psipe_dma_init_current_def)
  show ?thesis
    using aligned_scatter_reads_wrong_page [OF ref_host_contract, of ?s] by (auto simp: c)
qed

text \<open>
  When all announced pages have been used, asking for the next address returns the handle
  after the last, left over from an earlier buffer, or reads past the array when all handles are
  in use, where the code means to return 0.
\<close>

theorem next_addr_off_by_one:
  assumes "hnd_pos (current e) = int p" "Suc p = unat (npages (config e))"
    "unat (npages (config e)) \<le> PSIPE_HW_BAR0_DMA_HANDLES_CNT"
  shows "psipe_dma_next_addr e =
     (if Suc p < PSIPE_HW_BAR0_DMA_HANDLES_CNT
      then Inr (handles (config e) (unat (npages (config e))),
                e\<lparr>current := (current e)\<lparr>hnd_pos := int (Suc p)\<rparr>\<rparr>)
      else Inl Out_Of_Bounds)"
  by (rule next_addr_past_end [OF assms])

theorem next_addr_off_by_one_witness:
  "psipe_dma_next_addr ((dma (ref_dev DMA_MODE_ACTIVE []))
       \<lparr>current := \<lparr>len_left = 1, cur_addr = 0, hnd_pos = 1\<rparr>\<rparr>) =
     Inr (0x5000, (dma (ref_dev DMA_MODE_ACTIVE []))
       \<lparr>current := \<lparr>len_left = 1, cur_addr = 0, hnd_pos = 2\<rparr>\<rparr>)"
  using next_addr_off_by_one [of "(dma (ref_dev DMA_MODE_ACTIVE []))
       \<lparr>current := \<lparr>len_left = 1, cur_addr = 0, hnd_pos = 1\<rparr>\<rparr>" 1]
  by (simp add: PSIPE_HW_BAR0_DMA_HANDLES_CNT_def ref_config_def ref_handles_def)

text \<open>
  C37. The length of an incoming page is not checked: a peer that announces more than the page
  buffer holds makes \<^verbatim>\<open>psipe_proxy_rx_page\<close> write beyond it.
\<close>

theorem oversized_page_overflows_buffer:
  assumes "host_contract H v" "4096 < length bs" "length bs < 2 ^ 31"
    "inb v (env s) = enc_int (int (length bs)) @ bs @ rest"
  shows "psipe_proxy_rx_page H s = Inl Out_Of_Bounds"
  by (rule rx_page_overflow [OF assms])

theorem oversized_page_overflows_buffer_witness:
  "psipe_proxy_rx_page ref_host (ref_dev DMA_MODE_PASSIVE (enc_int 4097 @ replicate 4097 0)) =
     Inl Out_Of_Bounds"
  by (rule oversized_page_overflows_buffer [OF ref_host_contract, of "replicate 4097 0" _ "[]"])
    simp_all

text \<open>
  A page longer than what is left of the receiver's buffer is stored whole, behind the buffer's
  end, and the count of bytes left wraps around, so the receive loop goes on.
\<close>

theorem long_page_wraps_count:
  assumes "host_contract H v" "page_size (config (dma s)) = 4096"
    "u64_of_int len \<le> 4096 - (cur_addr (current (dma s)) AND psipe_dma_mask (dma s) 4095)"
    "0 < len" "len \<le> 4096" "unat (len_left (current (dma s))) < nat len"
  shows "\<exists>t. psipe_dma_tx_page H s len = Inr (PSIPE_SUCCESS, t) \<and> \<not> psipe_dma_is_finished t \<and>
     remaining t = 2 ^ 64 + remaining s - nat len \<and>
     ram v (env t) = ram_store (ram v (env s)) (cur_addr (current (dma s)))
       (slice (buff (dma s)) 0 (nat len))"
  by (rule tx_page_underflow [OF assms])

theorem long_page_wraps_count_witness:
  "\<exists>t. psipe_dma_tx_page ref_host ((ref_dev DMA_MODE_PASSIVE [])\<lparr>dma :=
       (dma (ref_dev DMA_MODE_PASSIVE []))\<lparr>current := \<lparr>len_left = 4, cur_addr = 0x1F00, hnd_pos = 0\<rparr>\<rparr>\<rparr>) 10 =
     Inr (PSIPE_SUCCESS, t) \<and> remaining t = 2 ^ 64 - 6"
proof -
  let ?s = "(ref_dev DMA_MODE_PASSIVE [])\<lparr>dma :=
       (dma (ref_dev DMA_MODE_PASSIVE []))\<lparr>current := \<lparr>len_left = 4, cur_addr = 0x1F00, hnd_pos = 0\<rparr>\<rparr>\<rparr>"
  show ?thesis
    using long_page_wraps_count [OF ref_host_contract, of ?s 10]
    by (auto simp: u64_of_int_def remaining_def)
qed

text \<open>
  The mode register reads back inverted: after the module writes 1 (active) it reads as 0, and
  after it writes 0 (passive) as 1.
\<close>

theorem mode_reads_back_inverted:
  assumes "psipe_dma_is_idle d"
  shows "bindR (psipe_mmio_write fuel H d PSIPE_HW_BAR0_DMA_CFG_MOD x 4)
       (\<lambda>d. psipe_mmio_read fuel H d PSIPE_HW_BAR0_DMA_CFG_MOD 4) =
     Inr (if x = 0 then 1 else 0,
          d\<lparr>dma := (dma d)\<lparr>mode := (if x = 0 then DMA_MODE_PASSIVE else DMA_MODE_ACTIVE)\<rparr>\<rparr>)"
  using assms by (simp add: psipe_mmio_write_def psipe_mmio_read_def psipe_mmio_valid_access_def
      reg_defs Let_def word_gt_0)

theorem mode_reads_back_inverted_witness:
  "bindR (psipe_mmio_write 0 ref_host (ref_dev DMA_MODE_PASSIVE []) PSIPE_HW_BAR0_DMA_CFG_MOD 1 4)
       (\<lambda>d. psipe_mmio_read 0 ref_host d PSIPE_HW_BAR0_DMA_CFG_MOD 4) =
     Inr (0, (ref_dev DMA_MODE_PASSIVE [])\<lparr>dma := (dma (ref_dev DMA_MODE_PASSIVE []))
       \<lparr>mode := DMA_MODE_ACTIVE\<rparr>\<rparr>)"
  by (subst mode_reads_back_inverted) (simp_all add: psipe_dma_is_idle_def)

end
