(* ===== verification/Kernel_Props.thy ===== *)
theory Kernel_Props
  imports Examples
begin

text \<open>
  The properties of the kernel module, each with a witness on the Linux, the device and the
  two-operation module of theory Examples.
\<close>

section \<open>The queue\<close>

text \<open>
  C13. Whatever mixture of submissions and completing interrupts runs from a reachable state, the
  operations completed so far followed by those still queued are the same sequence as before, with
  the new submissions at its end: nothing is lost, repeated or reordered.
\<close>

theorem queue_history:
  assumes "kreach L B d s" "(\<lambda>s t. submits L B s t \<or> finishes L B s t)\<^sup>*\<^sup>* s t"
  shows "\<exists>new. completed (trace t) @ map op_id (active t) =
     completed (trace s) @ map op_id (active s) @ new"
  using ops.history [OF assms(2) kreach_kinv [OF assms(1)]] by blast

theorem queue_history_witness:
  "\<exists>new. completed (trace ref_s3) @ map op_id (active ref_s3) =
     completed (trace ref_s2) @ map op_id (active ref_s2) @ new"
  by (rule queue_history [OF ref_reach r_into_rtranclp]) (simp add: finishes_def ref_next)

text \<open>
  The \<open>n\<close>-th completing interrupt completes the \<open>n\<close>-th operation of the queue, in order of
  submission.
\<close>

theorem completions_in_order:
  assumes "kreach L B d s" "(finishes L B ^^ n) s t"
  shows "completed (trace t) = completed (trace s) @ take n (map op_id (active s)) \<and>
     map op_id (active t) = drop n (map op_id (active s))"
  using ops.completions [OF assms(2) kreach_kinv [OF assms(1)]] by blast

theorem completions_in_order_witness:
  "completed (trace ref_s3) = [0] \<and> map op_id (active ref_s3) = [1]"
proof -
  have "(finishes ref_linux ref_bus ^^ 1) ref_s2 ref_s3"
    by (simp only: relpowp_1) (simp add: finishes_def ref_next)
  then show ?thesis using completions_in_order [OF ref_reach] by fastforce
qed

text \<open>
  C14. In every reachable state the ids of all operations in the two lists are pairwise different
  and below \<^verbatim>\<open>next_id\<close>, so that \<^verbatim>\<open>psipe_ops_get\<close> finds at most one; the queue is in increasing
  order; a flag is set exactly on the completed operations.
\<close>

theorem reachable_queue:
  assumes "kreach L B d s"
  shows "distinct (map op_id (active s @ inactive s)) \<and>
     (\<forall>op \<in> set (active s @ inactive s). op_id op < next_id s) \<and>
     sorted_wrt (<) (map op_id (active s)) \<and>
     (\<forall>op \<in> set (active s). flag op = 0) \<and>
     (\<forall>op \<in> set (inactive s). flag op = 1 \<and> op_id op \<in> set (completed (trace s)))"
  using kinv_distinct [OF kreach_kinv [OF assms]] kinv_fresh [OF kreach_kinv [OF assms]]
    kreach_kinv [OF assms] by (auto simp: kinv_def)

theorem reachable_queue_witness:
  "distinct (map op_id (active ref_s2 @ inactive ref_s2)) \<and> sorted_wrt (<) [0, 1 :: u64]"
  using reachable_queue [OF ref_reach] by simp

text \<open>
  C16. A waiter only returns once its operation has been completed by an interrupt; it returns the
  operation's \<^verbatim>\<open>retval\<close>.
\<close>

theorem wait_returns_after_completion:
  assumes "kreach L B d s" "ops_wait_leave s i = Inr (rv, t)"
  shows "i \<in> set (completed (trace s)) \<and>
     (\<exists>op \<in> set (inactive s). op_id op = i \<and> flag op = 1 \<and> rv = retval op)"
proof -
  note inv = kreach_kinv [OF assms(1)]
  obtain op where op: "find_op i s = Some op" "flag op = 1" "rv = retval op"
    using assms(2) by (auto simp: ops_wait_leave_def Let_def split: option.splits if_splits)
  then have "op \<in> set (active s @ inactive s) \<and> op_id op = i"
    unfolding find_op_def find_Some_iff by (metis nth_mem)
  with op inv show ?thesis by (auto simp: kinv_def)
qed

text \<open>The state after the first interrupt, with somebody waiting for operation 0.\<close>

definition ref_s4 :: "nat kstate" where
  "ref_s4 = ops_wait_enter (ref_s3\<lparr>hw := 13\<rparr>) 0"

lemma ref_next_ack: "psipe_ops_next ref_linux ref_bus (ref_s2\<lparr>hw := 7\<rparr>) = Inr (ref_s3\<lparr>hw := 13\<rparr>)"
proof -
  have "dma_npages (ref_mapped (send_dma ref_dma)) = 2"
    "direction (ref_mapped (send_dma ref_dma)) = DMA_TO_DEVICE"
    by (simp_all add: ref_mapped_def send_dma_def ref_dma_def)
  then show ?thesis
    by (simp add: psipe_ops_next_def psipe_ops_current_def psipe_ops_fini_def Let_def list_del_def
        psipe_dma_unmap_pages_def psipe_dma_unpin_pages_def start_op_def ref_start update_op_def
        map_op_def ref_s3_def ref_s2_def ref_running_def ref_queued_def ref_op_def)
qed

lemma ref_s4_reach: "kreach ref_linux ref_bus 0 ref_s4"
proof -
  have h: "hw ref_s2 = 6" by (simp add: ref_s2_def)
  have "psipe_irq_handler ref_linux ref_bus ref_s2 = Inr (IRQ_HANDLED, ref_s3\<lparr>hw := 13\<rparr>)"
    by (simp add: psipe_irq_handler_def psipe_irq_check_and_ack_def ref_bus_def h ref_next_ack
        [unfolded ref_bus_def])
  then have r3: "kreach ref_linux ref_bus 0 (ref_s3\<lparr>hw := 13\<rparr>)"
    by (intro kreach_step [OF ref_reach interrupt]) simp_all
  have "psipe_ops_get (ref_s3\<lparr>hw := 13\<rparr>) 0 = Some ((ref_running 0)\<lparr>flag := 1\<rparr>)"
    by (simp add: psipe_ops_get_def ref_s3_def)
  then show ?thesis unfolding ref_s4_def
    by (intro kreach_step [OF r3 sleep]) (simp_all add: ref_s3_def)
qed

theorem wait_returns_after_completion_witness:
  "\<exists>t. ops_wait_leave ref_s4 0 = Inr (42, t) \<and> 0 \<in> set (completed (trace ref_s4))"
proof -
  have "\<exists>t. ops_wait_leave ref_s4 0 = Inr (42, t)"
    by (simp add: ref_s4_def ops_wait_enter_def ops_wait_leave_def update_op_def map_op_def find_op_def
        ref_s3_def ref_running_def ref_queued_def ref_op_def Let_def s32_id)
  then show ?thesis using wait_returns_after_completion [OF ref_s4_reach] by blast
qed

section \<open>Interrupts\<close>

text \<open>
  C24. The interrupt handler on the device's registers: an interrupt the device did not raise is
  left alone, with nothing changed; one it raised is acknowledged, so that the flag is clear and
  the device ready, and then completes the running operation and starts the next.
\<close>

theorem irq_handler_on_device:
  assumes "dev_irq_ok H (hw s)"
  shows "(\<not> work_ended H (hw s) \<longrightarrow> psipe_irq_handler L (dev_bus fuel H) s = Inr (IRQ_NONE, s)) \<and>
     (work_ended H (hw s) \<longrightarrow> (\<exists>d'. dev_irq_ok H d' \<and> \<not> work_ended H d' \<and>
        psipe_irq_handler L (dev_bus fuel H) s =
          bindR (psipe_ops_next L (dev_bus fuel H) (s\<lparr>hw := d'\<rparr>)) (\<lambda>s. Inr (IRQ_HANDLED, s))))"
  using dev.spurious_irq [OF assms] dev.raised_irq [OF assms] by blast

theorem irq_handler_on_device_witness:
  "psipe_irq_handler ref_linux (dev_bus 0 ref_host) (kinit (ref_dev DMA_MODE_ACTIVE [])) =
     Inr (IRQ_NONE, kinit (ref_dev DMA_MODE_ACTIVE []))"
proof -
  have "dev_irq_ok ref_host (hw (kinit (ref_dev DMA_MODE_ACTIVE [])))"
    by (simp add: dev_irq_ok_def ref_host_msi_stable kinit_def)
  moreover have "\<not> work_ended ref_host (hw (kinit (ref_dev DMA_MODE_ACTIVE [])))"
    by (simp add: work_ended_def irq_defs kinit_def ref_dev_def)
  ultimately show ?thesis using irq_handler_on_device by blast
qed

section \<open>Programming the device, pinning the buffer\<close>

text \<open>
  \<^verbatim>\<open>psipe_dma_write_maps\<close> on a ready device leaves in its registers exactly the length, the
  number of pages and the page addresses of the mapping (each truncated to the 32 bits of the
  access); the handles after the last, the mode and everything else of the device are unchanged.
\<close>

theorem registers_programmed:
  assumes "dev_kept d0 d" "unat (nmapped m) \<le> handle_window" "unat (nmapped m) \<le> length (sgl m)"
  shows "\<exists>d'. psipe_dma_write_maps (dev_bus fuel H) d m = Inr d' \<and> dev_kept d0 d' \<and>
     dev_view d' = (dev_view d)\<lparr>rv_len := trunc32 (dma_len m), rv_npages := nmapped m,
       rv_handles := blit (rv_handles (dev_view d)) 0 (map trunc32 (take (unat (nmapped m)) (sgl m)))\<rparr>"
  by (rule dev.maps_written [OF assms])

theorem registers_programmed_witness:
  "\<exists>d'. psipe_dma_write_maps (dev_bus 0 ref_host) (ref_dev DMA_MODE_ACTIVE [])
       (ref_dma\<lparr>nmapped := 2, sgl := [0x7000, 0x9000]\<rparr>) = Inr d' \<and>
     rv_npages (dev_view d') = 2 \<and> rv_handles (dev_view d') 1 = 0x9000"
  using registers_programmed [OF dev_kept_refl [OF ref_ready [of DMA_MODE_ACTIVE "[]"]],
      of "ref_dma\<lparr>nmapped := 2, sgl := [0x7000, 0x9000]\<rparr>" 0 ref_host]
  by (auto simp: handle_window_def blit_def)

lemma pages_touched:
  assumes n: "0 < n"
  shows "(\<lambda>a. a div 4096) ` {a..<a + n} = {a div 4096..(a + n - 1) div (4096 :: nat)}"
proof (intro equalityI subsetI)
  fix q assume q: "q \<in> {a div 4096..(a + n - 1) div 4096}"
  show "q \<in> (\<lambda>a. a div 4096) ` {a..<a + n}"
  proof (cases "q = a div 4096")
    case True
    then show ?thesis using n by (intro image_eqI [of _ _ a]) simp_all
  next
    case False
    with q have "a div 4096 < q" "q \<le> (a + n - 1) div 4096" by simp_all
    then have "a \<le> q * 4096" "q * 4096 < a + n"
      using n by (simp_all add: div_less_iff_less_mult less_eq_div_iff_mult_less_eq)
    then show ?thesis by (intro image_eqI [of _ _ "q * 4096"]) simp_all
  qed
qed (use n in \<open>auto intro!: div_le_mono\<close>)

text \<open>
  The number of pages \<^verbatim>\<open>psipe_dma_pin_pages\<close> computes is the number of pages the buffer
  touches, although the page numbers themselves do not fit the \<^verbatim>\<open>int\<close>s they are kept in.
\<close>

theorem page_count_exact:
  assumes "0 < unat len" "unat addr + unat len \<le> 2 ^ 64"
    "Suc ((unat addr + unat len - 1) div 4096 - unat addr div 4096) < 2 ^ 31"
  shows "page_count addr len =
     int (card ((\<lambda>a. a div 4096) ` {unat addr..<unat addr + unat len}))"
proof -
  have "unat addr div 4096 \<le> (unat addr + unat len - 1) div 4096"
    using assms(1) by (intro div_le_mono) linarith
  then show ?thesis
    by (simp only: page_count_eq [OF assms] pages_touched [OF assms(1)] card_atLeastAtMost
        Suc_diff_le)
qed

theorem page_count_exact_witness: "page_count 0x7FFF00001FF8 16 = 2"
  using page_count_exact [of 16 "0x7FFF00001FF8"] pages_touched [of 16 "0x7FFF00001FF8"] by simp

text \<open>
  C33. A pin that fails gives back all it took: pinned pages, the page array and the scatter table.
  One that succeeds holds one of each and at least one page, and no more than the device's handles.
\<close>

theorem pin_pages_balance:
  assumes "psipe_dma_pin_pages L tr m = (rv, tr', m')"
  shows "(rv < 0 \<longrightarrow> pinned_pages tr' = pinned_pages tr \<and> page_arrays tr' = page_arrays tr \<and>
      sg_tables tr' = sg_tables tr) \<and>
    (0 \<le> rv \<longrightarrow> pinned_pages tr' = pinned_pages tr + int (unat (dma_npages m')) \<and>
      page_arrays tr' = page_arrays tr + 1 \<and> sg_tables tr' = sg_tables tr + 1 \<and>
      0 < dma_npages m' \<and> unat (dma_npages m') \<le> PSIPE_HW_BAR0_DMA_HANDLES_CNT)"
  using pin_pages_resources [OF assms] by blast

theorem pin_pages_balance_witness:
  "pinned_pages (snd (snd (0 :: int, 0 :: int, [] @ [Kmalloc_array 2,
     Pin_user_pages 0x7FFF00001FF8 2 2, Sg_alloc_table]))) = 2 \<and> unat (dma_npages ref_dma) = 2"
  using pin_pages_balance [OF ref_pin [of "[]"]] by (simp add: ref_dma_def)

text \<open>
  The life of an operation that completes: after \<^verbatim>\<open>psipe_ops_fini\<close> its pages and page array
  have been given back, but not its scatter table, which nothing else frees.
\<close>

theorem completed_op_leaks_table:
  assumes "psipe_dma_pin_pages L tr m = (rv, tr', m')" "0 \<le> rv" "dma_npages (op_dma op) = dma_npages m'"
  shows "pinned_pages (trace (psipe_ops_fini (s\<lparr>trace := tr'\<rparr>) op)) = pinned_pages tr \<and>
     page_arrays (trace (psipe_ops_fini (s\<lparr>trace := tr'\<rparr>) op)) = page_arrays tr \<and>
     sg_tables (trace (psipe_ops_fini (s\<lparr>trace := tr'\<rparr>) op)) = sg_tables tr + 1"
  using pin_pages_resources(2) [OF assms(1,2)] assms(3)
  by (simp add: psipe_ops_fini_def psipe_dma_unpin_pages_def psipe_dma_unmap_pages_def)

theorem completed_op_leaks_table_witness:
  "sg_tables (trace (psipe_ops_fini (ref_s1\<lparr>trace := [] @ [Kmalloc_array 2,
     Pin_user_pages 0x7FFF00001FF8 2 2, Sg_alloc_table]\<rparr>) (ref_running 0))) = 1"
  using completed_op_leaks_table [OF ref_pin [of "[]"], of "ref_running 0" ref_s1]
  by (simp add: ref_mapped_def send_dma_def)

section \<open>Probe and remove\<close>

text \<open>
  C34. Whenever probe returns an error it has given back all it took, each thing once and none it
  had not taken, except that bus mastering stays on after a failure to set the DMA mask; when it
  returns success on a device with a memory BAR 0, it holds every resource.
\<close>

theorem probe_all_or_nothing:
  assumes "psipe_probe P = (rv, calls)"
  shows "(rv \<noteq> 0 \<longrightarrow> held {} calls =
       Some (if pe_kmalloc P \<and> pe_enable P = 0 \<and> pe_set_mask P \<noteq> 0 then {Bus_master} else {})) \<and>
     (rv = 0 \<and> pe_mem_bars P AND 1 \<noteq> 0 \<longrightarrow>
       held {} calls = Some {Dev_struct, Pci_enabled, Bus_master, Mem_regions, Bar_mapping,
         Chrdev_region, Cdev, Class_device, Irq_vectors, Irq_line})"
  using assms unfolding psipe_probe_def psipe_dev_init_def psipe_irq_enable_def
    psipe_irq_enable_vectors_def Let_def
  by (auto simp: unwind_defs errno_defs insert_commute split: if_splits)

text \<open>An environment in which every call of probe succeeds.\<close>

definition ref_probe :: probe_env where
  "ref_probe = \<lparr>pe_kmalloc = True, pe_enable = 0, pe_set_mask = 0, pe_mem_bars = 1,
     pe_request_regions = 0, pe_iomap = True, pe_alloc_chrdev = 0, pe_cdev_add = 0,
     pe_device_create = 0, pe_msi_enabled = True, pe_vec_count = 1, pe_online_cpus = 4,
     pe_alloc_vectors = 1, pe_irq_vector = 40, pe_request_irq = 0\<rparr>"

theorem probe_all_or_nothing_witness:
  "held {} (snd (psipe_probe (ref_probe\<lparr>pe_request_irq := - 16\<rparr>))) = Some {} \<and>
   fst (psipe_probe (ref_probe\<lparr>pe_request_irq := - 16\<rparr>)) = - 16"
proof -
  have "fst (psipe_probe (ref_probe\<lparr>pe_request_irq := - 16\<rparr>)) = - 16"
    by (simp add: psipe_probe_def psipe_dev_init_def psipe_irq_enable_def
        psipe_irq_enable_vectors_def ref_probe_def Let_def)
  then show ?thesis
    using probe_all_or_nothing [of "ref_probe\<lparr>pe_request_irq := - 16\<rparr>", OF prod.collapse [symmetric]]
    by (simp add: ref_probe_def)
qed

text \<open>
  On a device without a memory BAR 0, probe fails and gives everything back, but returns 0:
  the driver core takes the device, which has been freed, for bound.
\<close>

theorem probe_without_bar0:
  assumes "pe_kmalloc P" "pe_enable P = 0" "pe_set_mask P = 0" "pe_mem_bars P AND 1 = 0"
  shows "\<exists>calls. psipe_probe P = (0, calls) \<and> held {} calls = Some {}"
  using assms by (simp add: psipe_probe_def unwind_defs Let_def)

theorem probe_without_bar0_witness:
  "\<exists>calls. psipe_probe (ref_probe\<lparr>pe_mem_bars := 2\<rparr>) = (0, calls) \<and> held {} calls = Some {}"
  by (rule probe_without_bar0) (simp_all add: ref_probe_def)

text \<open>
  Removing a probed device gives back everything but the interrupt vectors.
\<close>

theorem remove_leaks_vectors:
  assumes "psipe_probe P = (0, calls)" "pe_mem_bars P AND 1 \<noteq> 0"
  shows "held {} (calls @ psipe_remove) = Some {Irq_vectors}"
  using assms unfolding psipe_probe_def psipe_dev_init_def psipe_irq_enable_def
    psipe_irq_enable_vectors_def Let_def
  by (auto simp: unwind_defs errno_defs psipe_remove_def split: if_splits)

theorem remove_leaks_vectors_witness:
  "held {} (snd (psipe_probe ref_probe) @ psipe_remove) = Some {Irq_vectors}"
proof -
  have "psipe_probe ref_probe = (0, snd (psipe_probe ref_probe))"
    by (simp add: psipe_probe_def psipe_dev_init_def psipe_irq_enable_def
        psipe_irq_enable_vectors_def ref_probe_def Let_def)
  then show ?thesis by (rule remove_leaks_vectors) (simp add: ref_probe_def)
qed

section \<open>Errors\<close>

text \<open>
  C39. A send the peer has no room for is refused with \<^verbatim>\<open>EMSGSIZE\<close>: the peer has been asked, but
  no byte of the buffer goes out, nothing is mapped or unpinned, no interrupt is raised.
\<close>

theorem size_check_refuses:
  assumes "host_contract H v" "dev_ready d" "connected d"
    "inb v (env d) = enc_req PSIPE_REQ_RLN @ enc_len l @ rest" "trunc32 l < dma_len m" "0 < fuel"
  shows "\<exists>t. psipe_ioctl_send L (dev_bus fuel H) d tr m = Inr (- EMSGSIZE, t, tr, send_dma m) \<and>
     dev_ready t \<and> irq t = irq d \<and> inb v (env t) = rest \<and> ram v (env t) = ram v (env d) \<and>
     outb v (env t) = outb v (env d) @ enc_req PSIPE_REQ_SLN"
  by (rule send_refused [OF assms]) blast

theorem size_check_refuses_witness:
  "\<exists>t. psipe_ioctl_send ref_linux (dev_bus 1 ref_host)
       (ref_dev DMA_MODE_PASSIVE (enc_req PSIPE_REQ_RLN @ enc_len 15)) [] ref_dma =
     Inr (- EMSGSIZE, t, [], send_dma ref_dma)"
proof -
  have "inb ref_view (env (ref_dev DMA_MODE_PASSIVE (enc_req PSIPE_REQ_RLN @ enc_len 15))) =
      enc_req PSIPE_REQ_RLN @ enc_len 15 @ []" by simp
  from size_check_refuses [OF ref_host_contract ref_ready ref_connected this, of ref_dma 1
      ref_linux "[]"]
  show ?thesis by (auto simp: ref_dma_def)
qed

text \<open>
  The errors of the dispatcher leave the module as it was: an unknown command, waiting for an
  id that was never given out, a failed allocation.
\<close>

theorem ioctl_errors:
  "(cmd \<notin> {PSIPE_IOCTL_SEND, PSIPE_IOCTL_RECV, PSIPE_IOCTL_WAIT, PSIPE_IOCTL_FLUSH} \<longrightarrow>
      psipe_ioctl L B s cmd arg = Inr (- ENOTTY, s)) \<and>
   (next_id s \<le> arg \<longrightarrow> psipe_ioctl L B s PSIPE_IOCTL_WAIT arg = Inr (- EINVAL, s)) \<and>
   (kmalloc_op L (trace s) = None \<longrightarrow>
      psipe_ioctl L B s PSIPE_IOCTL_SEND arg = Inr (- EINVAL, s))"
  by (simp add: psipe_ioctl_def psipe_ops_get_def psipe_ops_wait_def psipe_ops_new_def
      psipe_ops_init_def EINVAL_def u64_of_int_def)

theorem ioctl_errors_witness:
  "psipe_ioctl ref_linux ref_bus ref_s2 0 5 = Inr (- 25, ref_s2) \<and>
   psipe_ioctl ref_linux ref_bus ref_s2 PSIPE_IOCTL_WAIT 5 = Inr (- 22, ref_s2) \<and>
   psipe_ioctl (ref_linux\<lparr>kmalloc_op := (\<lambda>_. None)\<rparr>) ref_bus ref_s2 PSIPE_IOCTL_SEND 5 =
     Inr (- 22, ref_s2)"
  using ioctl_errors [of 0 ref_linux ref_bus ref_s2 5]
    ioctl_errors [of 0 "ref_linux\<lparr>kmalloc_op := (\<lambda>_. None)\<rparr>" ref_bus ref_s2 5]
  by (simp add: errno_defs ioctl_defs)

text \<open>
  When the operation started at once fails, the caller gets the error and no handle, but the
  operation stays at the head of the queue; no interrupt will come for it, and no later submission
  reaches the device.
\<close>

theorem failed_start_blocks_queue:
  assumes "psipe_ops_init L B s (Some op) = Inr (i, t)" "active s = []"
    "psipe_dma_pin_pages L (trace s) (op_dma op) = (rv, tr, m)" "0 \<le> rv"
  shows "map op_id (active t) = [next_id s] \<and>
     (\<forall>op' i' t'. psipe_ops_init L B t (Some op') = Inr (i', t') \<longrightarrow> hw t' = hw t)"
proof -
  have a: "map op_id (active t) = [next_id s]"
    using assms by (auto simp: psipe_ops_init_def ops_enqueue_def Let_def split: if_splits
        dest!: start_ids)
  then have "active t \<noteq> []" by auto
  then have "hw t' = hw t" if "psipe_ops_init L B t (Some op') = Inr (i', t')" for op' i' t'
    using that by (auto simp: psipe_ops_init_def ops_enqueue_def Let_def split: prod.splits if_splits)
  with a show ?thesis by blast
qed

theorem failed_start_blocks_queue_witness:
  "\<exists>t. psipe_ops_init ref_linux (ref_bus\<lparr>ioread32 := (\<lambda>d _. Inr (0, d))\<rparr>) (kinit 0)
       (Some (ref_queued 0)) = Inr (u64_of_int (- EMSGSIZE), t) \<and> map op_id (active t) = [0]"
proof -
  let ?B = "ref_bus\<lparr>ioread32 := (\<lambda>d _. Inr (0, d))\<rparr>"
  have "psipe_ioctl_send ref_linux ?B d tr ref_dma = Inr (- EMSGSIZE, d + 1, tr, send_dma ref_dma)"
    for d tr
    by (simp add: psipe_ioctl_send_def psipe_dma_write_setup_def psipe_check_size_avail_def
        ref_bus_def send_dma_def ref_dma_def)
  then have "\<exists>t. psipe_ops_init ref_linux ?B (kinit 0) (Some (ref_queued 0)) =
      Inr (u64_of_int (- EMSGSIZE), t)"
    by (simp add: psipe_ops_init_def ref_pin kinit_def ops_enqueue_def start_op_def Let_def
        EMSGSIZE_def)
  then obtain t where t: "psipe_ops_init ref_linux ?B (kinit 0) (Some (ref_queued 0)) =
      Inr (u64_of_int (- EMSGSIZE), t)" by blast
  have "psipe_dma_pin_pages ref_linux (trace (kinit (0 :: nat))) (op_dma (ref_queued 0)) = (0, [] @
      [Kmalloc_array 2, Pin_user_pages 0x7FFF00001FF8 2 2, Sg_alloc_table], ref_dma)"
    using ref_pin [of "[]"] by (simp add: kinit_def)
  from failed_start_blocks_queue [OF t _ this] t show ?thesis by (auto simp: kinit_def)
qed

text \<open>
  The result of an operation that is started at once is never stored: its \<^verbatim>\<open>retval\<close>, which
  \<^verbatim>\<open>psipe_ops_wait\<close> returns later, is what \<^verbatim>\<open>kmalloc\<close> left in the memory of the structure.
\<close>

theorem first_retval_uninitialised:
  assumes "psipe_ioctl L B s cmd arg = Inr (rv, t)" "cmd = PSIPE_IOCTL_SEND \<or> cmd = PSIPE_IOCTL_RECV"
    "kmalloc_op L (trace s) = Some raw" "active s = []" "op \<in> set (active t)"
  shows "retval op = retval raw"
proof -
  obtain op' tr where n: "psipe_ops_new L (trace s) cmd arg = (op', tr)"
    by (cases "psipe_ops_new L (trace s) cmd arg") auto
  obtain i where i: "psipe_ops_init L B (s\<lparr>trace := tr\<rparr>) op' = Inr (i, t)"
    using assms(1,2) n by (auto simp: psipe_ioctl_def)
  have "retval o' = retval raw" if "op' = Some o'" for o'
    using n assms(3) that
    by (auto simp: psipe_ops_new_def Let_def split: prod.splits if_splits)
  then show ?thesis
    using i assms(4,5)
    by (auto simp: psipe_ops_init_def ops_enqueue_def start_op_def update_op_def map_op_def Let_def
        split: option.splits prod.splits if_splits)
qed

theorem first_retval_uninitialised_witness:
  "retval (ref_running 0) = 42 \<and> ref_running 0 \<in> set (active ref_s1)"
proof -
  have m: "ref_running 0 \<in> set (active ref_s1)" by (simp add: ref_s1_def)
  have k: "kmalloc_op ref_linux (trace (kinit (0 :: nat))) = Some ref_op" by (simp add: ref_linux_def)
  have "retval (ref_running 0) = retval ref_op"
    by (rule first_retval_uninitialised [OF ref_send1 _ k _ m]) (simp_all add: kinit_def)
  with m show ?thesis by (simp add: ref_op_def)
qed

text \<open>
  C40. A flush keeps exactly the operations somebody waits for, in their order, and does not touch
  the device: an operation the device is executing is freed when nobody waits for it, and the
  interrupt that ends it completes another.
\<close>

theorem flush_keeps_waited:
  assumes "kreach L B d s" "psipe_ops_flush s = (rv, t)"
  shows "rv = 0 \<and> hw t = hw s \<and> next_id t = next_id s \<and>
     active t = filter (\<lambda>op. nwaiting op \<noteq> 0) (active s) \<and>
     inactive t = filter (\<lambda>op. nwaiting op \<noteq> 0) (inactive s) \<and>
     (\<forall>u. psipe_ops_next L B t = Inr u \<longrightarrow> completed (trace u) = completed (trace s) @
        take 1 (map op_id (filter (\<lambda>op. nwaiting op \<noteq> 0) (active s))))"
proof -
  obtain tr where tr: "completed tr = completed (trace s)" "rv = 0"
    "t = s\<lparr>trace := tr, active := filter (\<lambda>op. nwaiting op \<noteq> 0) (active s),
           inactive := filter (\<lambda>op. nwaiting op \<noteq> 0) (inactive s)\<rparr>"
    by (rule flush_spec [OF assms(2)])
  have "kinv t" by (rule kinv_flush [OF kreach_kinv [OF assms(1)] assms(2)])
  from next_ids [OF this] show ?thesis using tr by simp
qed

theorem flush_keeps_waited_witness:
  "active (snd (psipe_ops_flush ref_s2)) = [] \<and> hw (snd (psipe_ops_flush ref_s2)) = 6"
proof -
  have "nwaiting (ref_running 0) = 0" "nwaiting (ref_queued 1) = 0" "hw ref_s2 = 6"
    by (simp_all add: ref_running_def ref_queued_def ref_s2_def)
  then show ?thesis
    using flush_keeps_waited [OF ref_reach, of "fst (psipe_ops_flush ref_s2)"
        "snd (psipe_ops_flush ref_s2)"] by simp
qed

end
