(* ===== verification/Wrappers.thy ===== *)
theory Wrappers
  imports Wire Host Linux "HOL-Library.Signed_Division"
begin

text \<open>
  The user side of the ioctls (src/src/sw/userspace/psipe\_wrappers.c). A process is its memory and
  the rest of the system; the system calls are parameters. \<open>link_contract\<close> states what the
  programs rely on: operations on one descriptor complete in the order they were posted, a wait
  returns when its operation is complete, and until then a buffer to receive into may change.
\<close>

section \<open>Processes and system calls\<close>

record 'w proc =
  pmem :: "u64 \<Rightarrow> u8"
  pos :: 'w

abbreviation peek :: "'w proc \<Rightarrow> u64 \<Rightarrow> nat \<Rightarrow> u8 list" where
  "peek p a n \<equiv> ram_bytes (pmem p) a n"

definition poke :: "u64 \<Rightarrow> u8 list \<Rightarrow> 'w proc \<Rightarrow> 'w proc" where
  "poke a bs p = p\<lparr>pmem := ram_store (pmem p) a bs\<rparr>"

text \<open>
  The argument of an ioctl; an entry of a directory (is it a character device, its name). \<open>params_at\<close>
  is where the array \<^verbatim>\<open>params\<close> of the argument functions lies on the stack, \<open>garbage\<close> what
  uninitialised memory holds.
\<close>

datatype ioctl_arg = No_Arg | Handle u64 | Data psipe_data

type_synonym dirent = "bool \<times> string"

record 'w sys =
  sys_ioctl :: "int \<Rightarrow> u32 \<Rightarrow> ioctl_arg \<Rightarrow> 'w proc \<Rightarrow> int \<times> 'w proc"
  sys_opendir :: "string \<Rightarrow> 'w proc \<Rightarrow> dirent list option \<times> 'w proc"
  sys_malloc :: "u64 \<Rightarrow> 'w proc \<Rightarrow> bool \<times> 'w proc"
  sys_memalign :: "u64 \<Rightarrow> u64 \<Rightarrow> 'w proc \<Rightarrow> int \<times> u64 \<times> 'w proc"
  sys_open :: "string \<Rightarrow> 'w proc \<Rightarrow> int \<times> 'w proc"
  sys_close :: "int \<Rightarrow> 'w proc \<Rightarrow> 'w proc"
  params_at :: u64
  garbage :: int

section \<open>The devices\<close>

record psipe_devices =
  devs_num :: int
  devs_fds :: "int list"

definition psipe_fd :: "psipe_devices \<Rightarrow> int \<Rightarrow> int res" where
  "psipe_fd devs i = (if devs_num devs \<le> i \<or> i < 0 then Inr (- 1) else load (devs_fds devs) i)"

definition psipe_num_devs :: "psipe_devices \<Rightarrow> int" where
  "psipe_num_devs devs = devs_num devs"

definition psipe_count_devs :: "'w sys \<Rightarrow> 'w proc \<Rightarrow> (int \<times> 'w proc) res" where
  "psipe_count_devs S p =
     (case sys_opendir S ''/dev/psipe'' p of
        (None, p) \<Rightarrow> Inl Null_Pointer
      | (Some entries, p) \<Rightarrow> Inr (int (length (filter fst entries)), p))"

text \<open>One turn of the loop that opens the devices; \<open>ok\<close> is whether the array was allocated.\<close>

definition open_dev ::
    "'w sys \<Rightarrow> bool \<Rightarrow> string \<Rightarrow> int \<times> int list \<times> 'w proc \<Rightarrow> (int \<times> int list \<times> 'w proc) res" where
  "open_dev S ok name = (\<lambda>(i, fds, p).
     case sys_open S (''/dev/psipe/'' @ name) p of (fd, p) \<Rightarrow>
       if \<not> ok then Inl Null_Pointer
       else bindR (store fds i fd) (\<lambda>fds. Inr (i + 1, fds, p)))"

text \<open>\<^verbatim>\<open>psipe_devs\<close>, the program's global pointer, is the second component of the result.\<close>

definition psipe_open_devs ::
    "'w sys \<Rightarrow> 'w proc \<Rightarrow> (int \<times> psipe_devices option \<times> 'w proc) res" where
  "psipe_open_devs S p =
     (case sys_opendir S ''/dev/psipe'' p of
        (None, p) \<Rightarrow> Inr (- 1, None, p)
      | (Some entries, p) \<Rightarrow>
          bindR (psipe_count_devs S p) (\<lambda>(num, p).
            if num = 0 then Inr (- 1, None, p)
            else
              case sys_malloc S 16 p of (ok1, p) \<Rightarrow>
              if \<not> ok1 then Inl Null_Pointer
              else
                case sys_malloc S (of_int num * 4) p of (ok2, p) \<Rightarrow>
                bindR (foldR (open_dev S ok2) (map snd (filter fst entries))
                  (0, replicate (nat num) (garbage S), p)) (\<lambda>(_, fds, p).
                Inr (0, Some \<lparr>devs_num = num, devs_fds = fds\<rparr>, p))))"

definition psipe_close_devs :: "'w sys \<Rightarrow> psipe_devices \<Rightarrow> 'w proc \<Rightarrow> 'w proc res" where
  "psipe_close_devs S devs p =
     foldR (\<lambda>i p. bindR (load (devs_fds devs) i) (\<lambda>fd. Inr (sys_close S fd p)))
       [0..devs_num devs - 1] p"

section \<open>The ioctls\<close>

definition psipe_send :: "'w sys \<Rightarrow> int \<Rightarrow> u64 \<Rightarrow> u64 \<Rightarrow> 'w proc \<Rightarrow> int \<times> 'w proc" where
  "psipe_send S fd addr len =
     sys_ioctl S fd PSIPE_IOCTL_SEND (Data \<lparr>data_addr = addr, data_len = len\<rparr>)"

definition psipe_recv :: "'w sys \<Rightarrow> int \<Rightarrow> u64 \<Rightarrow> u64 \<Rightarrow> 'w proc \<Rightarrow> int \<times> 'w proc" where
  "psipe_recv S fd addr len =
     sys_ioctl S fd PSIPE_IOCTL_RECV (Data \<lparr>data_addr = addr, data_len = len\<rparr>)"

definition psipe_wait :: "'w sys \<Rightarrow> int \<Rightarrow> u64 \<Rightarrow> 'w proc \<Rightarrow> int \<times> 'w proc" where
  "psipe_wait S fd i = sys_ioctl S fd PSIPE_IOCTL_WAIT (Handle i)"

definition psipe_flush :: "'w sys \<Rightarrow> int \<Rightarrow> 'w proc \<Rightarrow> int \<times> 'w proc" where
  "psipe_flush S fd = sys_ioctl S fd PSIPE_IOCTL_FLUSH No_Arg"

text \<open>
  The argument message: an array of five \<^verbatim>\<open>int\<close>s. \<open>psipe_recv_args\<close> reads it as soon as the
  ioctl has returned; the caller waits for the operation only afterwards.
\<close>

definition args_bytes :: "int \<Rightarrow> int \<Rightarrow> int \<Rightarrow> int \<Rightarrow> int \<Rightarrow> u8 list" where
  "args_bytes sz_n sz_t sz_m len ofs = concat (map enc_int [sz_n, sz_t, sz_m, len, ofs])"

definition psipe_send_args ::
    "'w sys \<Rightarrow> int \<Rightarrow> int \<Rightarrow> int \<Rightarrow> int \<Rightarrow> int \<Rightarrow> int \<Rightarrow> 'w proc \<Rightarrow> int \<times> 'w proc" where
  "psipe_send_args S fd sz_n sz_t sz_m len ofs p =
     psipe_send S fd (params_at S) 20
       (poke (params_at S) (args_bytes sz_n sz_t sz_m len ofs) p)"

definition psipe_recv_args ::
    "'w sys \<Rightarrow> int \<Rightarrow> 'w proc \<Rightarrow> int \<times> (int \<times> int \<times> int \<times> int \<times> int) \<times> 'w proc" where
  "psipe_recv_args S fd p =
     (case psipe_recv S fd (params_at S) 20 p of (rv, p) \<Rightarrow>
        let param = (\<lambda>i. dec_int (peek p (params_at S + of_nat (4 * i)) 4))
        in (rv, (param 0, param 1, param 2, param 3, param 4), p))"

section \<open>The partition\<close>

definition PART_FOR_DEV :: "int \<Rightarrow> int \<Rightarrow> int \<Rightarrow> int" where
  "PART_FOR_DEV d n t = n sdiv t + of_bool (d < n smod t)"

end
