(* ===== verification/Link.thy ===== *)
theory Link
  imports Wrappers
begin

text \<open>
  What the user programs rely on when they use the devices: the contract of the ioctls as a program
  sees it, stated on an abstract view of the system. It is the promise of the kernel module and the
  devices (operations complete in the order they were posted, a wait returns after completion, an
  operation on an idle queue is started by the ioctl itself) together with a peer that takes part
  in every transfer with a buffer of the same, non-zero length. Theory \<^verbatim>\<open>Stack_Laws\<close> proves it of them.
\<close>

section \<open>The view\<close>

text \<open>
  An operation posted and not yet waited for: its handle, and the buffer with the bytes it takes
  from there or will put there. A send on an idle descriptor is over when it is posted.
\<close>

datatype post = P_Sent u64 | P_Send u64 u64 "u8 list" | P_Recv u64 u64 "u8 list"

fun post_id :: "post \<Rightarrow> u64" where
  "post_id (P_Sent i) = i"
| "post_id (P_Send i a bs) = i"
| "post_id (P_Recv i a bs) = i"

fun is_recv :: "post \<Rightarrow> bool" where
  "is_recv (P_Recv i a bs) = True"
| "is_recv _ = False"

text \<open>The transfers of a descriptor in the order in which they were posted, with their bytes.\<close>

datatype transfer = T_Out "u8 list" | T_In "u8 list"

fun outs :: "transfer list \<Rightarrow> u8 list list" where
  "outs [] = []"
| "outs (T_Out bs # ts) = bs # outs ts"
| "outs (T_In bs # ts) = outs ts"

fun ins :: "transfer list \<Rightarrow> u8 list list" where
  "ins [] = []"
| "ins (T_Out bs # ts) = ins ts"
| "ins (T_In bs # ts) = bs # ins ts"

text \<open>
  Per descriptor: the transfers and the operations posted. \<open>peer fd msgs k\<close> is what the program
  behind \<open>fd\<close> sends for the \<open>k\<close>th receive when it has been sent \<open>msgs\<close>. \<open>takes a n\<close>: the devices can
  take the \<open>n\<close> bytes at \<open>a\<close> as a buffer. \<open>heap\<close> is the memory in use and \<open>room\<close> what can still be
  allocated; \<open>sane\<close> is an invariant of the process and the system.
\<close>

record 'w link_view =
  open_fds :: "int set"
  log :: "'w \<Rightarrow> int \<Rightarrow> transfer list"
  posted :: "'w \<Rightarrow> int \<Rightarrow> post list"
  peer :: "int \<Rightarrow> u8 list list \<Rightarrow> nat \<Rightarrow> u8 list"
  takes :: "u64 \<Rightarrow> nat \<Rightarrow> bool"
  heap :: "'w \<Rightarrow> u64 set"
  room :: "'w \<Rightarrow> nat"
  sane :: "'w proc \<Rightarrow> bool"

text \<open>The messages sent and the number of receives posted.\<close>

definition sent :: "'w link_view \<Rightarrow> 'w \<Rightarrow> int \<Rightarrow> u8 list list" where
  "sent V w fd = outs (log V w fd)"

definition recvs :: "'w link_view \<Rightarrow> 'w \<Rightarrow> int \<Rightarrow> nat" where
  "recvs V w fd = length (ins (log V w fd))"

definition span :: "u64 \<Rightarrow> nat \<Rightarrow> u64 set" where
  "span a n = {x. unat (x - a) < n}"

text \<open>The memory posted operations may write, and the memory they read or write.\<close>

definition inflight :: "'w link_view \<Rightarrow> 'w \<Rightarrow> u64 set" where
  "inflight V w = {x. \<exists>fd i a bs. P_Recv i a bs \<in> set (posted V w fd) \<and> x \<in> span a (length bs)}"

definition pending_sends :: "'w link_view \<Rightarrow> 'w \<Rightarrow> int set \<Rightarrow> u64 set" where
  "pending_sends V w F =
     {x. \<exists>fd \<in> F. \<exists>i a bs. P_Send i a bs \<in> set (posted V w fd) \<and> x \<in> span a (length bs)}"

definition busy :: "'w link_view \<Rightarrow> 'w \<Rightarrow> u64 set" where
  "busy V w = inflight V w \<union> pending_sends V w UNIV"

definition same_outside :: "u64 set \<Rightarrow> (u64 \<Rightarrow> u8) \<Rightarrow> (u64 \<Rightarrow> u8) \<Rightarrow> bool" where
  "same_outside X m m' \<longleftrightarrow> (\<forall>x. x \<notin> X \<longrightarrow> m' x = m x)"

text \<open>A handle the ioctl gives out: not negative as an \<^verbatim>\<open>int\<close>, and of no pending operation.\<close>

definition fresh_handle :: "'w link_view \<Rightarrow> 'w \<Rightarrow> int \<Rightarrow> int \<Rightarrow> bool" where
  "fresh_handle V w fd r \<longleftrightarrow> 0 \<le> r \<and> r < 2 ^ 31 \<and> u64_of_int r \<notin> post_id ` set (posted V w fd)"

text \<open>
  \<open>posts V fd p ts ops X p'\<close>: between \<open>p\<close> and \<open>p'\<close> the program has posted \<open>ops\<close> on \<open>fd\<close>, for the
  transfers \<open>ts\<close>; memory may have changed in \<open>X\<close> only.
\<close>

definition posts ::
    "'w link_view \<Rightarrow> int \<Rightarrow> 'w proc \<Rightarrow> transfer list \<Rightarrow> post list \<Rightarrow> u64 set \<Rightarrow> 'w proc \<Rightarrow> bool" where
  "posts V fd p ts ops X p' \<longleftrightarrow>
     sane V p' \<and>
     log V (pos p') = (log V (pos p))(fd := log V (pos p) fd @ ts) \<and>
     posted V (pos p') = (posted V (pos p))(fd := posted V (pos p) fd @ ops) \<and>
     heap V (pos p') = heap V (pos p) \<and> room V (pos p') = room V (pos p) \<and>
     same_outside X (pmem p) (pmem p')"

section \<open>The laws\<close>

text \<open>
  A send takes the contents its buffer has when it is posted: at once when nothing is pending, else
  because the buffer is busy from then on. Handles stay positive for \<open>2 ^ 31\<close> operations.
\<close>

definition send_op :: "'w link_view \<Rightarrow> 'w \<Rightarrow> int \<Rightarrow> u64 \<Rightarrow> u64 \<Rightarrow> u8 list \<Rightarrow> post" where
  "send_op V w fd h a bs = (if posted V w fd = [] then P_Sent h else P_Send h a bs)"

definition send_law :: "'w sys \<Rightarrow> 'w link_view \<Rightarrow> bool" where
  "send_law S V \<longleftrightarrow> (\<forall>p fd a l. fd \<in> open_fds V \<and> sane V p \<and> 0 < l \<and> takes V a (unat l) \<and>
     length (log V (pos p) fd) < 2 ^ 31 \<and> span a (unat l) \<inter> inflight V (pos p) = {} \<longrightarrow>
     (\<exists>r p'. psipe_send S fd a l p = (r, p') \<and> fresh_handle V (pos p) fd r \<and>
        posts V fd p [T_Out (peek p a (unat l))]
          [send_op V (pos p) fd (u64_of_int r) a (peek p a (unat l))] (inflight V (pos p)) p'))"

text \<open>
  A receive gets the peer's message, of the same length, into a buffer no other device is to send. It
  is there when the ioctl returns if nothing was pending.
\<close>

definition recv_law :: "'w sys \<Rightarrow> 'w link_view \<Rightarrow> bool" where
  "recv_law S V \<longleftrightarrow> (\<forall>p fd a l bs. fd \<in> open_fds V \<and> sane V p \<and> 0 < l \<and> takes V a (unat l) \<and>
     length (log V (pos p) fd) < 2 ^ 31 \<and> span a (unat l) \<inter> inflight V (pos p) = {} \<and>
     span a (unat l) \<inter> pending_sends V (pos p) (- {fd}) = {} \<and>
     bs = peer V fd (sent V (pos p) fd) (recvs V (pos p) fd) \<and> length bs = unat l \<longrightarrow>
     (\<exists>r p'. psipe_recv S fd a l p = (r, p') \<and> fresh_handle V (pos p) fd r \<and>
        posts V fd p [T_In bs] [P_Recv (u64_of_int r) a bs] (inflight V (pos p')) p' \<and>
        (posted V (pos p) fd = [] \<longrightarrow> peek p' a (length bs) = bs)))"

text \<open>A wait returns when the operation, and with it those posted before it, are complete.\<close>

definition waited ::
    "'w link_view \<Rightarrow> int \<Rightarrow> 'w proc \<Rightarrow> post list \<Rightarrow> post list \<Rightarrow> 'w proc \<Rightarrow> bool" where
  "waited V fd p done rest p' \<longleftrightarrow>
     sane V p' \<and> log V (pos p') = log V (pos p) \<and>
     posted V (pos p') = (posted V (pos p))(fd := rest) \<and>
     heap V (pos p') = heap V (pos p) \<and> room V (pos p') = room V (pos p) \<and>
     same_outside (inflight V (pos p)) (pmem p) (pmem p') \<and>
     (\<forall>i a bs. P_Recv i a bs \<in> set done \<longrightarrow> peek p' a (length bs) = bs)"

definition wait_law :: "'w sys \<Rightarrow> 'w link_view \<Rightarrow> bool" where
  "wait_law S V \<longleftrightarrow> (\<forall>p fd pre q rest. fd \<in> open_fds V \<and> sane V p \<and>
     posted V (pos p) fd = pre @ q # rest \<and> post_id q \<notin> post_id ` set pre \<longrightarrow>
     (\<exists>r p'. psipe_wait S fd (post_id q) p = (r, p') \<and> 0 \<le> r \<and> waited V fd p (pre @ [q]) rest p'))"

text \<open>
  Flushing a descriptor with nothing pending, and closing one, change nothing. An allocation with
  enough room succeeds with memory nobody uses, every part of which the devices can take.
\<close>

definition quiet :: "'w link_view \<Rightarrow> 'w proc \<Rightarrow> 'w proc \<Rightarrow> bool" where
  "quiet V p p' \<longleftrightarrow>
     sane V p' \<and> log V (pos p') = log V (pos p) \<and> posted V (pos p') = posted V (pos p) \<and>
     same_outside (inflight V (pos p)) (pmem p) (pmem p')"

definition quiet_law :: "'w sys \<Rightarrow> 'w link_view \<Rightarrow> bool" where
  "quiet_law S V \<longleftrightarrow> (\<forall>p fd. fd \<in> open_fds V \<and> sane V p \<longrightarrow>
     (posted V (pos p) fd = [] \<longrightarrow> quiet V p (snd (psipe_flush S fd p))) \<and>
     quiet V p (sys_close S fd p))"

definition parts_taken :: "'w link_view \<Rightarrow> u64 \<Rightarrow> nat \<Rightarrow> bool" where
  "parts_taken V a n \<longleftrightarrow> (\<forall>x y. x + y \<le> n \<and> 0 < y \<longrightarrow> takes V (a + of_nat x) y)"

definition memalign_law :: "'w sys \<Rightarrow> 'w link_view \<Rightarrow> bool" where
  "memalign_law S V \<longleftrightarrow> (\<forall>p al sz. sane V p \<and> unat sz \<le> room V (pos p) \<longrightarrow>
     (\<exists>a p'. sys_memalign S al sz p = (0, a, p') \<and> quiet V p p' \<and>
        span a (unat sz) \<inter> heap V (pos p) = {} \<and>
        heap V (pos p') = heap V (pos p) \<union> span a (unat sz) \<and>
        room V (pos p') = room V (pos p) - unat sz \<and> parts_taken V a (unat sz)))"

text \<open>The program's own stores outside the buffers in use change nothing else.\<close>

definition store_law :: "'w link_view \<Rightarrow> bool" where
  "store_law V \<longleftrightarrow> (\<forall>p m. sane V p \<and> same_outside (- busy V (pos p)) (pmem p) m \<longrightarrow>
     sane V (p\<lparr>pmem := m\<rparr>))"

definition link_contract :: "'w sys \<Rightarrow> 'w link_view \<Rightarrow> bool" where
  "link_contract S V \<longleftrightarrow>
     send_law S V \<and> recv_law S V \<and> wait_law S V \<and> quiet_law S V \<and> memalign_law S V \<and> store_law V"

section \<open>Memory regions\<close>

lemma span_offset: "x + y \<le> z \<Longrightarrow> span (a + of_nat x) y \<subseteq> span a z"
proof
  fix u assume xy: "x + y \<le> z" and "u \<in> span (a + of_nat x) y"
  then have k: "unat (u - (a + of_nat x)) < y" by (simp add: span_def)
  have "u - a = of_nat (x + unat (u - (a + of_nat x)))" by simp
  then have "unat (u - a) \<le> x + unat (u - (a + of_nat x))"
    by (metis unat_of_nat mod_less_eq_dividend)
  then show "u \<in> span a z" using k xy by (simp add: span_def)
qed

lemma span_disjoint:
  assumes "x + y \<le> 2 ^ 64" shows "span a x \<inter> span (a + of_nat x) y = {}"
proof -
  have "False" if u: "unat (u - a) < x" "unat (u - (a + of_nat x)) < y" for u
  proof -
    let ?k = "unat (u - (a + of_nat x))"
    have "u - a = of_nat (x + ?k)" by simp
    then have "unat (u - a) = x + ?k" using u assms by (simp only: unat_of_nat_u64)
    then show False using u(1) by simp
  qed
  then show ?thesis by (auto simp: span_def)
qed

lemma span_mono: "x \<le> y \<Longrightarrow> span a x \<subseteq> span a y"
  by (auto simp: span_def)

lemma span_split: "span a (x + y) = span a x \<union> span (a + of_nat x) y"
proof
  show "span a (x + y) \<subseteq> span a x \<union> span (a + of_nat x) y"
  proof
    fix u assume u: "u \<in> span a (x + y)"
    let ?k = "unat (u - a)"
    have "u \<in> span (a + of_nat x) y" if "x \<le> ?k"
    proof -
      have "u - (a + of_nat x) = of_nat (?k - x)" using that by (simp add: of_nat_diff)
      then have "unat (u - (a + of_nat x)) \<le> ?k - x"
        by (metis unat_of_nat mod_less_eq_dividend)
      then show ?thesis using u that by (simp add: span_def)
    qed
    then show "u \<in> span a x \<union> span (a + of_nat x) y"
      by (cases "x \<le> ?k") (simp_all add: span_def)
  qed
  show "span a x \<union> span (a + of_nat x) y \<subseteq> span a (x + y)"
    using span_mono [of x "x + y" a] span_offset [of x y "x + y" a] by simp
qed

lemma span_nth: "i < n \<Longrightarrow> a + of_nat i \<in> span a n"
proof -
  have "unat (of_nat i :: u64) \<le> i" unfolding unat_of_nat by (rule mod_less_eq_dividend)
  then show "a + of_nat i \<in> span a n" if "i < n" using that by (simp add: span_def)
qed

lemma same_outside_refl [simp]: "same_outside X m m"
  by (simp add: same_outside_def)

lemma same_outside_mono: "same_outside X m m' \<Longrightarrow> X \<subseteq> Y \<Longrightarrow> same_outside Y m m'"
  by (auto simp: same_outside_def)

lemma same_outside_trans:
  "same_outside X m m' \<Longrightarrow> same_outside X m' m'' \<Longrightarrow> same_outside X m m''"
  by (simp add: same_outside_def)

lemma same_outside_store: "span a (length bs) \<subseteq> X \<Longrightarrow> same_outside X m (ram_store m a bs)"
  by (auto simp: same_outside_def ram_store_def span_def)

lemma ram_bytes_same:
  assumes "same_outside X m m'" "span a n \<inter> X = {}" shows "ram_bytes m' a n = ram_bytes m a n"
proof (rule nth_equalityI)
  fix i assume "i < length (ram_bytes m' a n)"
  then show "ram_bytes m' a n ! i = ram_bytes m a n ! i"
    using assms span_nth [of i n a] by (auto simp: same_outside_def)
qed simp

lemma ram_bytes_store:
  assumes "length bs \<le> 2 ^ 64" shows "ram_bytes (ram_store m a bs) a (length bs) = bs"
  by (rule nth_equalityI) (use assms in \<open>simp_all add: ram_store_def unat_of_nat_u64\<close>)

lemma ram_bytes_add: "ram_bytes m a (x + y) = ram_bytes m a x @ ram_bytes m (a + of_nat x) y"
  by (rule nth_equalityI) (auto simp: nth_append algebra_simps)

lemma pos_poke [simp]: "pos (poke a bs p) = pos p"
  by (simp add: poke_def)

lemma pmem_poke [simp]: "pmem (poke a bs p) = ram_store (pmem p) a bs"
  by (simp add: poke_def)

section \<open>Sequences of operations\<close>

lemma outs_append [simp]: "outs (ts @ us) = outs ts @ outs us"
  by (induction ts rule: outs.induct) simp_all

lemma ins_append [simp]: "ins (ts @ us) = ins ts @ ins us"
  by (induction ts rule: ins.induct) simp_all

lemma outs_map [simp]: "outs (map T_Out ms) = ms" "ins (map T_Out ms) = []"
  "outs (map T_In ms) = []" "ins (map T_In ms) = ms"
  by (induction ms) simp_all

lemma posts_sent: "posts V fd p ts os X p' \<Longrightarrow> sent V (pos p') fd = sent V (pos p) fd @ outs ts"
  by (simp add: posts_def sent_def)

lemma posts_recvs: "posts V fd p ts os X p' \<Longrightarrow> recvs V (pos p') fd = recvs V (pos p) fd + length (ins ts)"
  by (simp add: posts_def recvs_def)

lemma posts_trans:
  assumes "posts V fd p t1 o1 X p1" "posts V fd p1 t2 o2 X p2"
  shows "posts V fd p (t1 @ t2) (o1 @ o2) X p2"
  using assms by (auto simp: posts_def intro: same_outside_trans)

lemma posts_mono: "posts V fd p ts os X p' \<Longrightarrow> X \<subseteq> Y \<Longrightarrow> posts V fd p ts os Y p'"
  by (auto simp: posts_def intro: same_outside_mono)

lemma posts_poke:
  "posts V fd (poke a bs p) ts os X p' \<Longrightarrow> span a (length bs) \<subseteq> X \<Longrightarrow> posts V fd p ts os X p'"
  by (auto simp: posts_def intro: same_outside_trans [OF same_outside_store])

lemma inflight_posts:
  assumes "posts V fd p ts os X p'"
  shows "inflight V (pos p') = inflight V (pos p) \<union>
    {x. \<exists>i a bs. P_Recv i a bs \<in> set os \<and> x \<in> span a (length bs)}"
  using assms by (auto simp: inflight_def posts_def split: if_splits) (metis Un_iff set_append)+

lemma pending_posts:
  assumes "posts V fd p ts os X p'"
  shows "pending_sends V (pos p') F = pending_sends V (pos p) F \<union>
    {x. fd \<in> F \<and> (\<exists>i a bs. P_Send i a bs \<in> set os \<and> x \<in> span a (length bs))}"
  using assms by (auto simp: pending_sends_def posts_def split: if_splits) (metis Un_iff set_append)+

lemma pending_mono: "F \<subseteq> G \<Longrightarrow> pending_sends V w F \<subseteq> pending_sends V w G"
  by (auto simp: pending_sends_def)

lemma inflight_send:
  "posts V fd p ts [send_op V w fd' i a bs] X p' \<Longrightarrow> inflight V (pos p') = inflight V (pos p)"
  by (auto simp: send_op_def dest: inflight_posts split: if_splits)

lemma inflight_recv:
  "posts V fd p ts [P_Recv i a bs] X p' \<Longrightarrow>
     inflight V (pos p') = inflight V (pos p) \<union> span a (length bs)"
  by (auto dest: inflight_posts)

lemma parts_takenD: "parts_taken V a n \<Longrightarrow> x + y \<le> n \<Longrightarrow> 0 < y \<Longrightarrow> takes V (a + of_nat x) y"
  by (simp add: parts_taken_def)

lemma parts_taken_all: "parts_taken V a n \<Longrightarrow> 0 < n \<Longrightarrow> takes V a n"
  unfolding parts_taken_def by (drule spec [of _ 0], drule spec [of _ n]) simp

lemma post_id_send_op [simp]: "post_id (send_op V w fd h a bs) = h"
  by (simp add: send_op_def)

lemma is_recv_send_op [simp]: "\<not> is_recv (send_op V w fd h a bs)"
  by (simp add: send_op_def)

lemma not_recv_D: "\<not> is_recv q \<Longrightarrow> q \<noteq> P_Recv i a bs"
  by auto

lemma sane_poke:
  assumes "link_contract S V" "sane V p" "span a (length bs) \<inter> busy V (pos p) = {}"
  shows "sane V (poke a bs p)"
proof -
  have "same_outside (- busy V (pos p)) (pmem p) (ram_store (pmem p) a bs)"
    by (rule same_outside_store) (use assms(3) in blast)
  then show ?thesis using assms(1,2) by (simp add: link_contract_def store_law_def poke_def)
qed

end
