(* ===== verification/Matmul.thy ===== *)
theory Matmul
  imports Link
begin

text \<open>
  The matrix multiplication the user programs offload (src/src/sw/userspace): the sequential
  reference \<^verbatim>\<open>matmul_gold\<close> and the master's partition of master-mm.c, the compute loop of
  chiplet-mm.c, and the argument message of psipe\_wrappers.c. The element type and its \<open>+\<close>
  and \<open>*\<close> are parameters: nothing is assumed about them, so the results hold bit by bit for the
  \<^verbatim>\<open>double\<close> of the programs. Matrices are flat, row-major arrays.
\<close>

section \<open>The loops\<close>

text \<open>\<^verbatim>\<open>C[c] += A[a] * B[b]\<close> with every access checked.\<close>

definition mul_add ::
    "('a \<Rightarrow> 'a \<Rightarrow> 'a) \<Rightarrow> ('a \<Rightarrow> 'a \<Rightarrow> 'a) \<Rightarrow> 'a list \<Rightarrow> 'a list \<Rightarrow> int \<Rightarrow> int \<Rightarrow> int \<Rightarrow> 'a list \<Rightarrow>
      'a list res" where
  "mul_add add mul A B a b c C =
     bindR (load A a) (\<lambda>x. bindR (load B b) (\<lambda>y. bindR (load C c) (\<lambda>z.
       store C c (add z (mul x y)))))"

definition matmul_gold ::
    "('a \<Rightarrow> 'a \<Rightarrow> 'a) \<Rightarrow> ('a \<Rightarrow> 'a \<Rightarrow> 'a) \<Rightarrow> int \<Rightarrow> int \<Rightarrow> int \<Rightarrow> 'a list \<Rightarrow> 'a list \<Rightarrow> 'a list \<Rightarrow>
      'a list res" where
  "matmul_gold add mul sz_n sz_t sz_m A B C =
     foldR (\<lambda>j. foldR (\<lambda>i. foldR (\<lambda>k.
       mul_add add mul A B (i * sz_t + k) (k * sz_m + j) (i * sz_m + j))
         [0..sz_t - 1]) [0..sz_n - 1]) [0..sz_m - 1] C"

text \<open>C's \<^verbatim>\<open>/\<close> and \<^verbatim>\<open>%\<close> truncate towards zero; the index expressions are \<^verbatim>\<open>int\<close>.\<close>

definition chiplet_compute ::
    "('a \<Rightarrow> 'a \<Rightarrow> 'a) \<Rightarrow> ('a \<Rightarrow> 'a \<Rightarrow> 'a) \<Rightarrow> int \<Rightarrow> int \<Rightarrow> int \<Rightarrow> int \<Rightarrow> 'a list \<Rightarrow> 'a list \<Rightarrow>
      'a list \<Rightarrow> 'a list res" where
  "chiplet_compute add mul sz_t sz_m g_len g_ofs A B C =
     foldR (\<lambda>g C.
       if sz_m = 0 then Inl Div_By_Zero
       else let i = g sdiv sz_m; j = g smod sz_m
         in foldR (\<lambda>k. mul_add add mul A B (s32 (s32 (i * sz_t) + k)) (s32 (s32 (k * sz_m) + j))
                (g - g_ofs)) [0..sz_t - 1] C) [g_ofs..s32 (g_ofs + g_len) - 1] C"

section \<open>Matrices in memory\<close>

text \<open>An element is eight bytes; its arithmetic works on the bit pattern.\<close>

definition elems :: "u8 list \<Rightarrow> u64 list" where
  "elems bs = map (\<lambda>i. le_word (take 8 (drop (8 * i) bs))) [0..<length bs div 8]"

definition unelems :: "u64 list \<Rightarrow> u8 list" where
  "unelems xs = concat (map (le_bytes 8) xs)"

lemma elems_block: "length b = 8 \<Longrightarrow> elems (b @ bs) = le_word b # elems bs"
proof -
  assume "length b = 8"
  moreover have "[0..<Suc k] = 0 # map Suc [0..<k]" for k by (simp add: upt_conv_Cons map_Suc_upt del: upt_Suc)
  ultimately show ?thesis by (simp add: elems_def div_add_self1 del: upt_Suc)
qed

lemma elems_unelems [simp]: "elems (unelems xs) = xs"
  by (induction xs) (simp_all add: unelems_def elems_block le_word_le_bytes, simp add: elems_def)

lemma length_unelems [simp]: "length (unelems xs) = 8 * length xs"
  by (induction xs) (simp_all add: unelems_def)

lemma unelems_append: "unelems (xs @ ys) = unelems xs @ unelems ys"
  by (simp add: unelems_def)

lemma length_elems [simp]: "length (elems bs) = length bs div 8"
  by (simp add: elems_def)

lemma ram_bytes_part: "i + k \<le> n \<Longrightarrow> ram_bytes m (a + of_nat i) k = take k (drop i (ram_bytes m a n))"
  by (rule nth_equalityI) (auto simp: algebra_simps)

lemma elems_part:
  assumes "a + k \<le> n"
  shows "elems (ram_bytes m (c + of_nat (8 * a)) (8 * k)) =
     take k (drop a (elems (ram_bytes m c (8 * n))))"
proof (rule nth_equalityI)
  fix i assume "i < length (elems (ram_bytes m (c + of_nat (8 * a)) (8 * k)))"
  then have i: "i < k" by simp
  have "take 8 (drop (8 * i) (ram_bytes m (c + of_nat (8 * a)) (8 * k))) =
      take 8 (drop (8 * (a + i)) (ram_bytes m c (8 * n)))"
    by (rule nth_equalityI) (use i assms in \<open>auto simp: algebra_simps\<close>)
  then show "elems (ram_bytes m (c + of_nat (8 * a)) (8 * k)) ! i =
      take k (drop a (elems (ram_bytes m c (8 * n)))) ! i"
    using i assms by (simp add: elems_def)
qed (use assms in simp)

section \<open>One cell\<close>

text \<open>The value both programs compute for cell \<open>g\<close> of the result: the terms in order of \<open>k\<close>.\<close>

definition cell ::
    "('a \<Rightarrow> 'a \<Rightarrow> 'a) \<Rightarrow> ('a \<Rightarrow> 'a \<Rightarrow> 'a) \<Rightarrow> nat \<Rightarrow> nat \<Rightarrow> 'a list \<Rightarrow> 'a list \<Rightarrow> nat \<Rightarrow> 'a \<Rightarrow> 'a" where
  "cell add mul t m A B g =
     fold (\<lambda>k c. add c (mul (A ! (g div m * t + k)) (B ! (k * m + g mod m)))) [0..<t]"

lemma upto_nat: "[0..int n - 1] = map int [0..<n]"
  by (induction n) (simp_all add: upto_rec2)

lemma upto_nat_from: "[int a..int (a + n) - 1] = map (\<lambda>x. int (a + x)) [0..<n]"
  by (induction n) (simp_all add: upto_rec2)

lemma mul_add_nat:
  assumes "a < length A" "b < length B" "c < length C"
  shows "mul_add add mul A B (int a) (int b) (int c) C =
     Inr (C[c := add (C ! c) (mul (A ! a) (B ! b))])"
  using assms by (simp add: mul_add_def)

lemma index_lt: "i < n \<Longrightarrow> k < t \<Longrightarrow> i * t + k < n * (t :: nat)"
  by (metis add.commute mult.commute nat_mult_le_cancel_disj add_less_mono1 Suc_leI mult_Suc
      order_less_le_trans mult_le_mono1)

text \<open>The innermost loop, for cell \<open>g\<close> of the matrix stored at position \<open>c\<close> of the buffer.\<close>

lemma inner_loop:
  assumes A: "length A = n * t" and B: "length B = t * m" and g: "g < n * m" and c: "c < length C"
  shows "foldR (\<lambda>k. mul_add add mul A B (int (g div m * t + k)) (int (k * m + g mod m)) (int c))
      [0..<t] C = Inr (C[c := cell add mul t m A B g (C ! c)])"
proof -
  have m: "0 < m" using g by (cases m) auto
  have i: "g div m < n" using g by (simp add: less_mult_imp_div_less)
  have j: "g mod m < m" using m by simp
  have "foldR (\<lambda>k. mul_add add mul A B (int (g div m * t + k)) (int (k * m + g mod m)) (int c))
      [0..<t] C =
    foldR (\<lambda>k C. Inr (C[c := add (C ! c) (mul (A ! (g div m * t + k)) (B ! (k * m + g mod m)))]))
      [0..<t] C"
  proof (rule foldR_cong [where P = "\<lambda>C. c < length C"])
    fix k and C' :: "'a list"
    assume "k \<in> set [0..<t]" "c < length C'"
    then show "mul_add add mul A B (int (g div m * t + k)) (int (k * m + g mod m)) (int c) C' =
        Inr (C'[c := add (C' ! c) (mul (A ! (g div m * t + k)) (B ! (k * m + g mod m)))])"
      using i j A B by (intro mul_add_nat) (simp_all add: index_lt)
  qed (use c in auto)
  also have "\<dots> = Inr (C[c := cell add mul t m A B g (C ! c)])"
    unfolding cell_def by (rule foldR_one_cell [OF c])
  finally show ?thesis .
qed

section \<open>The sequential reference\<close>

lemma cells_list:
  assumes "m' \<le> m"
  shows "distinct (concat (map (\<lambda>j. map (\<lambda>i. i * m + j) [0..<n]) [0..<m'])) \<and>
     set (concat (map (\<lambda>j. map (\<lambda>i. i * m + j) [0..<n]) [0..<m'])) =
       {g. g < n * m \<and> g mod m < m'}"
  using assms
proof (induction m')
  case 0
  then show ?case by simp
next
  case (Suc m')
  then have m: "m' < m" by simp
  have "inj_on (\<lambda>i. i * m + m') {0..<n}" using m by (intro inj_onI) simp
  then have d: "distinct (map (\<lambda>i. i * m + m') [0..<n])" by (simp add: distinct_map)
  have s: "set (map (\<lambda>i. i * m + m') [0..<n]) = {g. g < n * m \<and> g mod m = m'}"
  proof (intro equalityI subsetI)
    fix g assume "g \<in> {g. g < n * m \<and> g mod m = m'}"
    then have "g = g div m * m + m'" "g div m < n"
      by (auto simp: less_mult_imp_div_less)
    then show "g \<in> set (map (\<lambda>i. i * m + m') [0..<n])" by (auto simp: image_iff)
  qed (use m in \<open>auto simp: index_lt\<close>)
  show ?case using Suc.IH m d s by (auto simp: less_Suc_eq simp del: set_map)
qed

lemma all_cells:
  "distinct (concat (map (\<lambda>j. map (\<lambda>i. i * m + j) [0..<n]) [0..<m]))"
  "set (concat (map (\<lambda>j. map (\<lambda>i. i * m + j) [0..<n]) [0..<m])) = {0..<n * m}"
proof -
  have "g mod m < m" if "g < n * m" for g :: nat using that by (cases m) auto
  then have "{g. g < n * m \<and> g mod m < m} = {0..<n * m}" by auto
  with cells_list [of m m n] show
    "distinct (concat (map (\<lambda>j. map (\<lambda>i. i * m + j) [0..<n]) [0..<m]))"
    "set (concat (map (\<lambda>j. map (\<lambda>i. i * m + j) [0..<n]) [0..<m])) = {0..<n * m}" by simp_all
qed

definition cell_step ::
    "('a \<Rightarrow> 'a \<Rightarrow> 'a) \<Rightarrow> ('a \<Rightarrow> 'a \<Rightarrow> 'a) \<Rightarrow> nat \<Rightarrow> nat \<Rightarrow> 'a list \<Rightarrow> 'a list \<Rightarrow> nat \<Rightarrow> 'a list \<Rightarrow>
      'a list res" where
  "cell_step add mul t m A B g =
     foldR (\<lambda>k. mul_add add mul A B (int (g div m * t + k)) (int (k * m + g mod m)) (int g)) [0..<t]"

lemma cell_steps:
  assumes A: "length A = n * t" and B: "length B = t * m" and C: "length C = n * m"
    and gs: "distinct gs" "set gs = {0..<n * m}"
  shows "foldR (cell_step add mul t m A B) gs C =
     Inr (map (\<lambda>g. cell add mul t m A B g (C ! g)) [0..<n * m])"
proof -
  have "foldR (cell_step add mul t m A B) gs C =
      foldR (\<lambda>g C. Inr (C[g := cell add mul t m A B g (C ! g)])) gs C"
  proof (rule foldR_cong [where P = "\<lambda>C. length C = n * m"])
    fix g and C' :: "'a list"
    assume "g \<in> set gs" "length C' = n * m"
    then show "cell_step add mul t m A B g C' = Inr (C'[g := cell add mul t m A B g (C' ! g)])"
      unfolding cell_step_def using gs by (intro inner_loop [OF A B]) auto
  qed (use C in auto)
  also have "\<dots> = Inr (map (\<lambda>g. cell add mul t m A B g (C ! g)) [0..<n * m])"
    by (subst foldR_cells) (use gs C in auto)
  finally show ?thesis .
qed

lemma matmul_gold_cells:
  assumes A: "length A = n * t" and B: "length B = t * m" and C: "length C = n * m"
  shows "matmul_gold add mul (int n) (int t) (int m) A B C =
     Inr (map (\<lambda>g. cell add mul t m A B g (C ! g)) [0..<n * m])"
proof -
  have k: "(\<lambda>k. mul_add add mul A B (int i * int t + int k) (int k * int m + int j)
      (int i * int m + int j)) =
      (\<lambda>k. mul_add add mul A B (int ((i * m + j) div m * t + k)) (int (k * m + (i * m + j) mod m))
        (int (i * m + j)))" if "j < m" for i j
    using that by (intro ext) (simp add: div_mult_self3)
  have "matmul_gold add mul (int n) (int t) (int m) A B C =
      foldR (\<lambda>j. foldR (\<lambda>i. foldR (\<lambda>k. mul_add add mul A B (int i * int t + int k)
        (int k * int m + int j) (int i * int m + int j)) [0..<t]) [0..<n]) [0..<m] C"
    by (simp add: matmul_gold_def upto_nat foldR_map)
  also have "\<dots> = foldR (\<lambda>j. foldR (\<lambda>i. cell_step add mul t m A B (i * m + j)) [0..<n]) [0..<m] C"
  proof (rule foldR_cong [where P = "\<lambda>_. True"])
    fix j C'
    assume "j \<in> set [0..<m]"
    then have "(\<lambda>i. foldR (\<lambda>k. mul_add add mul A B (int i * int t + int k)
        (int k * int m + int j) (int i * int m + int j)) [0..<t]) =
        (\<lambda>i. cell_step add mul t m A B (i * m + j))"
      by (intro ext) (simp only: cell_step_def k set_upt atLeastLessThan_iff)
    then show "foldR (\<lambda>i. foldR (\<lambda>k. mul_add add mul A B (int i * int t + int k)
        (int k * int m + int j) (int i * int m + int j)) [0..<t]) [0..<n] C' =
        foldR (\<lambda>i. cell_step add mul t m A B (i * m + j)) [0..<n] C'"
      by (rule arg_cong)
  qed simp_all
  also have "\<dots> = foldR (cell_step add mul t m A B)
      (concat (map (\<lambda>j. map (\<lambda>i. i * m + j) [0..<n]) [0..<m])) C"
    by (simp only: foldR_concat [symmetric] foldR_map)
  also have "\<dots> = Inr (map (\<lambda>g. cell add mul t m A B g (C ! g)) [0..<n * m])"
    by (rule cell_steps [OF A B C all_cells])
  finally show ?thesis .
qed

section \<open>The chiplet\<close>

lemma sdiv_nat: "int a sdiv int b = int (a div b)"
  by (simp add: signed_divide_int_def sgn_if zdiv_int)

lemma smod_nat: "int a smod int b = int (a mod b)"
  by (cases "a = 0") (simp_all add: signed_modulo_int_def zmod_int)

lemma s32_index: "a * b + c < 2 ^ 31 \<Longrightarrow> s32 (s32 (int a * int b) + int c) = int (a * b + c)"
  by (subst (2) s32_id) (simp_all flip: of_nat_mult of_nat_add)

lemma chiplet_cells:
  assumes A: "length A = n * t" and B: "length B = t * m" and C: "length C = len"
    and part: "ofs + len \<le> n * m"
    and small: "n * t < 2 ^ 31" "t * m < 2 ^ 31" "n * m < 2 ^ 31"
  shows "chiplet_compute add mul (int t) (int m) (int len) (int ofs) A B C =
     Inr (map (\<lambda>x. cell add mul t m A B (ofs + x) (C ! x)) [0..<len])"
proof -
  have "int (ofs + len) < 2 ^ 31" using part small(3) by (simp add: order_le_less_trans)
  then have r: "[int ofs..s32 (int ofs + int len) - 1] = map (\<lambda>x. int (ofs + x)) [0..<len]"
    using upto_nat_from [of ofs len] by (simp add: s32_id)
  have body: "(if int m = 0 then Inl Div_By_Zero
      else let i = int (ofs + x) sdiv int m; j = int (ofs + x) smod int m
        in foldR (\<lambda>k. mul_add add mul A B (s32 (s32 (i * int t) + k)) (s32 (s32 (k * int m) + j))
             (int (ofs + x) - int ofs)) [0..int t - 1] C') =
      Inr (C'[x := cell add mul t m A B (ofs + x) (C' ! x)])"
    if x: "x < len" "length C' = len" for x and C' :: "'a list"
  proof -
    let ?g = "ofs + x"
    have g: "?g < n * m" using x part by simp
    have m: "0 < m" using g by (cases m) auto
    have i: "?g div m < n" using g by (simp add: less_mult_imp_div_less)
    have idx: "s32 (s32 (int (?g div m) * int t) + int k) = int (?g div m * t + k)"
      "s32 (s32 (int k * int m) + int (?g mod m)) = int (k * m + ?g mod m)" if "k < t" for k
    proof -
      have "?g div m * t + k < 2 ^ 31" using index_lt [OF i that] small(1) by linarith
      then show "s32 (s32 (int (?g div m) * int t) + int k) = int (?g div m * t + k)"
        by (rule s32_index)
      have "k * m + ?g mod m < 2 ^ 31" using index_lt [OF that, of "?g mod m" m] m small(2) by simp
      then show "s32 (s32 (int k * int m) + int (?g mod m)) = int (k * m + ?g mod m)"
        by (rule s32_index)
    qed
    have "foldR (\<lambda>k. mul_add add mul A B (s32 (s32 (int (?g div m) * int t) + int k))
        (s32 (s32 (int k * int m) + int (?g mod m))) (int x)) [0..<t] C' =
      foldR (\<lambda>k. mul_add add mul A B (int (?g div m * t + k)) (int (k * m + ?g mod m)) (int x))
        [0..<t] C'"
      by (rule foldR_cong [where P = "\<lambda>_. True"]) (simp_all only: idx set_upt atLeastLessThan_iff)
    also have "\<dots> = Inr (C'[x := cell add mul t m A B ?g (C' ! x)])"
      by (rule inner_loop [OF A B g]) (simp add: x)
    finally show ?thesis
      using m by (simp only: Let_def sdiv_nat smod_nat upto_nat foldR_map) simp
  qed
  have "chiplet_compute add mul (int t) (int m) (int len) (int ofs) A B C =
      foldR (\<lambda>x C'. Inr (C'[x := cell add mul t m A B (ofs + x) (C' ! x)])) [0..<len] C"
    unfolding chiplet_compute_def r foldR_map
    by (rule foldR_cong [where P = "\<lambda>C. length C = len"])
      (simp_all only: body set_upt atLeastLessThan_iff C sum.inject, auto)
  also have "\<dots> = Inr (map (\<lambda>x. cell add mul t m A B (ofs + x) (C ! x)) [0..<len])"
    by (subst foldR_cells) (use C in auto)
  finally show ?thesis .
qed

section \<open>The partition\<close>

text \<open>Where the part of device \<open>i\<close> of \<open>d\<close> starts: the first \<open>N mod d\<close> parts have one element more.\<close>

definition part_start :: "nat \<Rightarrow> nat \<Rightarrow> nat \<Rightarrow> nat" where
  "part_start N d i = i * (N div d) + min i (N mod d)"

lemma PART_nat: "PART_FOR_DEV (int i) (int N) (int d) = int (N div d) + of_bool (i < N mod d)"
  by (simp add: PART_FOR_DEV_def sdiv_nat smod_nat)

lemma part_start_Suc:
  "int (part_start N d i) + PART_FOR_DEV (int i) (int N) (int d) = int (part_start N d (Suc i))"
  by (simp add: part_start_def PART_nat min_def)

lemma part_start_bounds:
  assumes "0 < d"
  shows "part_start N d 0 = 0" "part_start N d d = N" "i \<le> d \<Longrightarrow> part_start N d i \<le> N"
proof -
  have "N mod d < d" using assms by simp
  then show e: "part_start N d d = N" by (simp add: part_start_def min_def)
  show "part_start N d 0 = 0" by (simp add: part_start_def)
  show "part_start N d i \<le> N" if "i \<le> d"
  proof -
    have "part_start N d i \<le> part_start N d d"
      unfolding part_start_def using that by (intro add_mono mult_le_mono1) auto
    then show ?thesis by (simp only: e)
  qed
qed

end
