(* ===== verification/Offload.thy ===== *)
theory Offload
  imports Matmul
begin

text \<open>
  The programs of the offloaded multiplication as processes: \<^verbatim>\<open>matmul\<close> of master-mm.c and \<^verbatim>\<open>main\<close> of
  chiplet-mm.c, with every system call and every error exit. An element is the bit pattern of a
  \<^verbatim>\<open>double\<close>; its addition and multiplication are parameters. Printing and timing are left out.
\<close>

section \<open>The programs\<close>

text \<open>
  The two checks after an ioctl: \<^verbatim>\<open>if ((long)id < 0) exit(1)\<close> after a send or receive,
  \<^verbatim>\<open>if (psipe_wait(fd, id) < 0) exit(1)\<close> after a wait.
\<close>

definition handle_of :: "int \<times> 'p \<Rightarrow> (u64 \<times> 'p) res" where
  "handle_of = (\<lambda>(rv, p).
     let i = u64_of_int rv in if sint i < 0 then Inl (Exited 1) else Inr (i, p))"

definition wait_ok :: "int \<times> 'p \<Rightarrow> 'p res" where
  "wait_ok = (\<lambda>(rv, p). if rv < 0 then Inl (Exited 1) else Inr p)"

text \<open>
  The loop over the devices: \<open>hs\<close> (\<^verbatim>\<open>last\<close>) holds the handle of the receive posted on each, \<open>ofs\<close> the
  element its part starts at. \<open>A\<close>, \<open>B\<close> and \<open>C\<close> are the addresses of the matrices.
\<close>

definition matmul_part ::
    "'w sys \<Rightarrow> psipe_devices \<Rightarrow> int \<Rightarrow> int \<Rightarrow> int \<Rightarrow> int \<Rightarrow> u64 \<Rightarrow> u64 \<Rightarrow> u64 \<Rightarrow> int \<Rightarrow>
      int \<times> u64 list \<times> 'w proc \<Rightarrow> (int \<times> u64 list \<times> 'w proc) res" where
  "matmul_part S devs num sz_n sz_t sz_m C A B i = (\<lambda>(ofs, hs, p).
     bindR (psipe_fd devs i) (\<lambda>fd.
     if sz_m = 0 then Inl Div_By_Zero
     else
       let part = PART_FOR_DEV i (s32 (sz_n * sz_m)) num;
           sz_part = int_of_u64 (u64_of_int part * 8);
           pi = ofs sdiv sz_m;
           pj = ofs smod sz_m;
           C_part = C + u64_of_int (pi * sz_m + pj) * 8
       in bindR (handle_of (psipe_send_args S fd sz_n sz_t sz_m part ofs p)) (\<lambda>(_, p).
          bindR (handle_of (psipe_send S fd A (u64_of_int (s32 (sz_n * sz_t)) * 8) p)) (\<lambda>(_, p).
          bindR (handle_of (psipe_send S fd B (u64_of_int (s32 (sz_t * sz_m)) * 8) p)) (\<lambda>(_, p).
          bindR (handle_of (psipe_send S fd C_part (u64_of_int sz_part) p)) (\<lambda>(_, p).
          bindR (handle_of (psipe_recv S fd C_part (u64_of_int sz_part) p)) (\<lambda>(h, p).
          bindR (store hs i h) (\<lambda>hs. Inr (s32 (ofs + part), hs, p)))))))))"

definition matmul_wait ::
    "'w sys \<Rightarrow> psipe_devices \<Rightarrow> u64 list \<Rightarrow> int \<Rightarrow> 'w proc \<Rightarrow> 'w proc res" where
  "matmul_wait S devs hs i p =
     bindR (load hs i) (\<lambda>h. bindR (psipe_fd devs i) (\<lambda>fd.
     bindR (wait_ok (psipe_wait S fd h p)) (\<lambda>p. Inr (snd (psipe_flush S fd p)))))"

definition matmul ::
    "'w sys \<Rightarrow> int \<Rightarrow> int \<Rightarrow> int \<Rightarrow> u64 \<Rightarrow> u64 \<Rightarrow> u64 \<Rightarrow> 'w proc \<Rightarrow> 'w proc res" where
  "matmul S sz_n sz_t sz_m C A B p =
     bindR (psipe_open_devs S p) (\<lambda>(_, devs, p).
     case devs of None \<Rightarrow> Inl Null_Pointer
     | Some devs \<Rightarrow>
         let num = psipe_num_devs devs
         in bindR (foldR (matmul_part S devs num sz_n sz_t sz_m C A B) [0..num - 1]
                     (0, replicate (nat num) (u64_of_int (garbage S)), p)) (\<lambda>(_, hs, p).
            bindR (foldR (matmul_wait S devs hs) [0..num - 1] p) (psipe_close_devs S devs)))"

text \<open>
  The chiplet. \<^verbatim>\<open>id\<close> is unsigned, so its first check never fails; the compute loop reads its three
  buffers, which are separate allocations, and writes the third.
\<close>

definition chiplet_main ::
    "(u64 \<Rightarrow> u64 \<Rightarrow> u64) \<Rightarrow> (u64 \<Rightarrow> u64 \<Rightarrow> u64) \<Rightarrow> 'w sys \<Rightarrow> 'w proc \<Rightarrow> 'w proc res" where
  "chiplet_main add mul S p =
     bindR (psipe_open_devs S p) (\<lambda>(_, devs, p).
     case devs of None \<Rightarrow> Inl Null_Pointer
     | Some devs \<Rightarrow>
     bindR (load (devs_fds devs) 0) (\<lambda>fd.
     case psipe_recv_args S fd p of (rv, (sz_n, sz_t, sz_m, g_len, g_ofs), p) \<Rightarrow>
     bindR (wait_ok (psipe_wait S fd (u64_of_int rv) p)) (\<lambda>p.
     let sz_A = u64_of_int (s32 (sz_n * sz_t)) * 8;
         sz_B = u64_of_int (s32 (sz_t * sz_m)) * 8;
         sz_C = u64_of_int g_len * 8
     in case sys_memalign S 8 sz_A p of (rA, pt_A, p) \<Rightarrow> if rA < 0 then Inl (Exited 1) else
        case sys_memalign S 8 sz_B p of (rB, pt_B, p) \<Rightarrow> if rB < 0 then Inl (Exited 1) else
        case sys_memalign S 8 sz_C p of (rC, pt_C, p) \<Rightarrow> if rC < 0 then Inl (Exited 1) else
        bindR (handle_of (psipe_recv S fd pt_A sz_A p)) (\<lambda>(_, p).
        bindR (handle_of (psipe_recv S fd pt_B sz_B p)) (\<lambda>(_, p).
        bindR (handle_of (psipe_recv S fd pt_C sz_C p)) (\<lambda>(h, p).
        bindR (wait_ok (psipe_wait S fd h p)) (\<lambda>p.
        bindR (chiplet_compute add mul sz_t sz_m g_len g_ofs
                 (elems (peek p pt_A (unat sz_A))) (elems (peek p pt_B (unat sz_B)))
                 (elems (peek p pt_C (unat sz_C)))) (\<lambda>C.
        bindR (handle_of (psipe_send S fd pt_C sz_C (poke pt_C (unelems C) p))) (\<lambda>(h, p).
        bindR (wait_ok (psipe_wait S fd h p)) (\<lambda>p.
        psipe_close_devs S devs (snd (psipe_flush S fd p))))))))))))"

section \<open>Calls that succeed\<close>

lemma handle_of_fresh:
  assumes "fresh_handle V w fd r" shows "handle_of (r, p) = Inr (u64_of_int r, p)"
proof -
  have "sint (u64_of_int r) = r"
    using assms by (simp add: fresh_handle_def u64_of_int_def signed_of_int signed_take_bit_int_eq_self)
  then show ?thesis using assms by (simp add: handle_of_def fresh_handle_def)
qed

lemma send_step:
  assumes "link_contract S V" "fd \<in> open_fds V" "sane V p" "0 < l" "takes V a (unat l)"
    "length (log V (pos p) fd) < 2 ^ 31" "span a (unat l) \<inter> inflight V (pos p) = {}"
  obtains r p' where "psipe_send S fd a l p = (r, p')" "fresh_handle V (pos p) fd r"
    "posts V fd p [T_Out (peek p a (unat l))]
       [send_op V (pos p) fd (u64_of_int r) a (peek p a (unat l))] (inflight V (pos p)) p'"
  using assms unfolding link_contract_def send_law_def by blast

lemma recv_step:
  assumes "link_contract S V" "fd \<in> open_fds V" "sane V p" "0 < l" "takes V a (unat l)"
    "length (log V (pos p) fd) < 2 ^ 31" "span a (unat l) \<inter> inflight V (pos p) = {}"
    "span a (unat l) \<inter> pending_sends V (pos p) (- {fd}) = {}"
    "peer V fd (sent V (pos p) fd) (recvs V (pos p) fd) = bs" "length bs = unat l"
  obtains r p' where "psipe_recv S fd a l p = (r, p')" "fresh_handle V (pos p) fd r"
    "posts V fd p [T_In bs] [P_Recv (u64_of_int r) a bs] (inflight V (pos p')) p'"
    "posted V (pos p) fd = [] \<Longrightarrow> peek p' a (length bs) = bs"
  using assms unfolding link_contract_def recv_law_def by metis

lemma wait_step:
  assumes "link_contract S V" "fd \<in> open_fds V" "sane V p"
    "posted V (pos p) fd = pre @ q # rest" "post_id q \<notin> post_id ` set pre"
  obtains r p' where "psipe_wait S fd (post_id q) p = (r, p')" "wait_ok (r, p') = Inr p'"
    "waited V fd p (pre @ [q]) rest p'"
proof -
  from assms obtain r p' where "psipe_wait S fd (post_id q) p = (r, p')" "0 \<le> r"
      "waited V fd p (pre @ [q]) rest p'"
    unfolding link_contract_def wait_law_def by blast
  moreover from \<open>0 \<le> r\<close> have "wait_ok (r, p') = Inr p'" by (auto simp: wait_ok_def)
  ultimately show ?thesis by (blast intro: that)
qed

lemma memalign_step:
  assumes "link_contract S V" "sane V p" "unat sz \<le> room V (pos p)"
  obtains a p' where "sys_memalign S al sz p = (0, a, p')" "quiet V p p'"
    "span a (unat sz) \<inter> heap V (pos p) = {}"
    "heap V (pos p') = heap V (pos p) \<union> span a (unat sz)"
    "room V (pos p') = room V (pos p) - unat sz" "parts_taken V a (unat sz)"
  using assms unfolding link_contract_def memalign_law_def by blast

lemma flush_step:
  assumes "link_contract S V" "fd \<in> open_fds V" "sane V p" "posted V (pos p) fd = []"
  shows "quiet V p (snd (psipe_flush S fd p))"
  using assms unfolding link_contract_def quiet_law_def by blast

lemma quiet_refl: "sane V p \<Longrightarrow> quiet V p p"
  by (simp add: quiet_def)

lemma quiet_trans: "quiet V p p1 \<Longrightarrow> quiet V p1 p2 \<Longrightarrow> quiet V p p2"
  by (auto simp: quiet_def inflight_def intro: same_outside_trans)

lemma close_devs:
  assumes "link_contract S V" "sane V p" "set (devs_fds devs) \<subseteq> open_fds V"
    "devs_num devs = int (length (devs_fds devs))"
  obtains p' where "psipe_close_devs S devs p = Inr p'" "quiet V p p'"
proof -
  have "\<exists>p'. foldR (\<lambda>i p. bindR (load (devs_fds devs) i) (\<lambda>fd. Inr (sys_close S fd p)))
      (map int is) p = Inr p' \<and> quiet V p p'"
    if "set is \<subseteq> {0..<length (devs_fds devs)}" "sane V p" for "is" p
    using that
  proof (induction "is" arbitrary: p)
    case Nil
    then show ?case by (simp add: quiet_refl)
  next
    case (Cons i "is")
    then have "devs_fds devs ! i \<in> open_fds V" using assms(3) by auto
    then have q: "quiet V p (sys_close S (devs_fds devs ! i) p)"
      using assms(1) Cons.prems(2) unfolding link_contract_def quiet_law_def by blast
    then have "sane V (sys_close S (devs_fds devs ! i) p)" by (simp add: quiet_def)
    from Cons.IH [OF _ this] Cons.prems(1) obtain p' where
      "foldR (\<lambda>i p. bindR (load (devs_fds devs) i) (\<lambda>fd. Inr (sys_close S fd p))) (map int is)
         (sys_close S (devs_fds devs ! i) p) = Inr p'"
      "quiet V (sys_close S (devs_fds devs ! i) p) p'" by auto
    then show ?case using Cons.prems(1) quiet_trans [OF q] by auto
  qed
  from this [of "[0..<length (devs_fds devs)]" p] assms(2,4) that show ?thesis
    by (auto simp: psipe_close_devs_def upto_nat)
qed

section \<open>Arguments and sizes\<close>

text \<open>
  A process whose devices have been opened on a fresh link: nothing is posted yet, and the
  descriptors are those of distinct devices.
\<close>

definition started :: "'w sys \<Rightarrow> 'w link_view \<Rightarrow> 'w proc \<Rightarrow> psipe_devices \<Rightarrow> 'w proc \<Rightarrow> bool" where
  "started S V p0 devs p \<longleftrightarrow>
     link_contract S V \<and> (\<exists>rv. psipe_open_devs S p0 = Inr (rv, Some devs, p)) \<and>
     devs_fds devs \<noteq> [] \<and> devs_num devs = int (length (devs_fds devs)) \<and>
     distinct (devs_fds devs) \<and> set (devs_fds devs) \<subseteq> open_fds V \<and> sane V p \<and>
     log V (pos p) = (\<lambda>_. []) \<and> posted V (pos p) = (\<lambda>_. []) \<and>
     span (params_at S) 20 \<subseteq> heap V (pos p) \<and> takes V (params_at S) 20"

lemma length_args_bytes [simp]: "length (args_bytes n t m len ofs) = 20"
  by (simp add: args_bytes_def plen.enc_length)

lemma args_roundtrip:
  assumes "\<forall>x \<in> {n, t, m, len, ofs}. - (2 ^ 31) \<le> x \<and> x < 2 ^ 31"
    and "ram_bytes mem a 20 = args_bytes n t m len ofs" and "i < 5"
  shows "dec_int (ram_bytes mem (a + of_nat (4 * i)) 4) = [n, t, m, len, ofs] ! i"
proof -
  have d: "dec_int (enc_int x) = x" if "x \<in> {n, t, m, len, ofs}" for x
    using plen.dec_enc assms(1) that by blast
  have "ram_bytes mem (a + of_nat (4 * i)) 4 = take 4 (drop (4 * i) (ram_bytes mem a 20))"
    by (rule ram_bytes_part) (use assms(3) in simp)
  also have "\<dots> = enc_int ([n, t, m, len, ofs] ! i)"
  proof -
    consider "i = 0" | "i = 1" | "i = 2" | "i = 3" | "i = 4" using assms(3) by linarith
    then show ?thesis unfolding assms(2) args_bytes_def
      by cases (simp_all add: plen.enc_length)
  qed
  finally have "dec_int (ram_bytes mem (a + of_nat (4 * i)) 4) =
      dec_int (enc_int ([n, t, m, len, ofs] ! i))" by simp
  moreover have "[n, t, m, len, ofs] ! i \<in> set [n, t, m, len, ofs]"
    by (rule nth_mem) (use assms(3) in simp)
  ultimately show ?thesis using d by simp
qed

lemma unat_size8:
  assumes "8 * k < 2 ^ 31"
  shows "unat (u64_of_int (s32 (int k)) * 8) = 8 * k" "unat (u64_of_int (int k) * 8) = 8 * k"
proof -
  have "unat (u64_of_int (int k) * 8) = unat (of_nat (8 * k) :: u64)" by (simp add: mult.commute)
  also have "\<dots> = 8 * k" by (rule unat_of_nat_u64) (use assms in simp)
  finally show u: "unat (u64_of_int (int k) * 8) = 8 * k" .
  have "s32 (int k) = int k" by (rule s32_id) (use assms in simp_all)
  with u show "unat (u64_of_int (s32 (int k)) * 8) = 8 * k" by simp
qed

text \<open>The arguments a receive on an idle descriptor returns are those the peer sent.\<close>

lemma recv_args_step:
  assumes "link_contract S V" "fd \<in> open_fds V" "sane V p" "posted V (pos p) fd = []"
    "length (log V (pos p) fd) < 2 ^ 31" "takes V (params_at S) 20"
    "span (params_at S) 20 \<inter> inflight V (pos p) = {}"
    "span (params_at S) 20 \<inter> pending_sends V (pos p) (- {fd}) = {}"
    "peer V fd (sent V (pos p) fd) (recvs V (pos p) fd) = args_bytes n t m len ofs"
    "\<forall>x \<in> {n, t, m, len, ofs}. - (2 ^ 31) \<le> x \<and> x < 2 ^ 31"
  obtains r p' where "psipe_recv_args S fd p = (r, (n, t, m, len, ofs), p')"
    "fresh_handle V (pos p) fd r"
    "posts V fd p [T_In (args_bytes n t m len ofs)]
       [P_Recv (u64_of_int r) (params_at S) (args_bytes n t m len ofs)]
       (inflight V (pos p')) p'"
proof -
  obtain r p' where r: "psipe_recv S fd (params_at S) 20 p = (r, p')" "fresh_handle V (pos p) fd r"
    "posts V fd p [T_In (args_bytes n t m len ofs)]
       [P_Recv (u64_of_int r) (params_at S) (args_bytes n t m len ofs)]
       (inflight V (pos p')) p'"
    "peek p' (params_at S) 20 = args_bytes n t m len ofs"
    by (rule recv_step [OF assms(1-3), of 20 "params_at S" "args_bytes n t m len ofs"])
      (use assms(4-9) in simp_all)
  note dec = args_roundtrip [OF assms(10) r(4)]
  have "psipe_recv_args S fd p = (r, (n, t, m, len, ofs), p')"
    using dec [of 0] dec [of 1] dec [of 2] dec [of 3] dec [of 4] r(1)
    by (simp add: psipe_recv_args_def Let_def)
  with r(2,3) show ?thesis by (blast intro: that)
qed

text \<open>A wait for the last operation posted leaves nothing posted.\<close>

lemma wait_fresh:
  assumes "link_contract S V" "fd \<in> open_fds V" "sane V p"
    "posted V (pos p) fd = pre @ [q]" "post_id q = u64_of_int r" "u64_of_int r \<notin> post_id ` set pre"
  obtains r' p' where "psipe_wait S fd (u64_of_int r) p = (r', p')" "wait_ok (r', p') = Inr p'"
    "waited V fd p (pre @ [q]) [] p'"
  using wait_step [OF assms(1-3), of pre q "[]"] assms(4-6) by metis

end
