(* ===== verification/Chiplet.thy ===== *)
theory Chiplet
  imports Offload
begin

text \<open>
  A run of the chiplet program of chiplet-mm.c: on a link whose peer sends it arguments, both
  matrices and a part of the result, it sends back that part, computed.
\<close>

lemma inflight_none:
  assumes "posted V w = (\<lambda>_. [])"
  shows "inflight V w = {}" "pending_sends V w F = {}" "busy V w = {}"
  using assms by (simp_all add: inflight_def pending_sends_def busy_def)

lemma waited_all:
  assumes "waited V fd p done [] p'" "\<And>fd'. fd' \<noteq> fd \<Longrightarrow> posted V (pos p) fd' = []"
  shows "posted V (pos p') = (\<lambda>_. [])"
  using assms by (auto simp: waited_def)

text \<open>Three allocations: their buffers overlap neither each other nor the stack frame.\<close>

lemma three_buffers:
  assumes C: "link_contract S V" and p: "sane V p" "F \<subseteq> heap V (pos p)"
    and room: "unat a + unat b + unat c \<le> room V (pos p)"
  obtains pa pb pc p1 p2 p3 where
    "sys_memalign S al a p = (0, pa, p1)" "sys_memalign S al b p1 = (0, pb, p2)"
    "sys_memalign S al c p2 = (0, pc, p3)" "quiet V p p3"
    "span pa (unat a) \<inter> F = {}" "span pb (unat b) \<inter> F = {}" "span pc (unat c) \<inter> F = {}"
    "span pa (unat a) \<inter> span pb (unat b) = {}" "span pa (unat a) \<inter> span pc (unat c) = {}"
    "span pb (unat b) \<inter> span pc (unat c) = {}"
    "parts_taken V pa (unat a)" "parts_taken V pb (unat b)" "parts_taken V pc (unat c)"
proof -
  obtain pa p1 where a: "sys_memalign S al a p = (0, pa, p1)" "quiet V p p1"
      "span pa (unat a) \<inter> heap V (pos p) = {}"
      "heap V (pos p1) = heap V (pos p) \<union> span pa (unat a)"
      "room V (pos p1) = room V (pos p) - unat a" "parts_taken V pa (unat a)"
    by (rule memalign_step [OF C p(1), of a al]) (use room in auto)
  then have s1: "sane V p1" by (simp add: quiet_def)
  obtain pb p2 where b: "sys_memalign S al b p1 = (0, pb, p2)" "quiet V p1 p2"
      "span pb (unat b) \<inter> heap V (pos p1) = {}"
      "heap V (pos p2) = heap V (pos p1) \<union> span pb (unat b)"
      "room V (pos p2) = room V (pos p1) - unat b" "parts_taken V pb (unat b)"
    by (rule memalign_step [OF C s1, of b al]) (use a(5) room in auto)
  then have s2: "sane V p2" by (simp add: quiet_def)
  obtain pc p3 where c: "sys_memalign S al c p2 = (0, pc, p3)" "quiet V p2 p3"
      "span pc (unat c) \<inter> heap V (pos p2) = {}"
      "heap V (pos p3) = heap V (pos p2) \<union> span pc (unat c)"
      "room V (pos p3) = room V (pos p2) - unat c" "parts_taken V pc (unat c)"
    by (rule memalign_step [OF C s2, of c al]) (use a(5) b(5) room in auto)
  show ?thesis
    by (rule that [OF a(1) b(1) c(1) quiet_trans [OF quiet_trans [OF a(2) b(2)] c(2)]])
      (use a(3,4,6) b(3,4,6) c(3,6) p(2) in auto)
qed

text \<open>Three receives and the wait for the last: all three messages are in their buffers.\<close>

lemma three_receives:
  assumes C: "link_contract S V" "fd \<in> open_fds V" and p: "sane V p"
    "posted V (pos p) = (\<lambda>_. [])"
    and apart: "span pa (unat a) \<inter> span pb (unat b) = {}" "span pa (unat a) \<inter> span pc (unat c) = {}"
      "span pb (unat b) \<inter> span pc (unat c) = {}"
    and pos: "0 < a" "0 < b" "0 < c"
    and tk: "takes V pa (unat a)" "takes V pb (unat b)" "takes V pc (unat c)"
      "length (log V (pos p) fd) < 2 ^ 30"
    and peer: "peer V fd (sent V (pos p) fd) (recvs V (pos p) fd) = bA" "length bA = unat a"
      "peer V fd (sent V (pos p) fd) (Suc (recvs V (pos p) fd)) = bB" "length bB = unat b"
      "peer V fd (sent V (pos p) fd) (Suc (Suc (recvs V (pos p) fd))) = bC" "length bC = unat c"
  obtains rA rB rC rw p1 p2 p3 p4 hA hB hC where
    "psipe_recv S fd pa a p = (rA, p1)" "handle_of (rA, p1) = Inr (hA, p1)"
    "psipe_recv S fd pb b p1 = (rB, p2)" "handle_of (rB, p2) = Inr (hB, p2)"
    "psipe_recv S fd pc c p2 = (rC, p3)" "handle_of (rC, p3) = Inr (hC, p3)"
    "psipe_wait S fd hC p3 = (rw, p4)" "wait_ok (rw, p4) = Inr p4"
    "sane V p4" "posted V (pos p4) = (\<lambda>_. [])"
    "log V (pos p4) fd = log V (pos p) fd @ [T_In bA, T_In bB, T_In bC]"
    "peek p4 pa (unat a) = bA" "peek p4 pb (unat b) = bB" "peek p4 pc (unat c) = bC"
proof -
  note i0 = inflight_none [OF p(2)]
  obtain rA p1 where A: "psipe_recv S fd pa a p = (rA, p1)" "fresh_handle V (pos p) fd rA"
      "posts V fd p [T_In bA] [P_Recv (u64_of_int rA) pa bA] (inflight V (pos p1)) p1"
    by (rule recv_step [OF C p(1) pos(1) tk(1), of bA]) (use p(2) i0 peer(1,2) tk(4) in auto)
  have i1: "inflight V (pos p1) = span pa (unat a)" using inflight_recv [OF A(3)] i0 peer(2) by simp
  have P1: "sane V p1" "posted V (pos p1) = (\<lambda>_. [])(fd := [P_Recv (u64_of_int rA) pa bA])"
    "sent V (pos p1) fd = sent V (pos p) fd" "recvs V (pos p1) fd = Suc (recvs V (pos p) fd)"
    "log V (pos p1) fd = log V (pos p) fd @ [T_In bA]"
    using posts_sent [OF A(3)] posts_recvs [OF A(3)] A(3) p(2) by (simp_all add: posts_def)
  obtain rB p2 where B: "psipe_recv S fd pb b p1 = (rB, p2)" "fresh_handle V (pos p1) fd rB"
      "posts V fd p1 [T_In bB] [P_Recv (u64_of_int rB) pb bB] (inflight V (pos p2)) p2"
    by (rule recv_step [OF C P1(1) pos(2) tk(2), of bB])
      (use P1 i1 pending_posts [OF A(3)] i0 apart(1) peer(3,4) tk(4) in auto)
  have i2: "inflight V (pos p2) = span pa (unat a) \<union> span pb (unat b)"
    using inflight_recv [OF B(3)] i1 peer(4) by simp
  have P2: "sane V p2" "posted V (pos p2) = (\<lambda>_. [])(fd :=
      [P_Recv (u64_of_int rA) pa bA, P_Recv (u64_of_int rB) pb bB])"
    "sent V (pos p2) fd = sent V (pos p) fd" "recvs V (pos p2) fd = Suc (Suc (recvs V (pos p) fd))"
    "log V (pos p2) fd = log V (pos p) fd @ [T_In bA, T_In bB]"
    using posts_sent [OF B(3)] posts_recvs [OF B(3)] B(3) P1 by (simp_all add: posts_def)
  obtain rC p3 where K: "psipe_recv S fd pc c p2 = (rC, p3)" "fresh_handle V (pos p2) fd rC"
      "posts V fd p2 [T_In bC] [P_Recv (u64_of_int rC) pc bC] (inflight V (pos p3)) p3"
    by (rule recv_step [OF C P2(1) pos(3) tk(3), of bC])
      (use P2 i2 pending_posts [OF A(3)] pending_posts [OF B(3)] i0 apart(2,3) peer(5,6) tk(4) in auto)
  have P3: "sane V p3" "posted V (pos p3) fd =
      [P_Recv (u64_of_int rA) pa bA, P_Recv (u64_of_int rB) pb bB] @ [P_Recv (u64_of_int rC) pc bC]"
    "log V (pos p3) fd = log V (pos p) fd @ [T_In bA, T_In bB, T_In bC]" "\<And>fd'. fd' \<noteq> fd \<Longrightarrow> posted V (pos p3) fd' = []"
    using K(3) P2 by (simp_all add: posts_def)
  obtain rw p4 where W: "psipe_wait S fd (u64_of_int rC) p3 = (rw, p4)" "wait_ok (rw, p4) = Inr p4"
      "waited V fd p3 ([P_Recv (u64_of_int rA) pa bA, P_Recv (u64_of_int rB) pb bB] @
         [P_Recv (u64_of_int rC) pc bC]) [] p4"
    by (rule wait_fresh [OF C P3(1,2), of rC]) (use K(2) P2(2) in \<open>auto simp: fresh_handle_def\<close>)
  show ?thesis
    by (rule that [OF A(1) handle_of_fresh [OF A(2)] B(1) handle_of_fresh [OF B(2)]
          K(1) handle_of_fresh [OF K(2)] W(1,2) _ waited_all [OF W(3) P3(4)]])
      (use W(3) P3(3) in \<open>auto simp: waited_def simp flip: peer(2,4,6)\<close>)
qed

text \<open>Sending a buffer on an idle descriptor and waiting for it.\<close>

lemma send_and_wait:
  assumes C: "link_contract S V" "fd \<in> open_fds V" and p: "sane V p"
    "posted V (pos p) = (\<lambda>_. [])" "0 < l" "takes V a (unat l)" "length (log V (pos p) fd) < 2 ^ 31"
  obtains r rw p1 p2 h where
    "psipe_send S fd a l p = (r, p1)" "handle_of (r, p1) = Inr (h, p1)"
    "psipe_wait S fd h p1 = (rw, p2)" "wait_ok (rw, p2) = Inr p2"
    "sane V p2" "posted V (pos p2) = (\<lambda>_. [])"
    "log V (pos p2) fd = log V (pos p) fd @ [T_Out (peek p a (unat l))]"
proof -
  obtain r p1 where s: "psipe_send S fd a l p = (r, p1)" "fresh_handle V (pos p) fd r"
      "posts V fd p [T_Out (peek p a (unat l))]
        [send_op V (pos p) fd (u64_of_int r) a (peek p a (unat l))] (inflight V (pos p)) p1"
    by (rule send_step [OF C p(1,3,4,5)]) (use p(2) inflight_none [OF p(2)] in auto)
  have P1: "sane V p1" "posted V (pos p1) fd = [] @ [P_Sent (u64_of_int r)]"
    "\<And>fd'. fd' \<noteq> fd \<Longrightarrow> posted V (pos p1) fd' = []"
    using s(3) p(2) by (simp_all add: posts_def send_op_def)
  obtain rw p2 where w: "psipe_wait S fd (u64_of_int r) p1 = (rw, p2)" "wait_ok (rw, p2) = Inr p2"
      "waited V fd p1 ([] @ [P_Sent (u64_of_int r)]) [] p2"
    by (rule wait_fresh [OF C P1(1,2), of r]) auto
  show ?thesis
    by (rule that [OF s(1) handle_of_fresh [OF s(2)] w(1,2) _ waited_all [OF w(3) P1(3)]])
      (use w(3) s(3) in \<open>simp_all add: waited_def posts_def\<close>)
qed

text \<open>The first message: the program has the arguments and nothing is posted any more.\<close>

lemma receive_args:
  assumes "link_contract S V" "fd \<in> open_fds V" "sane V p" "posted V (pos p) = (\<lambda>_. [])"
    "length (log V (pos p) fd) < 2 ^ 31" "takes V (params_at S) 20"
    "peer V fd (sent V (pos p) fd) (recvs V (pos p) fd) = args_bytes n t m len ofs"
    "\<forall>x \<in> {n, t, m, len, ofs}. - (2 ^ 31) \<le> x \<and> x < 2 ^ 31"
  obtains r rw p1 p2 where "psipe_recv_args S fd p = (r, (n, t, m, len, ofs), p1)"
    "psipe_wait S fd (u64_of_int r) p1 = (rw, p2)" "wait_ok (rw, p2) = Inr p2"
    "sane V p2" "posted V (pos p2) = (\<lambda>_. [])"
    "log V (pos p2) fd = log V (pos p) fd @ [T_In (args_bytes n t m len ofs)]" "heap V (pos p2) = heap V (pos p)"
    "room V (pos p2) = room V (pos p)"
proof -
  let ?q = "\<lambda>r. P_Recv (u64_of_int r) (params_at S) (args_bytes n t m len ofs)"
  obtain r p1 where a: "psipe_recv_args S fd p = (r, (n, t, m, len, ofs), p1)"
      "posts V fd p [T_In (args_bytes n t m len ofs)] [?q r] (inflight V (pos p1)) p1"
    by (rule recv_args_step [OF assms(1-3) _ assms(5,6) _ _ assms(7,8)])
      (use assms(4) inflight_none [OF assms(4)] in auto)
  have P1: "sane V p1" "posted V (pos p1) fd = [] @ [?q r]"
    "\<And>fd'. fd' \<noteq> fd \<Longrightarrow> posted V (pos p1) fd' = []"
    using a(2) assms(4) by (simp_all add: posts_def)
  obtain rw p2 where w: "psipe_wait S fd (u64_of_int r) p1 = (rw, p2)" "wait_ok (rw, p2) = Inr p2"
      "waited V fd p1 ([] @ [?q r]) [] p2"
    by (rule wait_fresh [OF assms(1,2) P1(1,2), of r]) auto
  show ?thesis
    by (rule that [OF a(1) w(1,2) _ waited_all [OF w(3) P1(3)]])
      (use w(3) a(2) in \<open>simp_all add: waited_def posts_def\<close>)
qed

section \<open>The whole program\<close>

text \<open>
  \<open>asked V fd n t m len ofs bA bB bC\<close>: what the peer sends is one task of the master, the cells
  \<open>ofs\<close> to \<open>ofs + len\<close> of an \<open>n\<close> times \<open>m\<close> product, in sizes an \<^verbatim>\<open>int\<close> can count.
\<close>

definition asked ::
    "'w link_view \<Rightarrow> int \<Rightarrow> nat \<Rightarrow> nat \<Rightarrow> nat \<Rightarrow> nat \<Rightarrow> nat \<Rightarrow> u8 list \<Rightarrow> u8 list \<Rightarrow> u8 list \<Rightarrow> bool" where
  "asked V fd n t m len ofs bA bB bC \<longleftrightarrow>
     peer V fd [] 0 = args_bytes (int n) (int t) (int m) (int len) (int ofs) \<and>
     peer V fd [] 1 = bA \<and> peer V fd [] 2 = bB \<and> peer V fd [] 3 = bC \<and>
     length bA = 8 * (n * t) \<and> length bB = 8 * (t * m) \<and> length bC = 8 * len \<and>
     0 < n * t \<and> 0 < t * m \<and> 0 < len \<and> ofs + len \<le> n * m"

definition int_sized :: "nat \<Rightarrow> nat \<Rightarrow> nat \<Rightarrow> bool" where
  "int_sized n t m \<longleftrightarrow>
     8 * (n * t) < 2 ^ 31 \<and> 8 * (t * m) < 2 ^ 31 \<and> 8 * (n * m) < 2 ^ 31 \<and>
     n < 2 ^ 31 \<and> t < 2 ^ 31 \<and> m < 2 ^ 31"

lemma chiplet_run:
  assumes st: "started S V p0 devs p" and fd: "fd = hd (devs_fds devs)"
    and task: "asked V fd n t m len ofs bA bB bC" and sz: "int_sized n t m"
    and room: "8 * (n * t) + 8 * (t * m) + 8 * len \<le> room V (pos p)"
  shows "\<exists>p'. chiplet_main add mul S p0 = Inr p' \<and> posted V (pos p') = (\<lambda>_. []) \<and> sane V p' \<and>
    log V (pos p') fd = [T_In (args_bytes (int n) (int t) (int m) (int len) (int ofs)), T_In bA, T_In bB,
      T_In bC, T_Out (unelems (map (\<lambda>x. cell add mul t m (elems bA) (elems bB) (ofs + x) (elems bC ! x))
        [0..<len]))]"
proof -
  note S = st [unfolded started_def] and T = task [unfolded asked_def] and Z = sz [unfolded int_sized_def]
  have small: "n * t < 2 ^ 31" "t * m < 2 ^ 31" "n * m < 2 ^ 31" using Z by linarith+
  have len: "8 * len < 2 ^ 31" and ofs: "ofs < 2 ^ 31" using T Z by linarith+
  obtain rv where open0: "psipe_open_devs S p0 = Inr (rv, Some devs, p)" using S by blast
  have load0: "load (devs_fds devs) 0 = Inr fd" using S fd by (simp add: load_def hd_conv_nth)
  have C: "link_contract S V" "fd \<in> open_fds V"
    using S fd by (auto simp: hd_in_set subset_iff)
  have p: "sane V p" "posted V (pos p) = (\<lambda>_. [])" "log V (pos p) fd = []"
    using S by auto
  then have p0: "sent V (pos p) fd = []" "recvs V (pos p) fd = 0"
    by (simp_all add: sent_def recvs_def)
  obtain r0 rw p1 p2 where args:
    "psipe_recv_args S fd p = (r0, (int n, int t, int m, int len, int ofs), p1)"
    "psipe_wait S fd (u64_of_int r0) p1 = (rw, p2)" "wait_ok (rw, p2) = Inr p2"
    and p2: "sane V p2" "posted V (pos p2) = (\<lambda>_. [])"
    "log V (pos p2) fd = [T_In (args_bytes (int n) (int t) (int m) (int len) (int ofs))]" "heap V (pos p2) = heap V (pos p)" "room V (pos p2) = room V (pos p)"
    by (rule receive_args [OF C p(1,2)]) (use S T Z len ofs p(3) p0 in auto)
  let ?a = "u64_of_int (s32 (int n * int t)) * 8" and ?b = "u64_of_int (s32 (int t * int m)) * 8"
    and ?c = "u64_of_int (int len) * 8"
  have u: "unat ?a = 8 * (n * t)" "unat ?b = 8 * (t * m)" "unat ?c = 8 * len"
    using unat_size8(1) [of "n * t"] unat_size8(1) [of "t * m"] unat_size8(2) [of len] Z len
    by simp_all
  have u0: "0 < ?a" "0 < ?b" "0 < ?c"
    using u T by (simp_all only: word_less_nat_alt unat_0) simp_all
  obtain pa pb pc p3 p4 p5 where mem: "sys_memalign S 8 ?a p2 = (0, pa, p3)"
      "sys_memalign S 8 ?b p3 = (0, pb, p4)" "sys_memalign S 8 ?c p4 = (0, pc, p5)" "quiet V p2 p5"
      "span pa (unat ?a) \<inter> span pb (unat ?b) = {}" "span pa (unat ?a) \<inter> span pc (unat ?c) = {}"
      "span pb (unat ?b) \<inter> span pc (unat ?c) = {}"
      "parts_taken V pa (unat ?a)" "parts_taken V pb (unat ?b)" "parts_taken V pc (unat ?c)"
    by (rule three_buffers [OF C(1) p2(1), of "{}" ?a ?b ?c 8]) (use u room p2(5) in auto)
  have p5: "sane V p5" "posted V (pos p5) = (\<lambda>_. [])" 
    "log V (pos p5) fd = [T_In (args_bytes (int n) (int t) (int m) (int len) (int ofs))]"
    using mem(4) p2 p by (auto simp: quiet_def)
  then have p5': "sent V (pos p5) fd = []" "recvs V (pos p5) fd = 1"
    by (simp_all add: sent_def recvs_def)
  have tk: "takes V pa (unat ?a)" "takes V pb (unat ?b)" "takes V pc (unat ?c)"
    using mem(8-10) u0 by (simp_all only: word_less_nat_alt unat_0 parts_taken_all)
  obtain rA rB rC rw2 p6 p7 p8 p9 hA hB hC where data:
    "psipe_recv S fd pa ?a p5 = (rA, p6)" "handle_of (rA, p6) = Inr (hA, p6)"
    "psipe_recv S fd pb ?b p6 = (rB, p7)" "handle_of (rB, p7) = Inr (hB, p7)"
    "psipe_recv S fd pc ?c p7 = (rC, p8)" "handle_of (rC, p8) = Inr (hC, p8)"
    "psipe_wait S fd hC p8 = (rw2, p9)" "wait_ok (rw2, p9) = Inr p9"
    and p9: "sane V p9" "posted V (pos p9) = (\<lambda>_. [])"
      "log V (pos p9) fd = log V (pos p5) fd @ [T_In bA, T_In bB, T_In bC]"
    and bufs: "peek p9 pa (unat ?a) = bA" "peek p9 pb (unat ?b) = bB" "peek p9 pc (unat ?c) = bC"
    by (rule three_receives [OF C p5(1,2) mem(5-7) u0 tk, of bA bB bC])
      (use T u p5(3) p5' in \<open>simp_all flip: numeral_2_eq_2 numeral_3_eq_3\<close>)
  let ?R = "map (\<lambda>x. cell add mul t m (elems bA) (elems bB) (ofs + x) (elems bC ! x)) [0..<len]"
  have comp: "chiplet_compute add mul (int t) (int m) (int len) (int ofs) (elems bA) (elems bB)
      (elems bC) = Inr ?R"
    by (rule chiplet_cells [where n = n, OF _ _ _ _ small]) (use T in auto)
  let ?p = "poke pc (unelems ?R) p9"
  have out: "peek ?p pc (unat ?c) = unelems ?R"
    using ram_bytes_store [of "unelems ?R" "pmem p9" pc] len u(3) by simp
  obtain rs rw3 p10 p11 h where ans: "psipe_send S fd pc ?c ?p = (rs, p10)"
    "handle_of (rs, p10) = Inr (h, p10)" "psipe_wait S fd h p10 = (rw3, p11)"
    "wait_ok (rw3, p11) = Inr p11"
    and p11: "sane V p11" "posted V (pos p11) = (\<lambda>_. [])"
      "log V (pos p11) fd = log V (pos ?p) fd @ [T_Out (peek ?p pc (unat ?c))]"
    by (rule send_and_wait [OF C _ _ u0(3) tk(3), of ?p])
      (use p9 p5 sane_poke [OF C(1) p9(1)] inflight_none [OF p9(2)] in auto)
  have fl: "quiet V p11 (snd (psipe_flush S fd p11))"
    by (rule flush_step [OF C p11(1)]) (simp add: p11(2))
  then have "sane V (snd (psipe_flush S fd p11))" by (simp add: quiet_def)
  then obtain p12 where cl: "psipe_close_devs S devs (snd (psipe_flush S fd p11)) = Inr p12"
      "quiet V (snd (psipe_flush S fd p11)) p12"
    using close_devs [OF C(1)] S by blast
  have "log V (pos p12) fd = [T_In (args_bytes (int n) (int t) (int m) (int len) (int ofs)), T_In bA,
      T_In bB, T_In bC, T_Out (unelems ?R)]" "posted V (pos p12) = (\<lambda>_. [])" "sane V p12"
    using quiet_trans [OF fl cl(2)] p11 p9(3) p5(3) out by (simp_all add: quiet_def)
  moreover have "chiplet_main add mul S p0 = Inr p12"
    unfolding chiplet_main_def open0 bindR.simps prod.case option.case load0 args mem(1-3) Let_def
      data bufs comp ans cl(1) by simp
  ultimately show ?thesis by blast
qed

end
