(* ===== verification/Master.thy ===== *)
theory Master
  imports Chiplet
begin

text \<open>
  A run of \<^verbatim>\<open>matmul\<close> of master-mm.c: what it hands out to the devices, what comes back, and that the
  result is the sequential one when a chiplet program is behind every device.
\<close>

section \<open>One device\<close>

text \<open>A send of a buffer that no receive will change and that is not the stack frame.\<close>

lemma send_next:
  assumes C: "link_contract S V" "fd \<in> open_fds V"
    and q: "posts V fd p ts os X q" "\<forall>x \<in> set os. \<not> is_recv x"
      "length (log V (pos p) fd) + length ts < 2 ^ 31" "inflight V (pos p) \<subseteq> X"
    and a: "0 < l" "takes V a (unat l)" "span a (unat l) \<inter> X = {}"
  obtains r q' op where "psipe_send S fd a l q = (r, q')" "handle_of (r, q') = Inr (u64_of_int r, q')"
    "posts V fd p (ts @ [T_Out (peek p a (unat l))]) (os @ [op]) X q'"
    "\<not> is_recv op" "post_id op = u64_of_int r"
    "pending_sends V (pos q') UNIV \<subseteq> pending_sends V (pos q) UNIV \<union> span a (unat l)"
proof -
  have i: "inflight V (pos q) = inflight V (pos p)" using inflight_posts [OF q(1)] q(2) by auto
  have Q: "sane V q" "length (log V (pos q) fd) < 2 ^ 31" "same_outside X (pmem p) (pmem q)"
    using q(1,3) by (simp_all add: posts_def)
  let ?op = "\<lambda>r. send_op V (pos q) fd (u64_of_int r) a (peek q a (unat l))"
  obtain r q' where s: "psipe_send S fd a l q = (r, q')" "fresh_handle V (pos q) fd r"
      "posts V fd q [T_Out (peek q a (unat l))] [?op r] (inflight V (pos q)) q'"
    by (rule send_step [OF C Q(1) a(1,2) Q(2)]) (use q(4) a(3) i in auto)
  have "posts V fd q [T_Out (peek p a (unat l))] [?op r] X q'"
    using posts_mono [OF s(3)] q(4) i ram_bytes_same [OF Q(3) a(3)] by simp
  from posts_trans [OF q(1) this] s(1) handle_of_fresh [OF s(2)] show ?thesis
    using pending_posts [OF s(3)] by (intro that [of r q' "?op r"]) (auto simp: send_op_def)
qed

text \<open>The arguments, on an idle descriptor: they are sent at once.\<close>

lemma send_args_first:
  assumes C: "link_contract S V" "fd \<in> open_fds V" and p: "sane V p" "posted V (pos p) fd = []"
      "length (log V (pos p) fd) < 2 ^ 31" "takes V (params_at S) 20"
    and X: "inflight V (pos p) \<subseteq> X" "span (params_at S) 20 \<subseteq> X"
      "span (params_at S) 20 \<inter> busy V (pos p) = {}"
  obtains r q where "psipe_send_args S fd n t m len ofs p = (r, q)"
    "handle_of (r, q) = Inr (u64_of_int r, q)"
    "posts V fd p [T_Out (args_bytes n t m len ofs)] [P_Sent (u64_of_int r)] X q"
proof -
  let ?p = "poke (params_at S) (args_bytes n t m len ofs) p"
  have P: "sane V ?p" by (rule sane_poke [OF C(1) p(1)]) (use X(3) in simp)
  obtain r q where s: "psipe_send S fd (params_at S) 20 ?p = (r, q)" "fresh_handle V (pos ?p) fd r"
      "posts V fd ?p [T_Out (peek ?p (params_at S) (unat (20 :: u64)))]
        [send_op V (pos ?p) fd (u64_of_int r) (params_at S) (peek ?p (params_at S) (unat (20 :: u64)))]
        (inflight V (pos ?p)) q"
    by (rule send_step [OF C P, of 20 "params_at S"]) (use p X(3) in \<open>auto simp: busy_def\<close>)
  have "peek ?p (params_at S) (unat (20 :: u64)) = args_bytes n t m len ofs"
    using ram_bytes_store [of "args_bytes n t m len ofs" "pmem p" "params_at S"] by simp
  with s(3) X(1) p(2) have "posts V fd ?p [T_Out (args_bytes n t m len ofs)] [P_Sent (u64_of_int r)] X q"
    using posts_mono by (metis pos_poke send_op_def)
  then have "posts V fd p [T_Out (args_bytes n t m len ofs)] [P_Sent (u64_of_int r)] X q"
    by (rule posts_poke) (simp add: X(2))
  with s(1) handle_of_fresh [OF s(2)] show ?thesis
    by (intro that) (simp_all add: psipe_send_args_def)
qed

text \<open>Everything the master posts on one device.\<close>

lemma task_posted:
  assumes C: "link_contract S V" "fd \<in> open_fds V"
    and p: "sane V p" "posted V (pos p) fd = []" "log V (pos p) fd = []" "takes V (params_at S) 20"
    and X: "inflight V (pos p) \<subseteq> X" "span (params_at S) 20 \<subseteq> X"
      "span (params_at S) 20 \<inter> busy V (pos p) = {}"
    and a: "0 < la" "takes V a (unat la)" "span a (unat la) \<inter> X = {}"
    and b: "0 < lb" "takes V b (unat lb)" "span b (unat lb) \<inter> X = {}"
    and c: "0 < lc" "takes V c (unat lc)" "span c (unat lc) \<inter> X = {}"
      "span c (unat lc) \<inter> pending_sends V (pos p) UNIV = {}"
    and out: "peer V fd [args_bytes n t m len ofs, peek p a (unat la), peek p b (unat lb),
        peek p c (unat lc)] 0 = out" "length out = unat lc"
  obtains r1 r2 r3 r4 r5 q1 q2 q3 q4 q5 h1 h2 h3 h4 h os where
    "psipe_send_args S fd n t m len ofs p = (r1, q1)" "handle_of (r1, q1) = Inr (h1, q1)"
    "psipe_send S fd a la q1 = (r2, q2)" "handle_of (r2, q2) = Inr (h2, q2)"
    "psipe_send S fd b lb q2 = (r3, q3)" "handle_of (r3, q3) = Inr (h3, q3)"
    "psipe_send S fd c lc q3 = (r4, q4)" "handle_of (r4, q4) = Inr (h4, q4)"
    "psipe_recv S fd c lc q4 = (r5, q5)" "handle_of (r5, q5) = Inr (h, q5)"
    "posts V fd p (map T_Out [args_bytes n t m len ofs, peek p a (unat la), peek p b (unat lb),
        peek p c (unat lc)] @ [T_In out]) (os @ [P_Recv h c out]) (X \<union> span c (unat lc)) q5"
    "\<forall>x \<in> set os. \<not> is_recv x" "h \<notin> post_id ` set os"
    "pending_sends V (pos q5) UNIV \<subseteq>
       pending_sends V (pos p) UNIV \<union> span a (unat la) \<union> span b (unat lb) \<union> span c (unat lc)"
proof -
  obtain r1 q1 where s1: "psipe_send_args S fd n t m len ofs p = (r1, q1)"
    "handle_of (r1, q1) = Inr (u64_of_int r1, q1)"
    "posts V fd p [T_Out (args_bytes n t m len ofs)] [P_Sent (u64_of_int r1)] X q1"
    by (rule send_args_first [OF C p(1,2) _ p(4) X]) (use p(3) in auto)
  have d1: "pending_sends V (pos q1) UNIV = pending_sends V (pos p) UNIV"
    using pending_posts [OF s1(3)] by auto
  obtain r2 q2 o2 where s2: "psipe_send S fd a la q1 = (r2, q2)"
    "handle_of (r2, q2) = Inr (u64_of_int r2, q2)"
    "posts V fd p ([T_Out (args_bytes n t m len ofs)] @ [T_Out (peek p a (unat la))])
       ([P_Sent (u64_of_int r1)] @ [o2]) X q2" "\<not> is_recv o2" "post_id o2 = u64_of_int r2"
    "pending_sends V (pos q2) UNIV \<subseteq> pending_sends V (pos q1) UNIV \<union> span a (unat la)"
    by (rule send_next [OF C s1(3) _ _ X(1) a]) (use p(3) in auto)
  obtain r3 q3 o3 where s3: "psipe_send S fd b lb q2 = (r3, q3)"
    "handle_of (r3, q3) = Inr (u64_of_int r3, q3)"
    "posts V fd p (([T_Out (args_bytes n t m len ofs)] @ [T_Out (peek p a (unat la))]) @
        [T_Out (peek p b (unat lb))]) (([P_Sent (u64_of_int r1)] @ [o2]) @ [o3]) X q3"
    "\<not> is_recv o3" "post_id o3 = u64_of_int r3"
    "pending_sends V (pos q3) UNIV \<subseteq> pending_sends V (pos q2) UNIV \<union> span b (unat lb)"
    by (rule send_next [OF C s2(3) _ _ X(1) b]) (use p(3) s2(4) in auto)
  let ?ts = "(([T_Out (args_bytes n t m len ofs)] @ [T_Out (peek p a (unat la))]) @
      [T_Out (peek p b (unat lb))]) @ [T_Out (peek p c (unat lc))]"
  obtain r4 q4 o4 where s4: "psipe_send S fd c lc q3 = (r4, q4)"
    "handle_of (r4, q4) = Inr (u64_of_int r4, q4)"
    "posts V fd p ?ts ((([P_Sent (u64_of_int r1)] @ [o2]) @ [o3]) @ [o4]) X q4"
    "\<not> is_recv o4" "post_id o4 = u64_of_int r4"
    "pending_sends V (pos q4) UNIV \<subseteq> pending_sends V (pos q3) UNIV \<union> span c (unat lc)"
    by (rule send_next [OF C s3(3) _ _ X(1) c(1-3)]) (use p(3) s2(4) s3(4) in auto)
  let ?os = "[P_Sent (u64_of_int r1), o2, o3, o4]"
  have os: "\<forall>x \<in> set ?os. \<not> is_recv x" using s2(4) s3(4) s4(4) by simp
  have Q: "sane V q4" "posted V (pos q4) fd = ?os" "length (log V (pos q4) fd) < 2 ^ 31"
    "peer V fd (sent V (pos q4) fd) (recvs V (pos q4) fd) = out"
    using s4(3) p(2,3) out(1) by (simp_all add: posts_def sent_def recvs_def)
  have i: "inflight V (pos q4) = inflight V (pos p)" using inflight_posts [OF s4(3)] os by auto
  have d4: "pending_sends V (pos q4) (- {fd}) = pending_sends V (pos p) (- {fd})"
    using pending_posts [OF s4(3)] by auto
  then have d4': "span c (unat lc) \<inter> pending_sends V (pos q4) (- {fd}) = {}"
    using c(4) pending_mono [OF subset_UNIV, of V "pos p" "- {fd}"] by blast
  obtain r5 q5 where s5: "psipe_recv S fd c lc q4 = (r5, q5)" "fresh_handle V (pos q4) fd r5"
    "posts V fd q4 [T_In out] [P_Recv (u64_of_int r5) c out] (inflight V (pos q5)) q5"
    by (rule recv_step [OF C Q(1) c(1,2) Q(3) _ d4' Q(4) out(2)]) (use i X(1) c(3) in auto)
  have "inflight V (pos q5) \<subseteq> X \<union> span c (unat lc)"
    unfolding inflight_recv [OF s5(3)] i out(2) using X(1) by (rule Un_mono) simp
  then have "posts V fd q4 [T_In out] [P_Recv (u64_of_int r5) c out] (X \<union> span c (unat lc)) q5"
    by (rule posts_mono [OF s5(3)])
  from posts_trans [OF posts_mono [OF s4(3)] this] have P: "posts V fd p
      (map T_Out [args_bytes n t m len ofs, peek p a (unat la), peek p b (unat lb), peek p c (unat lc)] @
        [T_In out]) (?os @ [P_Recv (u64_of_int r5) c out]) (X \<union> span c (unat lc)) q5" by simp
  have h: "u64_of_int r5 \<notin> post_id ` set ?os" using s5(2) Q(2) by (simp add: fresh_handle_def)
  have "pending_sends V (pos q5) UNIV = pending_sends V (pos q4) UNIV"
    using pending_posts [OF s5(3)] by auto
  then have "pending_sends V (pos q5) UNIV \<subseteq>
      pending_sends V (pos p) UNIV \<union> span a (unat la) \<union> span b (unat lb) \<union> span c (unat lc)"
    using s2(6) s3(6) s4(6) d1 by blast
  from that [OF s1(1,2) s2(1,2) s3(1,2) s4(1,2) s5(1) handle_of_fresh [OF s5(2)] P os h this]
  show ?thesis .
qed

section \<open>All devices\<close>

text \<open>The length of a part, and the four messages of the task of device \<open>i\<close> of \<open>d\<close>.\<close>

definition part_len :: "nat \<Rightarrow> nat \<Rightarrow> nat \<Rightarrow> nat" where
  "part_len N d i = part_start N d (Suc i) - part_start N d i"

definition task_msgs ::
    "(u64 \<Rightarrow> u8) \<Rightarrow> u64 \<Rightarrow> u64 \<Rightarrow> u64 \<Rightarrow> nat \<Rightarrow> nat \<Rightarrow> nat \<Rightarrow> nat \<Rightarrow> nat \<Rightarrow> u8 list list" where
  "task_msgs mem C A B n t m d i =
     [args_bytes (int n) (int t) (int m) (int (part_len (n * m) d i)) (int (part_start (n * m) d i)),
      ram_bytes mem A (8 * (n * t)), ram_bytes mem B (8 * (t * m)),
      ram_bytes mem (C + of_nat (8 * part_start (n * m) d i)) (8 * part_len (n * m) d i)]"

text \<open>
  The devices can take the matrices, which overlap neither the stack frame nor the result; no part is empty; and every device has a
  program behind it that answers its task with as many bytes as the part has.
\<close>

definition laid_out ::
    "'w sys \<Rightarrow> 'w link_view \<Rightarrow> u64 \<Rightarrow> u64 \<Rightarrow> u64 \<Rightarrow> nat \<Rightarrow> nat \<Rightarrow> nat \<Rightarrow> bool" where
  "laid_out S V C A B n t m \<longleftrightarrow>
     takes V A (8 * (n * t)) \<and> takes V B (8 * (t * m)) \<and> parts_taken V C (8 * (n * m)) \<and>
     span A (8 * (n * t)) \<inter> (span (params_at S) 20 \<union> span C (8 * (n * m))) = {} \<and>
     span B (8 * (t * m)) \<inter> (span (params_at S) 20 \<union> span C (8 * (n * m))) = {} \<and>
     span (params_at S) 20 \<inter> span C (8 * (n * m)) = {}"

definition served ::
    "'w sys \<Rightarrow> 'w link_view \<Rightarrow> 'w proc \<Rightarrow> psipe_devices \<Rightarrow> 'w proc \<Rightarrow> u64 \<Rightarrow> u64 \<Rightarrow> u64 \<Rightarrow> nat \<Rightarrow> nat \<Rightarrow> nat \<Rightarrow>
      nat \<Rightarrow> (nat \<Rightarrow> u8 list) \<Rightarrow> bool" where
  "served S V p0 devs p C A B n t m d out \<longleftrightarrow>
     started S V p0 devs p \<and> d = length (devs_fds devs) \<and> laid_out S V C A B n t m \<and>
     int_sized n t m \<and> 0 < t \<and> d \<le> n * m \<and>
     (\<forall>i < d. peer V (devs_fds devs ! i) (task_msgs (pmem p) C A B n t m d i) 0 = out i \<and>
        length (out i) = 8 * part_len (n * m) d i)"

definition handed_out ::
    "'w sys \<Rightarrow> 'w link_view \<Rightarrow> psipe_devices \<Rightarrow> 'w proc \<Rightarrow> u64 \<Rightarrow> u64 \<Rightarrow> u64 \<Rightarrow> nat \<Rightarrow> nat \<Rightarrow> nat \<Rightarrow> nat \<Rightarrow>
      (nat \<Rightarrow> u8 list) \<Rightarrow> nat \<Rightarrow> u64 list \<Rightarrow> 'w proc \<Rightarrow> bool" where
  "handed_out S V devs p C A B n t m d out i hs q \<longleftrightarrow>
     sane V q \<and> length hs = d \<and>
     (\<forall>k < i. log V (pos q) (devs_fds devs ! k) =
          map T_Out (task_msgs (pmem p) C A B n t m d k) @ [T_In (out k)] \<and>
        (\<exists>pre. (\<forall>x \<in> set pre. \<not> is_recv x) \<and> hs ! k \<notin> post_id ` set pre \<and>
           posted V (pos q) (devs_fds devs ! k) =
             pre @ [P_Recv (hs ! k) (C + of_nat (8 * part_start (n * m) d k)) (out k)])) \<and>
     (\<forall>fd. fd \<notin> set (take i (devs_fds devs)) \<longrightarrow>
        log V (pos q) fd = [] \<and> posted V (pos q) fd = []) \<and>
     inflight V (pos q) \<subseteq> span C (8 * part_start (n * m) d i) \<and>
     pending_sends V (pos q) UNIV \<subseteq>
       span A (8 * (n * t)) \<union> span B (8 * (t * m)) \<union> span C (8 * part_start (n * m) d i) \<and>
     same_outside (span (params_at S) 20 \<union> span C (8 * part_start (n * m) d i)) (pmem p) (pmem q)"

lemma part_facts:
  assumes "d \<le> N" "i < d"
  shows "0 < part_len N d i" "part_start N d i + part_len N d i = part_start N d (Suc i)"
    "part_start N d (Suc i) \<le> N" "PART_FOR_DEV (int i) (int N) (int d) = int (part_len N d i)"
proof -
  have d: "0 < d" using assms by simp
  have "1 \<le> N div d" using div_le_mono [OF assms(1), of d] d by simp
  moreover have "min i (N mod d) \<le> min (Suc i) (N mod d)" by simp
  ultimately have "part_start N d i < part_start N d (Suc i)"
    unfolding part_start_def mult_Suc by linarith
  then show pos: "0 < part_len N d i"
    and sum: "part_start N d i + part_len N d i = part_start N d (Suc i)"
    by (simp_all add: part_len_def)
  show "PART_FOR_DEV (int i) (int N) (int d) = int (part_len N d i)"
    using part_start_Suc [of N d i] sum by linarith
  show "part_start N d (Suc i) \<le> N" by (rule part_start_bounds(3) [OF d]) (use assms(2) in simp)
qed

lemma take_nth_distinct:
  "distinct xs \<Longrightarrow> i < length xs \<Longrightarrow> k < length xs \<Longrightarrow> xs ! k \<in> set (take i xs) \<longleftrightarrow> k < i"
  by (auto simp: in_set_conv_nth nth_eq_iff_index_eq)

lemma psipe_fd_nth:
  assumes "started S V p0 devs p" "i < length (devs_fds devs)"
  shows "psipe_fd devs (int i) = Inr (devs_fds devs ! i)"
  using assms by (simp add: psipe_fd_def started_def)

lemma s32_nat: "8 * k < 2 ^ 31 \<Longrightarrow> s32 (int k) = int k"
  by (rule s32_id) simp_all

lemma part_numbers:
  assumes "int_sized n t m" "d \<le> n * m" "i < d"
  defines "st \<equiv> part_start (n * m) d" and "len \<equiv> part_len (n * m) d"
  shows "s32 (int n * int m) = int (n * m)"
    "int_of_u64 (u64_of_int (int (len i)) * 8) = int (8 * len i)"
    "unat (u64_of_int (int (8 * len i))) = 8 * len i"
    "int (st i) sdiv int m * int m + int (st i) smod int m = int (st i)"
    "u64_of_int (int (st i)) * 8 = of_nat (8 * st i)"
    "s32 (int (st i) + int (len i)) = int (st (Suc i))" "m \<noteq> 0"
proof -
  note P = part_facts [OF assms(2,3), folded st_def len_def]
  have small: "8 * (n * m) < 2 ^ 31" using assms(1) by (simp only: int_sized_def)
  have l: "8 * len i < 2 ^ 31" using P(2,3) small by linarith
  have stN: "8 * st (Suc i) < 2 ^ 31" using P(3) small by linarith
  show "s32 (int n * int m) = int (n * m)"
    unfolding of_nat_mult [symmetric] by (rule s32_nat [OF small])
  have u: "unat (u64_of_int (int (len i)) * 8) = 8 * len i" by (rule unat_size8(2) [OF l])
  show "int_of_u64 (u64_of_int (int (len i)) * 8) = int (8 * len i)"
    by (subst int_of_u64_small) (simp_all only: u l)
  show "unat (u64_of_int (int (8 * len i))) = 8 * len i"
    unfolding u64_of_int_nat by (rule unat_of_nat_u64) (use l in simp)
  show "int (st i) sdiv int m * int m + int (st i) smod int m = int (st i)"
    by (simp only: sdiv_nat smod_nat flip: of_nat_mult of_nat_add) simp
  show "u64_of_int (int (st i)) * 8 = of_nat (8 * st i)" by (simp add: mult.commute)
  show "s32 (int (st i) + int (len i)) = int (st (Suc i))"
    unfolding of_nat_add [symmetric] P(2) by (rule s32_nat [OF stN])
  show "m \<noteq> 0" using P(1-3) by (cases m) auto
qed

lemma matmul_part_step:
  assumes R: "served S V p0 devs p C A B n t m d out" and i: "i < d"
    and H: "handed_out S V devs p C A B n t m d out i hs q"
  shows "\<exists>hs' q'. matmul_part S devs (int d) (int n) (int t) (int m) C A B (int i)
       (int (part_start (n * m) d i), hs, q) = Inr (int (part_start (n * m) d (Suc i)), hs', q') \<and>
     handed_out S V devs p C A B n t m d out (Suc i) hs' q'"
proof -
  define st len where "st = part_start (n * m) d" and "len = part_len (n * m) d"
  define fd where "fd = devs_fds devs ! i"
  let ?F = "span (params_at S) 20" and ?X = "span (params_at S) 20 \<union> span C (8 * st i)"
  let ?c = "C + of_nat (8 * st i)" and ?lc = "u64_of_int (int (8 * len i))"
  let ?la = "u64_of_int (s32 (int n * int t)) * 8" and ?lb = "u64_of_int (s32 (int t * int m)) * 8"
  note R' = R [unfolded served_def]
  note P = part_facts [OF _ i, of "n * m", folded st_def len_def]
    and N = part_numbers [OF _ _ i, of n t m, folded st_def len_def]
  have sz: "int_sized n t m" and dN: "d \<le> n * m" and S: "started S V p0 devs p"
    and d: "d = length (devs_fds devs)" and L: "laid_out S V C A B n t m" using R' by auto
  note P = P [OF dN] and N = N [OF sz dN]
  note S' = S [unfolded started_def] and L' = L [unfolded laid_out_def]
  have C: "link_contract S V" "fd \<in> open_fds V" using S' i d by (auto simp: fd_def)
  have new: "fd \<notin> set (take i (devs_fds devs))"
    using take_nth_distinct [of "devs_fds devs" i i] S' i d by (simp add: fd_def)
  note H' = H [unfolded handed_out_def, folded st_def]
  have q: "sane V q" "posted V (pos q) fd = []" "log V (pos q) fd = []" "takes V (params_at S) 20"
    and infl: "inflight V (pos q) \<subseteq> span C (8 * st i)" and same: "same_outside ?X (pmem p) (pmem q)"
    and pend: "pending_sends V (pos q) UNIV \<subseteq> span A (8 * (n * t)) \<union> span B (8 * (t * m)) \<union> span C (8 * st i)"
    using H' S' new by auto
  have small: "8 * (n * m) < 2 ^ 31" "8 * (n * t) < 2 ^ 31" "8 * (t * m) < 2 ^ 31"
    using sz by (simp_all only: int_sized_def)
  have u: "unat ?la = 8 * (n * t)" "unat ?lb = 8 * (t * m)" "unat ?lc = 8 * len i"
    using unat_size8(1) [OF small(2)] unat_size8(1) [OF small(3)] N(3) by simp_all
  have "0 < n" "0 < m" "0 < t" using R' i P by (auto intro: Nat.gr0I)
  then have u0: "0 < ?la" "0 < ?lb" "0 < ?lc"
    using P(1) by (simp_all only: word_less_nat_alt unat_0 u) simp_all
  have stC: "span C (8 * st i) \<subseteq> span C (8 * (n * m))" and cC: "span ?c (8 * len i) \<subseteq> span C (8 * (n * m))"
    using P(2,3) by (intro span_mono span_offset; simp)+
  have "8 * st i + 8 * len i \<le> 8 * (n * m)" using P(2,3) by linarith
  also have "\<dots> \<le> 2 ^ 64" using small(1) by simp
  finally have below: "span C (8 * st i) \<inter> span ?c (8 * len i) = {}" by (rule span_disjoint)
  then have cX: "span ?c (unat ?lc) \<inter> ?X = {}"
    using L' cC unfolding u by blast
  have aX: "span A (unat ?la) \<inter> ?X = {}" "span B (unat ?lb) \<inter> ?X = {}"
    using L' stC unfolding u by blast+
  have FX: "?F \<inter> busy V (pos q) = {}" using infl pend stC L' unfolding busy_def by blast
  have cP: "span ?c (unat ?lc) \<inter> pending_sends V (pos q) UNIV = {}"
    using pend below cC L' unfolding u by blast
  have tk: "takes V A (unat ?la)" "takes V B (unat ?lb)"
    using L' by (simp_all only: u)
  have tc: "takes V ?c (unat ?lc)"
    unfolding u by (rule parts_takenD [of V C "8 * (n * m)"]) (use L' P(1-3) in \<open>blast, simp_all\<close>)
  have msgs: "[args_bytes (int n) (int t) (int m) (int (len i)) (int (st i)), peek q A (unat ?la),
      peek q B (unat ?lb), peek q ?c (unat ?lc)] = task_msgs (pmem p) C A B n t m d i"
    using ram_bytes_same [OF same aX(1)] ram_bytes_same [OF same aX(2)] ram_bytes_same [OF same cX]
    unfolding task_msgs_def st_def [symmetric] len_def [symmetric] u by (simp only:)
  have "\<forall>i < d. peer V (devs_fds devs ! i) (task_msgs (pmem p) C A B n t m d i) 0 = out i \<and>
      length (out i) = 8 * part_len (n * m) d i" using R' by (elim conjE) assumption
  then have reply: "peer V fd (task_msgs (pmem p) C A B n t m d i) 0 = out i"
    "length (out i) = 8 * len i" using i by (simp_all only: fd_def len_def simp_thms)
  have out: "peer V fd [args_bytes (int n) (int t) (int m) (int (len i)) (int (st i)),
      peek q A (unat ?la), peek q B (unat ?lb), peek q ?c (unat ?lc)] 0 = out i"
    unfolding msgs by (rule reply)
  have out_len: "length (out i) = unat ?lc" unfolding u by (rule reply)
  have iX: "inflight V (pos q) \<subseteq> ?X" "?F \<subseteq> ?X" using infl by auto
  obtain r1 r2 r3 r4 r5 q1 q2 q3 q4 q5 h1 h2 h3 h4 h os where calls:
    "psipe_send_args S fd (int n) (int t) (int m) (int (len i)) (int (st i)) q = (r1, q1)"
    "handle_of (r1, q1) = Inr (h1, q1)"
    "psipe_send S fd A ?la q1 = (r2, q2)" "handle_of (r2, q2) = Inr (h2, q2)"
    "psipe_send S fd B ?lb q2 = (r3, q3)" "handle_of (r3, q3) = Inr (h3, q3)"
    "psipe_send S fd ?c ?lc q3 = (r4, q4)" "handle_of (r4, q4) = Inr (h4, q4)"
    "psipe_recv S fd ?c ?lc q4 = (r5, q5)" "handle_of (r5, q5) = Inr (h, q5)"
    and E: "posts V fd q (map T_Out [args_bytes (int n) (int t) (int m) (int (len i)) (int (st i)),
      peek q A (unat ?la), peek q B (unat ?lb), peek q ?c (unat ?lc)] @ [T_In (out i)])
      (os @ [P_Recv h ?c (out i)]) (?X \<union> span ?c (unat ?lc)) q5"
      "\<forall>x \<in> set os. \<not> is_recv x" "h \<notin> post_id ` set os"
      "pending_sends V (pos q5) UNIV \<subseteq>
        pending_sends V (pos q) UNIV \<union> span A (unat ?la) \<union> span B (unat ?lb) \<union> span ?c (unat ?lc)"
    by (rule task_posted [OF C q iX FX u0(1) tk(1) aX(1) u0(2) tk(2) aX(2) u0(3) tc cX cP out out_len])
  have step: "matmul_part S devs (int d) (int n) (int t) (int m) C A B (int i) (int (st i), hs, q) =
      Inr (int (st (Suc i)), hs[i := h], q5)"
  proof -
    have e: "psipe_fd devs (int i) = Inr fd" "(int m = 0) = False"
      "store hs (int i) h = Inr (hs[i := h])"
      using psipe_fd_nth [OF S, of i] i d H' N(7) by (simp_all add: fd_def)
    show ?thesis
      unfolding matmul_part_def prod.case bindR.simps e if_False Let_def N(1,2,4,5,6) P(4) calls
      by (rule refl)
  qed
  note E' = E(1) [unfolded posts_def msgs]
  have grow: "span C (8 * st i) \<subseteq> span C (8 * st (Suc i))"
    "span ?c (8 * len i) \<subseteq> span C (8 * st (Suc i))"
    using P(2) by (intro span_mono span_offset; simp)+
  have neq: "devs_fds devs ! k \<noteq> fd" if "k < i" for k
    using S' d i that by (simp add: fd_def nth_eq_iff_index_eq)
  have "handed_out S V devs p C A B n t m d out (Suc i) (hs[i := h]) q5"
    unfolding handed_out_def st_def [symmetric]
  proof (intro conjI allI impI)
    fix k assume k: "k < Suc i"
    show "log V (pos q5) (devs_fds devs ! k) =
        map T_Out (task_msgs (pmem p) C A B n t m d k) @ [T_In (out k)]"
      using E' H' q(3) k neq by (cases "k = i") (simp_all add: fd_def)
    show "\<exists>pre. (\<forall>x \<in> set pre. \<not> is_recv x) \<and> hs[i := h] ! k \<notin> post_id ` set pre \<and>
        posted V (pos q5) (devs_fds devs ! k) =
          pre @ [P_Recv (hs[i := h] ! k) (C + of_nat (8 * st k)) (out k)]"
    proof (cases "k = i")
      case True
      then show ?thesis using E' E(2,3) q(2) H' i
        by (intro exI [of _ os]) (simp add: fd_def)
    next
      case False
      then have "k < i" using k by simp
      then show ?thesis using E' H' neq [of k] by simp
    qed
  next
    fix fd' assume "fd' \<notin> set (take (Suc i) (devs_fds devs))"
    then have "fd' \<noteq> fd" "fd' \<notin> set (take i (devs_fds devs))"
      using i d by (auto simp: take_Suc_conv_app_nth fd_def)
    then show "log V (pos q5) fd' = []" "posted V (pos q5) fd' = []"
      using E' H' by simp_all
  next
    have "inflight V (pos q5) = inflight V (pos q) \<union> span ?c (length (out i))"
      using inflight_posts [OF E(1)] E(2) by auto
    also have "length (out i) = 8 * len i" by (rule reply)
    finally show "inflight V (pos q5) \<subseteq> span C (8 * st (Suc i))" using infl grow by blast
    show "pending_sends V (pos q5) UNIV \<subseteq>
        span A (8 * (n * t)) \<union> span B (8 * (t * m)) \<union> span C (8 * st (Suc i))"
      using E(4) pend grow unfolding u by blast
    show "same_outside (?F \<union> span C (8 * st (Suc i))) (pmem p) (pmem q5)"
    proof (rule same_outside_trans)
      show "same_outside (?F \<union> span C (8 * st (Suc i))) (pmem p) (pmem q)"
        using same by (rule same_outside_mono) (use grow in blast)
      have "same_outside (?X \<union> span ?c (unat ?lc)) (pmem q) (pmem q5)" using E' by simp
      then show "same_outside (?F \<union> span C (8 * st (Suc i))) (pmem q) (pmem q5)"
        by (rule same_outside_mono) (use grow in \<open>auto simp only: u(3)\<close>)
    qed
  qed (use E' H' in simp_all)
  with step show ?thesis unfolding st_def by blast
qed

lemma all_handed_out:
  assumes R: "served S V p0 devs p C A B n t m d out" and "i \<le> d"
  shows "\<exists>hs q. foldR (matmul_part S devs (int d) (int n) (int t) (int m) C A B) (map int [0..<i])
       (0, replicate d g, p) = Inr (int (part_start (n * m) d i), hs, q) \<and>
     handed_out S V devs p C A B n t m d out i hs q"
  using assms(2)
proof (induction i)
  case 0
  then show ?case using R
    by (simp add: handed_out_def served_def started_def part_start_def inflight_none)
next
  case (Suc i)
  then obtain hs q where IH: "foldR (matmul_part S devs (int d) (int n) (int t) (int m) C A B)
      (map int [0..<i]) (0, replicate d g, p) = Inr (int (part_start (n * m) d i), hs, q)"
    "handed_out S V devs p C A B n t m d out i hs q" by auto
  from matmul_part_step [OF R _ IH(2)] Suc.prems IH(1) show ?case by (auto simp: foldR_append)
qed

section \<open>The results come back\<close>

text \<open>The receives still posted are those of the devices from \<open>i\<close> on.\<close>

definition awaited ::
    "'w link_view \<Rightarrow> psipe_devices \<Rightarrow> u64 \<Rightarrow> nat \<Rightarrow> nat \<Rightarrow> (nat \<Rightarrow> u8 list) \<Rightarrow> u64 list \<Rightarrow> nat \<Rightarrow> 'w \<Rightarrow> bool" where
  "awaited V devs C N d out hs i w \<longleftrightarrow>
     (\<forall>k < d. i \<le> k \<longrightarrow>
        (\<exists>pre. (\<forall>x \<in> set pre. \<not> is_recv x) \<and> hs ! k \<notin> post_id ` set pre \<and>
           posted V w (devs_fds devs ! k) =
             pre @ [P_Recv (hs ! k) (C + of_nat (8 * part_start N d k)) (out k)])) \<and>
     (\<forall>fd. fd \<notin> set (drop i (devs_fds devs)) \<longrightarrow> posted V w fd = [])"

definition collected ::
    "'w sys \<Rightarrow> 'w link_view \<Rightarrow> psipe_devices \<Rightarrow> 'w proc \<Rightarrow> u64 \<Rightarrow> u64 \<Rightarrow> u64 \<Rightarrow> nat \<Rightarrow> nat \<Rightarrow> nat \<Rightarrow> nat \<Rightarrow>
      (nat \<Rightarrow> u8 list) \<Rightarrow> u64 list \<Rightarrow> nat \<Rightarrow> 'w proc \<Rightarrow> bool" where
  "collected S V devs p C A B n t m d out hs i q \<longleftrightarrow>
     sane V q \<and> length hs = d \<and>
     (\<forall>k < d. log V (pos q) (devs_fds devs ! k) =
        map T_Out (task_msgs (pmem p) C A B n t m d k) @ [T_In (out k)]) \<and>
     awaited V devs C (n * m) d out hs i (pos q) \<and>
     peek q C (8 * part_start (n * m) d i) = concat (map out [0..<i]) \<and>
     same_outside (span (params_at S) 20 \<union> span C (8 * (n * m))) (pmem p) (pmem q)"

lemma part_start_mono: "i \<le> k \<Longrightarrow> part_start N d i \<le> part_start N d k"
  unfolding part_start_def by (intro add_mono mult_le_mono1) auto

text \<open>What is still to come lies behind the parts that have been collected.\<close>

lemma pending_inflight:
  assumes R: "served S V p0 devs p C A B n t m d out"
    and H: "awaited V devs C (n * m) d out hs i w" and i: "i \<le> d"
  shows "inflight V w \<subseteq> span (C + of_nat (8 * part_start (n * m) d i))
     (8 * (n * m - part_start (n * m) d i))"
proof
  define st where "st = part_start (n * m) d"
  note R' = R [unfolded served_def] and H' = H [unfolded awaited_def, folded st_def]
  fix x assume "x \<in> inflight V w"
  then obtain fd j a bs where f: "P_Recv j a bs \<in> set (posted V w fd)" "x \<in> span a (length bs)"
    by (auto simp: inflight_def)
  then have "posted V w fd \<noteq> []" by auto
  then have "fd \<in> set (drop i (devs_fds devs))" using H' by blast
  then obtain k' where "k' < length (drop i (devs_fds devs))" "fd = drop i (devs_fds devs) ! k'"
    by (auto simp: in_set_conv_nth)
  then obtain k where k: "i \<le> k" "k < d" "fd = devs_fds devs ! k"
    using R' by (intro that [of "i + k'"]) auto
  then obtain pre where "\<forall>x \<in> set pre. \<not> is_recv x"
      "posted V w fd = pre @ [P_Recv (hs ! k) (C + of_nat (8 * st k)) (out k)]"
    using H' by blast
  then have a: "a = C + of_nat (8 * st k)" "bs = out k" using f(1) by auto
  have "length (out k) = 8 * part_len (n * m) d k" using R' k(2) by (elim conjE) simp
  moreover have "d \<le> n * m" using R' by (elim conjE)
  note P = part_facts [OF this k(2), folded st_def]
  moreover have st: "st i \<le> st k" unfolding st_def by (rule part_start_mono [OF k(1)])
  ultimately have l: "8 * (st k - st i) + length (out k) \<le> 8 * (n * m - st i)"
    by (simp add: algebra_simps)
  have "C + of_nat (8 * st k) = C + of_nat (8 * st i) + of_nat (8 * (st k - st i))"
    using st by (simp add: of_nat_diff algebra_simps)
  then have "x \<in> span (C + of_nat (8 * st i) + of_nat (8 * (st k - st i))) (length (out k))"
    using f(2) unfolding a by (simp only:)
  then show "x \<in> span (C + of_nat (8 * part_start (n * m) d i)) (8 * (n * m - part_start (n * m) d i))"
    using span_offset [OF l] unfolding st_def by blast
qed

lemma matmul_wait_step:
  assumes R: "served S V p0 devs p C A B n t m d out" and i: "i < d"
    and H: "collected S V devs p C A B n t m d out hs i q"
  shows "\<exists>q'. matmul_wait S devs hs (int i) q = Inr q' \<and>
     collected S V devs p C A B n t m d out hs (Suc i) q'"
proof -
  define st where "st = part_start (n * m) d"
  define fd where "fd = devs_fds devs ! i"
  let ?c = "C + of_nat (8 * st i)" and ?len = "part_len (n * m) d i"
  note R' = R [unfolded served_def] and H' = H [unfolded collected_def awaited_def, folded st_def]
  have dN: "d \<le> n * m" and S: "started S V p0 devs p" and d: "d = length (devs_fds devs)"
    and sz: "8 * (n * m) < 2 ^ 31" using R' by (auto simp only: int_sized_def)
  note S' = S [unfolded started_def] and P = part_facts [OF dN i, folded st_def]
  have C: "link_contract S V" "fd \<in> open_fds V" using S' i d by (auto simp: fd_def)
  have neq: "devs_fds devs ! k = fd \<longleftrightarrow> k = i" if "k < d" for k
    using S' d i that by (simp add: fd_def nth_eq_iff_index_eq)
  have len: "length (out i) = 8 * ?len" using R' i by (elim conjE) simp
  have infl: "inflight V (pos q) \<subseteq> span ?c (8 * (n * m - st i))"
    unfolding st_def
    by (rule pending_inflight [OF R, where hs = hs]) (use H i in \<open>simp_all add: collected_def\<close>)
  also have "\<dots> \<subseteq> span C (8 * (n * m))" by (rule span_offset) (use P(2,3) in simp)
  finally have inC: "inflight V (pos q) \<subseteq> span C (8 * (n * m))" .
  obtain pre where pre: "\<forall>x \<in> set pre. \<not> is_recv x" "hs ! i \<notin> post_id ` set pre"
      "posted V (pos q) fd = pre @ [P_Recv (hs ! i) ?c (out i)]"
    using H' i by (auto simp: fd_def)
  obtain r q1 where w: "psipe_wait S fd (hs ! i) q = (r, q1)" "wait_ok (r, q1) = Inr q1"
      "waited V fd q (pre @ [P_Recv (hs ! i) ?c (out i)]) [] q1"
    by (rule wait_step [OF C, of q pre "P_Recv (hs ! i) ?c (out i)" "[]"]) (use pre H' in auto)
  note W = w(3) [unfolded waited_def]
  have fl: "quiet V q1 (snd (psipe_flush S fd q1))"
    by (rule flush_step [OF C]) (use W in simp_all)
  let ?q = "snd (psipe_flush S fd q1)"
  note F = fl [unfolded quiet_def]
  have run: "matmul_wait S devs hs (int i) q = Inr ?q"
    using psipe_fd_nth [OF S, of i] i d H' w(1,2) by (simp add: matmul_wait_def fd_def)
  have behind: "span C (8 * st k) \<inter> span (C + of_nat (8 * st k)) (8 * (n * m - st k)) = {}"
    if "st k \<le> n * m" for k
  proof (rule span_disjoint)
    have "8 * st k + 8 * (n * m - st k) = 8 * (n * m)" using that by simp
    then show "8 * st k + 8 * (n * m - st k) \<le> 2 ^ 64" using sz by simp
  qed
  have before: "span C (8 * st i) \<inter> inflight V (pos q) = {}"
    using behind [of i] infl P(2,3) by fastforce
  have mem1: "peek q1 C (8 * st (Suc i)) = concat (map out [0..<Suc i])"
  proof -
    have "same_outside (inflight V (pos q)) (pmem q) (pmem q1)" using W by blast
    from ram_bytes_same [OF this before] have "peek q1 C (8 * st i) = concat (map out [0..<i])"
      using H' by simp
    moreover have "peek q1 ?c (8 * ?len) = out i" using W len by fastforce
    moreover have "8 * st (Suc i) = 8 * st i + 8 * ?len" using P(2) by simp
    ultimately show ?thesis by (simp only: ram_bytes_add upt_Suc_append le0 map_append concat_append) simp
  qed
  have aw: "awaited V devs C (n * m) d out hs (Suc i) (pos q1)"
    unfolding awaited_def st_def [symmetric]
  proof (intro conjI allI impI)
    fix k assume k: "k < d" "Suc i \<le> k"
    then have "devs_fds devs ! k \<noteq> fd" using neq by auto
    then show "\<exists>pre. (\<forall>x \<in> set pre. \<not> is_recv x) \<and> hs ! k \<notin> post_id ` set pre \<and>
        posted V (pos q1) (devs_fds devs ! k) =
          pre @ [P_Recv (hs ! k) (C + of_nat (8 * st k)) (out k)]"
      using W H' k by simp
  next
    fix fd' assume "fd' \<notin> set (drop (Suc i) (devs_fds devs))"
    moreover have "drop i (devs_fds devs) = fd # drop (Suc i) (devs_fds devs)"
      using i d by (simp add: fd_def Cons_nth_drop_Suc)
    ultimately show "posted V (pos q1) fd' = []" using W H' by (cases "fd' = fd") simp_all
  qed
  have infl1: "inflight V (pos q1) \<subseteq> span (C + of_nat (8 * st (Suc i))) (8 * (n * m - st (Suc i)))"
    unfolding st_def by (rule pending_inflight [OF R aw]) (use i in simp)
  then have after: "span C (8 * st (Suc i)) \<inter> inflight V (pos q1) = {}"
    using behind [OF P(3)] by blast
  have "span (C + of_nat (8 * st (Suc i))) (8 * (n * m - st (Suc i))) \<subseteq> span C (8 * (n * m))"
    by (rule span_offset) (use P(3) in simp)
  with infl1 have inC1: "inflight V (pos q1) \<subseteq> span C (8 * (n * m))" by blast
  have "collected S V devs p C A B n t m d out hs (Suc i) ?q"
    unfolding collected_def st_def [symmetric]
  proof (intro conjI allI impI)
    show "awaited V devs C (n * m) d out hs (Suc i) (pos ?q)" using aw F by (simp add: awaited_def)
    from F have "same_outside (inflight V (pos q1)) (pmem q1) (pmem ?q)" by blast
    from ram_bytes_same [OF this after] mem1
    show "peek ?q C (8 * st (Suc i)) = concat (map out [0..<Suc i])" by simp
    let ?X = "span (params_at S) 20 \<union> span C (8 * (n * m))"
    have "same_outside ?X (pmem p) (pmem q)" using H' by blast
    moreover have "same_outside ?X (pmem q) (pmem q1)"
      using W inC by (blast intro: same_outside_mono)
    moreover have "same_outside ?X (pmem q1) (pmem ?q)"
      using F inC1 by (blast intro: same_outside_mono)
    ultimately show "same_outside ?X (pmem p) (pmem ?q)" by (blast intro: same_outside_trans)
  qed (use F W H' in simp_all)
  with run show ?thesis by blast
qed

lemma all_collected:
  assumes R: "served S V p0 devs p C A B n t m d out" and "i \<le> d"
    and H: "collected S V devs p C A B n t m d out hs 0 q"
  shows "\<exists>q'. foldR (matmul_wait S devs hs) (map int [0..<i]) q = Inr q' \<and>
     collected S V devs p C A B n t m d out hs i q'"
  using assms(2)
proof (induction i)
  case 0
  then show ?case using H by simp
next
  case (Suc i)
  then obtain q' where "foldR (matmul_wait S devs hs) (map int [0..<i]) q = Inr q'"
    "collected S V devs p C A B n t m d out hs i q'" by auto
  with matmul_wait_step [OF R _ this(2)] Suc.prems show ?case by (auto simp: foldR_append)
qed

text \<open>
  The whole program: it returns, it has sent every device its task, and the result is what the
  devices sent back, one part after the other.
\<close>

lemma matmul_run:
  assumes R: "served S V p0 devs p C A B n t m d out"
  shows "\<exists>p'. matmul S (int n) (int t) (int m) C A B p0 = Inr p' \<and>
     peek p' C (8 * (n * m)) = concat (map out [0..<d]) \<and>
     (\<forall>k < d. log V (pos p') (devs_fds devs ! k) =
        map T_Out (task_msgs (pmem p) C A B n t m d k) @ [T_In (out k)]) \<and>
     posted V (pos p') = (\<lambda>_. []) \<and> sane V p' \<and>
     same_outside (span (params_at S) 20 \<union> span C (8 * (n * m))) (pmem p) (pmem p')"
proof -
  note R' = R [unfolded served_def]
  have S: "started S V p0 devs p" and d: "d = length (devs_fds devs)" and dN: "d \<le> n * m"
    using R' by simp_all
  note S' = S [unfolded started_def]
  obtain rv where open0: "psipe_open_devs S p0 = Inr (rv, Some devs, p)" using S' by blast
  have d0: "0 < d" using S' d by simp
  have whole: "part_start (n * m) d d = n * m" "part_start (n * m) d 0 = 0"
    using part_start_bounds(1,2) [OF d0] by simp_all
  obtain hs q where h: "foldR (matmul_part S devs (int d) (int n) (int t) (int m) C A B)
      (map int [0..<d]) (0, replicate d (u64_of_int (garbage S)), p) =
        Inr (int (part_start (n * m) d d), hs, q)"
    "handed_out S V devs p C A B n t m d out d hs q"
    using all_handed_out [OF R order_refl] by blast
  have "collected S V devs p C A B n t m d out hs 0 q"
    using h(2) d whole by (simp add: handed_out_def collected_def awaited_def ram_bytes_def)
  from all_collected [OF R order_refl this] obtain q' where c:
    "foldR (matmul_wait S devs hs) (map int [0..<d]) q = Inr q'"
    "collected S V devs p C A B n t m d out hs d q'" by blast
  note c' = c(2) [unfolded collected_def whole]
  have "posted V (pos q') = (\<lambda>_. [])" using c' d by (auto simp: awaited_def)
  then have idle: "posted V (pos q') = (\<lambda>_. [])" and infl: "inflight V (pos q') = {}"
    by (simp_all add: inflight_none)
  have "sane V q'" using c' by blast
  then obtain p' where cl: "psipe_close_devs S devs q' = Inr p'" "quiet V q' p'"
    using close_devs S' by blast
  have same: "pmem p' = pmem q'"
    using cl(2) infl by (auto simp: quiet_def same_outside_def)
  have nd: "psipe_num_devs devs = int d" using S' d by (simp add: psipe_num_devs_def)
  have "matmul S (int n) (int t) (int m) C A B p0 = Inr p'"
    unfolding matmul_def open0 bindR.simps prod.case option.case Let_def nd upto_nat nat_int h(1)
      c(1) cl(1) by (rule refl)
  with c' cl(2) same idle show ?thesis by (intro exI [of _ p']) (simp add: quiet_def)
qed

section \<open>The result is the sequential one\<close>

lemma concat_parts:
  assumes "0 < d" "d \<le> N" "i \<le> d"
  shows "concat (map (\<lambda>k. unelems (map f [part_start N d k..<part_start N d (Suc k)])) [0..<i]) =
     unelems (map f [0..<part_start N d i])"
  using assms(3)
proof (induction i)
  case 0
  then show ?case using part_start_bounds(1) [OF assms(1)] by (simp add: unelems_def)
next
  case (Suc i)
  have "part_start N d i \<le> part_start N d (Suc i)" by (rule part_start_mono) simp
  then have "[0..<part_start N d (Suc i)] =
      [0..<part_start N d i] @ [part_start N d i..<part_start N d (Suc i)]"
    using upt_add_eq_append [of 0 "part_start N d i"
        "part_start N d (Suc i) - part_start N d i"] by simp
  then show ?case using Suc by (simp add: unelems_append)
qed

lemma chiplet_sends:
  assumes S: "started S V q0 devs q" "fd = hd (devs_fds devs)"
    and room: "8 * (n * t) + 8 * (t * m) + 8 * part_len (n * m) d i \<le> room V (pos q)"
    and peer: "\<forall>k < 4. peer V fd [] k = task_msgs mem C A B n t m d i ! k"
    and sz: "int_sized n t m" and t: "0 < t" and dN: "d \<le> n * m" and i: "i < d"
  shows "\<exists>q'. chiplet_main add mul S q0 = Inr q' \<and> posted V (pos q') = (\<lambda>_. []) \<and> sane V q' \<and>
     log V (pos q') fd = map T_In (task_msgs mem C A B n t m d i) @
     [T_Out (unelems (map (\<lambda>g. cell add mul t m (elems (ram_bytes mem A (8 * (n * t))))
       (elems (ram_bytes mem B (8 * (t * m)))) g (elems (ram_bytes mem C (8 * (n * m))) ! g))
       [part_start (n * m) d i..<part_start (n * m) d (Suc i)]))]"
proof -
  define st len where "st = part_start (n * m) d" and "len = part_len (n * m) d i"
  let ?a = "ram_bytes mem A (8 * (n * t))" and ?b = "ram_bytes mem B (8 * (t * m))"
    and ?c = "ram_bytes mem (C + of_nat (8 * st i)) (8 * len)" and ?C = "ram_bytes mem C (8 * (n * m))"
  note P = part_facts [OF dN i, folded st_def len_def]
  have ms: "task_msgs mem C A B n t m d i =
      [args_bytes (int n) (int t) (int m) (int len) (int (st i)), ?a, ?b, ?c]"
    by (simp add: task_msgs_def st_def len_def)
  have nm: "0 < n" "0 < m" using dN i by (auto intro: Nat.gr0I)
  have pk: "peer V fd [] k = task_msgs mem C A B n t m d i ! k" if "k < 4" for k
    using peer that by blast
  have "asked V fd n t m len (st i) ?a ?b ?c"
    unfolding asked_def using pk [of 0] pk [of 1] pk [of 2] pk [of 3] t nm P by (simp add: ms)
  from chiplet_run [OF S this sz room [folded len_def]] obtain q' where
    run: "chiplet_main add mul S q0 = Inr q'" "posted V (pos q') = (\<lambda>_. [])" "sane V q'"
    and xfers: "log V (pos q') fd = map T_In (task_msgs mem C A B n t m d i) @
      [T_Out (unelems (map (\<lambda>x. cell add mul t m (elems ?a) (elems ?b) (st i + x) (elems ?c ! x)) [0..<len]))]"
    unfolding ms by auto
  have "elems ?c ! x = elems ?C ! (st i + x)" if "x < len" for x
    using elems_part [of "st i" len "n * m" mem C] P(2,3) that by simp
  then have "map (\<lambda>x. cell add mul t m (elems ?a) (elems ?b) (st i + x) (elems ?c ! x)) [0..<len] =
      map (\<lambda>g. cell add mul t m (elems ?a) (elems ?b) g (elems ?C ! g)) [st i..<st (Suc i)]"
    by (intro nth_equalityI) (simp_all flip: P(2))
  then show ?thesis using run xfers unfolding st_def by auto
qed

text \<open>
  \<open>chiplet_behind add mul S V q0 fd msgs out\<close>: a chiplet program whose first device is connected
  so that it receives the messages \<open>msgs\<close>, and whose answer, if it gives one, is \<open>out\<close>.
\<close>

definition chiplet_behind ::
    "(u64 \<Rightarrow> u64 \<Rightarrow> u64) \<Rightarrow> (u64 \<Rightarrow> u64 \<Rightarrow> u64) \<Rightarrow> 'w sys \<Rightarrow> 'w link_view \<Rightarrow> 'w proc \<Rightarrow> int \<Rightarrow> u8 list list \<Rightarrow>
      u8 list \<Rightarrow> bool" where
  "chiplet_behind add mul S V q0 fd msgs out \<longleftrightarrow>
     (\<exists>devs q. started S V q0 devs q \<and> fd = hd (devs_fds devs) \<and>
        length (concat (drop 1 msgs)) \<le> room V (pos q)) \<and>
     (\<forall>k < 4. peer V fd [] k = msgs ! k) \<and>
     (\<forall>q'. chiplet_main add mul S q0 = Inr q' \<longrightarrow> sent V (pos q') fd = [out])"

lemma length_task: "length (concat (drop 1 (task_msgs mem C A B n t m d i))) =
    8 * (n * t) + 8 * (t * m) + 8 * part_len (n * m) d i"
  by (simp add: task_msgs_def)

lemma chiplet_answers:
  assumes B: "chiplet_behind add mul S V q0 fd (task_msgs mem C A B n t m d i) out"
    and sz: "int_sized n t m" and t: "0 < t" and dN: "d \<le> n * m" and i: "i < d"
  shows "out = unelems (map (\<lambda>g. cell add mul t m (elems (ram_bytes mem A (8 * (n * t))))
       (elems (ram_bytes mem B (8 * (t * m)))) g (elems (ram_bytes mem C (8 * (n * m))) ! g))
       [part_start (n * m) d i..<part_start (n * m) d (Suc i)]) \<and>
     (\<exists>q'. chiplet_main add mul S q0 = Inr q' \<and> posted V (pos q') = (\<lambda>_. []) \<and> sane V q' \<and>
        log V (pos q') fd = map T_In (task_msgs mem C A B n t m d i) @ [T_Out out])"
proof -
  note B' = B [unfolded chiplet_behind_def length_task]
  obtain devs q where S: "started S V q0 devs q" "fd = hd (devs_fds devs)"
      "8 * (n * t) + 8 * (t * m) + 8 * part_len (n * m) d i \<le> room V (pos q)"
    using B' by blast
  have pk: "\<forall>k < 4. peer V fd [] k = task_msgs mem C A B n t m d i ! k" using B' by blast
  from chiplet_sends [OF S pk sz t dN i] obtain q' where run:
    "chiplet_main add mul S q0 = Inr q'" "posted V (pos q') = (\<lambda>_. [])" "sane V q'"
    "log V (pos q') fd = map T_In (task_msgs mem C A B n t m d i) @
      [T_Out (unelems (map (\<lambda>g. cell add mul t m (elems (ram_bytes mem A (8 * (n * t))))
         (elems (ram_bytes mem B (8 * (t * m)))) g (elems (ram_bytes mem C (8 * (n * m))) ! g))
         [part_start (n * m) d i..<part_start (n * m) d (Suc i)]))]" by blast
  moreover have "sent V (pos q') fd = [out]" using B' run(1) by blast
  ultimately show ?thesis by (auto simp: sent_def)
qed

text \<open>
  A chiplet program that returns, having received the messages \<open>msgs\<close> and sent the one the transfers \<open>ts\<close>
  of the other end receive after them.
\<close>

definition answered ::
    "(u64 \<Rightarrow> u64 \<Rightarrow> u64) \<Rightarrow> (u64 \<Rightarrow> u64 \<Rightarrow> u64) \<Rightarrow> 'w sys \<Rightarrow> 'w link_view \<Rightarrow> 'w proc \<Rightarrow> int \<Rightarrow> u8 list list \<Rightarrow>
      transfer list \<Rightarrow> bool" where
  "answered add mul S V q0 fd msgs ts \<longleftrightarrow>
     (\<exists>q' out. chiplet_main add mul S q0 = Inr q' \<and> posted V (pos q') = (\<lambda>_. []) \<and> sane V q' \<and>
        log V (pos q') fd = map T_In msgs @ [T_Out out] \<and> ts = map T_Out msgs @ [T_In out])"

text \<open>Master and chiplets together.\<close>

lemma offloaded_run:
  assumes "started S V p0 devs p" "d = length (devs_fds devs)" "laid_out S V C A B n t m"
    and sz: "int_sized n t m" and t: "0 < t" and dN: "d \<le> n * m"
    and chips: "\<forall>i < d. chiplet_behind add mul (S2 i) (V2 i) (q0 i) (fd2 i)
        (task_msgs (pmem p) C A B n t m d i)
        (peer V (devs_fds devs ! i) (task_msgs (pmem p) C A B n t m d i) 0)"
  obtains p' where "matmul S (int n) (int t) (int m) C A B p0 = Inr p'"
    "matmul_gold add mul (int n) (int t) (int m) (elems (peek p A (8 * (n * t))))
       (elems (peek p B (8 * (t * m)))) (elems (peek p C (8 * (n * m)))) =
       Inr (elems (peek p' C (8 * (n * m))))"
    "same_outside (span (params_at S) 20 \<union> span C (8 * (n * m))) (pmem p) (pmem p')"
    "posted V (pos p') = (\<lambda>_. [])" "sane V p'"
    "\<forall>i < d. answered add mul (S2 i) (V2 i) (q0 i) (fd2 i) (task_msgs (pmem p) C A B n t m d i)
       (log V (pos p') (devs_fds devs ! i))"
proof -
  let ?A = "elems (peek p A (8 * (n * t)))" and ?B = "elems (peek p B (8 * (t * m)))"
    and ?C = "elems (peek p C (8 * (n * m)))" and ?st = "part_start (n * m) d"
  let ?f = "\<lambda>g. cell add mul t m ?A ?B g (?C ! g)"
  let ?out = "\<lambda>i. unelems (map ?f [?st i..<?st (Suc i)])"
  have ans: "peer V (devs_fds devs ! i) (task_msgs (pmem p) C A B n t m d i) 0 = ?out i \<and>
      (\<exists>q'. chiplet_main add mul (S2 i) (q0 i) = Inr q' \<and> posted (V2 i) (pos q') = (\<lambda>_. []) \<and> sane (V2 i) q' \<and>
        log (V2 i) (pos q') (fd2 i) = map T_In (task_msgs (pmem p) C A B n t m d i) @ [T_Out (?out i)])"
    if "i < d" for i
    using chiplet_answers [OF chips [rule_format, OF that] sz t dN that] by metis
  then have "served S V p0 devs p C A B n t m d ?out"
    using assms(1-3) sz t dN by (simp add: served_def part_len_def)
  then obtain p' where p': "matmul S (int n) (int t) (int m) C A B p0 = Inr p'"
    "peek p' C (8 * (n * m)) = concat (map ?out [0..<d])"
    "same_outside (span (params_at S) 20 \<union> span C (8 * (n * m))) (pmem p) (pmem p')"
    "posted V (pos p') = (\<lambda>_. [])" "sane V p'"
    "\<forall>k < d. log V (pos p') (devs_fds devs ! k) =
       map T_Out (task_msgs (pmem p) C A B n t m d k) @ [T_In (?out k)]"
    using matmul_run by blast
  have d: "0 < d" using assms(1,2) by (simp add: started_def)
  have "elems (peek p' C (8 * (n * m))) = map ?f [0..<n * m]"
    unfolding p'(2) concat_parts [OF d dN order_refl]
    using part_start_bounds(2) [OF d, of "n * m"] by simp
  moreover have "answered add mul (S2 i) (V2 i) (q0 i) (fd2 i) (task_msgs (pmem p) C A B n t m d i)
      (log V (pos p') (devs_fds devs ! i))" if "i < d" for i
    unfolding answered_def using p'(6) [rule_format, OF that] ans [OF that] by blast
  ultimately show ?thesis using p'(1,3,4,5) matmul_gold_cells [of ?A n t ?B m ?C add mul]
    by (intro that allI impI) simp_all
qed

end
