(* ===== verification/Ref_Link.thy ===== *)
theory Ref_Link
  imports Master
begin

text \<open>
  A concrete system that meets the contract of \<^verbatim>\<open>Link\<close>, on which the witnesses of the user programs
  run: operations complete at the wait (a receive on an idle descriptor at once), allocations are
  handed out in increasing order, \<^verbatim>\<open>open\<close> gives increasing descriptors.
\<close>

record lworld =
  lw_log :: "int \<Rightarrow> transfer list"
  lw_posted :: "int \<Rightarrow> post list"
  lw_top :: nat
  lw_next :: int

fun deliver :: "post list \<Rightarrow> (u64 \<Rightarrow> u8) \<Rightarrow> u64 \<Rightarrow> u8" where
  "deliver [] m = m"
| "deliver (P_Sent i # ps) m = deliver ps m"
| "deliver (P_Send i a bs # ps) m = deliver ps m"
| "deliver (P_Recv i a bs # ps) m = deliver ps (ram_store m a bs)"

fun region :: "post \<Rightarrow> u64 set" where
  "region (P_Sent i) = {}"
| "region (P_Send i a bs) = {}"
| "region (P_Recv i a bs) = span a (length bs)"

fun short :: "post \<Rightarrow> bool" where
  "short (P_Sent i) = True"
| "short (P_Send i a bs) = True"
| "short (P_Recv i a bs) = (length bs \<le> 2 ^ 64)"

definition apart :: "post list \<Rightarrow> bool" where
  "apart ps \<longleftrightarrow> sorted_wrt (\<lambda>p q. region p \<inter> region q = {}) ps \<and> (\<forall>q \<in> set ps. short q)"

text \<open>The least handle no pending operation has.\<close>

definition free_handle :: "post list \<Rightarrow> nat" where
  "free_handle ps =
     hd (filter (\<lambda>i. (of_nat i :: u64) \<notin> post_id ` set ps) [0..<Suc (length ps)])"

definition ref_ioctl ::
    "(int \<Rightarrow> u8 list list \<Rightarrow> nat \<Rightarrow> u8 list) \<Rightarrow> int \<Rightarrow> u32 \<Rightarrow> ioctl_arg \<Rightarrow> lworld proc \<Rightarrow> int \<times> lworld proc" where
  "ref_ioctl out fd cmd arg p =
     (let w = pos p; ps = lw_posted w fd; r = free_handle ps
      in case arg of
        Data d \<Rightarrow>
          if cmd = PSIPE_IOCTL_SEND then
            let bs = peek p (data_addr d) (unat (data_len d))
            in (int r, p\<lparr>pos := w\<lparr>
                 lw_log := (lw_log w)(fd := lw_log w fd @ [T_Out bs]),
                 lw_posted := (lw_posted w)(fd := ps @
                   [if ps = [] then P_Sent (of_nat r) else P_Send (of_nat r) (data_addr d) bs])\<rparr>\<rparr>)
          else
            let bs = out fd (outs (lw_log w fd)) (length (ins (lw_log w fd)))
            in (int r, p\<lparr>pmem := if ps = [] then ram_store (pmem p) (data_addr d) bs else pmem p,
                  pos := w\<lparr>
                    lw_posted := (lw_posted w)(fd := ps @ [P_Recv (of_nat r) (data_addr d) bs]),
                    lw_log := (lw_log w)(fd := lw_log w fd @ [T_In bs])\<rparr>\<rparr>)
      | Handle h \<Rightarrow>
          (case dropWhile (\<lambda>q. post_id q \<noteq> h) ps of
             [] \<Rightarrow> (- 1, p)
           | q # rest \<Rightarrow>
               (0, p\<lparr>pmem := deliver (takeWhile (\<lambda>q. post_id q \<noteq> h) ps @ [q]) (pmem p),
                     pos := w\<lparr>lw_posted := (lw_posted w)(fd := rest)\<rparr>\<rparr>))
      | No_Arg \<Rightarrow> (0, p))"

definition ref_sys :: "(int \<Rightarrow> u8 list list \<Rightarrow> nat \<Rightarrow> u8 list) \<Rightarrow> string list \<Rightarrow> lworld sys" where
  "ref_sys out names = \<lparr>
     sys_ioctl = ref_ioctl out,
     sys_opendir = (\<lambda>_ p. (Some ((False, ''.'') # map (Pair True) names), p)),
     sys_malloc = (\<lambda>_ p. (True, p)),
     sys_memalign = (\<lambda>_ sz p.
       if unat sz \<le> 2 ^ 64 - lw_top (pos p)
       then (0, of_nat (lw_top (pos p)),
             p\<lparr>pos := (pos p)\<lparr>lw_top := lw_top (pos p) + unat sz\<rparr>\<rparr>)
       else (ENOMEM, 0, p)),
     sys_open = (\<lambda>_ p. (lw_next (pos p), p\<lparr>pos := (pos p)\<lparr>lw_next := lw_next (pos p) + 1\<rparr>\<rparr>)),
     sys_close = (\<lambda>_ p. p),
     params_at = 256,
     garbage = 0\<rparr>"

definition ref_link :: "(int \<Rightarrow> u8 list list \<Rightarrow> nat \<Rightarrow> u8 list) \<Rightarrow> lworld link_view" where
  "ref_link out = \<lparr>
     open_fds = UNIV, log = lw_log, posted = lw_posted, peer = out, takes = (\<lambda>_ _. True),
     heap = (\<lambda>w. span 0 (lw_top w)), room = (\<lambda>w. 2 ^ 64 - lw_top w),
     sane = (\<lambda>p. \<forall>fd. apart (lw_posted (pos p) fd) \<and>
       length (lw_posted (pos p) fd) \<le> length (lw_log (pos p) fd))\<rparr>"

section \<open>It meets the contract\<close>

lemma free_handle_props:
  assumes "length ps < 2 ^ 31"
  shows "(of_nat (free_handle ps) :: u64) \<notin> post_id ` set ps" "free_handle ps < 2 ^ 31"
proof -
  let ?xs = "filter (\<lambda>i. (of_nat i :: u64) \<notin> post_id ` set ps) [0..<Suc (length ps)]"
  have inj: "inj_on (of_nat :: nat \<Rightarrow> u64) {0..<Suc (length ps)}"
  proof (rule inj_onI)
    fix x y assume "x \<in> {0..<Suc (length ps)}" "y \<in> {0..<Suc (length ps)}" "of_nat x = (of_nat y :: u64)"
    moreover have "x < 2 ^ 64" "y < 2 ^ 64" using assms calculation by auto
    ultimately show "x = y" by (metis unat_of_nat_u64)
  qed
  have "?xs \<noteq> []"
  proof
    assume "?xs = []"
    then have "\<forall>i \<in> set [0..<Suc (length ps)]. (of_nat i :: u64) \<in> post_id ` set ps"
      by (simp only: filter_empty_conv not_not)
    then have "of_nat ` {0..<Suc (length ps)} \<subseteq> post_id ` set ps"
      unfolding set_upt by (simp only: image_subset_iff)
    then have "card ((of_nat :: nat \<Rightarrow> u64) ` {0..<Suc (length ps)}) \<le> card (post_id ` set ps)"
      by (rule card_mono [rotated]) simp
    also have "\<dots> \<le> length ps"
      using card_image_le [of "set ps" post_id] card_length [of ps] by simp
    finally show False using inj by (simp add: card_image)
  qed
  then have "hd ?xs \<in> set ?xs" by (rule hd_in_set)
  then show "(of_nat (free_handle ps) :: u64) \<notin> post_id ` set ps" "free_handle ps < 2 ^ 31"
    using assms unfolding free_handle_def [symmetric] by (auto simp: free_handle_def)
qed

lemma apart_append:
  "apart (ps @ qs) \<longleftrightarrow> apart ps \<and> apart qs \<and> (\<forall>p \<in> set ps. \<forall>q \<in> set qs. region p \<inter> region q = {})"
  by (auto simp: apart_def sorted_wrt_append)

lemma apart_Cons:
  "apart (p # ps) \<longleftrightarrow> short p \<and> apart ps \<and> (\<forall>q \<in> set ps. region p \<inter> region q = {})"
  by (auto simp: apart_def)

lemma apart_Nil [simp]: "apart []"
  by (simp add: apart_def)

lemma deliver_outside:
  "(\<And>q. q \<in> set ps \<Longrightarrow> region q \<subseteq> X) \<Longrightarrow> same_outside X m (deliver ps m)"
proof (induction ps m rule: deliver.induct)
  case (4 i a bs ps m)
  have "same_outside X m (ram_store m a bs)"
    by (rule same_outside_store) (use 4(2) [of "P_Recv i a bs"] in simp)
  moreover have "same_outside X (ram_store m a bs) (deliver ps (ram_store m a bs))"
    using 4 by simp
  ultimately show ?case by (simp add: same_outside_trans)
qed auto

lemma deliver_there:
  "apart ps \<Longrightarrow> P_Recv i a bs \<in> set ps \<Longrightarrow> ram_bytes (deliver ps m) a (length bs) = bs"
proof (induction ps m rule: deliver.induct)
  case (4 j b cs ps m)
  show ?case
  proof (cases "P_Recv i a bs \<in> set ps")
    case True
    then show ?thesis using 4 by (simp add: apart_Cons)
  next
    case False
    then have eq: "i = j" "a = b" "bs = cs" using 4 by simp_all
    have "same_outside (- span a (length bs)) (ram_store m a bs) (deliver ps (ram_store m a bs))"
      by (rule deliver_outside) (use 4(2) eq in \<open>auto simp: apart_Cons\<close>)
    then have "ram_bytes (deliver ps (ram_store m a bs)) a (length bs) =
        ram_bytes (ram_store m a bs) a (length bs)"
      by (rule ram_bytes_same) simp
    then show ?thesis using 4(2) eq by (simp add: ram_bytes_store apart_Cons)
  qed
qed (auto simp: apart_Cons)

lemma inflight_region: "inflight V w = (\<Union>fd. \<Union>q \<in> set (posted V w fd). region q)"
proof (rule set_eqI)
  fix x
  have "x \<in> region q \<longleftrightarrow> (\<exists>i a bs. q = P_Recv i a bs \<and> x \<in> span a (length bs))" for q
    by (cases q) auto
  then show "x \<in> inflight V w \<longleftrightarrow> x \<in> (\<Union>fd. \<Union>q \<in> set (posted V w fd). region q)"
    by (auto simp: inflight_def) blast+
qed

lemma region_inflight: "q \<in> set (posted V w fd) \<Longrightarrow> region q \<subseteq> inflight V w"
  by (auto simp: inflight_region)

lemma ref_send_law: "send_law (ref_sys out names) (ref_link out)"
proof (unfold send_law_def, intro allI impI, elim conjE)
  fix p :: "lworld proc" and fd a l
  assume "length (log (ref_link out) (pos p) fd) < 2 ^ 31" "sane (ref_link out) p"
  then have "length (lw_posted (pos p) fd) < 2 ^ 31" "sane (ref_link out) p"
    by (auto simp: ref_link_def intro: le_less_trans)
  then show "\<exists>r p'. psipe_send (ref_sys out names) fd a l p = (r, p') \<and>
      fresh_handle (ref_link out) (pos p) fd r \<and>
      posts (ref_link out) fd p [T_Out (peek p a (unat l))]
        [send_op (ref_link out) (pos p) fd (u64_of_int r) a (peek p a (unat l))]
        (inflight (ref_link out) (pos p)) p'"
    using free_handle_props [of "lw_posted (pos p) fd"]
    by (auto simp: send_op_def psipe_send_def ref_sys_def ref_ioctl_def ref_link_def Let_def fresh_handle_def
        posts_def apart_append apart_Cons)
qed

lemma ref_recv_law: "recv_law (ref_sys out names) (ref_link out)"
proof (unfold recv_law_def, intro allI impI, elim conjE)
  fix p :: "lworld proc" and fd a and l :: u64 and bs
  let ?V = "ref_link out" and ?ps = "lw_posted (pos p) fd"
  assume log: "length (log ?V (pos p) fd) < 2 ^ 31" and sane: "sane ?V p"
    and bs: "bs = peer ?V fd (sent ?V (pos p) fd) (recvs ?V (pos p) fd)" "length bs = unat l"
    and free: "span a (unat l) \<inter> inflight ?V (pos p) = {}"
  obtain r p' where rp: "psipe_recv (ref_sys out names) fd a l p = (r, p')" by fastforce
  have v: "r = int (free_handle ?ps)"
    "pmem p' = (if ?ps = [] then ram_store (pmem p) a bs else pmem p)"
    "pos p' = (pos p)\<lparr>lw_posted := (lw_posted (pos p))(fd := ?ps @ [P_Recv (u64_of_int r) a bs]),
       lw_log := (lw_log (pos p))(fd := lw_log (pos p) fd @ [T_In bs])\<rparr>"
    using rp bs(1)
    by (auto simp: psipe_recv_def ref_sys_def ref_ioctl_def ref_link_def Let_def sent_def recvs_def)
  have len: "length ?ps < 2 ^ 31"
    using log sane by (auto simp: ref_link_def intro: le_less_trans)
  have l64: "length bs \<le> 2 ^ 64" using bs(2) unsigned_less [of l, where ?'a = nat] by simp
  have f: "region q \<inter> span a (length bs) = {}" if "q \<in> set ?ps" for q
    using free that by (auto simp: inflight_region ref_link_def bs(2))
  have i: "span a (length bs) \<subseteq> inflight ?V (pos p')"
    using region_inflight [of "P_Recv (u64_of_int r) a bs" ?V "pos p'" fd]
    by (simp add: ref_link_def v(3))
  have "fresh_handle ?V (pos p) fd r"
    using free_handle_props [of ?ps] len by (simp add: fresh_handle_def v(1) ref_link_def)
  moreover have "posts ?V fd p [T_In bs] [P_Recv (u64_of_int r) a bs] (inflight ?V (pos p')) p'"
    using sane f l64 same_outside_store [OF i, of "pmem p"] v(2)
    by (auto simp: posts_def ref_link_def v(3) apart_append apart_Cons)
  moreover have "posted ?V (pos p) fd = [] \<longrightarrow> peek p' a (length bs) = bs"
    using ram_bytes_store [OF l64] by (simp add: v(2) ref_link_def)
  ultimately show "\<exists>r p'. psipe_recv (ref_sys out names) fd a l p = (r, p') \<and>
      fresh_handle ?V (pos p) fd r \<and>
      posts ?V fd p [T_In bs] [P_Recv (u64_of_int r) a bs] (inflight ?V (pos p')) p' \<and>
      (posted ?V (pos p) fd = [] \<longrightarrow> peek p' a (length bs) = bs)"
    using rp by blast
qed

lemma ref_wait_law: "wait_law (ref_sys out names) (ref_link out)"
proof (unfold wait_law_def, intro allI impI, elim conjE)
  fix p :: "lworld proc" and fd pre q rest
  let ?V = "ref_link out"
  assume sane: "sane ?V p" and ps: "posted ?V (pos p) fd = pre @ q # rest"
    and q: "post_id q \<notin> post_id ` set pre"
  have lp: "lw_posted (pos p) fd = pre @ q # rest" using ps by (simp add: ref_link_def)
  have pre: "\<forall>x \<in> set pre. post_id x \<noteq> post_id q" using q by (metis imageI)
  have split: "dropWhile (\<lambda>x. post_id x \<noteq> post_id q) (pre @ q # rest) = q # rest"
    "takeWhile (\<lambda>x. post_id x \<noteq> post_id q) (pre @ q # rest) = pre"
    using pre by (simp_all add: dropWhile_append takeWhile_append)
  let ?p = "p\<lparr>pmem := deliver (pre @ [q]) (pmem p),
    pos := (pos p)\<lparr>lw_posted := (lw_posted (pos p))(fd := rest)\<rparr>\<rparr>"
  have run: "psipe_wait (ref_sys out names) fd (post_id q) p = (0, ?p)"
    by (simp add: psipe_wait_def ref_sys_def ref_ioctl_def Let_def lp split)
  have ap: "apart (pre @ q # rest)" "length (pre @ q # rest) \<le> length (lw_log (pos p) fd)"
    using sane unfolding lp [symmetric] by (simp_all add: ref_link_def)
  then have apq: "apart (pre @ [q])" "apart rest" by (simp_all add: apart_append apart_Cons)
  have "same_outside (inflight ?V (pos p)) (pmem p) (deliver (pre @ [q]) (pmem p))"
    by (rule deliver_outside, rule region_inflight [where fd = fd]) (use ps in auto)
  then have "waited ?V fd p (pre @ [q]) rest ?p"
    using sane deliver_there [OF apq(1)] apq(2) ap(2) by (auto simp: waited_def ref_link_def)
  then show "\<exists>r p'. psipe_wait (ref_sys out names) fd (post_id q) p = (r, p') \<and> 0 \<le> r \<and>
      waited ?V fd p (pre @ [q]) rest p'"
    using run by auto
qed

lemma ref_quiet_law: "quiet_law (ref_sys out names) (ref_link out)"
  by (simp add: quiet_law_def quiet_def psipe_flush_def ref_sys_def ref_ioctl_def Let_def)

lemma ref_memalign_law: "memalign_law (ref_sys out names) (ref_link out)"
proof (unfold memalign_law_def, intro allI impI, elim conjE)
  fix p :: "lworld proc" and al and sz :: u64
  let ?V = "ref_link out" and ?t = "lw_top (pos p)"
  let ?p = "p\<lparr>pos := (pos p)\<lparr>lw_top := ?t + unat sz\<rparr>\<rparr>"
  assume s: "sane ?V p" and "unat sz \<le> room ?V (pos p)"
  then have room: "unat sz \<le> 2 ^ 64 - ?t" by (simp add: ref_link_def)
  have "sys_memalign (ref_sys out names) al sz p = (0, of_nat ?t, ?p)"
    using room by (simp add: ref_sys_def)
  moreover have "quiet ?V p ?p" using s by (simp add: quiet_def ref_link_def)
  moreover have "span (of_nat ?t) (unat sz) \<inter> span 0 ?t = {}"
  proof (cases "unat sz = 0")
    case False
    then have "?t + unat sz \<le> 2 ^ 64" using room by simp
    from span_disjoint [OF this, of 0] show ?thesis by auto
  qed (simp add: span_def)
  moreover have "span 0 (?t + unat sz) = span 0 ?t \<union> span (of_nat ?t) (unat sz)"
    by (simp add: span_split)
  ultimately show "\<exists>a p'. sys_memalign (ref_sys out names) al sz p = (0, a, p') \<and> quiet ?V p p' \<and>
      span a (unat sz) \<inter> heap ?V (pos p) = {} \<and>
      heap ?V (pos p') = heap ?V (pos p) \<union> span a (unat sz) \<and>
      room ?V (pos p') = room ?V (pos p) - unat sz \<and> parts_taken ?V a (unat sz)"
    by (auto simp: ref_link_def parts_taken_def)
qed

lemma ref_store_law: "store_law (ref_link out)"
  by (simp add: store_law_def ref_link_def)

lemma ref_link_contract: "link_contract (ref_sys out names) (ref_link out)"
  by (simp add: link_contract_def ref_send_law ref_recv_law ref_wait_law ref_quiet_law
      ref_memalign_law ref_store_law)

section \<open>Processes on it\<close>

definition ref_proc :: "(u64 \<Rightarrow> u8) \<Rightarrow> lworld proc" where
  "ref_proc mem = \<lparr>pmem = mem, pos = \<lparr>lw_log = (\<lambda>_. []), lw_posted = (\<lambda>_. []),
     lw_top = 4096, lw_next = 3\<rparr>\<rparr>"

definition ref_opened :: "nat \<Rightarrow> (u64 \<Rightarrow> u8) \<Rightarrow> lworld proc" where
  "ref_opened k mem = (ref_proc mem)\<lparr>pos := (pos (ref_proc mem))\<lparr>lw_next := 3 + int k\<rparr>\<rparr>"

definition ref_devs :: "nat \<Rightarrow> psipe_devices" where
  "ref_devs k = \<lparr>devs_num = int k, devs_fds = map (\<lambda>i. 3 + int i) [0..<k]\<rparr>"

lemma ref_devs_simps [simp]:
  "devs_num (ref_devs k) = int k" "devs_fds (ref_devs k) = map (\<lambda>i. 3 + int i) [0..<k]"
  by (simp_all add: ref_devs_def)

text \<open>The state after \<open>k\<close> more descriptors have been given out.\<close>

definition next_fds :: "nat \<Rightarrow> lworld proc \<Rightarrow> lworld proc" where
  "next_fds k p = p\<lparr>pos := (pos p)\<lparr>lw_next := lw_next (pos p) + int k\<rparr>\<rparr>"

lemma ref_opened_next: "ref_opened k mem = next_fds k (ref_proc mem)"
  by (simp add: ref_opened_def next_fds_def ref_proc_def)

lemma ref_open_dev:
  assumes "lw_next (pos p) = 3"
  shows "open_dev (ref_sys out names) True name
     (int k, map (\<lambda>i. 3 + int i) [0..<k] @ g # gs, next_fds k p) =
   Inr (int (Suc k), map (\<lambda>i. 3 + int i) [0..<Suc k] @ gs, next_fds (Suc k) p)"
  using assms by (simp add: open_dev_def ref_sys_def next_fds_def list_update_append)

lemma ref_open_loop:
  assumes "lw_next (pos p) = 3"
  shows "foldR (open_dev (ref_sys out names) True) ns
     (int k, map (\<lambda>i. 3 + int i) [0..<k] @ replicate (length ns) g, next_fds k p) =
   Inr (int (k + length ns), map (\<lambda>i. 3 + int i) [0..<k + length ns], next_fds (k + length ns) p)"
proof (induction ns arbitrary: k)
  case (Cons name ns)
  show ?case
    unfolding foldR.simps length_Cons replicate_Suc ref_open_dev [OF assms] bindR.simps Cons.IH by simp
qed simp

lemma ref_started_at:
  assumes "names \<noteq> []" "lw_next (pos p) = 3" "lw_log (pos p) = (\<lambda>_. [])" "lw_posted (pos p) = (\<lambda>_. [])"
    "4096 \<le> lw_top (pos p)"
  shows "started (ref_sys out names) (ref_link out) p (ref_devs (length names)) (next_fds (length names) p)"
proof -
  have o0: "p = next_fds 0 p" by (simp add: next_fds_def)
  have [simp]: "filter fst (map (Pair True) names) = map (Pair True) names"
    "snd \<circ> Pair True = id" by (induction names) auto
  let ?S = "ref_sys out names"
  have dir: "sys_opendir ?S path p = (Some ((False, ''.'') # map (Pair True) names), p)"
    "sys_malloc ?S sz p = (True, p)" "garbage ?S = 0" "params_at ?S = 256" for path sz p by (simp_all add: ref_sys_def)
  have "psipe_open_devs ?S (next_fds 0 p) =
      Inr (0, Some (ref_devs (length names)), next_fds (length names) p)"
    using assms(1) ref_open_loop [OF assms(2), of out names names 0 0]
    by (simp add: psipe_open_devs_def psipe_count_devs_def dir ref_devs_def)
  moreover have "span 256 20 \<subseteq> span 0 4096" using span_offset [of 256 20 4096 0] by simp
  then have "span 256 20 \<subseteq> span 0 (lw_top (pos p))" using span_mono [OF assms(5), of 0] by blast
  ultimately show ?thesis using assms
    by (simp add: started_def ref_link_contract dir(4) flip: o0)
      (simp add: ref_link_def next_fds_def distinct_map inj_on_def)
qed

lemma ref_started:
  assumes "names \<noteq> []"
  shows "started (ref_sys out names) (ref_link out) (ref_proc mem) (ref_devs (length names))
     (ref_opened (length names) mem)"
  unfolding ref_opened_next by (rule ref_started_at) (use assms in \<open>simp_all add: ref_proc_def\<close>)

text \<open>A chiplet on this system that receives a task of the master.\<close>

lemma ref_chiplet_behind:
  fixes add mul mem C A B n t m d i
  defines "msgs \<equiv> task_msgs mem C A B n t m d i"
  defines "out \<equiv> \<lambda>(_ :: int) (_ :: u8 list list) k. msgs ! k"
  assumes sz: "int_sized n t m" and t: "0 < t" and dN: "d \<le> n * m" and i: "i < d"
  shows "chiplet_behind add mul (ref_sys out [''d0'']) (ref_link out) (ref_proc (\<lambda>_. 0)) 3 msgs
     (unelems (map (\<lambda>g. cell add mul t m (elems (ram_bytes mem A (8 * (n * t))))
       (elems (ram_bytes mem B (8 * (t * m)))) g (elems (ram_bytes mem C (8 * (n * m))) ! g))
       [part_start (n * m) d i..<part_start (n * m) d (Suc i)]))"
proof -
  let ?q = "ref_opened 1 (\<lambda>_. 0)"
  have S: "started (ref_sys out [''d0'']) (ref_link out) (ref_proc (\<lambda>_. 0)) (ref_devs 1) ?q"
    using ref_started [of "[''d0'']"] by simp
  have fd: "3 = hd (devs_fds (ref_devs 1))" by simp
  have "part_len (n * m) d i \<le> n * m" using part_facts(2,3) [OF dN i] by linarith
  then have "8 * (n * t) + 8 * (t * m) + 8 * part_len (n * m) d i \<le> 3 * 2 ^ 31"
    using sz unfolding int_sized_def by linarith
  also have "\<dots> \<le> room (ref_link out) (pos ?q)"
    by (simp add: ref_link_def ref_opened_def ref_proc_def)
  finally have room:
    "8 * (n * t) + 8 * (t * m) + 8 * part_len (n * m) d i \<le> room (ref_link out) (pos ?q)" .
  have peer: "\<forall>k < 4. peer (ref_link out) 3 [] k = msgs ! k" by (simp add: ref_link_def out_def)
  from chiplet_sends [OF S fd room peer [unfolded msgs_def] sz t dN i, of add mul] S fd room peer
  show ?thesis unfolding chiplet_behind_def msgs_def length_task sent_def by fastforce
qed

text \<open>
  A master on this system: a 1 times 2 matrix at 8192, a 2 times 3 matrix at 12288 and the result at
  16384, on two devices.
\<close>

definition ref_mem :: "u64 \<Rightarrow> u8" where
  "ref_mem = ram_store (ram_store (ram_store (\<lambda>_. 0) 8192 (unelems [0, 1]))
     12288 (unelems [0, 1, 2, 3, 4, 5])) 16384 (unelems [0, 1, 2])"

definition ref_msgs :: "nat \<Rightarrow> u8 list list" where
  "ref_msgs i = task_msgs ref_mem 16384 8192 12288 1 2 3 2 i"

definition ref_part :: "nat \<Rightarrow> u8 list" where
  "ref_part i = unelems (map (\<lambda>g. cell (+) (*) 2 3 (elems (ram_bytes ref_mem 8192 (8 * (1 * 2))))
     (elems (ram_bytes ref_mem 12288 (8 * (2 * 3)))) g (elems (ram_bytes ref_mem 16384 (8 * (1 * 3))) ! g))
     [part_start (1 * 3) 2 i..<part_start (1 * 3) 2 (Suc i)])"

definition ref_master :: "int \<Rightarrow> u8 list list \<Rightarrow> nat \<Rightarrow> u8 list" where
  "ref_master fd _ _ = ref_part (nat (fd - 3))"

lemma spans_apart:
  assumes "a + n \<le> b" "b + k \<le> 2 ^ 64"
  shows "span (of_nat a) n \<inter> span (of_nat b) k = {}"
proof -
  have "span (of_nat a) n \<subseteq> span (of_nat a) (b - a)" by (rule span_mono) (use assms in simp)
  moreover have "span (of_nat a) (b - a) \<inter> span (of_nat a + of_nat (b - a)) k = {}"
    by (rule span_disjoint) (use assms in simp)
  moreover have "of_nat a + of_nat (b - a) = (of_nat b :: u64)"
    using assms(1) by (simp flip: of_nat_add)
  ultimately show ?thesis by auto
qed

lemma ram_bytes_apart:
  "span b n \<inter> span a (length bs) = {} \<Longrightarrow> ram_bytes (ram_store m a bs) b n = ram_bytes m b n"
  by (rule ram_bytes_same [OF same_outside_store [OF order_refl]])

lemma ref_matrices:
  "elems (ram_bytes ref_mem 8192 16) = [0, 1]"
  "elems (ram_bytes ref_mem 12288 48) = [0, 1, 2, 3, 4, 5]"
  "elems (ram_bytes ref_mem 16384 24) = [0, 1, 2]"
proof -
  note st = ram_bytes_store [of "unelems xs" for xs, simplified]
  show "elems (ram_bytes ref_mem 8192 16) = [0, 1]"
    using spans_apart [of 8192 16 16384 24] spans_apart [of 8192 16 12288 48] st [of "[0, 1]"]
    by (simp add: ref_mem_def ram_bytes_apart)
  show "elems (ram_bytes ref_mem 12288 48) = [0, 1, 2, 3, 4, 5]"
    using spans_apart [of 12288 48 16384 24] st [of "[0, 1, 2, 3, 4, 5]"]
    by (simp add: ref_mem_def ram_bytes_apart)
  show "elems (ram_bytes ref_mem 16384 24) = [0, 1, 2]"
    using st [of "[0, 1, 2]"] by (simp add: ref_mem_def)
qed

lemma ref_gold: "matmul_gold (+) (*) 1 2 3 [0, 1] [0, 1, 2, 3, 4, 5] [0, 1, 2 :: u64] = Inr [3, 5, 7]"
  by code_simp

lemma ref_laid_out: "laid_out (ref_sys out names) (ref_link out) 16384 8192 12288 1 2 3"
  using spans_apart [of 256 20 8192 16] spans_apart [of 256 20 12288 48]
    spans_apart [of 256 20 16384 24] spans_apart [of 8192 16 16384 24]
    spans_apart [of 12288 48 16384 24]
  by (auto simp: laid_out_def ref_sys_def ref_link_def parts_taken_def)

end
