(* ===== verification/Mm_Main.thy ===== *)
theory Mm_Main
  imports Master Cstring
begin

text \<open>
  The main program of the offloaded multiplication (src/src/sw/userspace/master-mm.c): its arguments,
  the allocation and initialisation of the matrices, the two multiplications and the count of the
  cells in which they differ. The files it saves are in theory Save. What it prints is left out; so is
  the installation of a handler for SIGHUP, of which the result is a parameter.
\<close>

section \<open>Floating point\<close>

text \<open>
  The operations on \<^verbatim>\<open>double\<close>s, on their bit patterns: nothing is assumed about them. \<open>fp_lit\<close> is
  the value of a literal, \<open>fp_eq\<close> the comparison \<^verbatim>\<open>==\<close>, which fails on a NaN and itself.
\<close>

record fp =
  fp_add :: "u64 \<Rightarrow> u64 \<Rightarrow> u64"
  fp_sub :: "u64 \<Rightarrow> u64 \<Rightarrow> u64"
  fp_mul :: "u64 \<Rightarrow> u64 \<Rightarrow> u64"
  fp_div :: "u64 \<Rightarrow> u64 \<Rightarrow> u64"
  fp_of_int :: "int \<Rightarrow> u64"
  fp_lit :: "string \<Rightarrow> u64"
  fp_eq :: "u64 \<Rightarrow> u64 \<Rightarrow> bool"

section \<open>Arguments\<close>

definition SIZE_X :: int where "SIZE_X = 50"

text \<open>Options before the sizes: whether to save the matrices, and the other arguments.\<close>

fun mm_opts :: "bool \<Rightarrow> string list \<Rightarrow> (bool \<times> string list) res" where
  "mm_opts save [] = Inr (save, [])"
| "mm_opts save (a # as) =
     (if a = ''-s'' then mm_opts True as
      else if a = ''-h'' then Inl (Exited 1)
      else Inr (save, a # as))"

text \<open>One size: the next argument if there is one, converted from \<^verbatim>\<open>long\<close> to \<^verbatim>\<open>int\<close>.\<close>

definition mm_size :: "int \<Rightarrow> string list \<Rightarrow> int \<times> string list" where
  "mm_size sz args = (case args of [] \<Rightarrow> (sz, []) | a # as \<Rightarrow> (s32 (fst (strtol 0 a)), as))"

definition mm_args :: "int \<Rightarrow> int \<Rightarrow> int \<Rightarrow> string list \<Rightarrow> (bool \<times> int \<times> int \<times> int) res" where
  "mm_args max_n max_t max_m argv =
     bindR (mm_opts False argv) (\<lambda>(save, args).
       case mm_size max_n args of (sz_n, args) \<Rightarrow>
       case mm_size max_t args of (sz_t, args) \<Rightarrow>
       case mm_size max_m args of (sz_m, args) \<Rightarrow>
         if sz_n \<le> 0 \<or> max_n < sz_n then Inl (Exited 1)
         else if sz_t \<le> 0 \<or> max_t < sz_t then Inl (Exited 1)
         else if sz_m \<le> 0 \<or> max_m < sz_m then Inl (Exited 1)
         else Inr (save, sz_n, sz_t, sz_m))"

section \<open>The matrices\<close>

definition matrix_allocate :: "'w sys \<Rightarrow> int \<Rightarrow> int \<Rightarrow> 'w proc \<Rightarrow> (u64 \<times> 'w proc) res" where
  "matrix_allocate S rows cols p =
     (let size = int_of_u64 (u64_of_int (s32 (rows * cols)) * 8)
      in case sys_memalign S 8 (u64_of_int size) p of (err, m, p) \<Rightarrow>
        if err \<noteq> 0 then Inl (Exited 1) else Inr (m, p))"

definition init_value :: "fp \<Rightarrow> u64 \<Rightarrow> int \<Rightarrow> int \<Rightarrow> u64" where
  "init_value F random i j =
     fp_mul F random (fp_sub F
       (fp_div F (fp_lit F ''1.0'') (fp_add F (fp_of_int F i) (fp_lit F ''0.25'')))
       (fp_mul F (fp_lit F ''0.005'') (fp_of_int F j)))"

definition matrix_init :: "fp \<Rightarrow> int \<Rightarrow> int \<Rightarrow> u64 \<Rightarrow> u64 \<Rightarrow> 'w proc \<Rightarrow> 'w proc" where
  "matrix_init F rows cols mat random =
     fold (\<lambda>i. fold (\<lambda>j. poke (mat + u64_of_int (i * cols + j) * 8) (le_bytes 8 (init_value F random i j)))
       [0..cols - 1]) [0..rows - 1]"

section \<open>The program\<close>

text \<open>\<open>A\<close> and \<open>B\<close> are the addresses of the global arrays.\<close>

definition mm_setup ::
    "fp \<Rightarrow> 'w sys \<Rightarrow> int \<Rightarrow> int \<Rightarrow> int \<Rightarrow> u64 \<Rightarrow> u64 \<Rightarrow> 'w proc \<Rightarrow> (u64 \<times> u64 \<times> 'w proc) res" where
  "mm_setup F S sz_n sz_t sz_m A B p =
     bindR (matrix_allocate S sz_n sz_m p) (\<lambda>(C, p).
     bindR (matrix_allocate S sz_n sz_m p) (\<lambda>(C_golden, p).
     let p = matrix_init F sz_n sz_t A (fp_lit F ''0.04'') p;
         p = matrix_init F sz_t sz_m B (fp_lit F ''0.07'') p;
         p = matrix_init F sz_n sz_m C (fp_lit F ''0.0'') p
     in Inr (C, C_golden, poke C_golden (peek p C (unat (u64_of_int (s32 (sz_n * sz_m)) * 8))) p)))"

definition mm_errors :: "(u64 \<Rightarrow> u64 \<Rightarrow> bool) \<Rightarrow> int \<Rightarrow> u64 list \<Rightarrow> u64 list \<Rightarrow> int res" where
  "mm_errors eq len C C_golden =
     foldR (\<lambda>i errors. bindR (load C i) (\<lambda>x. bindR (load C_golden i) (\<lambda>y.
       Inr (if eq x y then errors else errors + 1)))) [0..len - 1] 0"

text \<open>
  \<open>sig\<close> is what \<^verbatim>\<open>sigaction\<close> returns. The result is the number of errors the program prints, whether
  the matrices are saved, and the process.
\<close>

definition master_main ::
    "fp \<Rightarrow> 'w sys \<Rightarrow> int \<Rightarrow> u64 \<Rightarrow> u64 \<Rightarrow> string list \<Rightarrow> 'w proc \<Rightarrow> (int \<times> bool \<times> 'w proc) res" where
  "master_main F S sig A B argv p =
     (if sig < 0 then Inl (Exited 1)
      else bindR (mm_args SIZE_X SIZE_X SIZE_X argv) (\<lambda>(save, sz_n, sz_t, sz_m).
        bindR (mm_setup F S sz_n sz_t sz_m A B p) (\<lambda>(C, C_golden, p).
        bindR (matmul S sz_n sz_t sz_m C A B p) (\<lambda>p.
        let mat = (\<lambda>p a k. elems (peek p a (8 * nat k)))
        in bindR (matmul_gold (fp_add F) (fp_mul F) sz_n sz_t sz_m (mat p A (sz_n * sz_t))
             (mat p B (sz_t * sz_m)) (mat p C_golden (sz_n * sz_m))) (\<lambda>g.
           let p = poke C_golden (unelems g) p
           in bindR (mm_errors (fp_eq F) (sz_n * sz_m) (mat p C (sz_n * sz_m))
                (mat p C_golden (sz_n * sz_m))) (\<lambda>errors. Inr (errors, save, p)))))))"

section \<open>Sizes\<close>

lemma dec_no_option: "dec n \<noteq> CHR ''-'' # s"
proof -
  obtain d cs where "dec n = digit_char d # cs" "d < 10"
    by (rule print_base_first [of 10 n]) auto
  then show ?thesis using digit_char_plain(2) [of d] by simp
qed

lemma mm_size_dec: "n < 2 ^ 31 \<Longrightarrow> mm_size sz (dec n # as) = (int n, as)"
proof -
  assume n: "n < 2 ^ 31"
  then have "strtol 0 (dec n) = (int n, True, False)"
    by (intro strtol_print) (simp_all add: LONG_MAX_def)
  moreover have "s32 (int n) = int n" using n by (simp add: s32_id)
  ultimately show ?thesis by (simp add: mm_size_def)
qed

lemma mm_args_dec:
  assumes "0 < n" "0 < t" "0 < m" "int n \<le> max_n" "int t \<le> max_t" "int m \<le> max_m"
    and "max_n < 2 ^ 31" "max_t < 2 ^ 31" "max_m < 2 ^ 31"
  shows "mm_args max_n max_t max_m [dec n, dec t, dec m] = Inr (False, int n, int t, int m)"
proof -
  have "int n < int (2 ^ 31)" "int t < int (2 ^ 31)" "int m < int (2 ^ 31)" using assms by simp_all
  then have "n < 2 ^ 31" "t < 2 ^ 31" "m < 2 ^ 31" by (simp_all only: of_nat_less_iff)
  then show ?thesis using assms dec_no_option [of n] by (simp add: mm_args_def mm_size_dec)
qed

text \<open>Only sizes within the limits are accepted.\<close>

lemma mm_opts_fault: "mm_opts save argv = Inl e \<Longrightarrow> e = Exited 1"
  by (induction save argv rule: mm_opts.induct) (auto split: if_splits)

lemma mm_args_sound:
  "(\<exists>save n t m. mm_args max_n max_t max_m argv = Inr (save, n, t, m) \<and>
      n \<in> {1..max_n} \<and> t \<in> {1..max_t} \<and> m \<in> {1..max_m}) \<or>
   mm_args max_n max_t max_m argv = Inl (Exited 1)"
proof (cases "mm_opts False argv")
  case (Inl e)
  then show ?thesis using mm_opts_fault [OF Inl] by (simp add: mm_args_def)
next
  case (Inr r)
  obtain save args where r: "r = (save, args)" by (cases r)
  obtain n a1 t a2 m a3 where "mm_size max_n args = (n, a1)" "mm_size max_t a1 = (t, a2)"
    "mm_size max_m a2 = (m, a3)" by (meson surj_pair)
  then show ?thesis using Inr r by (auto simp: mm_args_def)
qed

section \<open>Initialisation\<close>

lemma ram_store_append:
  assumes "length bs + length cs \<le> 2 ^ 64"
  shows "ram_store (ram_store m a bs) (a + of_nat (length bs)) cs = ram_store m a (bs @ cs)"
proof
  fix x :: u64
  let ?k = "unat (x - a)" and ?l = "length bs"
  have k: "?k < 2 ^ 64" by (rule unat_u64_lt)
  show "ram_store (ram_store m a bs) (a + of_nat ?l) cs x = ram_store m a (bs @ cs) x"
  proof (cases "?l \<le> ?k")
    case True
    then have "x - (a + of_nat ?l) = of_nat (?k - ?l)" by (simp add: of_nat_diff)
    moreover have "?k - ?l < 2 ^ 64" using k by linarith
    ultimately have "unat (x - (a + of_nat ?l)) = ?k - ?l" by (simp only: unat_of_nat_u64)
    then show ?thesis using True by (auto simp: ram_store_def nth_append)
  next
    case False
    have "\<not> unat (x - (a + of_nat ?l)) < length cs"
    proof
      assume u: "unat (x - (a + of_nat ?l)) < length cs"
      have "x - a = of_nat (?l + unat (x - (a + of_nat ?l)))" by simp
      moreover have "?l + unat (x - (a + of_nat ?l)) < 2 ^ 64" using u assms by linarith
      ultimately have "?k = ?l + unat (x - (a + of_nat ?l))" by (simp only: unat_of_nat_u64)
      then show False using False by simp
    qed
    then show ?thesis using False by (auto simp: ram_store_def nth_append)
  qed
qed

lemma poke_append:
  assumes "length bs + length cs \<le> 2 ^ 64"
  shows "poke (a + of_nat (length bs)) cs (poke a bs p) = poke a (bs @ cs) p"
  using ram_store_append [OF assms] by (simp add: poke_def)

lemma poke_Nil [simp]: "poke a [] p = p"
  by (simp add: poke_def ram_store_def)

lemma poke_elems:
  assumes "8 * k \<le> 2 ^ 64"
  shows "fold (\<lambda>g. poke (a + of_nat (8 * g)) (le_bytes 8 (f g))) [0..<k] p =
     poke a (unelems (map f [0..<k])) p"
  using assms
proof (induction k)
  case 0
  then show ?case by (simp add: unelems_def)
next
  case (Suc k)
  have "poke (a + of_nat (length (unelems (map f [0..<k])))) (le_bytes 8 (f k))
      (poke a (unelems (map f [0..<k])) p) = poke a (unelems (map f [0..<k]) @ le_bytes 8 (f k)) p"
    by (rule poke_append) (use Suc.prems in simp)
  moreover have "unelems (map f [0..<Suc k]) = unelems (map f [0..<k]) @ le_bytes 8 (f k)"
    by (simp add: unelems_def)
  ultimately show ?case using Suc by simp
qed

lemma row_major: "concat (map (\<lambda>i. map (\<lambda>j. i * c + j) [0..<c]) [0..<r]) = [0..<r * c]"
proof (induction r)
  case (Suc r)
  have "map (\<lambda>j. r * c + j) [0..<c] = [r * c..<r * c + c]"
    by (rule nth_equalityI) simp_all
  with Suc show ?case using upt_add_eq_append [of 0 "r * c" c] by (simp add: add.commute [of c])
qed simp

lemma fold_nested: "fold (\<lambda>x. fold f (g x)) xs s = fold f (concat (map g xs)) s"
  by (induction xs arbitrary: s) simp_all

text \<open>The initial elements of a matrix.\<close>

definition init_elems :: "fp \<Rightarrow> u64 \<Rightarrow> nat \<Rightarrow> nat \<Rightarrow> u64 list" where
  "init_elems F random rows cols =
     map (\<lambda>g. init_value F random (int (g div cols)) (int (g mod cols))) [0..<rows * cols]"

lemma matrix_init_poke:
  assumes "8 * (r * c) \<le> 2 ^ 64"
  shows "matrix_init F (int r) (int c) a rnd p = poke a (unelems (init_elems F rnd r c)) p"
proof -
  let ?f = "\<lambda>g. init_value F rnd (int (g div c)) (int (g mod c))"
  have "matrix_init F (int r) (int c) a rnd p =
      fold (\<lambda>i. fold (\<lambda>j. poke (a + of_nat (8 * (i * c + j))) (le_bytes 8 (?f (i * c + j)))) [0..<c])
        [0..<r] p"
    unfolding matrix_init_def upto_nat fold_map comp_def
    by (intro fold_cong refl ext) (auto simp: u64_of_int_def algebra_simps)
  also have "\<dots> = fold (\<lambda>g. poke (a + of_nat (8 * g)) (le_bytes 8 (?f g)))
      (concat (map (\<lambda>i. map (\<lambda>j. i * c + j) [0..<c]) [0..<r])) p"
    by (simp add: fold_map comp_def flip: fold_nested)
  finally show ?thesis unfolding row_major init_elems_def by (simp only: poke_elems [OF assms])
qed

section \<open>Setting up\<close>

lemma allocate:
  assumes C: "link_contract S V" and p: "sane V p" "8 * (n * m) \<le> room V (pos p)"
    and sz: "8 * (n * m) < 2 ^ 31"
  obtains a p' where "matrix_allocate S (int n) (int m) p = Inr (a, p')" "quiet V p p'"
    "span a (8 * (n * m)) \<inter> heap V (pos p) = {}"
    "heap V (pos p') = heap V (pos p) \<union> span a (8 * (n * m))"
    "room V (pos p') = room V (pos p) - 8 * (n * m)" "parts_taken V a (8 * (n * m))"
proof -
  let ?l = "8 * (n * m)"
  have u: "u64_of_int (s32 (int n * int m)) * 8 = of_nat ?l"
    using sz s32_nat [of "n * m"] by (simp add: u64_of_int_def)
  have l: "unat (of_nat ?l :: u64) = ?l" by (rule unat_of_nat_u64) (use sz in simp)
  then have "int_of_u64 (of_nat ?l) = int ?l" using sz by (subst int_of_u64_small) simp_all
  then have s: "u64_of_int (int_of_u64 (u64_of_int (s32 (int n * int m)) * 8)) = of_nat ?l"
    unfolding u by (simp add: u64_of_int_def)
  from p(2) have "unat (of_nat ?l :: u64) \<le> room V (pos p)" unfolding l .
  from memalign_step [OF C p(1) this, of 8] obtain a p' where a:
    "sys_memalign S 8 (of_nat ?l) p = (0, a, p')" "quiet V p p'" "span a ?l \<inter> heap V (pos p) = {}"
    "heap V (pos p') = heap V (pos p) \<union> span a ?l" "room V (pos p') = room V (pos p) - ?l"
    "parts_taken V a ?l"
    unfolding l by blast
  from a(1) have "matrix_allocate S (int n) (int m) p = Inr (a, p')"
    unfolding matrix_allocate_def Let_def s by simp
  from this a(2-6) show ?thesis by (rule that)
qed

text \<open>
  What the program needs of its address space: the global matrices and the stack frame of the
  argument functions are in use and apart, the devices can take the matrices, and there is room for the two allocated matrices.
\<close>

definition mm_room :: "'w sys \<Rightarrow> 'w link_view \<Rightarrow> 'w proc \<Rightarrow> u64 \<Rightarrow> u64 \<Rightarrow> nat \<Rightarrow> nat \<Rightarrow> nat \<Rightarrow> bool" where
  "mm_room S V p A B n t m \<longleftrightarrow>
     sane V p \<and> posted V (pos p) = (\<lambda>_. []) \<and> 16 * (n * m) \<le> room V (pos p) \<and>
     span A (8 * (n * t)) \<union> span B (8 * (t * m)) \<union> span (params_at S) 20 \<subseteq> heap V (pos p) \<and>
     span A (8 * (n * t)) \<inter> span B (8 * (t * m)) = {} \<and>
     span A (8 * (n * t)) \<inter> span (params_at S) 20 = {} \<and>
     span B (8 * (t * m)) \<inter> span (params_at S) 20 = {} \<and>
     takes V A (8 * (n * t)) \<and> takes V B (8 * (t * m))"

abbreviation mat_A :: "fp \<Rightarrow> nat \<Rightarrow> nat \<Rightarrow> u64 list" where
  "mat_A F n t \<equiv> init_elems F (fp_lit F ''0.04'') n t"
abbreviation mat_B :: "fp \<Rightarrow> nat \<Rightarrow> nat \<Rightarrow> u64 list" where
  "mat_B F t m \<equiv> init_elems F (fp_lit F ''0.07'') t m"
abbreviation mat_C :: "fp \<Rightarrow> nat \<Rightarrow> nat \<Rightarrow> u64 list" where
  "mat_C F n m \<equiv> init_elems F (fp_lit F ''0.0'') n m"

lemma length_init_elems [simp]: "length (init_elems F x r c) = r * c"
  by (simp add: init_elems_def)

lemma peek_poke: "length bs = n \<Longrightarrow> n \<le> 2 ^ 64 \<Longrightarrow> peek (poke a bs p) a n = bs"
  using ram_bytes_store by auto

lemma peek_poke_other:
  "span b n \<inter> span a (length bs) = {} \<Longrightarrow> peek (poke a bs p) b n = peek p b n"
  by (simp add: ram_bytes_same [OF same_outside_store [OF order_refl]])

lemma setup_done:
  assumes C: "link_contract S V" and R: "mm_room S V p A B n t m" and sz: "int_sized n t m"
  obtains c g p1 where "mm_setup F S (int n) (int t) (int m) A B p = Inr (c, g, p1)"
    "laid_out S V c A B n t m" "peek p1 A (8 * (n * t)) = unelems (mat_A F n t)"
    "peek p1 B (8 * (t * m)) = unelems (mat_B F t m)" "peek p1 c (8 * (n * m)) = unelems (mat_C F n m)"
    "peek p1 g (8 * (n * m)) = unelems (mat_C F n m)"
    "span g (8 * (n * m)) \<inter> (span (params_at S) 20 \<union> span c (8 * (n * m))) = {}"
proof -
  note R' = R [unfolded mm_room_def] and Z = sz [unfolded int_sized_def]
  have l: "8 * (n * m) < 2 ^ 31" "8 * (n * t) \<le> 2 ^ 64" "8 * (t * m) \<le> 2 ^ 64" "8 * (n * m) \<le> 2 ^ 64"
    using Z by simp_all
  obtain c q where c: "matrix_allocate S (int n) (int m) p = Inr (c, q)" "quiet V p q"
    "span c (8 * (n * m)) \<inter> heap V (pos p) = {}"
    "heap V (pos q) = heap V (pos p) \<union> span c (8 * (n * m))"
    "room V (pos q) = room V (pos p) - 8 * (n * m)" "parts_taken V c (8 * (n * m))"
    by (rule allocate [OF C _ _ l(1), of p]) (use R' in auto)
  obtain g r where g: "matrix_allocate S (int n) (int m) q = Inr (g, r)"
    "span g (8 * (n * m)) \<inter> heap V (pos q) = {}"
    by (rule allocate [OF C _ _ l(1), of q]) (use R' c in \<open>auto simp: quiet_def\<close>)
  let ?p1 = "poke A (unelems (mat_A F n t)) r"
  let ?p2 = "poke B (unelems (mat_B F t m)) ?p1"
  let ?p3 = "poke c (unelems (mat_C F n m)) ?p2"
  let ?p4 = "poke g (unelems (mat_C F n m)) ?p3"
  have apart: "span A (8 * (n * t)) \<inter> span B (8 * (t * m)) = {}"
    "span A (8 * (n * t)) \<inter> span c (8 * (n * m)) = {}" "span A (8 * (n * t)) \<inter> span g (8 * (n * m)) = {}"
    "span B (8 * (t * m)) \<inter> span c (8 * (n * m)) = {}" "span B (8 * (t * m)) \<inter> span g (8 * (n * m)) = {}"
    "span c (8 * (n * m)) \<inter> span g (8 * (n * m)) = {}"
    "span (params_at S) 20 \<inter> span c (8 * (n * m)) = {}" "span (params_at S) 20 \<inter> span g (8 * (n * m)) = {}"
    using R' c(3,4) g(2) by auto
  have "unat (u64_of_int (s32 (int n * int m)) * 8) = 8 * (n * m)"
    using unat_size8(1) [OF l(1)] by simp
  then have "mm_setup F S (int n) (int t) (int m) A B p = Inr (c, g, ?p4)"
    using peek_poke [of "unelems (mat_C F n m)" "8 * (n * m)" c ?p2] l
    by (simp add: mm_setup_def c(1) g(1) matrix_init_poke)
  moreover have "laid_out S V c A B n t m" using apart R' c(6) by (auto simp: laid_out_def)
  moreover have "peek ?p4 A (8 * (n * t)) = unelems (mat_A F n t)"
    using apart l by (simp only: peek_poke_other length_unelems length_init_elems peek_poke)
  moreover have "peek ?p4 B (8 * (t * m)) = unelems (mat_B F t m)"
    using apart l by (simp only: peek_poke_other length_unelems length_init_elems peek_poke)
  moreover have "peek ?p4 c (8 * (n * m)) = unelems (mat_C F n m)"
    using apart l by (simp only: peek_poke_other length_unelems length_init_elems peek_poke)
  moreover have "peek ?p4 g (8 * (n * m)) = unelems (mat_C F n m)"
    using l by (simp only: length_unelems length_init_elems peek_poke)
  ultimately show ?thesis using apart by (intro that) auto
qed

section \<open>Counting errors\<close>

lemma mm_errors_count:
  assumes "length C = k" "length G = k"
  shows "mm_errors eq (int k) C G = Inr (int (length (filter (\<lambda>i. \<not> eq (C ! i) (G ! i)) [0..<k])))"
proof -
  have "foldR (\<lambda>i errors. bindR (load C i) (\<lambda>x. bindR (load G i) (\<lambda>y.
      Inr (if eq x y then errors else errors + 1)))) (map int is) e =
    Inr (e + int (length (filter (\<lambda>i. \<not> eq (C ! i) (G ! i)) is)))" if "set is \<subseteq> {0..<k}" for "is" e
    using that assms by (induction "is" arbitrary: e) auto
  from this [of "[0..<k]" 0] show ?thesis by (simp add: mm_errors_def upto_nat)
qed

section \<open>The run\<close>

text \<open>The task of one device, from the initial matrices.\<close>

definition mm_task :: "fp \<Rightarrow> nat \<Rightarrow> nat \<Rightarrow> nat \<Rightarrow> nat \<Rightarrow> nat \<Rightarrow> u8 list list" where
  "mm_task F n t m d i =
     [args_bytes (int n) (int t) (int m) (int (part_len (n * m) d i)) (int (part_start (n * m) d i)),
      unelems (mat_A F n t), unelems (mat_B F t m),
      unelems (take (part_len (n * m) d i) (drop (part_start (n * m) d i) (mat_C F n m)))]"

lemma unelems_take: "take (8 * k) (unelems xs) = unelems (take k xs)"
proof -
  have "unelems xs = unelems (take k xs) @ unelems (drop k xs)"
    by (simp flip: unelems_append)
  then show ?thesis by (cases "k \<le> length xs") simp_all
qed

lemma unelems_drop: "drop (8 * k) (unelems xs) = unelems (drop k xs)"
proof -
  have "unelems xs = unelems (take k xs) @ unelems (drop k xs)"
    by (simp flip: unelems_append)
  then show ?thesis by (cases "k \<le> length xs") simp_all
qed

lemma mm_task_msgs:
  assumes "ram_bytes mem A (8 * (n * t)) = unelems (mat_A F n t)"
    "ram_bytes mem B (8 * (t * m)) = unelems (mat_B F t m)"
    "ram_bytes mem C (8 * (n * m)) = unelems (mat_C F n m)" and "d \<le> n * m" "i < d"
  shows "task_msgs mem C A B n t m d i = mm_task F n t m d i"
proof -
  let ?s = "part_start (n * m) d i" and ?l = "part_len (n * m) d i"
  have "8 * ?s + 8 * ?l \<le> 8 * (n * m)" using part_facts(2,3) [OF assms(4,5)] by linarith
  from ram_bytes_part [OF this, of mem C] assms(3)
  have "ram_bytes mem (C + of_nat (8 * ?s)) (8 * ?l) = unelems (take ?l (drop ?s (mat_C F n m)))"
    by (simp only: unelems_take unelems_drop)
  then show ?thesis using assms(1,2) by (simp add: task_msgs_def mm_task_def)
qed

text \<open>The whole program on sizes within its limits.\<close>

lemma master_run:
  assumes C: "link_contract S V" and R: "mm_room S V p A B n t m" and sz: "0 < n" "0 < t" "0 < m"
      "n \<le> 50" "t \<le> 50" "m \<le> 50" "length (devs_fds devs) \<le> n * m" "d = length (devs_fds devs)"
    and conn: "\<And>c g p1. mm_setup F S (int n) (int t) (int m) A B p = Inr (c, g, p1) \<Longrightarrow>
      \<exists>p2. started S V p1 devs p2 \<and> pmem p2 = pmem p1"
    and chips: "\<forall>i < d. chiplet_behind (fp_add F) (fp_mul F) (S2 i) (V2 i) (q0 i) (fd2 i)
      (mm_task F n t m d i) (peer V (devs_fds devs ! i) (mm_task F n t m d i) 0)"
  obtains g p' where "matmul_gold (fp_add F) (fp_mul F) (int n) (int t) (int m) (mat_A F n t)
      (mat_B F t m) (mat_C F n m) = Inr g"
    "master_main F S 0 A B [dec n, dec t, dec m] p =
       Inr (int (length (filter (\<lambda>x. \<not> fp_eq F x x) g)), False, p')"
    "\<forall>i < d. \<exists>q'. chiplet_main (fp_add F) (fp_mul F) (S2 i) (q0 i) = Inr q'"
proof -
  have le: "8 * (a * b) < 2 ^ 31" if "a \<le> 50" "b \<le> 50" for a b :: nat
    using mult_le_mono [OF that] by simp
  have isz: "int_sized n t m"
    unfolding int_sized_def using sz by (intro conjI le) simp_all
  note R' = R [unfolded mm_room_def]
  obtain c g p1 where s: "mm_setup F S (int n) (int t) (int m) A B p = Inr (c, g, p1)"
    "laid_out S V c A B n t m" "peek p1 A (8 * (n * t)) = unelems (mat_A F n t)"
    "peek p1 B (8 * (t * m)) = unelems (mat_B F t m)" "peek p1 c (8 * (n * m)) = unelems (mat_C F n m)"
    "peek p1 g (8 * (n * m)) = unelems (mat_C F n m)"
    "span g (8 * (n * m)) \<inter> (span (params_at S) 20 \<union> span c (8 * (n * m))) = {}"
    by (rule setup_done [OF C R isz])
  from conn [OF s(1)] obtain p2 where p2: "started S V p1 devs p2" "pmem p2 = pmem p1" by blast
  have task: "task_msgs (pmem p2) c A B n t m d i = mm_task F n t m d i" if "i < d" for i
    by (rule mm_task_msgs) (use s(3-5) p2(2) sz that in simp_all)
  have chips': "\<forall>i < d. chiplet_behind (fp_add F) (fp_mul F) (S2 i) (V2 i) (q0 i) (fd2 i)
      (task_msgs (pmem p2) c A B n t m d i) (peer V (devs_fds devs ! i) (task_msgs (pmem p2) c A B n t m d i) 0)"
    using chips task by simp
  obtain p3 where p3: "matmul S (int n) (int t) (int m) c A B p1 = Inr p3"
    "matmul_gold (fp_add F) (fp_mul F) (int n) (int t) (int m) (mat_A F n t) (mat_B F t m) (mat_C F n m) =
       Inr (elems (peek p3 c (8 * (n * m))))"
    "same_outside (span (params_at S) 20 \<union> span c (8 * (n * m))) (pmem p2) (pmem p3)"
    "\<forall>i < d. answered (fp_add F) (fp_mul F) (S2 i) (V2 i) (q0 i) (fd2 i) (task_msgs (pmem p2) c A B n t m d i)
       (log V (pos p3) (devs_fds devs ! i))"
    by (rule offloaded_run [OF p2(1) sz(8) s(2) isz sz(2) _ chips']) (use sz s(3-5) p2(2) in simp_all)
  note L = s(2) [unfolded laid_out_def]
  have same: "peek p3 A (8 * (n * t)) = unelems (mat_A F n t)"
    "peek p3 B (8 * (t * m)) = unelems (mat_B F t m)" "peek p3 g (8 * (n * m)) = unelems (mat_C F n m)"
    using L s(3,4,6,7) p2(2) by (simp_all add: ram_bytes_same [OF p3(3)])
  let ?g = "elems (peek p3 c (8 * (n * m)))"
  let ?p4 = "poke g (unelems ?g) p3"
  have l: "length (unelems ?g) = 8 * (n * m)" by simp
  have after: "peek ?p4 g (8 * (n * m)) = unelems ?g"
    by (rule peek_poke [OF l]) (use isz in \<open>simp add: int_sized_def\<close>)
  have other: "peek ?p4 c (8 * (n * m)) = peek p3 c (8 * (n * m))"
    by (rule peek_poke_other) (use s(7) in \<open>simp only: l, auto\<close>)
  have "map (\<lambda>i. ?g ! i) [0..<length ?g] = ?g" by (rule map_nth)
  then have cnt: "length (filter (\<lambda>i. \<not> fp_eq F (?g ! i) (?g ! i)) [0..<n * m]) =
      length (filter (\<lambda>x. \<not> fp_eq F x x) ?g)"
    using length_filter_map [of "\<lambda>x. \<not> fp_eq F x x" "\<lambda>i. ?g ! i" "[0..<length ?g]"]
    by (simp add: comp_def)
  have err: "mm_errors (fp_eq F) (int n * int m) ?g ?g = Inr (int (length (filter (\<lambda>x. \<not> fp_eq F x x) ?g)))"
    using mm_errors_count [of ?g "n * m" ?g "fp_eq F"] cnt by simp
  have k: "nat (int x * int y) = x * y" for x y by (simp flip: of_nat_mult)
  have "mm_args SIZE_X SIZE_X SIZE_X [dec n, dec t, dec m] = Inr (False, int n, int t, int m)"
    by (rule mm_args_dec) (use sz in \<open>simp_all add: SIZE_X_def\<close>)
  then have "master_main F S 0 A B [dec n, dec t, dec m] p =
      Inr (int (length (filter (\<lambda>x. \<not> fp_eq F x x) ?g)), False, ?p4)"
    unfolding master_main_def
    by (simp add: s(1) p3(1,2) k same after other err Let_def del: bindR_Inr_iff pmem_poke)
  moreover have "\<forall>i < d. \<exists>q'. chiplet_main (fp_add F) (fp_mul F) (S2 i) (q0 i) = Inr q'"
    using p3(4) unfolding answered_def by blast
  ultimately show ?thesis using p3(2) by (intro that)
qed

end
