(* ===== verification/Ref_Main.thy ===== *)
theory Ref_Main
  imports Ref_Link Mm_Main
begin

text \<open>
  The master program of \<^verbatim>\<open>Mm_Main\<close> on the concrete system of \<^verbatim>\<open>Ref_Link\<close>: a 1 times 2 and a 2 times 3
  matrix of integers at 512 and 1024, on two devices with a chiplet program behind each.
\<close>

definition ref_fp :: fp where
  "ref_fp = \<lparr>fp_add = (+), fp_sub = (-), fp_mul = (*), fp_div = (div), fp_of_int = of_int,
     fp_lit = (\<lambda>s. of_nat (length s)), fp_eq = (=)\<rparr>"

definition ref_answers :: "int \<Rightarrow> u8 list list \<Rightarrow> nat \<Rightarrow> u8 list" where
  "ref_answers fd _ _ = unelems (map (\<lambda>g. cell (fp_add ref_fp) (fp_mul ref_fp) 2 3 (mat_A ref_fp 1 2)
     (mat_B ref_fp 2 3) g (mat_C ref_fp 1 3 ! g))
     [part_start (1 * 3) 2 (nat (fd - 3))..<part_start (1 * 3) 2 (Suc (nat (fd - 3)))])"

lemma ref_mm_room: "mm_room (ref_sys out names) (ref_link out) (ref_proc mem) 512 1024 1 2 3"
proof -
  have "span 512 16 \<subseteq> span 0 4096" "span 1024 48 \<subseteq> span 0 4096" "span 256 20 \<subseteq> span 0 4096"
    using span_offset [of 512 16 4096 0] span_offset [of 1024 48 4096 0] span_offset [of 256 20 4096 0]
    by simp_all
  then show ?thesis
    using spans_apart [of 512 16 1024 48] spans_apart [of 256 20 512 16] spans_apart [of 256 20 1024 48]
    by (auto simp: mm_room_def ref_sys_def ref_link_def ref_proc_def apart_Nil)
qed

text \<open>Setting up does not touch the devices.\<close>

lemma pos_matrix_init: "8 * (r * c) \<le> 2 ^ 64 \<Longrightarrow> pos (matrix_init F (int r) (int c) a x p) = pos p"
  by (simp add: matrix_init_poke)

lemmas pos_inits = pos_matrix_init [of 1 2, simplified] pos_matrix_init [of 2 3, simplified]
  pos_matrix_init [of 1 3, simplified]

lemma ref_allocate:
  assumes "matrix_allocate (ref_sys out names) rows cols p = Inr (a, q)"
  shows "\<exists>k. q = p\<lparr>pos := (pos p)\<lparr>lw_top := lw_top (pos p) + k\<rparr>\<rparr>"
  using assms by (auto simp: matrix_allocate_def ref_sys_def ENOMEM_def Let_def split: if_splits)

lemma ref_mm_conn:
  assumes "mm_setup F (ref_sys out names) 1 2 3 A B (ref_proc mem) = Inr (c, g, p1)" "length names = 2"
  shows "\<exists>p2. started (ref_sys out names) (ref_link out) p1 (ref_devs 2) p2 \<and> pmem p2 = pmem p1"
proof -
  from assms(1) obtain q r where "matrix_allocate (ref_sys out names) 1 3 (ref_proc mem) = Inr (c, q)"
    "matrix_allocate (ref_sys out names) 1 3 q = Inr (g, r)" "pos p1 = pos r"
    by (auto simp: mm_setup_def Let_def pos_inits)
  then have "\<exists>k. pos p1 = (pos (ref_proc mem))\<lparr>lw_top := 4096 + k\<rparr>"
    by (auto dest!: ref_allocate simp: ref_proc_def add.assoc)
  then have "started (ref_sys out names) (ref_link out) p1 (ref_devs (length names)) (next_fds (length names) p1)"
    by (intro ref_started_at) (use assms(2) in \<open>auto simp: ref_proc_def\<close>)
  then show ?thesis using assms(2) by (intro exI [of _ "next_fds 2 p1"]) (simp add: next_fds_def)
qed

lemma ref_mm_chips:
  assumes "i < 2"
  shows "chiplet_behind (fp_add ref_fp) (fp_mul ref_fp) (ref_sys (\<lambda>_ _ k. mm_task ref_fp 1 2 3 2 i ! k) [''d0''])
     (ref_link (\<lambda>_ _ k. mm_task ref_fp 1 2 3 2 i ! k)) (ref_proc (\<lambda>_. 0)) 3 (mm_task ref_fp 1 2 3 2 i)
     (peer (ref_link ref_answers) (devs_fds (ref_devs 2) ! i) (mm_task ref_fp 1 2 3 2 i) 0)"
proof -
  have sz: "int_sized 1 2 3" by (simp add: int_sized_def)
  obtain c g p1 where s: "mm_setup ref_fp (ref_sys ref_answers [''d0'']) (int 1) (int 2) (int 3) 512 1024
      (ref_proc (\<lambda>_. 0)) = Inr (c, g, p1)"
    "peek p1 512 (8 * (1 * 2)) = unelems (mat_A ref_fp 1 2)"
    "peek p1 1024 (8 * (2 * 3)) = unelems (mat_B ref_fp 2 3)"
    "peek p1 c (8 * (1 * 3)) = unelems (mat_C ref_fp 1 3)"
    by (rule setup_done [OF ref_link_contract ref_mm_room sz])
  have "task_msgs (pmem p1) c 512 1024 1 2 3 2 i = mm_task ref_fp 1 2 3 2 i"
    by (rule mm_task_msgs) (use s(2-4) assms in simp_all)
  with ref_chiplet_behind [OF sz _ _ assms, of "fp_add ref_fp" "fp_mul ref_fp" "pmem p1" c 512 1024] s(2-4) assms
  show ?thesis by (simp add: ref_link_def ref_answers_def)
qed

end
