(* ===== verification/Save.thy ===== *)
theory Save
  imports Mm_Main
begin

text \<open>
  The files the multiplication programs save (src/src/sw/userspace/master-mm.c, and the same functions
  in matmul-offload-1o.c), and a reader of their format: what is saved can be read back. How
  \<^verbatim>\<open>%.17lf\<close> prints a number is the parameter \<open>fmt\<close>.
\<close>

section \<open>Files\<close>

text \<open>
  The contents of the files by name. \<open>ok\<close> is whether \<^verbatim>\<open>fopen\<close> can open a file; opening with mode
  \<^verbatim>\<open>w\<close> empties it, with mode \<^verbatim>\<open>a\<close> keeps it.
\<close>

type_synonym files = "string \<rightharpoonup> string"

definition fopen :: "(string \<Rightarrow> bool) \<Rightarrow> files \<Rightarrow> string \<Rightarrow> bool \<Rightarrow> files option" where
  "fopen ok fs name w =
     (if \<not> ok name then None
      else if w then Some (fs(name \<mapsto> []))
      else Some (fs(name \<mapsto> case fs name of None \<Rightarrow> [] | Some s \<Rightarrow> s)))"

definition fputs :: "files \<Rightarrow> string \<Rightarrow> string \<Rightarrow> files" where
  "fputs fs name s = fs(name \<mapsto> (case fs name of None \<Rightarrow> [] | Some c \<Rightarrow> c) @ s)"

abbreviation newline :: char where "newline \<equiv> CHR 0x0A"

text \<open>\<^verbatim>\<open>%d\<close>.\<close>

definition print_int :: "int \<Rightarrow> string" where
  "print_int z = (if z < 0 then CHR ''-'' # dec (nat (- z)) else dec (nat z))"

section \<open>Saving\<close>

definition TRUNCATE :: int where "TRUNCATE = 1"
definition APPEND :: int where "APPEND = 2"

text \<open>
  One pass of the outer loop. Behind the inner loop \<open>j\<close> is the index it stopped at: the last column,
  or 0.
\<close>

definition save_row :: "(u64 \<Rightarrow> string) \<Rightarrow> int \<Rightarrow> int \<Rightarrow> u64 list \<Rightarrow> int \<Rightarrow> string \<Rightarrow> string res" where
  "save_row fmt rows cols C i s =
     bindR (foldR (\<lambda>j s. bindR (load C (i * cols + j)) (\<lambda>x. Inr (s @ fmt x @ '', '')))
       [0..cols - 2] (s @ ''['')) (\<lambda>s.
     let j = max 0 (cols - 1)
     in bindR (load C (i * cols + j)) (\<lambda>x.
          Inr (if i < rows - 1 then s @ fmt x @ ''],'' @ [newline] else s @ fmt x @ '']'')))"

definition save_matrix_on_file ::
    "(u64 \<Rightarrow> string) \<Rightarrow> (string \<Rightarrow> bool) \<Rightarrow> string \<Rightarrow> int \<Rightarrow> int \<Rightarrow> u64 list \<Rightarrow> int \<Rightarrow> files \<Rightarrow> files res" where
  "save_matrix_on_file fmt ok msg rows cols C fop fs =
     (case fopen ok fs ''matrices.dat'' (fop = 1) of
        None \<Rightarrow> Inr fs
      | Some fs \<Rightarrow>
          bindR (foldR (save_row fmt rows cols C) [0..rows - 1] (msg @ '' ['')) (\<lambda>s.
            Inr (fputs fs ''matrices.dat'' (s @ '']'' @ [newline]))))"

definition save_matrix_info :: "(string \<Rightarrow> bool) \<Rightarrow> int \<Rightarrow> int \<Rightarrow> int \<Rightarrow> files \<Rightarrow> files" where
  "save_matrix_info ok sz_n sz_t sz_m fs =
     (case fopen ok fs ''matrix-info.dat'' True of
        None \<Rightarrow> fs
      | Some fs \<Rightarrow> fputs fs ''matrix-info.dat''
          (''#    Rows    Columns/Rows    Columns    Iterations'' @ [newline] @
           ''      '' @ print_int sz_n @ ''       '' @ print_int sz_t @ ''            '' @
           print_int sz_m @ ''          1'' @ [newline]))"

text \<open>The end of both programs.\<close>

definition save_results ::
    "(u64 \<Rightarrow> string) \<Rightarrow> (string \<Rightarrow> bool) \<Rightarrow> bool \<Rightarrow> int \<Rightarrow> int \<Rightarrow> int \<Rightarrow> u64 list \<Rightarrow> u64 list \<Rightarrow> u64 list \<Rightarrow>
      files \<Rightarrow> files res" where
  "save_results fmt ok save_matrices sz_n sz_t sz_m A B C fs =
     (if \<not> save_matrices then Inr fs
      else bindR (save_matrix_on_file fmt ok ''A'' sz_n sz_t A TRUNCATE fs) (\<lambda>fs.
           bindR (save_matrix_on_file fmt ok ''B'' sz_t sz_m B APPEND fs) (\<lambda>fs.
           bindR (save_matrix_on_file fmt ok ''C'' sz_n sz_m C APPEND fs) (\<lambda>fs.
           Inr (save_matrix_info ok sz_n sz_t sz_m fs)))))"

section \<open>Reading\<close>

text \<open>
  The format: a name, a blank and the rows in brackets; rows are separated by a comma and a line
  break, the cells of a row by a comma and a blank. Each reader returns what is left of the file.
\<close>

fun read_cells :: "string \<Rightarrow> string \<Rightarrow> (string list \<times> string) option" where
  "read_cells acc [] = None"
| "read_cells acc (c # s) =
     (if c = CHR '']'' then Some ([acc], s)
      else if c = CHR '','' then
        (case read_cells [] (tl s) of None \<Rightarrow> None | Some (cs, r) \<Rightarrow> Some (acc # cs, r))
      else read_cells (acc @ [c]) s)"

lemma read_cells_shorter: "read_cells acc s = Some (cs, r) \<Longrightarrow> length r < length s"
  by (induction acc s arbitrary: cs r rule: read_cells.induct)
    (fastforce split: if_splits option.splits prod.splits)+

function read_rows :: "string \<Rightarrow> (string list list \<times> string) option" where
  "read_rows s =
     (if take 1 s \<noteq> ''['' then None
      else case read_cells [] (tl s) of
        None \<Rightarrow> None
      | Some (row, r) \<Rightarrow>
          if take 2 r = '']'' @ [newline] then Some ([row], drop 2 r)
          else if take 2 r = '','' @ [newline] then
            (case read_rows (drop 2 r) of None \<Rightarrow> None | Some (rs, r) \<Rightarrow> Some (row # rs, r))
          else None)"
  by auto
termination
  by (relation "measure length") (auto dest!: read_cells_shorter)

declare read_rows.simps [simp del]

definition read_matrix :: "string \<Rightarrow> ((string \<times> string list list) \<times> string) option" where
  "read_matrix s =
     (let name = takeWhile (\<lambda>c. c \<noteq> CHR '' '') s; r = dropWhile (\<lambda>c. c \<noteq> CHR '' '') s
      in if take 2 r \<noteq> '' ['' then None
         else case read_rows (drop 2 r) of
           None \<Rightarrow> None | Some (rows, r) \<Rightarrow> Some ((name, rows), r))"

fun read_matrices :: "nat \<Rightarrow> string \<Rightarrow> ((string \<times> string list list) list \<times> string) option" where
  "read_matrices 0 s = Some ([], s)"
| "read_matrices (Suc k) s =
     (case read_matrix s of
        None \<Rightarrow> None
      | Some (m, r) \<Rightarrow> (case read_matrices k r of None \<Rightarrow> None | Some (ms, r) \<Rightarrow> Some (m # ms, r)))"

section \<open>What is saved\<close>

text \<open>The cells of a matrix as text, and the text of the rows.\<close>

definition rows_of :: "(u64 \<Rightarrow> string) \<Rightarrow> nat \<Rightarrow> nat \<Rightarrow> u64 list \<Rightarrow> string list list" where
  "rows_of fmt n m xs = map (\<lambda>i. map (\<lambda>j. fmt (xs ! (i * m + j))) [0..<m]) [0..<n]"

definition row_text :: "string list \<Rightarrow> string" where
  "row_text cs = ''['' @ concat (map (\<lambda>c. c @ '', '') (butlast cs)) @ last cs @ '']''"

fun rows_text :: "string list list \<Rightarrow> string" where
  "rows_text [] = []"
| "rows_text [r] = row_text r"
| "rows_text (r # rs) = row_text r @ '','' @ [newline] @ rows_text rs"

definition matrix_text :: "string \<Rightarrow> string list list \<Rightarrow> string" where
  "matrix_text name rows = name @ '' ['' @ rows_text rows @ '']'' @ [newline]"

lemma save_cells:
  assumes "\<forall>j < k. i * m + j < length C"
  shows "foldR (\<lambda>j s. bindR (load C (int i * int m + j)) (\<lambda>x. Inr (s @ fmt x @ '', '')))
       (map int [0..<k]) s = Inr (s @ concat (map (\<lambda>c. c @ '', '') (map (\<lambda>j. fmt (C ! (i * m + j))) [0..<k])))"
  using assms
proof (induction k)
  case 0
  then show ?case by simp
next
  case (Suc k)
  have l: "load C (int i * int m + int k) = Inr (C ! (i * m + k))"
    using load_nat [of "i * m + k" C] Suc.prems by simp
  show ?case using Suc by (simp add: foldR_append l)
qed

lemma save_row_text:
  assumes len: "n * m \<le> length C" and i: "i < n" and m: "0 < m"
  shows "save_row fmt (int n) (int m) C (int i) s =
    Inr (s @ row_text (map (\<lambda>j. fmt (C ! (i * m + j))) [0..<m]) @
      (if Suc i < n then '','' @ [newline] else []))"
proof -
  obtain k where k: "m = Suc k" using m by (cases m) auto
  have b: "i * m + j < length C" if "j < m" for j
  proof -
    have "i * m + j < Suc i * m" using that by simp
    also have "\<dots> \<le> n * m" using i by (intro mult_le_mono1) simp
    finally show ?thesis using len by simp
  qed
  have u: "[0..int m - 2] = map int [0..<k]" using upto_nat [of k] by (simp add: k)
  have j: "max 0 (int m - 1) = int k" by (simp add: k)
  have l: "load C (int i * int m + int k) = Inr (C ! (i * m + k))"
    using load_nat [of "i * m + k" C] b by (simp add: k distrib_left)
  have c: "\<forall>j < k. i * m + j < length C" using b by (simp add: k)
  have n: "int i < int n - 1 \<longleftrightarrow> Suc i < n" by linarith
  show ?thesis
    unfolding save_row_def u save_cells [OF c] j n
    by (simp add: l Let_def row_text_def) (simp add: k distrib_left)
qed

lemma rows_text_snoc:
  "rs \<noteq> [] \<Longrightarrow> rows_text (rs @ [r]) = rows_text rs @ '','' @ [newline] @ row_text r"
  by (induction rs rule: rows_text.induct) simp_all

lemma save_rows_text:
  assumes len: "n * m \<le> length C" and m: "0 < m" and k: "k \<le> n"
  shows "foldR (save_row fmt (int n) (int m) C) (map int [0..<k]) s =
    Inr (s @ rows_text (take k (rows_of fmt n m C)) @ (if 0 < k \<and> k < n then '','' @ [newline] else []))"
  using k
proof (induction k)
  case 0
  then show ?case by simp
next
  case (Suc k)
  let ?r = "map (\<lambda>j. fmt (C ! (k * m + j))) [0..<m]"
  have "take (Suc k) (rows_of fmt n m C) = take k (rows_of fmt n m C) @ [?r]"
    using Suc.prems by (simp add: rows_of_def take_Suc_conv_app_nth)
  moreover have "take k (rows_of fmt n m C) \<noteq> []" if "0 < k"
    using that Suc.prems by (simp add: rows_of_def)
  moreover have "save_row fmt (int n) (int m) C (int k) s' = Inr (s' @ row_text ?r @
      (if Suc k < n then '','' @ [newline] else []))" for s'
    using Suc.prems by (intro save_row_text [OF len _ m]) simp
  ultimately show ?case
    using Suc by (cases "k = 0") (simp_all add: foldR_append rows_text_snoc)
qed

lemma save_matrix_text:
  assumes len: "n * m \<le> length C" and "0 < n" "0 < m" and ok: "ok ''matrices.dat''"
  shows "save_matrix_on_file fmt ok msg (int n) (int m) C fop fs = Inr (fs(''matrices.dat'' \<mapsto>
     (if fop = 1 then [] else case fs ''matrices.dat'' of None \<Rightarrow> [] | Some s \<Rightarrow> s) @
     matrix_text msg (rows_of fmt n m C)))"
  using ok save_rows_text [OF len assms(3), of n fmt "msg @ '' [''"]
  by (simp add: save_matrix_on_file_def fopen_def fputs_def upto_nat matrix_text_def rows_of_def)

lemma save_returns:
  assumes "n * m \<le> length C" "0 < m"
  shows "\<exists>fs'. save_matrix_on_file fmt ok msg (int n) (int m) C fop fs = Inr fs'"
  using save_rows_text [OF assms, of n fmt "msg @ '' [''"]
  by (auto simp: save_matrix_on_file_def upto_nat split: option.splits)

lemma save_results_returns:
  assumes "n * t \<le> length A" "t * m \<le> length B" "n * m \<le> length C" "0 < t" "0 < m"
  shows "\<exists>fs'. save_results fmt ok save (int n) (int t) (int m) A B C fs = Inr fs'"
proof -
  obtain f1 where f1: "save_matrix_on_file fmt ok ''A'' (int n) (int t) A TRUNCATE fs = Inr f1"
    using save_returns [OF assms(1,4)] by blast
  obtain f2 where f2: "save_matrix_on_file fmt ok ''B'' (int t) (int m) B APPEND f1 = Inr f2"
    using save_returns [OF assms(2,5)] by blast
  obtain f3 where f3: "save_matrix_on_file fmt ok ''C'' (int n) (int m) C APPEND f2 = Inr f3"
    using save_returns [OF assms(3,5)] by blast
  show ?thesis by (simp add: save_results_def f1 f2 f3)
qed

section \<open>What is read back\<close>

definition plain_cell :: "string \<Rightarrow> bool" where
  "plain_cell c \<longleftrightarrow> CHR '','' \<notin> set c \<and> CHR '']'' \<notin> set c"

lemma read_plain: "plain_cell c \<Longrightarrow> read_cells acc (c @ s) = read_cells (acc @ c) s"
  by (induction c arbitrary: acc) (auto simp: plain_cell_def)

lemma read_row:
  "list_all plain_cell cs \<Longrightarrow> plain_cell c \<Longrightarrow>
     read_cells [] (concat (map (\<lambda>c. c @ '', '') cs) @ c @ '']'' @ r) = Some (cs @ [c], r)"
  by (induction cs) (simp_all add: read_plain)

lemma read_row_text:
  assumes "cs \<noteq> []" "list_all plain_cell cs"
  shows "read_rows (row_text cs @ r) =
     (if take 2 r = '']'' @ [newline] then Some ([cs], drop 2 r)
      else if take 2 r = '','' @ [newline] then
        (case read_rows (drop 2 r) of None \<Rightarrow> None | Some (rs, r) \<Rightarrow> Some (cs # rs, r))
      else None)"
proof -
  have "list_all plain_cell (butlast cs)" "plain_cell (last cs)"
    using assms by (auto simp: list_all_iff in_set_butlastD)
  from read_row [OF this, of r]
  have "read_cells [] (concat (map (\<lambda>c. c @ '', '') (butlast cs)) @ last cs @ '']'' @ r) = Some (cs, r)"
    using assms(1) by simp
  then show ?thesis by (subst read_rows.simps) (simp add: row_text_def)
qed

lemma read_rows_text:
  assumes "rows \<noteq> []" "\<forall>r \<in> set rows. r \<noteq> [] \<and> list_all plain_cell r"
  shows "read_rows (rows_text rows @ '']'' @ [newline] @ rest) = Some (rows, rest)"
  using assms by (induction rows rule: rows_text.induct) (simp_all add: read_row_text)

lemma read_matrix_text:
  assumes "CHR '' '' \<notin> set name" "rows \<noteq> []" "\<forall>r \<in> set rows. r \<noteq> [] \<and> list_all plain_cell r"
  shows "read_matrix (matrix_text name rows @ rest) = Some ((name, rows), rest)"
proof -
  let ?s = "CHR '' '' # CHR ''['' # rows_text rows @ '']'' @ [newline] @ rest"
  have t: "matrix_text name rows @ rest = name @ ?s" by (simp add: matrix_text_def)
  have "takeWhile (\<lambda>c. c \<noteq> CHR '' '') (name @ ?s) = name"
    "dropWhile (\<lambda>c. c \<noteq> CHR '' '') (name @ ?s) = ?s"
    using assms(1) by (auto simp: takeWhile_append dropWhile_append)
  then show ?thesis
    using read_rows_text [OF assms(2,3), of rest] unfolding t by (simp add: read_matrix_def Let_def)
qed

lemma rows_of_plain:
  assumes "0 < n" "0 < m" "\<And>x. plain_cell (fmt x)"
  shows "rows_of fmt n m xs \<noteq> []"
    "\<forall>r \<in> set (rows_of fmt n m xs). r \<noteq> [] \<and> list_all plain_cell r"
  using assms by (auto simp: rows_of_def list_all_iff)

end
