(* ===== verification/Openmp.thy ===== *)
theory Openmp
  imports Save
begin

text \<open>
  The stand-alone OpenMP version of the multiplication (src/src/sw/userspace/matmul-offload-1o.c): its
  arguments, its initialisation, the parallel loop under every interleaving of its iterations, and the
  data environment of the OpenMP device it runs on. The functions that save the matrices are those of
  theory Save. Printing and timing are left out.
\<close>

section \<open>The parallel loop\<close>

text \<open>
  An iteration \<open>(j, i)\<close> of the collapsed loops runs its loop over \<open>k\<close> by itself. \<^verbatim>\<open>C[i][j] += ...\<close> is a
  load of the cell into a register and a store: \<open>omp_k\<close> is the iteration's \<open>k\<close>, \<open>omp_reg\<close> its
  register between the two. The iterations share \<open>C\<close>.
\<close>

record 'a omp =
  omp_C :: "'a list"
  omp_k :: "int \<times> int \<Rightarrow> int"
  omp_reg :: "int \<times> int \<Rightarrow> 'a option"

definition omp_step ::
    "('a \<Rightarrow> 'a \<Rightarrow> 'a) \<Rightarrow> ('a \<Rightarrow> 'a \<Rightarrow> 'a) \<Rightarrow> int \<Rightarrow> int \<Rightarrow> 'a list \<Rightarrow> 'a list \<Rightarrow> int \<times> int \<Rightarrow> 'a omp \<Rightarrow>
      'a omp res" where
  "omp_step add mul sz_t sz_m A B = (\<lambda>(j, i) s.
     let k = omp_k s (j, i); c = i * sz_m + j
     in if sz_t \<le> k then Inr s
        else case omp_reg s (j, i) of
          None \<Rightarrow> bindR (load (omp_C s) c) (\<lambda>x. Inr (s\<lparr>omp_reg := (omp_reg s)((j, i) := Some x)\<rparr>))
        | Some x \<Rightarrow>
            bindR (load A (i * sz_t + k)) (\<lambda>a. bindR (load B (k * sz_m + j)) (\<lambda>b.
            bindR (store (omp_C s) c (add x (mul a b))) (\<lambda>C.
            Inr (s\<lparr>omp_C := C, omp_k := (omp_k s)((j, i) := k + 1),
                   omp_reg := (omp_reg s)((j, i) := None)\<rparr>)))))"

text \<open>
  \<open>sched\<close> is the order in which the iterations make their steps: every interleaving of every
  distribution over teams and threads is one. A finished iteration makes no more steps.
\<close>

definition matmul_func ::
    "('a \<Rightarrow> 'a \<Rightarrow> 'a) \<Rightarrow> ('a \<Rightarrow> 'a \<Rightarrow> 'a) \<Rightarrow> int \<Rightarrow> int \<Rightarrow> (int \<times> int) list \<Rightarrow> 'a list \<Rightarrow> 'a list \<Rightarrow>
      'a list \<Rightarrow> 'a list res" where
  "matmul_func add mul sz_t sz_m sched C A B =
     bindR (foldR (omp_step add mul sz_t sz_m A B) sched
       \<lparr>omp_C = C, omp_k = \<lambda>_. 0, omp_reg = \<lambda>_. None\<rparr>) (\<lambda>s. Inr (omp_C s))"

definition complete :: "int \<Rightarrow> int \<Rightarrow> int \<Rightarrow> (int \<times> int) list \<Rightarrow> bool" where
  "complete sz_n sz_t sz_m sched \<longleftrightarrow>
     (\<forall>(j, i) \<in> set sched. 0 \<le> j \<and> j < sz_m \<and> 0 \<le> i \<and> i < sz_n) \<and>
     (\<forall>j \<in> set [0..sz_m - 1]. \<forall>i \<in> set [0..sz_n - 1]. 2 * sz_t \<le> int (count_list sched (j, i)))"

section \<open>Initialisation and main\<close>

text \<open>The initialisation is repeated four times, for timing.\<close>

definition omp_matrix_init :: "fp \<Rightarrow> int \<Rightarrow> int \<Rightarrow> u64 \<Rightarrow> u64 list \<Rightarrow> u64 list res" where
  "omp_matrix_init F rows cols random =
     foldR (\<lambda>loop. foldR (\<lambda>i. foldR (\<lambda>j mat. store mat (i * cols + j) (init_value F random i j))
       [0..cols - 1]) [0..rows - 1]) [0..3]"

definition OMP_SIZE_N :: int where "OMP_SIZE_N = 1224"
definition OMP_SIZE_T :: int where "OMP_SIZE_T = 960"
definition OMP_SIZE_M :: int where "OMP_SIZE_M = 1446"

text \<open>
  The \<^verbatim>\<open>target\<close> region: on a device with memory of its own (\<open>copies\<close>) the mapped sections of \<open>A\<close>, \<open>B\<close>
  and \<open>C\<close> are copied there before it and that of \<open>C\<close> back behind it; on a device that shares the host's
  memory the loop works on the arrays themselves. OpenMP leaves the choice to the implementation.
\<close>

definition omp_matmul ::
    "('a \<Rightarrow> 'a \<Rightarrow> 'a) \<Rightarrow> ('a \<Rightarrow> 'a \<Rightarrow> 'a) \<Rightarrow> bool \<Rightarrow> int \<Rightarrow> int \<Rightarrow> int \<Rightarrow> (int \<times> int) list \<Rightarrow> 'a list \<Rightarrow>
      'a list \<Rightarrow> 'a list \<Rightarrow> 'a list res" where
  "omp_matmul add mul copies sz_n sz_t sz_m sched C A B =
     (if \<not> copies then matmul_func add mul sz_t sz_m sched C A B
      else bindR (matmul_func add mul sz_t sz_m sched (take (nat (sz_n * sz_m)) C)
              (take (nat (sz_n * sz_t)) A) (take (nat (sz_t * sz_m)) B)) (\<lambda>dev_C.
           Inr (dev_C @ drop (nat (sz_n * sz_m)) C)))"

text \<open>
  \<open>ok\<close> is whether \<^verbatim>\<open>malloc\<close> succeeds, \<open>junk\<close> what its memory holds. The global arrays \<open>A\<close> and \<open>B\<close> have the
  size of the largest matrices and hold zeros. The result is the matrix \<open>C\<close>, with the files.
\<close>

definition omp_main ::
    "fp \<Rightarrow> (u64 \<Rightarrow> string) \<Rightarrow> (string \<Rightarrow> bool) \<Rightarrow> bool \<Rightarrow> u64 \<Rightarrow> bool \<Rightarrow> (int \<times> int) list \<Rightarrow> string list \<Rightarrow>
      files \<Rightarrow> (u64 list \<times> files) res" where
  "omp_main F fmt ok_file ok junk copies sched argv fs =
     bindR (mm_args OMP_SIZE_N OMP_SIZE_T OMP_SIZE_M argv) (\<lambda>(save, sz_n, sz_t, sz_m).
       if \<not> ok then Inl (Exited 1)
       else
         bindR (omp_matrix_init F sz_n sz_t (fp_lit F ''0.04'') (replicate (nat (OMP_SIZE_N * OMP_SIZE_T)) 0)) (\<lambda>A.
         bindR (omp_matrix_init F sz_t sz_m (fp_lit F ''0.07'') (replicate (nat (OMP_SIZE_T * OMP_SIZE_M)) 0)) (\<lambda>B.
         bindR (omp_matrix_init F sz_n sz_m (fp_lit F ''0.0'') (replicate (nat (sz_n * sz_m)) junk)) (\<lambda>C.
         bindR (omp_matmul (fp_add F) (fp_mul F) copies sz_n sz_t sz_m sched C A B) (\<lambda>C.
         bindR (save_results fmt ok_file save sz_n sz_t sz_m A B C fs) (\<lambda>fs. Inr (C, fs)))))))"

section \<open>Every interleaving computes the same\<close>

text \<open>The value of cell \<open>g\<close> after \<open>k\<close> turns of its loop.\<close>

definition cell_upto ::
    "('a \<Rightarrow> 'a \<Rightarrow> 'a) \<Rightarrow> ('a \<Rightarrow> 'a \<Rightarrow> 'a) \<Rightarrow> nat \<Rightarrow> nat \<Rightarrow> 'a list \<Rightarrow> 'a list \<Rightarrow> nat \<Rightarrow> nat \<Rightarrow> 'a \<Rightarrow> 'a" where
  "cell_upto add mul t m A B g k =
     fold (\<lambda>k c. add c (mul (A ! (g div m * t + k)) (B ! (k * m + g mod m)))) [0..<k]"

lemma cell_upto_Suc: "cell_upto add mul t m A B g (Suc k) c =
    add (cell_upto add mul t m A B g k c) (mul (A ! (g div m * t + k)) (B ! (k * m + g mod m)))"
  by (simp add: cell_upto_def)

lemma cell_upto_all: "cell_upto add mul t m A B g t = cell add mul t m A B g"
  by (simp add: cell_upto_def cell_def fun_eq_iff)

text \<open>
  The state when iteration \<open>it\<close> has made \<open>f it\<close> steps: half of them were loads, so that a register is
  full when the number is odd.
\<close>

definition omp_at ::
    "('a \<Rightarrow> 'a \<Rightarrow> 'a) \<Rightarrow> ('a \<Rightarrow> 'a \<Rightarrow> 'a) \<Rightarrow> nat \<Rightarrow> nat \<Rightarrow> 'a list \<Rightarrow> 'a list \<Rightarrow> 'a list \<Rightarrow> (int \<times> int \<Rightarrow> nat) \<Rightarrow>
      'a omp" where
  "omp_at add mul t m A B C f = \<lparr>
     omp_C = map (\<lambda>g. cell_upto add mul t m A B g (f (int (g mod m), int (g div m)) div 2) (C ! g))
       [0..<length C],
     omp_k = (\<lambda>it. int (f it div 2)),
     omp_reg = (\<lambda>(j, i). let g = nat i * m + nat j
        in if odd (f (j, i)) then Some (cell_upto add mul t m A B g (f (j, i) div 2) (C ! g)) else None)\<rparr>"

lemma omp_step_at:
  assumes A: "n * t \<le> length A" and B: "t * m \<le> length B" and C: "length C = n * m"
    and ij: "i < n" "j < m" and f: "f (int j, int i) \<le> 2 * t"
  shows "omp_step add mul (int t) (int m) A B (int j, int i) (omp_at add mul t m A B C f) =
     Inr (omp_at add mul t m A B C (f((int j, int i) := min (2 * t) (Suc (f (int j, int i))))))"
proof -
  let ?it = "(int j, int i)" and ?g = "i * m + j"
  let ?k = "f ?it div 2"
  have g: "?g < n * m" by (rule index_lt [OF ij])
  have gi: "?g div m = i" "?g mod m = j" using ij(2) by simp_all
  have c: "int i * int m + int j = int ?g" by simp
  have other: "(int (g mod m), int (g div m)) \<noteq> ?it" if "g \<noteq> ?g" for g
    using that by (metis div_mult_mod_eq of_nat_eq_iff prod.inject)
  let ?s = "omp_at add mul t m A B C f"
  have s: "omp_k ?s ?it = int ?k" "omp_C ?s ! ?g = cell_upto add mul t m A B ?g ?k (C ! ?g)"
    "length (omp_C ?s) = n * m"
    "omp_reg ?s ?it = (if odd (f ?it) then Some (cell_upto add mul t m A B ?g ?k (C ! ?g)) else None)"
    using g gi C by (simp_all add: omp_at_def Let_def)
  consider (fin) "f ?it = 2 * t" | (load) "f ?it < 2 * t" "even (f ?it)" | (store) "f ?it < 2 * t" "odd (f ?it)"
    using f by linarith
  then show ?thesis
  proof cases
    case fin
    then have "f(?it := min (2 * t) (Suc (f ?it))) = f" by auto
    with fin show ?thesis by (simp add: omp_step_def omp_at_def)
  next
    case load
    then have k: "?k < t" "Suc (f ?it) div 2 = ?k" "min (2 * t) (Suc (f ?it)) = Suc (f ?it)" by auto
    have "omp_at add mul t m A B C (f(?it := Suc (f ?it))) =
        ?s\<lparr>omp_reg := (omp_reg ?s)(?it := Some (cell_upto add mul t m A B ?g ?k (C ! ?g)))\<rparr>"
      using load(2) k(2) by (auto simp: omp_at_def fun_eq_iff Let_def)
    then show ?thesis using load k s g
      by (simp add: omp_step_def Let_def c load_def del: of_nat_add of_nat_mult)
  next
    case store
    then have k: "?k < t" "Suc (f ?it) div 2 = Suc ?k" "min (2 * t) (Suc (f ?it)) = Suc (f ?it)" by auto
    have "load A (int i * int t + int ?k) = Inr (A ! (i * t + ?k))"
      using load_nat [of "i * t + ?k" A] index_lt [OF ij(1) k(1)] A by simp
    moreover have "load B (int ?k * int m + int j) = Inr (B ! (?k * m + j))"
      using load_nat [of "?k * m + j" B] index_lt [OF k(1) ij(2)] B by simp
    moreover have "omp_at add mul t m A B C (f(?it := Suc (f ?it))) =
        ?s\<lparr>omp_C := (omp_C ?s)[?g := cell_upto add mul t m A B ?g (Suc ?k) (C ! ?g)],
           omp_k := (omp_k ?s)(?it := int ?k + 1), omp_reg := (omp_reg ?s)(?it := None)\<rparr>"
    proof -
      have "(omp_C ?s)[?g := cell_upto add mul t m A B ?g (Suc ?k) (C ! ?g)] =
          omp_C (omp_at add mul t m A B C (f(?it := Suc (f ?it))))"
        by (rule nth_equalityI) (use g gi C k(2) other in \<open>auto simp: omp_at_def nth_list_update\<close>)
      then show ?thesis using store(2) k(2) by (auto simp: omp_at_def fun_eq_iff Let_def)
    qed
    ultimately show ?thesis using store k s g gi
      by (simp add: omp_step_def Let_def c cell_upto_Suc del: of_nat_add of_nat_mult)
  qed
qed

lemma omp_run_at:
  assumes A: "n * t \<le> length A" and B: "t * m \<le> length B" and C: "length C = n * m"
    and "\<forall>(j, i) \<in> set sched. 0 \<le> j \<and> j < int m \<and> 0 \<le> i \<and> i < int n" and "\<forall>it. f it \<le> 2 * t"
  shows "foldR (omp_step add mul (int t) (int m) A B) sched (omp_at add mul t m A B C f) =
     Inr (omp_at add mul t m A B C (\<lambda>it. min (2 * t) (f it + count_list sched it)))"
  using assms(4,5)
proof (induction sched arbitrary: f)
  case Nil
  have "(\<lambda>it. min (2 * t) (f it + count_list [] it)) = f" using Nil by (simp add: fun_eq_iff min_absorb2)
  then show ?case by simp
next
  case (Cons x sched)
  obtain a b where ab: "x = (a, b)" by (cases x)
  define j i where "j = nat a" and "i = nat b"
  have x: "x = (int j, int i)" "j < m" "i < n"
    using Cons.prems(1) ab by (auto simp: j_def i_def)
  let ?f = "f((int j, int i) := min (2 * t) (Suc (f (int j, int i))))"
  have "omp_step add mul (int t) (int m) A B x (omp_at add mul t m A B C f) =
      Inr (omp_at add mul t m A B C ?f)"
    unfolding x(1) by (rule omp_step_at [OF A B C x(3,2)]) (use Cons.prems(2) in blast)
  moreover have "(\<lambda>it. min (2 * t) (?f it + count_list sched it)) =
      (\<lambda>it. min (2 * t) (f it + count_list (x # sched) it))"
    by (auto simp: fun_eq_iff x(1))
  moreover have "foldR (omp_step add mul (int t) (int m) A B) sched (omp_at add mul t m A B C ?f) =
      Inr (omp_at add mul t m A B C (\<lambda>it. min (2 * t) (?f it + count_list sched it)))"
    by (rule Cons.IH) (use Cons.prems in auto)
  ultimately show ?case by (simp only: foldR.simps bindR.simps)
qed

lemma matmul_func_cells:
  assumes A: "n * t \<le> length A" and B: "t * m \<le> length B" and C: "length C = n * m"
    and sched: "complete (int n) (int t) (int m) sched"
  shows "matmul_func add mul (int t) (int m) sched C A B =
     Inr (map (\<lambda>g. cell add mul t m A B g (C ! g)) [0..<n * m])"
proof -
  let ?z = "\<lambda>it :: int \<times> int. 0 :: nat" and ?f = "\<lambda>it. min (2 * t) (0 + count_list sched it)"
  note S = sched [unfolded complete_def]
  have "map ((!) C) [0..<length C] = C" by (rule map_nth)
  then have "\<lparr>omp_C = C, omp_k = \<lambda>_. 0, omp_reg = \<lambda>_. None\<rparr> = omp_at add mul t m A B C ?z"
    by (simp add: omp_at_def cell_upto_def fun_eq_iff)
  then have "matmul_func add mul (int t) (int m) sched C A B = Inr (omp_C (omp_at add mul t m A B C ?f))"
    unfolding matmul_func_def using omp_run_at [OF A B C, of sched ?z add mul] S by simp
  moreover have "?f (int (g mod m), int (g div m)) div 2 = t" if g: "g < n * m" for g
  proof -
    have "g mod m < m" "g div m < n" using g by (cases m; simp add: less_mult_imp_div_less)+
    then have "2 * int t \<le> int (count_list sched (int (g mod m), int (g div m)))" using S by simp
    then show ?thesis by simp
  qed
  then have "omp_C (omp_at add mul t m A B C ?f) = map (\<lambda>g. cell add mul t m A B g (C ! g)) [0..<n * m]"
    using C by (auto simp: omp_at_def cell_upto_all)
  ultimately show ?thesis by simp
qed

section \<open>Initialisation\<close>

lemma omp_init_elems:
  assumes "r * c \<le> length xs"
  shows "omp_matrix_init F (int r) (int c) rnd xs = Inr (init_elems F rnd r c @ drop (r * c) xs)"
proof -
  let ?f = "\<lambda>g. init_value F rnd (int (g div c)) (int (g mod c))"
  let ?once = "foldR (\<lambda>i. foldR (\<lambda>j mat. store mat (i * int c + j) (init_value F rnd i j)) [0..int c - 1])
    [0..int r - 1]"
  have once: "?once ys = Inr (init_elems F rnd r c @ drop (r * c) ys)" if "r * c \<le> length ys" for ys
  proof -
    have "?once ys = foldR (\<lambda>i. foldR (\<lambda>j mat. store mat (int (i * c + j)) (?f (i * c + j))) [0..<c]) [0..<r] ys"
      unfolding upto_nat foldR_map
      by (intro foldR_cong [where P = "\<lambda>_. True"]) simp_all
    also have "\<dots> = foldR (\<lambda>g mat. store mat (int g) (?f g))
        (concat (map (\<lambda>i. map (\<lambda>j. i * c + j) [0..<c]) [0..<r])) ys"
      by (simp only: foldR_concat [symmetric] foldR_map)
    also have "\<dots> = Inr (init_elems F rnd r c @ drop (r * c) ys)"
      unfolding row_major using fill [OF refl that, of ?f] by (simp add: init_elems_def)
    finally show ?thesis .
  qed
  have l: "length (init_elems F rnd r c) = r * c" by (simp add: init_elems_def)
  have "[0..3 :: int] = [0, 1, 2, 3]" by (simp add: upto_rec1)
  then show ?thesis
    using assms once [OF assms] once [of "init_elems F rnd r c @ drop (r * c) xs"]
    by (simp add: omp_matrix_init_def l)
qed

section \<open>The whole program\<close>

text \<open>Only the elements of the matrices matter, not what lies behind them in the arrays.\<close>

lemma cell_prefix:
  assumes "g < n * m" "take (n * t) A' = A" "take (t * m) B' = B"
  shows "cell add mul t m A' B' g = cell add mul t m A B g"
proof -
  have g: "g mod m < m" "g div m < n" using assms(1) by (cases m; simp add: less_mult_imp_div_less)+
  have "A' ! (g div m * t + k) = A ! (g div m * t + k)" "B' ! (k * m + g mod m) = B ! (k * m + g mod m)"
    if "k < t" for k
    using index_lt [OF g(2) that] index_lt [OF that g(1)] unfolding assms(2,3) [symmetric] by simp_all
  then show ?thesis unfolding cell_def by (intro ext fold_cong) simp_all
qed

lemma omp_matmul_cells:
  assumes A: "n * t \<le> length A" and B: "t * m \<le> length B" and C: "length C = n * m"
    and sched: "complete (int n) (int t) (int m) sched"
  shows "omp_matmul add mul copies (int n) (int t) (int m) sched C A B =
     Inr (map (\<lambda>g. cell add mul t m (take (n * t) A) (take (t * m) B) g (C ! g)) [0..<n * m])"
proof -
  have k: "nat (int x * int y) = x * y" for x y by (simp flip: of_nat_mult)
  have c: "map (\<lambda>g. cell add mul t m A B g (C ! g)) [0..<n * m] =
      map (\<lambda>g. cell add mul t m (take (n * t) A) (take (t * m) B) g (C ! g)) [0..<n * m]"
    by (rule map_cong [OF refl], rule fun_cong [OF cell_prefix [OF _ refl refl]]) auto
  show ?thesis
    using matmul_func_cells [OF A B C sched, of add mul]
      matmul_func_cells [of n t "take (n * t) A" m "take (t * m) B" C sched add mul] A B C sched
    by (simp add: omp_matmul_def k c)
qed

lemma omp_run:
  assumes args: "mm_args OMP_SIZE_N OMP_SIZE_T OMP_SIZE_M argv = Inr (save, int n, int t, int m)"
    and sched: "complete (int n) (int t) (int m) sched"
  obtains g A B fs' where
    "matmul_gold (fp_add F) (fp_mul F) (int n) (int t) (int m) (mat_A F n t) (mat_B F t m) (mat_C F n m) = Inr g"
    "take (n * t) A = mat_A F n t" "take (t * m) B = mat_B F t m"
    "save_results fmt ok save (int n) (int t) (int m) A B g fs = Inr fs'"
    "omp_main F fmt ok True junk copies sched argv fs = Inr (g, fs')"
proof -
  have k: "nat (int x * int y) = x * y" for x y by (simp flip: of_nat_mult)
  have sz: "0 < n" "0 < t" "0 < m" "n \<le> 1224" "t \<le> 960" "m \<le> 1446"
    using args mm_args_sound [of OMP_SIZE_N OMP_SIZE_T OMP_SIZE_M argv]
    by (auto simp: OMP_SIZE_N_def OMP_SIZE_T_def OMP_SIZE_M_def)
  let ?X = "replicate (nat (OMP_SIZE_N * OMP_SIZE_T)) (0 :: u64)" and ?Y = "replicate (nat (OMP_SIZE_T * OMP_SIZE_M)) (0 :: u64)"
  let ?A = "mat_A F n t @ drop (n * t) ?X" and ?B = "mat_B F t m @ drop (t * m) ?Y"
  have l: "length (init_elems F r a b) = a * b" for r a b by (simp add: init_elems_def)
  have X: "n * t \<le> length ?X" "t * m \<le> length ?Y"
    using mult_le_mono [OF sz(4,5)] mult_le_mono [OF sz(5,6)]
    by (simp_all add: OMP_SIZE_N_def OMP_SIZE_T_def OMP_SIZE_M_def)
  note init = omp_init_elems [OF X(1), of F "fp_lit F ''0.04''"] omp_init_elems [OF X(2), of F "fp_lit F ''0.07''"]
    omp_init_elems [of n m "replicate (n * m) junk" F "fp_lit F ''0.0''"]
  have AB: "take (n * t) ?A = mat_A F n t" "take (t * m) ?B = mat_B F t m"
    "n * t \<le> length ?A" "t * m \<le> length ?B"
    by (simp_all add: l)
  have mm: "omp_matmul (fp_add F) (fp_mul F) copies (int n) (int t) (int m) sched (mat_C F n m) ?A ?B =
      matmul_gold (fp_add F) (fp_mul F) (int n) (int t) (int m) (mat_A F n t) (mat_B F t m) (mat_C F n m)"
    using omp_matmul_cells [OF AB(3,4) l sched] matmul_gold_cells [OF l l l] unfolding AB(1,2) by simp
  have run: "omp_main F fmt ok True junk copies sched argv fs =
       bindR (matmul_gold (fp_add F) (fp_mul F) (int n) (int t) (int m) (mat_A F n t) (mat_B F t m) (mat_C F n m))
         (\<lambda>g. bindR (save_results fmt ok save (int n) (int t) (int m) ?A ?B g fs) (\<lambda>fs. Inr (g, fs)))"
    unfolding omp_main_def args bindR.simps mm [symmetric] using init by (simp add: k)
  obtain g where g: "length g = n * m"
    "matmul_gold (fp_add F) (fp_mul F) (int n) (int t) (int m) (mat_A F n t) (mat_B F t m) (mat_C F n m) = Inr g"
    using matmul_gold_cells [OF l l l] by (intro that [of "map _ _"]) simp_all
  obtain fs' where fs': "save_results fmt ok save (int n) (int t) (int m) ?A ?B g fs = Inr fs'"
    using save_results_returns [OF AB(3,4) eq_refl [OF g(1) [symmetric]] sz(2,3)] by blast
  have "omp_main F fmt ok True junk copies sched argv fs = Inr (g, fs')"
    unfolding run g(2) bindR.simps fs' ..
  then show thesis using that g(2) AB(1,2) fs' by blast
qed

end
