(* ===== verification/User_Props.thy ===== *)
theory User_Props
  imports Ref_Main Openmp Save
begin

text \<open>
  The properties of the user programs, each with a witness on the system of \<^verbatim>\<open>Ref_Link\<close>.
\<close>

text \<open>
  C11. The offloaded multiplication computes what the sequential reference computes, bit by bit and
  whatever the element type's \<open>+\<close> and \<open>*\<close> are. The master (\<^verbatim>\<open>matmul\<close>) has opened its devices, with
  no more devices than cells, and behind each is a chiplet program that receives the task the
  master hands to that device and whose answer the master receives. Then the master returns,
  every chiplet returns, no index leaves a matrix, and the memory of \<open>C\<close> holds what \<^verbatim>\<open>matmul_gold\<close>
  computes from the matrices the master started with.
\<close>

theorem matmul_offloaded_equals_gold:
  assumes "started S V p0 devs p" "d = length (devs_fds devs)" "laid_out S V C A B n t m"
    and sz: "int_sized n t m" and t: "0 < t" and dN: "d \<le> n * m"
    and chips: "\<forall>i < d. chiplet_behind add mul (S2 i) (V2 i) (q0 i) (fd2 i)
        (task_msgs (pmem p) C A B n t m d i)
        (peer V (devs_fds devs ! i) (task_msgs (pmem p) C A B n t m d i) 0)"
  shows "\<exists>p'. matmul S (int n) (int t) (int m) C A B p0 = Inr p' \<and>
     matmul_gold add mul (int n) (int t) (int m) (elems (peek p A (8 * (n * t))))
       (elems (peek p B (8 * (t * m)))) (elems (peek p C (8 * (n * m)))) =
       Inr (elems (peek p' C (8 * (n * m)))) \<and>
     (\<forall>i < d. \<exists>q'. chiplet_main add mul (S2 i) (q0 i) = Inr q')"
  using offloaded_run [OF assms] unfolding answered_def by metis

theorem matmul_offloaded_equals_gold_witness:
  "\<exists>p'. matmul (ref_sys ref_master [''d0'', ''d1'']) 1 2 3 16384 8192 12288 (ref_proc ref_mem) = Inr p' \<and>
     elems (peek p' 16384 24) = [3, 5, 7]"
proof -
  have "started (ref_sys ref_master [''d0'', ''d1'']) (ref_link ref_master) (ref_proc ref_mem) (ref_devs 2)
      (ref_opened 2 ref_mem)"
    using ref_started [of "[''d0'', ''d1'']"] by (simp add: eval_nat_numeral)
  moreover have "\<forall>i < 2. chiplet_behind (+) (*) (ref_sys (\<lambda>_ _ k. ref_msgs i ! k) [''d0''])
      (ref_link (\<lambda>_ _ k. ref_msgs i ! k)) (ref_proc (\<lambda>_. 0)) 3
      (task_msgs (pmem (ref_opened 2 ref_mem)) 16384 8192 12288 1 2 3 2 i)
      (peer (ref_link ref_master) (devs_fds (ref_devs 2) ! i)
         (task_msgs (pmem (ref_opened 2 ref_mem)) 16384 8192 12288 1 2 3 2 i) 0)"
    using ref_chiplet_behind [of 1 2 3 2 _ "(+)" "(*)" ref_mem 16384 8192 12288]
    by (simp add: ref_opened_def ref_proc_def ref_link_def ref_master_def ref_part_def ref_msgs_def
        int_sized_def)
  ultimately show ?thesis
    using matmul_offloaded_equals_gold [of "ref_sys ref_master [''d0'', ''d1'']" "ref_link ref_master"
        "ref_proc ref_mem" "ref_devs 2" "ref_opened 2 ref_mem" 2 16384 8192 12288 1 2 3 "(+)" "(*)"
        "\<lambda>i. ref_sys (\<lambda>_ _ k. ref_msgs i ! k) [''d0'']" "\<lambda>i. ref_link (\<lambda>_ _ k. ref_msgs i ! k)"
        "\<lambda>_. ref_proc (\<lambda>_. 0)" "\<lambda>_. 3"] ref_laid_out [of ref_master "[''d0'', ''d1'']"]
    by (auto simp: ref_matrices ref_gold int_sized_def ref_opened_def ref_proc_def)
qed

text \<open>
  C12. The whole master program. On sizes within its limits, with devices it can open, and a chiplet
  program behind each device, \<^verbatim>\<open>main\<close> of master-mm.c returns, and the number of errors it prints is the
  number of cells of the sequential result that differ from themselves: none, unless the arithmetic
  gives NaNs.
\<close>

theorem master_counts_no_errors:
  assumes "link_contract S V" "mm_room S V p A B n t m" "0 < n" "0 < t" "0 < m"
      "n \<le> 50" "t \<le> 50" "m \<le> 50" "length (devs_fds devs) \<le> n * m" "d = length (devs_fds devs)"
    and conn: "\<And>c g p1. mm_setup F S (int n) (int t) (int m) A B p = Inr (c, g, p1) \<Longrightarrow>
      \<exists>p2. started S V p1 devs p2 \<and> pmem p2 = pmem p1"
    and chips: "\<forall>i < d. chiplet_behind (fp_add F) (fp_mul F) (Sc i) (Vc i) (qc i) (fdc i)
      (mm_task F n t m d i) (peer V (devs_fds devs ! i) (mm_task F n t m d i) 0)"
  shows "\<exists>g p'. matmul_gold (fp_add F) (fp_mul F) (int n) (int t) (int m) (mat_A F n t) (mat_B F t m)
       (mat_C F n m) = Inr g \<and>
     master_main F S 0 A B [dec n, dec t, dec m] p =
       Inr (int (length (filter (\<lambda>x. \<not> fp_eq F x x) g)), False, p') \<and>
     (\<forall>i < d. \<exists>q'. chiplet_main (fp_add F) (fp_mul F) (Sc i) (qc i) = Inr q')"
proof (rule master_run [OF assms])
  fix g p'
  assume "matmul_gold (fp_add F) (fp_mul F) (int n) (int t) (int m) (mat_A F n t) (mat_B F t m)
      (mat_C F n m) = Inr g"
    "master_main F S 0 A B [dec n, dec t, dec m] p =
      Inr (int (length (filter (\<lambda>x. \<not> fp_eq F x x) g)), False, p')"
    "\<forall>i < d. \<exists>q'. chiplet_main (fp_add F) (fp_mul F) (Sc i) (qc i) = Inr q'"
  then show ?thesis by blast
qed

theorem master_counts_no_errors_witness:
  "\<exists>p'. master_main ref_fp (ref_sys ref_answers [''d0'', ''d1'']) 0 512 1024 [dec 1, dec 2, dec 3]
     (ref_proc (\<lambda>_. 0)) = Inr (0, False, p')"
proof -
  have "\<exists>g p'. matmul_gold (fp_add ref_fp) (fp_mul ref_fp) (int 1) (int 2) (int 3) (mat_A ref_fp 1 2)
      (mat_B ref_fp 2 3) (mat_C ref_fp 1 3) = Inr g \<and>
    master_main ref_fp (ref_sys ref_answers [''d0'', ''d1'']) 0 512 1024 [dec 1, dec 2, dec 3]
      (ref_proc (\<lambda>_. 0)) = Inr (int (length (filter (\<lambda>x. \<not> fp_eq ref_fp x x) g)), False, p') \<and>
    (\<forall>i < 2. \<exists>q'. chiplet_main (fp_add ref_fp) (fp_mul ref_fp)
       (ref_sys (\<lambda>_ _ k. mm_task ref_fp 1 2 3 2 i ! k) [''d0'']) (ref_proc (\<lambda>_. 0)) = Inr q')"
    by (rule master_counts_no_errors [where V = "ref_link ref_answers" and devs = "ref_devs 2" and
          fdc = "\<lambda>_. 3" and Vc = "\<lambda>i. ref_link (\<lambda>_ _ k. mm_task ref_fp 1 2 3 2 i ! k)",
          OF ref_link_contract ref_mm_room])
      ((intro allI impI, erule ref_mm_chips) | simp add: ref_mm_conn)+
  then show ?thesis by (auto simp: ref_fp_def)
qed

text \<open>
  C25. The OpenMP program, with any arguments it accepts. Whatever the order in which the iterations of
  its parallel loop make their steps, loads and stores of the shared matrix interleaved, as long as every
  iteration is completed, and whether or not the device has a memory of its own, it computes what the
  sequential loops compute, saves that if it was asked to, and no index leaves a matrix.
\<close>

theorem openmp_equals_gold:
  assumes "mm_args OMP_SIZE_N OMP_SIZE_T OMP_SIZE_M argv = Inr (save, int n, int t, int m)"
    and "complete (int n) (int t) (int m) sched"
  shows "\<exists>g A B fs'.
     matmul_gold (fp_add F) (fp_mul F) (int n) (int t) (int m) (mat_A F n t) (mat_B F t m) (mat_C F n m) = Inr g \<and>
     take (n * t) A = mat_A F n t \<and> take (t * m) B = mat_B F t m \<and>
     save_results fmt ok save (int n) (int t) (int m) A B g fs = Inr fs' \<and>
     omp_main F fmt ok True junk copies sched argv fs = Inr (g, fs')"
  by (rule omp_run [OF assms, where F = F and fmt = fmt and ok = ok and junk = junk and copies = copies
        and fs = fs]) blast

theorem openmp_equals_gold_witness:
  "\<exists>g. matmul_gold (fp_add ref_fp) (fp_mul ref_fp) 1 1 2 (mat_A ref_fp 1 1) (mat_B ref_fp 1 2)
       (mat_C ref_fp 1 2) = Inr g \<and>
     omp_main ref_fp (\<lambda>_. ''0.0'') (\<lambda>_. True) True 7 True [(0, 0), (1, 0), (1, 0), (0, 0)]
       [dec 1, dec 1, dec 2] Map.empty = Inr (g, Map.empty)"
proof -
  have a: "mm_args OMP_SIZE_N OMP_SIZE_T OMP_SIZE_M [dec 1, dec 1, dec 2] = Inr (False, int 1, int 1, int 2)"
    by (rule mm_args_dec) (simp_all add: OMP_SIZE_N_def OMP_SIZE_T_def OMP_SIZE_M_def)
  have "complete (int 1) (int 1) (int 2) [(0, 0), (1, 0), (1, 0), (0, 0)]" by code_simp
  from openmp_equals_gold [OF a this, where F = ref_fp and fmt = "\<lambda>_. ''0.0''" and ok = "\<lambda>_. True" and junk = 7
      and copies = True and fs = Map.empty]
  show ?thesis by (auto simp: save_results_def)
qed

text \<open>
  \<^verbatim>\<open>PART_FOR_DEV\<close> splits \<open>N\<close> elements over \<open>d\<close> devices without gap or overlap: the parts add
  up to \<open>N\<close> and no two differ by more than one element.
\<close>

theorem parts_partition:
  assumes "0 < d"
  shows "(\<Sum>i < d. PART_FOR_DEV (int i) (int N) (int d)) = int N \<and>
     (\<forall>i < d. \<forall>j < d. PART_FOR_DEV (int i) (int N) (int d) \<le>
        PART_FOR_DEV (int j) (int N) (int d) + 1)"
proof -
  have "(\<Sum>i < k. PART_FOR_DEV (int i) (int N) (int d)) = int (part_start N d k)" for k
    by (induction k) (simp_all add: part_start_Suc part_start_bounds(1) [OF assms])
  then show ?thesis using part_start_bounds(2) [OF assms, of N] by (simp add: PART_nat)
qed

theorem parts_partition_witness:
  "(\<Sum>i < 3. PART_FOR_DEV (int i) 10 3) = 10"
  using parts_partition [of 3 10] by simp

text \<open>
  The argument message. On a device with nothing pending \<^verbatim>\<open>psipe_send_args\<close> sends one message, and
  a program that receives this message by \<^verbatim>\<open>psipe_recv_args\<close> on a device with nothing pending has the
  five arguments as soon as the call returns, before it waits for the operation.
\<close>

theorem args_message_roundtrip:
  assumes "link_contract S V" "fd \<in> open_fds V" "sane V p" "posted V (pos p) fd = []"
    "length (log V (pos p) fd) < 2 ^ 31" "takes V (params_at S) 20"
    "span (params_at S) 20 \<inter> busy V (pos p) = {}"
    and "link_contract S2 V2" "fd2 \<in> open_fds V2" "sane V2 q" "posted V2 (pos q) fd2 = []"
    "length (log V2 (pos q) fd2) < 2 ^ 31" "takes V2 (params_at S2) 20"
    "span (params_at S2) 20 \<inter> busy V2 (pos q) = {}"
    and "\<forall>x \<in> {sz_n, sz_t, sz_m, len, ofs}. - (2 ^ 31) \<le> x \<and> x < 2 ^ 31"
    and conn: "\<And>r p'. psipe_send_args S fd sz_n sz_t sz_m len ofs p = (r, p') \<Longrightarrow>
      sent V (pos p') fd =
        sent V (pos p) fd @ [peer V2 fd2 (sent V2 (pos q) fd2) (recvs V2 (pos q) fd2)]"
  shows "\<exists>r q'. psipe_recv_args S2 fd2 q = (r, (sz_n, sz_t, sz_m, len, ofs), q') \<and> 0 \<le> r"
proof -
  let ?bs = "args_bytes sz_n sz_t sz_m len ofs"
  obtain r p' where s: "psipe_send_args S fd sz_n sz_t sz_m len ofs p = (r, p')"
    "posts V fd p [T_Out ?bs] [P_Sent (u64_of_int r)] (inflight V (pos p) \<union> span (params_at S) 20) p'"
    by (rule send_args_first [OF assms(1-6) _ _ assms(7),
          where X = "inflight V (pos p) \<union> span (params_at S) 20"]) auto
  from conn [OF s(1)] s(2) have "peer V2 fd2 (sent V2 (pos q) fd2) (recvs V2 (pos q) fd2) = ?bs"
    using posts_sent [OF s(2)] by simp
  moreover have "span (params_at S2) 20 \<inter> inflight V2 (pos q) = {}"
    "span (params_at S2) 20 \<inter> pending_sends V2 (pos q) (- {fd2}) = {}"
    using assms(14) pending_mono [OF subset_UNIV, of V2 "pos q" "- {fd2}"]
    unfolding busy_def by blast+
  ultimately show ?thesis
    using recv_args_step [OF assms(8-13) _ _ _ assms(15)] unfolding fresh_handle_def by metis
qed

theorem args_message_roundtrip_witness:
  "\<exists>r q'. psipe_recv_args (ref_sys (\<lambda>_ _ _. args_bytes 50 40 30 7 (- 3)) [''d0'']) 3
     (ref_opened 1 (\<lambda>_. 0)) = (r, (50, 40, 30, 7, - 3), q') \<and> 0 \<le> r"
proof (rule args_message_roundtrip)
  let ?out = "\<lambda>_ _ _. args_bytes 50 40 30 7 (- 3)"
  show "link_contract (ref_sys ?out [''d0'']) (ref_link ?out)"
    "link_contract (ref_sys ?out [''d0'']) (ref_link ?out)" by (rule ref_link_contract)+
  fix r p'
  assume "psipe_send_args (ref_sys ?out [''d0'']) 3 50 40 30 7 (- 3) (ref_opened 1 (\<lambda>_. 0)) = (r, p')"
  then show "sent (ref_link ?out) (pos p') 3 = sent (ref_link ?out) (pos (ref_opened 1 (\<lambda>_. 0))) 3 @
      [peer (ref_link ?out) 3 (sent (ref_link ?out) (pos (ref_opened 1 (\<lambda>_. 0))) 3)
        (recvs (ref_link ?out) (pos (ref_opened 1 (\<lambda>_. 0))) 3)]"
    using ram_bytes_store [of "args_bytes 50 40 30 7 (- 3)" "\<lambda>_. 0" 256]
    by (auto simp: psipe_send_args_def psipe_send_def ref_sys_def ref_ioctl_def ref_link_def Let_def
        ref_opened_def ref_proc_def sent_def)
qed (simp_all add: ref_link_def ref_opened_def ref_proc_def inflight_none)

text \<open>
  C30. What the programs save with \<^verbatim>\<open>-s\<close> can be read back. However a number is printed, as long as
  its text has no comma and no bracket, \<^verbatim>\<open>matrices.dat\<close> then holds exactly the three matrices, with
  their names and row by row; nothing of its former contents is left, and no file but the two is
  touched.
\<close>

theorem saved_matrices_read_back:
  assumes "0 < n" "0 < t" "0 < m" "n * t \<le> length A" "t * m \<le> length B" "n * m \<le> length C"
    "\<And>x. plain_cell (fmt x)" "ok ''matrices.dat''"
  shows "\<exists>fs' s. save_results fmt ok True (int n) (int t) (int m) A B C fs = Inr fs' \<and>
     fs' ''matrices.dat'' = Some s \<and>
     read_matrices 3 s = Some ([(''A'', rows_of fmt n t A), (''B'', rows_of fmt t m B),
       (''C'', rows_of fmt n m C)], []) \<and>
     (\<forall>f. f \<noteq> ''matrices.dat'' \<and> f \<noteq> ''matrix-info.dat'' \<longrightarrow> fs' f = fs f)"
proof -
  let ?s = "matrix_text ''A'' (rows_of fmt n t A) @ matrix_text ''B'' (rows_of fmt t m B) @
    matrix_text ''C'' (rows_of fmt n m C)"
  let ?fs = "save_matrix_info ok (int n) (int t) (int m) (fs(''matrices.dat'' \<mapsto> ?s))"
  have "save_results fmt ok True (int n) (int t) (int m) A B C fs = Inr ?fs"
    using assms by (simp add: save_results_def save_matrix_text TRUNCATE_def APPEND_def)
  moreover have "?fs ''matrices.dat'' = Some ?s"
    "\<forall>f. f \<noteq> ''matrices.dat'' \<and> f \<noteq> ''matrix-info.dat'' \<longrightarrow> ?fs f = fs f"
    by (auto simp: save_matrix_info_def fopen_def fputs_def)
  moreover have "read_matrices 3 ?s = Some ([(''A'', rows_of fmt n t A), (''B'', rows_of fmt t m B),
       (''C'', rows_of fmt n m C)], [])"
    using rows_of_plain [OF assms(1,2,7)] rows_of_plain [OF assms(2,3,7)] rows_of_plain [OF assms(1,3,7)]
      read_matrix_text [of "''C''" "rows_of fmt n m C" "[]"]
    by (simp add: numeral_3_eq_3 read_matrix_text)
  ultimately show ?thesis by blast
qed

theorem saved_matrices_read_back_witness:
  "\<exists>fs' s. save_results (\<lambda>x. if x = 7 then ''7.0'' else ''0.5'') (\<lambda>_. True) True 1 2 1 [7, 3] [4, 7] [7]
       [''matrices.dat'' \<mapsto> ''old''] = Inr fs' \<and> fs' ''matrices.dat'' = Some s \<and>
     read_matrices 3 s = Some ([(''A'', [[''7.0'', ''0.5'']]), (''B'', [[''0.5''], [''7.0'']]),
       (''C'', [[''7.0'']])], [])"
proof -
  let ?fmt = "\<lambda>x :: u64. if x = 7 then ''7.0'' else ''0.5''"
  have p: "plain_cell (?fmt x)" for x by (simp add: plain_cell_def)
  have r: "rows_of ?fmt 1 2 [7, 3] = [[''7.0'', ''0.5'']]" "rows_of ?fmt 2 1 [4, 7] = [[''0.5''], [''7.0'']]"
    "rows_of ?fmt 1 1 [7] = [[''7.0'']]"
    by code_simp+
  have n: "1 * 2 \<le> length [7 :: u64, 3]" "2 * 1 \<le> length [4 :: u64, 7]" "1 * 1 \<le> length [7 :: u64]"
    by simp_all
  show ?thesis
    using saved_matrices_read_back [where fmt = ?fmt and ok = "\<lambda>_. True" and fs = "[''matrices.dat'' \<mapsto> ''old'']", OF _ _ _ n p]
    unfolding r by auto
qed

end
