(* ===== verification/Kwaiters.thy ===== *)
theory Kwaiters
  imports Ksteps
begin

text \<open>
  The kernel module with several threads inside its ioctls at once. Theory Ksteps takes a whole
  ioctl as one step; here a thread can be overtaken at every access to a shared operation that
  \<^verbatim>\<open>ops->lock\<close> does not protect:
  \<^item> \<^verbatim>\<open>psipe_ops_init\<close> starts the operation and reads its id after it has released the lock;
  \<^item> \<^verbatim>\<open>psipe_ops_wait\<close> takes no lock at all: the increment of \<^verbatim>\<open>nwaiting\<close>, the return from
    \<^verbatim>\<open>wait_event\<close>, the decrement, \<^verbatim>\<open>list_del\<close> and \<^verbatim>\<open>kfree\<close> are steps of their own;
  \<^item> \<^verbatim>\<open>psipe_ops_flush\<close> holds the lock, which does not keep a waiter from coming between its look at
    \<^verbatim>\<open>nwaiting\<close> and its \<^verbatim>\<open>kfree\<close>, nor from freeing the operation it visits next, to which it has the
    pointer already.

  Linux's list functions are one step each: what two list updates do that overlap is not defined
  (\<^verbatim>\<open>psipe_ops_wait\<close> does not exclude it). So are the search of \<^verbatim>\<open>psipe_ops_get\<close> and the interrupt handler,
  which have the lock; the allocation and pinning of an operation nobody else knows yet; and the start of
  an operation, which touches nothing of it but its \<^verbatim>\<open>dma\<close>. A thread whose pointer leads to freed or
  unlinked memory where the code needs more has no step: what the code does then is not defined.
\<close>

section \<open>Threads and steps\<close>

text \<open>
  Where a thread is: it has submitted operation \<open>i\<close> and must start it or has done so; it has the
  pointer to \<open>i\<close> from \<^verbatim>\<open>psipe_ops_get\<close>; it is in \<^verbatim>\<open>wait_event\<close>, or behind it with the result; it is a
  flush that holds the lock, with the operations it has still to visit in the list it walks (the
  first is the one it has the pointer to) and in the next list. \<open>Doomed i k\<close>: it has found that
  nobody waits for \<open>i\<close> and goes on to unlink it; \<open>Unlinked i k\<close>: and to free it. After that the last
  waiter returns (\<open>k = None\<close>) and a flush visits the rest.
\<close>

datatype tpoint = Submitted u64 bool | Found u64 | Waiting u64 | Woken u64 int
  | Flushing "u64 list \<times> u64 list" | Doomed u64 "(u64 list \<times> u64 list) option"
  | Unlinked u64 "(u64 list \<times> u64 list) option"

type_synonym threads = "nat \<Rightarrow> tpoint option"

text \<open>A state: the module, the operations that are in no list any more but not yet freed, the threads.\<close>

type_synonym 'd wconf = "'d kstate \<times> psipe_op list \<times> threads"

text \<open>Following a pointer to an operation.\<close>

definition deref :: "u64 \<Rightarrow> 'd kstate \<Rightarrow> psipe_op list \<Rightarrow> psipe_op option" where
  "deref i s U = find (\<lambda>op. op_id op = i) (active s @ inactive s @ U)"

fun holds_lock :: "tpoint \<Rightarrow> bool" where
  "holds_lock (Flushing k) = True"
| "holds_lock (Doomed i k) = (k \<noteq> None)"
| "holds_lock (Unlinked i k) = (k \<noteq> None)"
| "holds_lock _ = False"

definition unlocked :: "threads \<Rightarrow> bool" where
  "unlocked W \<longleftrightarrow> (\<forall>th p. W th = Some p \<longrightarrow> \<not> holds_lock p)"

text \<open>What a walk over a list comes to next: the first operation that is still in a list.\<close>

definition linked :: "'d kstate \<Rightarrow> u64 list \<Rightarrow> u64 list" where
  "linked s is = dropWhile (\<lambda>i. find_op i s = None) is"

inductive wstep :: "linux \<Rightarrow> 'd bus \<Rightarrow> 'd wconf \<Rightarrow> 'd wconf \<Rightarrow> bool"
  for L :: linux and B :: "'d bus" where
  w_no_op: "W th = None \<Longrightarrow> cmd = PSIPE_IOCTL_SEND \<or> cmd = PSIPE_IOCTL_RECV \<Longrightarrow>
    psipe_ops_new L (trace s) cmd arg = (None, tr) \<Longrightarrow>
    wstep L B (s, U, W) (s\<lparr>trace := tr\<rparr>, U, W)"
| w_no_pages: "W th = None \<Longrightarrow> cmd = PSIPE_IOCTL_SEND \<or> cmd = PSIPE_IOCTL_RECV \<Longrightarrow>
    psipe_ops_new L (trace s) cmd arg = (Some op, tr) \<Longrightarrow>
    psipe_dma_pin_pages L tr (op_dma op) = (rv, tr', m) \<Longrightarrow> rv < 0 \<Longrightarrow>
    wstep L B (s, U, W) (s\<lparr>trace := tr'\<rparr>, U, W)"
| w_enqueue: "W th = None \<Longrightarrow> unlocked W \<Longrightarrow> cmd = PSIPE_IOCTL_SEND \<or> cmd = PSIPE_IOCTL_RECV \<Longrightarrow>
    psipe_ops_new L (trace s) cmd arg = (Some op, tr) \<Longrightarrow>
    psipe_dma_pin_pages L tr (op_dma op) = (rv, tr', m) \<Longrightarrow> 0 \<le> rv \<Longrightarrow>
    wstep L B (s, U, W) (ops_enqueue (s\<lparr>trace := tr'\<rparr>) (op\<lparr>op_dma := m\<rparr>), U,
      W(th \<mapsto> Submitted (next_id s) (active s = [])))"
| w_start: "W th = Some (Submitted i True) \<Longrightarrow> deref i s U = Some op \<Longrightarrow>
    run_ioctl_fn (op_fn op) L B (hw s) (trace s) (op_dma op) = Inr (rv, d, tr, m) \<Longrightarrow>
    wstep L B (s, U, W) (update_op i (\<lambda>op. op\<lparr>op_dma := m\<rparr>) (s\<lparr>hw := d, trace := tr\<rparr>),
      map_op i (\<lambda>op. op\<lparr>op_dma := m\<rparr>) U, W(th := if rv < 0 then None else Some (Submitted i False)))"
| w_return: "W th = Some (Submitted i False) \<Longrightarrow> deref i s U = Some op \<Longrightarrow>
    wstep L B (s, U, W) (s, U, W(th := None))"
| w_device: "wstep L B (s, U, W) (s\<lparr>hw := d\<rparr>, U, W)"
| w_interrupt: "unlocked W \<Longrightarrow> psipe_irq_handler L B s = Inr (r, t) \<Longrightarrow> wstep L B (s, U, W) (t, U, W)"
| w_get: "W th = None \<Longrightarrow> unlocked W \<Longrightarrow> psipe_ops_get s i = Some op \<Longrightarrow>
    wstep L B (s, U, W) (s, U, W(th \<mapsto> Found i))"
| w_register: "W th = Some (Found i) \<Longrightarrow> deref i s U = Some op \<Longrightarrow>
    wstep L B (s, U, W) (ops_wait_enter s i,
      map_op i (\<lambda>op. op\<lparr>nwaiting := s32 (nwaiting op + 1)\<rparr>) U, W(th \<mapsto> Waiting i))"
| w_wake: "W th = Some (Waiting i) \<Longrightarrow> deref i s U = Some op \<Longrightarrow> flag op = 1 \<Longrightarrow>
    wstep L B (s, U, W) (s, U, W(th \<mapsto> Woken i (retval op)))"
| w_drop: "W th = Some (Woken i rv) \<Longrightarrow> deref i s U = Some op \<Longrightarrow> n = s32 (nwaiting op - 1) \<Longrightarrow>
    wstep L B (s, U, W) (update_op i (\<lambda>op. op\<lparr>nwaiting := n\<rparr>) s, map_op i (\<lambda>op. op\<lparr>nwaiting := n\<rparr>) U,
      W(th := if n = 0 then Some (Doomed i None) else None))"
| w_flush: "W th = None \<Longrightarrow> unlocked W \<Longrightarrow>
    wstep L B (s, U, W) (s, U, W(th \<mapsto> Flushing (map op_id (active s), map op_id (inactive s))))"
| w_skip: "W th = Some (Flushing (i # is, js)) \<Longrightarrow> find_op i s = Some op \<Longrightarrow> nwaiting op \<noteq> 0 \<Longrightarrow>
    wstep L B (s, U, W) (s, U, W(th \<mapsto> Flushing (linked s is, js)))"
| w_decide: "W th = Some (Flushing (i # is, js)) \<Longrightarrow> find_op i s = Some op \<Longrightarrow> nwaiting op = 0 \<Longrightarrow>
    tr = (if op \<in> set (active s)
          then psipe_dma_unmap_pages (psipe_dma_unpin_pages (trace s) (op_dma op)) (op_dma op)
          else trace s) \<Longrightarrow>
    wstep L B (s, U, W) (s\<lparr>trace := tr\<rparr>, U, W(th \<mapsto> Doomed i (Some (linked s is, js))))"
| w_inactive: "W th = Some (Flushing ([], js)) \<Longrightarrow>
    wstep L B (s, U, W) (s, U, W(th \<mapsto> Flushing (linked s js, [])))"
| w_flushed: "W th = Some (Flushing ([], [])) \<Longrightarrow> wstep L B (s, U, W) (s, U, W(th := None))"
| w_unlink: "W th = Some (Doomed i k) \<Longrightarrow> find_op i s = Some op \<Longrightarrow>
    wstep L B (s, U, W) (s\<lparr>active := list_del i (active s), inactive := list_del i (inactive s)\<rparr>,
      op # U, W(th \<mapsto> Unlinked i k))"
| w_free: "W th = Some (Unlinked i k) \<Longrightarrow> i \<in> op_id ` set U \<Longrightarrow>
    wstep L B (s, U, W) (s\<lparr>trace := trace s @ [Kfree_op i]\<rparr>, list_del i U,
      W(th := map_option Flushing k))"

inductive_cases wstepE: "wstep L B (s, U, W) (t, U', W')"

text \<open>Reachable while neither the id nor the number of threads outgrows its type.\<close>

definition roomy :: "'d wconf \<Rightarrow> bool" where
  "roomy = (\<lambda>(s, U, W). unat (next_id s) < 2 ^ 64 - 1 \<and> card (dom W) < 2 ^ 31)"

inductive wreach :: "linux \<Rightarrow> 'd bus \<Rightarrow> 'd \<Rightarrow> 'd wconf \<Rightarrow> bool"
  for L :: linux and B :: "'d bus" and d :: 'd where
  wreach_init: "wreach L B d (kinit d, [], Map.empty)"
| wreach_step: "wreach L B d c \<Longrightarrow> wstep L B c c' \<Longrightarrow> roomy c \<Longrightarrow> wreach L B d c'"

section \<open>Who waits and who frees\<close>

text \<open>The operation a thread is registered for, and the one it is about to free (unlinked or not).\<close>

fun waits_on :: "tpoint \<Rightarrow> u64 option" where
  "waits_on (Waiting i) = Some i"
| "waits_on (Woken i rv) = Some i"
| "waits_on _ = None"

fun dooms_on :: "tpoint \<Rightarrow> (u64 \<times> bool) option" where
  "dooms_on (Doomed i k) = Some (i, False)"
| "dooms_on (Unlinked i k) = Some (i, True)"
| "dooms_on _ = None"

definition waits :: "threads \<Rightarrow> nat \<Rightarrow> u64 option" where
  "waits W th = Option.bind (W th) waits_on"

definition dooms :: "threads \<Rightarrow> nat \<Rightarrow> (u64 \<times> bool) option" where
  "dooms W th = Option.bind (W th) dooms_on"

definition waiters :: "threads \<Rightarrow> u64 \<Rightarrow> nat set" where
  "waiters W i = {th. waits W th = Some i}"

definition doomers :: "threads \<Rightarrow> u64 \<Rightarrow> nat set" where
  "doomers W i = {th. \<exists>b. dooms W th = Some (i, b)}"

lemma waits_upd [simp]: "waits (W(th := x)) = (waits W)(th := Option.bind x waits_on)"
  by (auto simp: waits_def)

lemma dooms_upd [simp]: "dooms (W(th := x)) = (dooms W)(th := Option.bind x dooms_on)"
  by (auto simp: dooms_def)

lemma waits_at: "W th = x \<Longrightarrow> waits W th = Option.bind x waits_on"
  by (simp add: waits_def)

lemma dooms_at: "W th = x \<Longrightarrow> dooms W th = Option.bind x dooms_on"
  by (simp add: dooms_def)

lemma waiters_dom: "waiters W i \<subseteq> dom W"
  by (auto simp: waiters_def waits_def bind_eq_Some_conv)

section \<open>The counts\<close>

text \<open>The operations that exist, with their counts of waiters; those in the lists.\<close>

definition cnt :: "psipe_op list \<Rightarrow> (u64 \<times> int) set" where
  "cnt ops = (\<lambda>op. (op_id op, nwaiting op)) ` set ops"

definition counts :: "'d kstate \<Rightarrow> (u64 \<times> int) set" where
  "counts s = cnt (active s @ inactive s)"

definition counted :: "(u64 \<times> int) set \<Rightarrow> threads \<Rightarrow> bool" where
  "counted Q W \<longleftrightarrow> (\<forall>(i, n) \<in> Q. n = int (card (waiters W i)))"

text \<open>
  In every interleaving: ids are unique and old, and \<open>nwaiting\<close> is the number of threads registered.
\<close>

definition winv :: "'d wconf \<Rightarrow> bool" where
  "winv = (\<lambda>(s, U, W). kinv s \<and> finite (dom W) \<and> distinct (map op_id U) \<and>
     fst ` counts s \<inter> op_id ` set U = {} \<and> (\<forall>op \<in> set U. op_id op < next_id s) \<and>
     counted (counts s \<union> cnt U) W \<and> (\<forall>i. waiters W i \<noteq> {} \<longrightarrow> i < next_id s))"

lemma counted_Un: "counted (Q \<union> R) W \<longleftrightarrow> counted Q W \<and> counted R W"
  by (auto simp: counted_def)

lemma cnt_simps [simp]:
  "cnt [] = {}" "cnt (op # ops) = insert (op_id op, nwaiting op) (cnt ops)"
  "cnt (ops @ ops') = cnt ops \<union> cnt ops'"
  by (auto simp: cnt_def)

lemma fst_cnt [simp]: "fst ` cnt ops = op_id ` set ops"
  by (simp add: cnt_def image_image)

lemma fst_counts: "fst ` counts s = op_id ` set (active s @ inactive s)"
  by (simp only: counts_def fst_cnt)

lemma find_Some_mem: "find P xs = Some x \<Longrightarrow> P x \<and> x \<in> set xs"
  by (auto simp: find_Some_iff)

lemma find_op_mem:
  assumes "find_op i s = Some op" shows "op \<in> set (active s @ inactive s)" "op_id op = i"
  using find_Some_mem [OF assms [unfolded find_op_def]] by simp_all

lemma find_op_counts: "find_op i s = Some op \<Longrightarrow> (i, nwaiting op) \<in> counts s"
  using find_op_mem [of i s op] unfolding counts_def cnt_def by blast

lemma deref_mem:
  assumes "deref i s U = Some op" shows "op \<in> set (active s @ inactive s @ U)" "op_id op = i"
  using find_Some_mem [OF assms [unfolded deref_def]] by simp_all

lemma deref_counts: "deref i s U = Some op \<Longrightarrow> (i, nwaiting op) \<in> counts s \<union> cnt U"
  using deref_mem [of i s U op] unfolding counts_def cnt_def by auto

lemma find_op_deref: "find_op i s = Some op \<Longrightarrow> deref i s U = Some op"
  unfolding find_op_def deref_def by (subst append_assoc [symmetric]) (simp only: find_append option.case)

lemma counts_find:
  assumes "i \<in> fst ` counts s" shows "\<exists>op. find_op i s = Some op"
proof (rule ccontr)
  assume "\<not> ?thesis"
  then have "find_op i s = None" by simp
  then have "\<forall>op \<in> set (active s @ inactive s). op_id op \<noteq> i"
    unfolding find_op_def find_None_iff by blast
  then show False using assms by (auto simp: fst_counts)
qed

lemma deref_None: "deref i s U = None \<longleftrightarrow> i \<notin> fst ` counts s \<and> i \<notin> op_id ` set U"
  by (auto simp: deref_def find_None_iff fst_counts)

lemma cnt_map_op:
  assumes "\<And>op. op_id (f op) = op_id op" "\<And>op. nwaiting (f op) = nwaiting op"
  shows "cnt (map_op i f ops) = cnt ops"
  unfolding cnt_def map_op_def set_map image_image by (rule image_cong) (simp_all add: assms)

lemma counts_update:
  assumes "\<And>op. op_id (f op) = op_id op" "\<And>op. nwaiting (f op) = nwaiting op"
  shows "counts (update_op i f s) = counts s"
  by (simp add: counts_def update_op_def cnt_map_op [OF assms])

lemma cnt_nwaiting:
  "cnt (map_op i (\<lambda>op. op\<lparr>nwaiting := h (nwaiting op)\<rparr>) ops) =
     (\<lambda>(j, n). (j, if j = i then h n else n)) ` cnt ops"
  unfolding cnt_def map_op_def set_map image_image by (rule image_cong) simp_all

lemma counts_nwaiting:
  "counts (update_op i (\<lambda>op. op\<lparr>nwaiting := h (nwaiting op)\<rparr>) s) =
     (\<lambda>(j, n). (j, if j = i then h n else n)) ` counts s"
  by (simp add: counts_def update_op_def cnt_nwaiting image_Un)

lemma counts_frame [simp]: "counts (s\<lparr>trace := tr\<rparr>) = counts s" "counts (s\<lparr>hw := d\<rparr>) = counts s"
  by (simp_all add: counts_def)

lemma counts_start: "start_op L B s op = Inr (rv, t) \<Longrightarrow> counts t = counts s \<and> next_id t = next_id s"
  by (auto simp: start_op_def counts_update) (simp add: update_op_def)

lemma counts_fini:
  assumes "kinv s" "active s = op # ops" shows "counts (psipe_ops_fini s op) = counts s"
  unfolding counts_def fini_head(1,2) [OF assms] assms(2) by auto

lemma counts_next:
  assumes inv: "kinv s" and n: "psipe_ops_next L B s = Inr t"
  shows "counts t = counts s \<and> next_id t = next_id s"
proof (cases "active s")
  case Nil
  then show ?thesis using n by (simp add: psipe_ops_next_def psipe_ops_current_def)
next
  case (Cons op ops)
  note f = counts_fini [OF inv Cons] and a = fini_head(1,4) [OF inv Cons]
  have u: "next_id (update_op i g s) = next_id s" for i g and s :: "'a kstate"
    by (simp add: update_op_def)
  show ?thesis
    using n a Cons f
    by (cases ops) (auto simp: psipe_ops_next_def psipe_ops_current_def Let_def counts_update u
        dest!: counts_start)
qed

lemma counts_handler:
  "kinv s \<Longrightarrow> psipe_irq_handler L B s = Inr (r, t) \<Longrightarrow> counts t = counts s \<and> next_id t = next_id s"
  by (auto simp: psipe_irq_handler_def Let_def split: if_splits dest: counts_next [rotated])

lemma kinv_handler: "kinv s \<Longrightarrow> psipe_irq_handler L B s = Inr (r, t) \<Longrightarrow> kinv t"
  by (auto simp: psipe_irq_handler_def Let_def split: if_splits dest: kinv_next [rotated])

lemma counts_enqueue: "counts (ops_enqueue s op) = insert (next_id s, nwaiting op) (counts s)"
  by (auto simp: counts_def ops_enqueue_def)

lemma new_nwaiting: "psipe_ops_new L tr cmd arg = (Some op, tr') \<Longrightarrow> nwaiting op = 0"
  by (auto simp: psipe_ops_new_def Let_def split: option.splits prod.splits if_splits)

lemma cnt_list_del: "cnt (list_del i ops) = {(j, n) \<in> cnt ops. j \<noteq> i}"
  by (auto simp: cnt_def list_del_def)

lemma find_op_unique:
  assumes "kinv s" "op \<in> set (active s @ inactive s)" shows "find_op (op_id op) s = Some op"
proof -
  obtain op' where op': "find_op (op_id op) s = Some op'"
    using counts_find [of "op_id op" s] assms(2) by (force simp: fst_counts)
  have "inj_on op_id (set (active s @ inactive s))"
    using kinv_distinct(1) [OF assms(1)] by (simp only: distinct_map)
  then have "op' = op" by (rule inj_onD) (use find_op_mem [OF op'] assms(2) in simp_all)
  with op' show ?thesis by simp
qed

section \<open>Every step keeps them\<close>

lemma waiters_same: "waits W' = waits W \<Longrightarrow> waiters W' = waiters W"
  by (simp add: waiters_def fun_eq_iff)

lemma counted_same: "counted Q W \<Longrightarrow> waits W' = waits W \<Longrightarrow> counted Q W'"
  by (simp add: counted_def waiters_def)

lemma winvD:
  assumes "winv (s, U, W)"
  shows "kinv s" "finite (dom W)" "distinct (map op_id U)" "fst ` counts s \<inter> op_id ` set U = {}"
    "op \<in> set U \<Longrightarrow> op_id op < next_id s" "counted (counts s) W" "counted (cnt U) W"
    "waiters W i \<noteq> {} \<Longrightarrow> i < next_id s"
  using assms by (auto simp: winv_def counted_Un)

lemma dom_upd_finite: "finite (dom W) \<Longrightarrow> finite (dom (W(th := x)))"
  by (rule finite_subset [of _ "insert th (dom W)"]) auto

text \<open>A step that changes no count and registers nobody.\<close>

lemma winv_frame:
  assumes inv: "winv (s, U, W)" and k: "kinv t" and c: "counts t = counts s" "next_id t = next_id s"
    and U: "map op_id U' = map op_id U" "cnt U' = cnt U"
    and W: "finite (dom W')" "waits W' = waits W"
  shows "winv (t, U', W')"
proof -
  have i: "op_id ` set U' = op_id ` set U" using U(1) by (metis list.set_map)
  note d = winvD [OF inv]
  have "op_id op < next_id t" if "op \<in> set U'" for op
  proof -
    have "op_id op \<in> op_id ` set U" using that i by (metis imageI)
    then show ?thesis using d(5) c(2) by auto
  qed
  then show ?thesis
    using d counted_same [OF _ W(2)] waiters_same [OF W(2)] i
    unfolding winv_def counted_Un by (auto simp: k c U W)
qed

lemma deref_old:
  assumes "winv (s, U, W)" "deref i s U = Some op" shows "i < next_id s"
  using deref_mem [OF assms(2)] kinv_fresh [OF winvD(1) [OF assms(1)]] winvD(5) [OF assms(1)] by auto

lemma deref_card:
  assumes "winv (s, U, W)" "deref i s U = Some op"
  shows "nwaiting op = int (card (waiters W i))" "finite (waiters W i)"
proof -
  show "nwaiting op = int (card (waiters W i))"
    using winvD(6,7) [OF assms(1)] deref_counts [OF assms(2)] by (auto simp: counted_def)
  show "finite (waiters W i)" using winvD(2) [OF assms(1)] waiters_dom finite_subset by blast
qed

lemma counted_change:
  assumes "counted Q W" "\<And>j. j \<noteq> i \<Longrightarrow> waiters W' j = waiters W j"
    "h (int (card (waiters W i))) = int (card (waiters W' i))"
  shows "counted ((\<lambda>(j, n). (j, if j = i then h n else n)) ` Q) W'"
  using assms by (auto simp: counted_def)

text \<open>A step that changes the count of one operation and who is registered for it.\<close>

lemma winv_count:
  assumes inv: "winv (s, U, W)" and old: "i < next_id s"
    and h: "h (int (card (waiters W i))) = int (card (waiters W' i))"
    and W': "\<And>j. j \<noteq> i \<Longrightarrow> waiters W' j = waiters W j" "finite (dom W')"
  shows "winv (update_op i (\<lambda>op. op\<lparr>nwaiting := h (nwaiting op)\<rparr>) s,
    map_op i (\<lambda>op. op\<lparr>nwaiting := h (nwaiting op)\<rparr>) U, W')"
proof -
  let ?f = "\<lambda>op. op\<lparr>nwaiting := h (nwaiting op)\<rparr>"
  note d = winvD [OF inv]
  have k: "kinv (update_op i ?f s)" by (rule kinv_update_op [OF d(1)]) simp_all
  have n: "next_id (update_op i ?f s) = next_id s" by (simp add: update_op_def)
  have ids: "map op_id (map_op i ?f U) = map op_id U" "op_id ` set (map_op i ?f U) = op_id ` set U"
    by (rule map_op_ids op_id_map_op; simp)+
  have f: "fst ` counts (update_op i ?f s) = fst ` counts s"
    unfolding counts_nwaiting image_image by (rule image_cong) auto
  have "counted (counts (update_op i ?f s)) W'" "counted (cnt (map_op i ?f U)) W'"
    unfolding counts_nwaiting cnt_nwaiting
    by (rule counted_change [where h = h, OF d(6) W'(1) h] counted_change [where h = h, OF d(7) W'(1) h];
        assumption)+
  moreover have "op_id op < next_id s" if "op \<in> set (map_op i ?f U)" for op
    using that ids(2) d(5) by (metis (no_types, lifting) image_iff)
  moreover have "j < next_id s" if "waiters W' j \<noteq> {}" for j
    using that d(8) old W'(1) by (cases "j = i") auto
  ultimately show ?thesis
    using d k n W'(2) unfolding winv_def counted_Un f ids prod.case by (intro conjI ballI allI impI) simp_all
qed

lemma winv_register:
  assumes inv: "winv (s, U, W)" and th: "W th = Some (Found i)" and op: "deref i s U = Some op"
    and few: "card (dom W) < 2 ^ 31"
  shows "winv (ops_wait_enter s i, map_op i (\<lambda>op. op\<lparr>nwaiting := s32 (nwaiting op + 1)\<rparr>) U,
    W(th \<mapsto> Waiting i))"
proof -
  let ?W = "W(th \<mapsto> Waiting i)"
  have n: "waits W th = None" by (simp add: waits_at [of W th, OF th])
  have w: "waiters ?W i = insert th (waiters W i)" "th \<notin> waiters W i" using n by (auto simp: waiters_def)
  note c = deref_card [OF inv op] and fin = winvD(2) [OF inv]
  have "th \<in> dom W" using th by auto
  then have "card (insert th (waiters W i)) \<le> card (dom W)"
    by (intro card_mono [OF fin]) (simp add: waiters_dom)
  then have "s32 (int (card (waiters W i)) + 1) = int (card (waiters ?W i))"
    using w c(2) few by (simp add: s32_id)
  then show ?thesis unfolding ops_wait_enter_def
    by (intro winv_count [OF inv deref_old [OF inv op], where h = "\<lambda>n. s32 (n + 1)"])
      (use n fin in \<open>auto simp: waiters_def\<close>)
qed

text \<open>What the decrement leaves.\<close>

lemma drop_card:
  assumes inv: "winv (s, U, W)" and th: "W th = Some (Woken i rv)" and op: "deref i s U = Some op"
    and few: "card (dom W) < 2 ^ 31"
  shows "s32 (nwaiting op - 1) = int (card (waiters W i - {th}))" "finite (waiters W i)"
proof -
  note c = deref_card [OF inv op]
  have "th \<in> waiters W i" by (simp add: waiters_def waits_at [of W th, OF th])
  then have d: "card (waiters W i) = Suc (card (waiters W i - {th}))" by (rule card.remove [OF c(2)])
  moreover have "card (waiters W i) \<le> card (dom W)"
    by (rule card_mono [OF winvD(2) [OF inv] waiters_dom])
  ultimately have "nwaiting op - 1 = int (card (waiters W i - {th}))"
    "card (waiters W i - {th}) < 2147483648"
    using few c(1) by simp_all
  then show "s32 (nwaiting op - 1) = int (card (waiters W i - {th}))" by (simp add: s32_id)
  show "finite (waiters W i)" by (rule c(2))
qed

lemma winv_drop:
  assumes inv: "winv (s, U, W)" and th: "W th = Some (Woken i rv)" and op: "deref i s U = Some op"
    and n: "n = s32 (nwaiting op - 1)" and few: "card (dom W) < 2 ^ 31"
    and x: "Option.bind x waits_on = None"
  shows "winv (update_op i (\<lambda>op. op\<lparr>nwaiting := n\<rparr>) s, map_op i (\<lambda>op. op\<lparr>nwaiting := n\<rparr>) U, W(th := x))"
proof (rule winv_count [OF inv deref_old [OF inv op], where h = "\<lambda>_. n"])
  have "waiters (W(th := x)) i = waiters W i - {th}" using x by (auto simp: waiters_def)
  then show "n = int (card (waiters (W(th := x)) i))" using drop_card [OF inv th op few] n by simp
qed (use x winvD(2) [OF inv] waits_at [of W th, OF th] in \<open>auto simp: waiters_def intro: dom_upd_finite\<close>)

lemma winv_enqueue:
  assumes inv: "winv (s, U, W)" and f: "flag op = 0" "nwaiting op = 0"
    and room: "unat (next_id s) < 2 ^ 64 - 1" and th: "W th = None"
    and tr: "completed tr = completed (trace s)"
  shows "winv (ops_enqueue (s\<lparr>trace := tr\<rparr>) op, U, W(th \<mapsto> Submitted i b))"
proof -
  note d = winvD [OF inv]
  let ?t = "ops_enqueue (s\<lparr>trace := tr\<rparr>) op" and ?W = "W(th \<mapsto> Submitted i b)"
  have k: "kinv ?t" by (rule kinv_enqueue [OF kinv_trace [OF d(1) tr] f(1)]) (use room in simp)
  have n: "next_id ?t = next_id s + 1" by (simp add: ops_enqueue_def)
  have "unat (next_id s + 1) = Suc (unat (next_id s))" using room by (simp add: unat_word_ariths)
  then have less: "j < next_id s \<Longrightarrow> j < next_id s + 1" for j by (simp add: word_less_nat_alt)
  have same: "waits ?W = waits W" using waits_at [of W th, OF th] by (simp add: fun_upd_idem)
  have fresh: "next_id s \<notin> op_id ` set U" using d(5) by (metis image_iff less_irrefl)
  have "waiters W (next_id s) = {}" using d(8) [of "next_id s"] by (metis less_irrefl)
  then have "counted (counts ?t) W" using d(6) by (simp add: counts_enqueue counted_def f)
  then show ?thesis
    using d(2-5,7,8) k n less fresh waiters_same [OF same] counted_same [OF _ same]
    unfolding winv_def counted_Un by (auto simp: counts_enqueue)
qed

lemma winv_unlink:
  assumes inv: "winv (s, U, W)" and op: "find_op i s = Some op" and W: "finite (dom W')" "waits W' = waits W"
  shows "winv (s\<lparr>active := list_del i (active s), inactive := list_del i (inactive s)\<rparr>, op # U, W')"
proof -
  note d = winvD [OF inv]
  let ?t = "s\<lparr>active := list_del i (active s), inactive := list_del i (inactive s)\<rparr>"
  have k: "kinv ?t" using kinv_filter [OF d(1) refl] by (simp add: list_del_def)
  have c: "counts ?t = {(j, n) \<in> counts s. j \<noteq> i}" by (auto simp: counts_def cnt_list_del)
  have m: "(i, nwaiting op) \<in> counts s" "op_id op = i" by (rule find_op_counts find_op_mem, rule op)+
  have i: "i \<in> fst ` counts s" using m(1) by force
  have "i < next_id s" using kinv_fresh [OF d(1) find_op_mem(1) [OF op]] m(2) by simp
  moreover have "i \<notin> op_id ` set U" using i d(4) by auto
  moreover have "counted (insert (i, nwaiting op) (cnt U)) W" using d(6,7) m(1) by (auto simp: counted_def)
  moreover have "counted (counts ?t) W" using d(6) by (auto simp: c counted_def)
  moreover have "fst ` counts ?t \<subseteq> fst ` counts s - {i}" unfolding c by force
  ultimately show ?thesis
    using d(2-5,8) k m(2) W waiters_same [OF W(2)] counted_same [OF _ W(2)]
    unfolding winv_def counted_Un by auto
qed

lemma winv_free:
  assumes inv: "winv (s, U, W)" and W: "finite (dom W')" "waits W' = waits W"
  shows "winv (s\<lparr>trace := trace s @ [Kfree_op i]\<rparr>, list_del i U, W')"
proof -
  note d = winvD [OF inv]
  have "kinv (s\<lparr>trace := trace s @ [Kfree_op i]\<rparr>)" by (rule kinv_trace [OF d(1)]) simp
  moreover have "distinct (map op_id (list_del i U))"
    using d(3) unfolding list_del_def by (rule distinct_map_filter)
  moreover have "set (list_del i U) \<subseteq> set U" "cnt (list_del i U) \<subseteq> cnt U"
    by (auto simp: list_del_def cnt_def)
  moreover from this have "counted (cnt (list_del i U)) W" using d(7) by (auto simp: counted_def)
  ultimately show ?thesis
    using d(2,4-6,8) W waiters_same [OF W(2)] counted_same [OF _ W(2)]
    unfolding winv_def counted_Un by auto
qed

lemma waits_unmoved: "W th = y \<Longrightarrow> Option.bind x waits_on = Option.bind y waits_on \<Longrightarrow> waits (W(th := x)) = waits W"
  by (simp add: waits_def fun_upd_idem)

lemma decide_completed:
  "completed (if b then psipe_dma_unmap_pages (psipe_dma_unpin_pages tr m) m' else tr) = completed tr"
  by simp

lemma winv_step:
  assumes step: "wstep L B (s, U, W) (t, U', W')" and inv: "winv (s, U, W)" and room: "roomy (s, U, W)"
  shows "winv (t, U', W')"
proof -
  note d = winvD [OF inv]
  have few: "card (dom W) < 2 ^ 31" "unat (next_id s) < 2 ^ 64 - 1" using room by (simp_all add: roomy_def)
  have move: "winv (s\<lparr>trace := tr\<rparr>, U, W(th := x))"
    if "completed tr = completed (trace s)" "Option.bind x waits_on = Option.bind (W th) waits_on" for tr th x
    by (rule winv_frame [OF inv]) (use that d waits_unmoved [of W th, OF refl that(2)] in \<open>auto intro: kinv_trace dom_upd_finite\<close>)
  have stay: "winv (s, U, W(th := x))" if "Option.bind x waits_on = Option.bind (W th) waits_on" for th x
    using move [of "trace s", OF refl that] by simp
  from step show ?thesis
  proof cases
    case (w_no_op th cmd arg tr)
    with move [of tr None th] new_completed [of L "trace s" cmd arg None tr] show ?thesis
      by (simp add: fun_upd_idem)
  next
    case (w_no_pages th cmd arg op tr rv tr' m)
    with move [of tr' None th] new_completed [of L "trace s" cmd arg "Some op" tr]
      pin_completed [of L tr "op_dma op" rv tr' m] show ?thesis by (simp add: fun_upd_idem)
  next
    case (w_enqueue th cmd arg op tr rv tr' m)
    then show ?thesis
      using winv_enqueue [OF inv _ _ few(2), of "op\<lparr>op_dma := m\<rparr>" th tr'] new_flag new_nwaiting
        new_completed [of L "trace s" cmd arg "Some op" tr] pin_completed [of L tr "op_dma op" rv tr' m]
      by fastforce
  next
    case (w_start th i op rv d' tr m)
    have "winv (update_op i (\<lambda>op. op\<lparr>op_dma := m\<rparr>) (s\<lparr>hw := d', trace := tr\<rparr>),
        map_op i (\<lambda>op. op\<lparr>op_dma := m\<rparr>) U, W(th := x))"
      if "Option.bind x waits_on = None" for x
    proof (rule winv_frame [OF inv])
      show "kinv (update_op i (\<lambda>op. op\<lparr>op_dma := m\<rparr>) (s\<lparr>hw := d', trace := tr\<rparr>))"
        by (intro kinv_update_op kinv_frame d(1) run_completed [OF w_start(6)]) simp_all
      show "counts (update_op i (\<lambda>op. op\<lparr>op_dma := m\<rparr>) (s\<lparr>hw := d', trace := tr\<rparr>)) = counts s"
        by (subst counts_update) (simp_all add: counts_def)
    qed (use that w_start(4) d(2) in \<open>auto simp: update_op_def map_op_ids cnt_map_op
        simp del: waits_upd intro: dom_upd_finite waits_unmoved\<close>)
    with w_start(1-3) show ?thesis by simp
  next
    case (w_device d')
    with inv show ?thesis by (auto intro: winv_frame [OF inv] simp: d)
  next
    case (w_interrupt r)
    then show ?thesis
      using counts_handler [OF d(1)] kinv_handler [OF d(1)] d(2) by (auto intro: winv_frame [OF inv])
  next
    case (w_register th i op)
    then show ?thesis using winv_register [OF inv _ _ few(1)] by simp
  next
    case (w_drop th i rv op n)
    then show ?thesis using winv_drop [OF inv _ _ _ few(1)] by simp
  next
    case (w_decide th i "is" js op tr)
    with move [of tr "Some (Doomed i (Some (linked s is, js)))" th] show ?thesis by (simp add: decide_completed)
  next
    case (w_unlink th i k op)
    have "waits W' = waits W"
      using waits_at [of W th, OF w_unlink(4)] by (simp add: w_unlink(3) fun_upd_idem)
    with winv_unlink [OF inv w_unlink(5), of W'] w_unlink d(2) show ?thesis by (simp add: dom_upd_finite)
  next
    case (w_free th i k)
    have "waits W' = waits W"
      using waits_at [of W th, OF w_free(4)] by (cases k) (simp_all add: w_free(3) fun_upd_idem)
    with winv_free [OF inv, of W' i] w_free d(2) show ?thesis by (simp add: dom_upd_finite)
  qed (auto intro!: stay)
qed

lemma wreach_winv: "wreach L B d c \<Longrightarrow> winv c"
proof (induction rule: wreach.induct)
  case wreach_init
  have "counts (kinit d) = {}" by (simp add: counts_def kinit_def)
  then show ?case by (simp add: winv_def kinv_init counted_def waiters_def waits_def)
next
  case (wreach_step c c')
  then show ?case by (cases c; cases c') (auto intro: winv_step)
qed

text \<open>So the count of an operation is the number of threads registered for it.\<close>

lemma reach_count:
  "wreach L B d (s, U, W) \<Longrightarrow> deref i s U = Some op \<Longrightarrow> nwaiting op = int (card (waiters W i))"
  by (rule deref_card(1) [OF wreach_winv])

end
