(* ===== verification/Kcalm.thy ===== *)
theory Kcalm
  imports Kwaiters
begin

text \<open>
  The runs of theory Kwaiters in which nobody comes to an operation too late: once a thread has found
  that nobody waits for an operation (the last waiter by its decrement, a flush by its look at
  \<^verbatim>\<open>nwaiting\<close>), no thread registers for it and no second one decides to free it. In these runs an
  operation somebody is registered for is never freed. The code does not rule the other runs out.
\<close>

section \<open>Orderly steps\<close>

definition orderly :: "threads \<Rightarrow> threads \<Rightarrow> bool" where
  "orderly W W' \<longleftrightarrow> (\<forall>i. doomers W i \<noteq> {} \<longrightarrow>
     waiters W' i \<subseteq> waiters W i \<and> doomers W' i \<subseteq> doomers W i)"

inductive wcalm :: "linux \<Rightarrow> 'd bus \<Rightarrow> 'd \<Rightarrow> 'd wconf \<Rightarrow> bool"
  for L :: linux and B :: "'d bus" and d :: 'd where
  wcalm_init: "wcalm L B d (kinit d, [], Map.empty)"
| wcalm_step: "wcalm L B d (s, U, W) \<Longrightarrow> wstep L B (s, U, W) (t, U', W') \<Longrightarrow> roomy (s, U, W) \<Longrightarrow>
    orderly W W' \<Longrightarrow> wcalm L B d (t, U', W')"

lemma wcalm_reach: "wcalm L B d c \<Longrightarrow> wreach L B d c"
  by (induction rule: wcalm.induct) (blast intro: wreach_init wreach_step)+

section \<open>The invariant\<close>

text \<open>
  What a thread is registered for is in a list and nobody is about to free it; what is about to be
  freed is still there, and by one thread only.
\<close>

definition cinv :: "'d wconf \<Rightarrow> bool" where
  "cinv = (\<lambda>(s, U, W).
     (\<forall>th i. waits W th = Some i \<longrightarrow> i \<in> fst ` counts s \<and> doomers W i = {}) \<and>
     (\<forall>th i. dooms W th = Some (i, False) \<longrightarrow> i \<in> fst ` counts s) \<and>
     (\<forall>th i. dooms W th = Some (i, True) \<longrightarrow> i \<in> op_id ` set U) \<and>
     (\<forall>a b i x y. dooms W a = Some (i, x) \<longrightarrow> dooms W b = Some (i, y) \<longrightarrow> a = b) \<and>
     (\<forall>i \<in> op_id ` set U. doomers W i \<noteq> {}))"

lemma cinvI:
  assumes "\<And>th i. waits W th = Some i \<Longrightarrow> i \<in> fst ` counts s" "\<And>th i. waits W th = Some i \<Longrightarrow> doomers W i = {}"
    "\<And>th i. dooms W th = Some (i, False) \<Longrightarrow> i \<in> fst ` counts s"
    "\<And>th i. dooms W th = Some (i, True) \<Longrightarrow> i \<in> op_id ` set U"
    "\<And>a b i x y. dooms W a = Some (i, x) \<Longrightarrow> dooms W b = Some (i, y) \<Longrightarrow> a = b"
    "\<And>i. i \<in> op_id ` set U \<Longrightarrow> doomers W i \<noteq> {}"
  shows "cinv (s, U, W)"
  unfolding cinv_def prod.case
  by (intro conjI allI impI ballI)
    (erule assms(1), erule assms(2), erule assms(3), erule assms(4), erule (1) assms(5), erule assms(6))

lemma cinvD:
  assumes "cinv (s, U, W)"
  shows "waits W th = Some i \<Longrightarrow> i \<in> fst ` counts s" "waits W th = Some i \<Longrightarrow> doomers W i = {}"
    "dooms W th = Some (i, False) \<Longrightarrow> i \<in> fst ` counts s"
    "dooms W th = Some (i, True) \<Longrightarrow> i \<in> op_id ` set U"
    "dooms W a = Some (i, x) \<Longrightarrow> dooms W b = Some (i, y) \<Longrightarrow> a = b"
    "i \<in> op_id ` set U \<Longrightarrow> doomers W i \<noteq> {}"
proof -
  note c = assms [unfolded cinv_def prod.case]
  show "waits W th = Some i \<Longrightarrow> i \<in> fst ` counts s" "waits W th = Some i \<Longrightarrow> doomers W i = {}"
    using c [THEN conjunct1] by blast+
  note c = c [THEN conjunct2]
  show "dooms W th = Some (i, False) \<Longrightarrow> i \<in> fst ` counts s" using c [THEN conjunct1] by blast
  note c = c [THEN conjunct2]
  show "dooms W th = Some (i, True) \<Longrightarrow> i \<in> op_id ` set U" using c [THEN conjunct1] by blast
  note c = c [THEN conjunct2]
  show "dooms W a = Some (i, x) \<Longrightarrow> dooms W b = Some (i, y) \<Longrightarrow> a = b" using c [THEN conjunct1] by blast
  show "i \<in> op_id ` set U \<Longrightarrow> doomers W i \<noteq> {}" using c [THEN conjunct2] by blast
qed

lemma cinv_frame:
  assumes "cinv (s, U, W)" "fst ` counts s \<subseteq> fst ` counts t" "op_id ` set U' = op_id ` set U"
    "waits W' = waits W" "dooms W' = dooms W"
  shows "cinv (t, U', W')"
proof -
  have D: "doomers W' = doomers W" by (simp add: doomers_def assms(5) fun_eq_iff)
  show ?thesis
    by (rule cinvI; ((unfold assms(3-5) D)?)) (use cinvD [OF assms(1)] assms(2) in blast)+
qed

lemma doomers_iff: "th \<in> doomers W i \<longleftrightarrow> (\<exists>b. dooms W th = Some (i, b))"
  by (simp add: doomers_def)

text \<open>A thread registers: nobody is about to free the operation, so it is in a list.\<close>

lemma cinv_register:
  assumes c: "cinv (s, U, W)" and th: "waits W th = None" "dooms W th = None"
    and op: "deref i s U = Some op" and o: "orderly W (W(th \<mapsto> Waiting i))"
    and same: "fst ` counts t = fst ` counts s" "op_id ` set U' = op_id ` set U"
  shows "cinv (t, U', W(th \<mapsto> Waiting i))"
proof -
  have "th \<in> waiters (W(th \<mapsto> Waiting i)) i" "th \<notin> waiters W i" using th by (auto simp: waiters_def)
  then have free: "doomers W i = {}" using o unfolding orderly_def by blast
  then have i: "i \<in> fst ` counts s"
    using deref_None [of i s U] op cinvD(6) [OF c, of i] by fastforce
  have w: "waits (W(th \<mapsto> Waiting i)) a = Some j \<Longrightarrow> waits W a = Some j \<or> j = i" for a j
    by (auto split: if_splits)
  have d: "dooms (W(th \<mapsto> Waiting i)) = dooms W" using th(2) by (simp add: fun_upd_idem)
  then have D: "doomers (W(th \<mapsto> Waiting i)) = doomers W" by (simp add: doomers_def fun_eq_iff)
  show ?thesis
    by (rule cinvI; ((unfold same d D)?)) (use cinvD [OF c] free i w in blast)+
qed

text \<open>A thread finds that nobody waits.\<close>

lemma cinv_doom:
  assumes c: "cinv (s, U, W)" and i: "i \<in> fst ` counts s" "doomers W i = {}" "waiters W i \<subseteq> {th}"
    and th: "dooms W th = None"
    and same: "fst ` counts t = fst ` counts s" "op_id ` set U' = op_id ` set U"
  shows "cinv (t, U', W(th \<mapsto> Doomed i k))"
proof -
  let ?W = "W(th \<mapsto> Doomed i k)"
  have w: "waits ?W a = Some j \<Longrightarrow> waits W a = Some j \<and> j \<noteq> i" for a j
    using i(3) by (auto simp: waiters_def split: if_splits)
  have d: "dooms ?W a = Some (j, x) \<Longrightarrow> a = th \<and> j = i \<and> \<not> x \<or> dooms W a = Some (j, x) \<and> j \<noteq> i" for a j x
    using i(2) by (auto simp: doomers_def split: if_splits)
  have D: "j \<noteq> i \<Longrightarrow> doomers ?W j = doomers W j" "th \<in> doomers ?W i" for j
    using th by (auto simp: doomers_iff split: if_splits)
  show ?thesis
  proof (rule cinvI; ((unfold same)?))
    show "doomers ?W j = {}" if "waits ?W a = Some j" for a j
      using w [OF that] D(1) cinvD(2) [OF c, of a j] by simp
    show "doomers ?W j \<noteq> {}" if "j \<in> op_id ` set U" for j
      using D(1) [of j] D(2) cinvD(6) [OF c that] by (cases "j = i") auto
  qed (use cinvD [OF c] i(1) in \<open>blast dest!: w d\<close>)+
qed

text \<open>It unlinks the operation, and frees it.\<close>

lemma doomed_alone:
  assumes c: "cinv (s, U, W)" and th: "dooms W th = Some (i, b)"
  shows "dooms W a = Some (i, x) \<Longrightarrow> a = th" "waits W a \<noteq> Some i"
proof -
  show "dooms W a = Some (i, x) \<Longrightarrow> a = th" by (rule cinvD(5) [OF c _ th])
  show "waits W a \<noteq> Some i" using cinvD(2) [OF c, of a i] doomers_iff [of th W i] th by auto
qed

lemma cinv_unlink:
  assumes c: "cinv (s, U, W)" and th: "dooms W th = Some (i, False)"
    and same: "fst ` counts t = fst ` counts s - {i}" "op_id ` set U' = insert i (op_id ` set U)"
  shows "cinv (t, U', W(th \<mapsto> Unlinked i k))"
proof -
  let ?W = "W(th \<mapsto> Unlinked i k)"
  have w: "waits ?W a = Some j \<Longrightarrow> waits W a = Some j \<and> j \<noteq> i" for a j
    using doomed_alone(2) [OF c th, of a] by (auto split: if_splits)
  have d: "dooms ?W a = Some (j, x) \<Longrightarrow> a = th \<and> j = i \<and> x \<or> dooms W a = Some (j, x) \<and> j \<noteq> i" for a j x
    using doomed_alone(1) [OF c th, of a] by (auto split: if_splits)
  have D: "doomers ?W j = doomers W j" for j
    using th by (auto simp: doomers_iff split: if_splits)
  have mine: "doomers W i \<noteq> {}" using th by (auto simp: doomers_def)
  show ?thesis
  proof (rule cinvI; ((unfold same D)?))
    show "j \<in> fst ` counts s - {i}" if "waits ?W a = Some j" for a j
      using w [OF that] cinvD(1) [OF c] by blast
    show "doomers W j = {}" if "waits ?W a = Some j" for a j using w [OF that] cinvD(2) [OF c] by blast
    show "j \<in> fst ` counts s - {i}" if "dooms ?W a = Some (j, False)" for a j
      using d [OF that] cinvD(3) [OF c] by blast
    show "j \<in> insert i (op_id ` set U)" if "dooms ?W a = Some (j, True)" for a j
      using d [OF that] cinvD(4) [OF c] by blast
    show "doomers W j \<noteq> {}" if "j \<in> insert i (op_id ` set U)" for j
      using that mine cinvD(6) [OF c] by blast
    show "a = b" if "dooms ?W a = Some (j, x)" "dooms ?W b = Some (j, y)" for a b j x y
      using d [OF that(1)] d [OF that(2)] cinvD(5) [OF c] by blast
  qed
qed

lemma cinv_free:
  assumes c: "cinv (s, U, W)" and th: "dooms W th = Some (i, True)"
    and same: "fst ` counts t = fst ` counts s" "op_id ` set U' = op_id ` set U - {i}"
    and x: "Option.bind x dooms_on = None" "Option.bind x waits_on = None"
  shows "cinv (t, U', W(th := x))"
proof -
  let ?W = "W(th := x)"
  have w: "waits ?W a = Some j \<Longrightarrow> waits W a = Some j \<and> j \<noteq> i" for a j
    using doomed_alone(2) [OF c th, of a] x by (auto split: if_splits)
  have d: "dooms ?W a = Some (j, y) \<Longrightarrow> dooms W a = Some (j, y) \<and> j \<noteq> i" for a j y
    using doomed_alone(1) [OF c th, of a] x by (auto split: if_splits)
  have D: "j \<noteq> i \<Longrightarrow> doomers ?W j = doomers W j" for j
    using th x by (auto simp: doomers_iff split: if_splits)
  show ?thesis
  proof (rule cinvI; ((unfold same)?))
    show "doomers ?W j = {}" if "waits ?W a = Some j" for a j
      using w [OF that] D [of j] cinvD(2) [OF c, of a j] by simp
    show "doomers ?W j \<noteq> {}" if "j \<in> op_id ` set U - {i}" for j
      using D [of j] cinvD(6) [OF c, of j] that by auto
  qed (use cinvD [OF c] in \<open>blast dest!: w d\<close>)+
qed

section \<open>Every orderly step keeps it\<close>

lemma fst_counts_nwaiting:
  "fst ` counts (update_op i (\<lambda>op. op\<lparr>nwaiting := h (nwaiting op)\<rparr>) s) = fst ` counts s"
  unfolding counts_nwaiting image_image by (rule image_cong) auto

lemma ids_map_op [simp]:
  "op_id ` set (map_op i (\<lambda>op. op\<lparr>nwaiting := h (nwaiting op)\<rparr>) U) = op_id ` set U"
  "op_id ` set (map_op i (\<lambda>op. op\<lparr>op_dma := m\<rparr>) U) = op_id ` set U"
  by (rule op_id_map_op; simp)+

lemma cinv_step:
  assumes step: "wstep L B (s, U, W) (t, U', W')" and inv: "winv (s, U, W)" and c: "cinv (s, U, W)"
    and room: "roomy (s, U, W)" and o: "orderly W W'"
  shows "cinv (t, U', W')"
proof -
  note d = winvD [OF inv]
  have few: "card (dom W) < 2 ^ 31" using room by (simp add: roomy_def)
  have move: "cinv (t, U', W(th := x))"
    if "fst ` counts s \<subseteq> fst ` counts t" "op_id ` set U' = op_id ` set U" "W th = y"
      "Option.bind x waits_on = Option.bind y waits_on" "Option.bind x dooms_on = Option.bind y dooms_on"
    for t U' th x y
    by (rule cinv_frame [OF c that(1,2)])
      (use that(3-5) waits_at [of W th, OF that(3)] dooms_at [of W th, OF that(3)] in \<open>simp_all add: fun_upd_idem\<close>)
  from step show ?thesis
  proof cases
    case (w_enqueue th cmd arg op tr rv tr' m)
    have "cinv (ops_enqueue (s\<lparr>trace := tr'\<rparr>) (op\<lparr>op_dma := m\<rparr>), U, W(th \<mapsto> Submitted (next_id s) (active s = [])))"
      by (rule move [OF _ _ w_enqueue(4)]) (auto simp: counts_enqueue)
    with w_enqueue show ?thesis by simp
  next
    case (w_start th i op rv d' tr m)
    have "fst ` counts s \<subseteq> fst ` counts (update_op i (\<lambda>op. op\<lparr>op_dma := m\<rparr>) (s\<lparr>hw := d', trace := tr\<rparr>))"
      by (subst counts_update) (simp_all add: counts_def)
    from move [OF this _ w_start(4)] w_start(1-3) show ?thesis by simp
  next
    case (w_interrupt r)
    with counts_handler [OF d(1), of L B r t] show ?thesis by (auto intro: cinv_frame [OF c])
  next
    case (w_register th i op)
    have "waits W th = None" "dooms W th = None"
      using waits_at [of W th, OF w_register(4)] dooms_at [of W th, OF w_register(4)] by simp_all
    from cinv_register [OF c this w_register(5) o [unfolded w_register(3)]
        fst_counts_nwaiting [where h = "\<lambda>n. s32 (n + 1)"] ids_map_op(1) [where h = "\<lambda>n. s32 (n + 1)"]]
    show ?thesis using w_register(1-3) by (simp add: ops_wait_enter_def)
  next
    case (w_drop th i rv op n)
    note f = fst_counts_nwaiting [where h = "\<lambda>_. n"] and m = ids_map_op(1) [where h = "\<lambda>_. n"]
    have wait: "waits W th = Some i" "dooms W th = None"
      using waits_at [of W th, OF w_drop(4)] dooms_at [of W th, OF w_drop(4)] by simp_all
    then have i: "i \<in> fst ` counts s" "doomers W i = {}" using cinvD(1,2) [OF c] by blast+
    show ?thesis
    proof (cases "n = 0")
      case True
      then have "card (waiters W i - {th}) = 0" "finite (waiters W i)"
        using drop_card [OF inv w_drop(4,5) few] w_drop(6) by simp_all
      then have "waiters W i \<subseteq> {th}" by (auto simp: card_eq_0_iff)
      from cinv_doom [where k = None, OF c i this wait(2) f m] w_drop(1-3) True show ?thesis by simp
    next
      case False
      have d': "dooms (W(th := None)) = dooms W" using wait(2) by (simp add: fun_upd_idem)
      then have D: "doomers (W(th := None)) = doomers W" by (simp add: doomers_def fun_eq_iff)
      have w: "waits (W(th := None)) a = Some j \<Longrightarrow> waits W a = Some j" for a j by (auto split: if_splits)
      have "cinv (update_op i (\<lambda>op. op\<lparr>nwaiting := n\<rparr>) s, map_op i (\<lambda>op. op\<lparr>nwaiting := n\<rparr>) U, W(th := None))"
        by (rule cinvI; ((unfold f m d' D)?)) (use cinvD [OF c] in \<open>blast dest!: w\<close>)+
      with w_drop False show ?thesis by simp
    qed
  next
    case (w_decide th i "is" js op tr)
    have n: "dooms W th = None" "waits W th = None"
      using waits_at [of W th, OF w_decide(4)] dooms_at [of W th, OF w_decide(4)] by simp_all
    have "(i, 0) \<in> counts s" using find_op_counts [OF w_decide(5)] w_decide(6) by simp
    then have i: "i \<in> fst ` counts s" "card (waiters W i) = 0" using d(6) by (force simp: counted_def)+
    have "finite (waiters W i)" using d(2) waiters_dom by (rule rev_finite_subset)
    then have "waiters W i \<subseteq> {th}" using i(2) by simp
    moreover have "doomers W i = {}"
    proof (rule ccontr)
      assume "doomers W i \<noteq> {}"
      then have "doomers W' i \<subseteq> doomers W i" using o by (simp add: orderly_def)
      moreover have "th \<in> doomers W' i" "th \<notin> doomers W i"
        using n(1) w_decide(3) by (auto simp: doomers_iff)
      ultimately show False by blast
    qed
    ultimately show ?thesis unfolding w_decide(1-3)
      by (intro cinv_doom [OF c i(1) _ _ n(1)]) simp_all
  next
    case (w_unlink th i k op)
    have m: "dooms W th = Some (i, False)" using dooms_at [of W th, OF w_unlink(4)] by simp
    have "fst ` counts t = fst ` counts s - {i}"
      unfolding w_unlink(1) by (auto simp: fst_counts list_del_def)
    then show ?thesis unfolding w_unlink(2,3)
      by (intro cinv_unlink [OF c m]) (simp_all add: find_op_mem(2) [OF w_unlink(5)])
  next
    case (w_free th i k)
    have m: "dooms W th = Some (i, True)" using dooms_at [of W th, OF w_free(4)] by simp
    have "op_id ` set U' = op_id ` set U - {i}" unfolding w_free(2) by (auto simp: list_del_def)
    moreover have "fst ` counts t = fst ` counts s" unfolding w_free(1) by simp
    ultimately show ?thesis unfolding w_free(3) by (intro cinv_free [OF c m]) (cases k; simp)+
  qed (auto simp: fun_upd_idem waits_def dooms_def intro!: cinv_frame [OF c])
qed

lemma wcalm_cinv: "wcalm L B d c \<Longrightarrow> cinv c"
proof (induction rule: wcalm.induct)
  case wcalm_init
  show ?case by (rule cinvI) (simp_all add: waits_def dooms_def)
next
  case (wcalm_step s U W t U' W')
  then show ?case using wreach_winv [OF wcalm_reach [OF wcalm_step.hyps(1)]] by (blast intro: cinv_step)
qed

section \<open>What follows\<close>

lemma calm_waiter:
  assumes "wcalm L B d (s, U, W)" "th \<in> waiters W i"
  obtains op where "find_op i s = Some op" "nwaiting op = int (card (waiters W i))" "0 < nwaiting op"
    "doomers W i = {}"
proof -
  have i: "i \<in> fst ` counts s" "doomers W i = {}"
    using cinvD(1,2) [OF wcalm_cinv [OF assms(1)], of th i] assms(2) by (simp_all add: waiters_def)
  obtain op where op: "find_op i s = Some op" using counts_find [OF i(1)] by blast
  note c = deref_card [OF wreach_winv [OF wcalm_reach [OF assms(1)]] find_op_deref [OF op]]
  then have "0 < nwaiting op" using assms(2) by (auto simp: card_gt_0_iff)
  with op c(1) i(2) show ?thesis by (intro that)
qed

lemma calm_doomer:
  assumes "wcalm L B d (s, U, W)"
  shows "W th = Some (Doomed i k) \<Longrightarrow> find_op i s \<noteq> None"
    "W th = Some (Unlinked i k) \<Longrightarrow> i \<in> op_id ` set U"
  using cinvD(3,4) [OF wcalm_cinv [OF assms], of th i] dooms_at [of W th] counts_find [of i s] by auto

end
