(* ===== verification/Kruns.thy ===== *)
theory Kruns
  imports Kwaiters
begin

text \<open>
  Runs of the threads of theory Kwaiters: an ioctl that nobody overtakes does what its function of
  theory Kqueue says, one step after the other; and what happens to a thread that comes to an
  operation too late.
\<close>

section \<open>Runs\<close>

text \<open>A step from a state in which neither the id nor the number of threads is at its limit.\<close>

definition wmove :: "linux \<Rightarrow> 'd bus \<Rightarrow> 'd wconf \<Rightarrow> 'd wconf \<Rightarrow> bool" where
  "wmove L B c c' \<longleftrightarrow> wstep L B c c' \<and> roomy c"

lemma wreach_moves: "(wmove L B)\<^sup>*\<^sup>* c c' \<Longrightarrow> wreach L B d c \<Longrightarrow> wreach L B d c'"
  by (induction rule: rtranclp_induct) (auto simp: wmove_def intro: wreach_step)

lemma moves_steps: "(wmove L B)\<^sup>*\<^sup>* c c' \<Longrightarrow> (wstep L B)\<^sup>*\<^sup>* c c'"
  by (erule rtranclp_mono [THEN predicate2D, rotated]) (auto simp: wmove_def)

lemma roomy_same: "next_id t = next_id s \<Longrightarrow> W th \<noteq> None \<Longrightarrow> roomy (t, U', W(th \<mapsto> p)) = roomy (s, U, W)"
  by (auto simp: roomy_def insert_absorb domIff)

lemma kstate_order:
  "s\<lparr>active := a, trace := tr\<rparr> = s\<lparr>trace := tr, active := a\<rparr>"
  "s\<lparr>inactive := b, trace := tr\<rparr> = s\<lparr>trace := tr, inactive := b\<rparr>"
  by simp_all

lemma find_distinct:
  "distinct (map op_id ops) \<Longrightarrow> op \<in> set ops \<Longrightarrow> find (\<lambda>o'. op_id o' = op_id op) ops = Some op"
  by (induction ops) auto

lemma list_del_mid:
  "distinct (map op_id (pre @ op # ops)) \<Longrightarrow> list_del (op_id op) (pre @ op # ops) = pre @ ops"
  using list_del_other [of "op_id op" pre] list_del_other [of "op_id op" ops]
  by (auto simp: list_del_def image_iff)

section \<open>A flush\<close>

text \<open>One visit: the operation is kept, or unlinked and freed.\<close>

lemma linked_ids: "set ops \<subseteq> set (active s @ inactive s) \<Longrightarrow> linked s (map op_id ops) = map op_id ops"
  by (cases ops) (auto simp: linked_def find_op_def find_None_iff)

lemma visit_keep:
  assumes "W th = Some (Flushing (i # is, js))" "find_op i s = Some op" "nwaiting op \<noteq> 0"
    "linked s is = is" "roomy (s, U, W)"
  shows "wmove L B (s, U, W) (s, U, W(th \<mapsto> Flushing (is, js)))"
  using w_skip [where W = W and th = th, OF assms(1-3)] assms(4,5) by (simp add: wmove_def)

lemma visit_free:
  assumes W: "W th = Some (Flushing (i # is, js))" and op: "find_op i s = Some op" "nwaiting op = 0"
    and l: "linked s is = is" and U: "i \<notin> op_id ` set U" and room: "roomy (s, U, W)"
    and tr: "tr = (if op \<in> set (active s)
      then psipe_dma_unmap_pages (psipe_dma_unpin_pages (trace s) (op_dma op)) (op_dma op) else trace s)"
  shows "(wmove L B)\<^sup>*\<^sup>* (s, U, W) (s\<lparr>trace := tr @ [Kfree_op i], active := list_del i (active s),
    inactive := list_del i (inactive s)\<rparr>, U, W(th \<mapsto> Flushing (is, js)))"
proof -
  let ?W1 = "W(th \<mapsto> Doomed i (Some (is, js)))" and ?W2 = "W(th \<mapsto> Unlinked i (Some (is, js)))"
  let ?s1 = "s\<lparr>trace := tr\<rparr>"
  let ?s2 = "?s1\<lparr>active := list_del i (active ?s1), inactive := list_del i (inactive ?s1)\<rparr>"
  have f: "find_op i ?s1 = Some op" using op(1) by (simp add: find_op_def)
  have r: "roomy (?s1, U, ?W1)" "roomy (?s2, op # U, ?W2)"
    using room W by (subst roomy_same [where s = s and U = U]; simp)+
  have "wmove L B (s, U, W) (?s1, U, ?W1)"
    using w_decide [where W = W and th = th, OF W op tr] l room by (simp add: wmove_def)
  moreover have "wmove L B (?s1, U, ?W1) (?s2, op # U, ?W2)"
    using w_unlink [where W = ?W1 and th = th and k = "Some (is, js)", OF _ f] r(1) by (simp add: wmove_def)
  moreover have "list_del i (op # U) = U"
    using list_del_other [OF U] find_op_mem(2) [OF op(1)] by (simp add: list_del_def)
  then have "wmove L B (?s2, op # U, ?W2) (s\<lparr>trace := tr @ [Kfree_op i], active := list_del i (active s),
    inactive := list_del i (inactive s)\<rparr>, U, W(th \<mapsto> Flushing (is, js)))"
    using w_free [of ?W2 th i "Some (is, js)" "op # U" L B ?s2] r(2) find_op_mem(2) [OF op(1)]
    by (simp add: wmove_def kstate_order)
  ultimately show ?thesis by (metis (no_types, lifting) converse_rtranclp_into_rtranclp rtranclp.rtrancl_refl)
qed

lemma flush_active_run:
  assumes "flush_active tr ops = (tr', kept)" "distinct (map op_id (pre @ ops @ inactive s @ U))"
    "W th = Some (Flushing (map op_id ops, js))" "roomy (s, U, W)"
  shows "(wmove L B)\<^sup>*\<^sup>* (s\<lparr>trace := tr, active := pre @ ops\<rparr>, U, W)
    (s\<lparr>trace := tr', active := pre @ kept\<rparr>, U, W(th \<mapsto> Flushing ([], js)))"
  using assms
proof (induction ops arbitrary: tr pre W kept)
  case Nil
  then show ?case by (simp add: fun_upd_idem)
next
  case (Cons op ops)
  let ?s = "s\<lparr>trace := tr, active := pre @ op # ops\<rparr>" and ?W = "W(th \<mapsto> Flushing (map op_id ops, js))"
  have room: "roomy (?s, U, W)" "roomy (s, U, ?W)"
    using Cons.prems(3,4) roomy_same [of s s W th U _ U] by (simp_all add: roomy_def)
  have l: "linked ?s (map op_id ops) = map op_id ops" by (rule linked_ids) auto
  have W: "W th = Some (Flushing (op_id op # map op_id ops, js))" using Cons.prems(3) by simp
  have f: "find_op (op_id op) ?s = Some op"
    unfolding find_op_def by (rule find_distinct) (use Cons.prems(2) in auto)
  show ?case
  proof (cases "nwaiting op = 0")
    case True
    let ?tr = "psipe_dma_unmap_pages (psipe_dma_unpin_pages tr (op_dma op)) (op_dma op) @ [Kfree_op (op_id op)]"
    have m: "list_del (op_id op) (pre @ op # ops) = pre @ ops"
      by (rule list_del_mid) (use Cons.prems(2) in auto)
    have e: "list_del (op_id op) (inactive s) = inactive s" "op_id op \<notin> op_id ` set U"
      using Cons.prems(2) by (auto intro: list_del_other)
    have "(wmove L B)\<^sup>*\<^sup>* (?s, U, W) (s\<lparr>trace := ?tr, active := pre @ ops\<rparr>, U, ?W)"
      using visit_free [OF W f True l e(2) room(1) refl] e(1) m by simp
    also have "(wmove L B)\<^sup>*\<^sup>* (s\<lparr>trace := ?tr, active := pre @ ops\<rparr>, U, ?W)
        (s\<lparr>trace := tr', active := pre @ kept\<rparr>, U, ?W(th \<mapsto> Flushing ([], js)))"
      by (rule Cons.IH [OF _ _ _ room(2)]) (use Cons.prems(1,2) True in simp_all)
    finally show ?thesis by (simp only: fun_upd_upd)
  next
    case False
    obtain kept' where k: "flush_active tr ops = (tr', kept')" "kept = op # kept'"
      using Cons.prems(1) False by (auto split: prod.splits)
    have run: "(wmove L B)\<^sup>*\<^sup>* (s\<lparr>trace := tr, active := (pre @ [op]) @ ops\<rparr>, U, ?W)
        (s\<lparr>trace := tr', active := (pre @ [op]) @ kept'\<rparr>, U, ?W(th \<mapsto> Flushing ([], js)))"
      by (rule Cons.IH [OF k(1) _ _ room(2)]) (use Cons.prems(2) in simp_all)
    have "wmove L B (?s, U, W) (?s, U, ?W)" by (rule visit_keep [OF W f False l room(1)])
    also have "(wmove L B)\<^sup>*\<^sup>* (?s, U, ?W)
        (s\<lparr>trace := tr', active := pre @ kept\<rparr>, U, ?W(th \<mapsto> Flushing ([], js)))"
      using run by (simp only: append_assoc append.simps k(2))
    finally show ?thesis by (simp only: fun_upd_upd)
  qed
qed

lemma flush_inactive_run:
  assumes "flush_inactive tr ops = (tr', kept)" "distinct (map op_id (active s @ pre @ ops @ U))"
    "W th = Some (Flushing (map op_id ops, js))" "roomy (s, U, W)"
  shows "(wmove L B)\<^sup>*\<^sup>* (s\<lparr>trace := tr, inactive := pre @ ops\<rparr>, U, W)
    (s\<lparr>trace := tr', inactive := pre @ kept\<rparr>, U, W(th \<mapsto> Flushing ([], js)))"
  using assms
proof (induction ops arbitrary: tr pre W kept)
  case Nil
  then show ?case by (simp add: fun_upd_idem)
next
  case (Cons op ops)
  let ?s = "s\<lparr>trace := tr, inactive := pre @ op # ops\<rparr>" and ?W = "W(th \<mapsto> Flushing (map op_id ops, js))"
  have room: "roomy (?s, U, W)" "roomy (s, U, ?W)"
    using Cons.prems(3,4) roomy_same [of s s W th U _ U] by (simp_all add: roomy_def)
  have l: "linked ?s (map op_id ops) = map op_id ops" by (rule linked_ids) auto
  have W: "W th = Some (Flushing (op_id op # map op_id ops, js))" using Cons.prems(3) by simp
  have f: "find_op (op_id op) ?s = Some op"
    unfolding find_op_def by (rule find_distinct) (use Cons.prems(2) in auto)
  show ?case
  proof (cases "nwaiting op = 0")
    case True
    let ?tr = "tr @ [Kfree_op (op_id op)]"
    have m: "list_del (op_id op) (pre @ op # ops) = pre @ ops"
      by (rule list_del_mid) (use Cons.prems(2) in auto)
    have e: "list_del (op_id op) (active s) = active s" "op_id op \<notin> op_id ` set U" "op \<notin> set (active s)"
      using Cons.prems(2) by (auto intro: list_del_other)
    have "(wmove L B)\<^sup>*\<^sup>* (?s, U, W) (s\<lparr>trace := ?tr, inactive := pre @ ops\<rparr>, U, ?W)"
      using visit_free [OF W f True l e(2) room(1) refl] e(1,3) m by simp
    also have "(wmove L B)\<^sup>*\<^sup>* (s\<lparr>trace := ?tr, inactive := pre @ ops\<rparr>, U, ?W)
        (s\<lparr>trace := tr', inactive := pre @ kept\<rparr>, U, ?W(th \<mapsto> Flushing ([], js)))"
      by (rule Cons.IH [OF _ _ _ room(2)]) (use Cons.prems(1,2) True in simp_all)
    finally show ?thesis by (simp only: fun_upd_upd)
  next
    case False
    obtain kept' where k: "flush_inactive tr ops = (tr', kept')" "kept = op # kept'"
      using Cons.prems(1) False by (auto split: prod.splits)
    have run: "(wmove L B)\<^sup>*\<^sup>* (s\<lparr>trace := tr, inactive := (pre @ [op]) @ ops\<rparr>, U, ?W)
        (s\<lparr>trace := tr', inactive := (pre @ [op]) @ kept'\<rparr>, U, ?W(th \<mapsto> Flushing ([], js)))"
      by (rule Cons.IH [OF k(1) _ _ room(2)]) (use Cons.prems(2) in simp_all)
    have "wmove L B (?s, U, W) (?s, U, ?W)" by (rule visit_keep [OF W f False l room(1)])
    also have "(wmove L B)\<^sup>*\<^sup>* (?s, U, ?W)
        (s\<lparr>trace := tr', inactive := pre @ kept\<rparr>, U, ?W(th \<mapsto> Flushing ([], js)))"
      using run by (simp only: append_assoc append.simps k(2))
    finally show ?thesis by (simp only: fun_upd_upd)
  qed
qed

lemma all_distinct:
  assumes "winv (s, U, W)" shows "distinct (map op_id (active s @ inactive s @ U))"
  using kinv_distinct(1) [OF winvD(1) [OF assms]] winvD(3,4) [OF assms] by (auto simp: fst_counts)

lemma flush_moves:
  assumes inv: "winv (s, U, W)" and th: "W th = None" "unlocked W"
    and room: "unat (next_id s) < 2 ^ 64 - 1" "card (dom W) < 2 ^ 31 - 1"
    and f: "psipe_ops_flush s = (rv, t)"
  shows "(wmove L B)\<^sup>*\<^sup>* (s, U, W) (t, U, W)"
proof -
  obtain tr1 act tr2 inact where fl: "flush_active (trace s) (active s) = (tr1, act)"
    "flush_inactive tr1 (inactive s) = (tr2, inact)" "t = s\<lparr>trace := tr2, active := act, inactive := inact\<rparr>"
    using f by (auto simp: psipe_ops_flush_def split: prod.splits)
  let ?W = "\<lambda>is js. W(th \<mapsto> Flushing (is, js))" and ?s = "s\<lparr>trace := tr1, active := act\<rparr>"
  let ?as = "map op_id (active s)" and ?is = "map op_id (inactive s)"
  note d = all_distinct [OF inv]
  have "card (dom (?W is js)) \<le> Suc (card (dom W))" for "is" js by (simp add: card_insert_le_m1)
  then have r: "roomy (s, U, W)" "next_id u = next_id s \<Longrightarrow> roomy (u, U, ?W is js)" for u "is" js
    using room by (fastforce simp: roomy_def intro: le_less_trans)+
  have "act = filter (\<lambda>op. nwaiting op \<noteq> 0) (active s)" using flush_active_spec [OF fl(1)] by simp
  then have d2: "distinct (map op_id (act @ inactive s @ U))" using d by (auto simp: distinct_map_filter)
  have l: "linked ?s ?is = ?is" by (rule linked_ids) simp
  have "wmove L B (s, U, W) (s, U, ?W ?as ?is)"
    using w_flush [where W = W and th = th, OF th] r(1) by (simp add: wmove_def)
  also have "(wmove L B)\<^sup>*\<^sup>* (s, U, ?W ?as ?is) (?s, U, ?W [] ?is)"
    using flush_active_run [OF fl(1), of "[]" s U "?W ?as ?is" th ?is] d r(2) [of s] by simp
  also have "wmove L B (?s, U, ?W [] ?is) (?s, U, ?W ?is [])"
    using w_inactive [of "?W [] ?is" th ?is L B ?s U] r(2) [of ?s "[]" ?is] l by (simp add: wmove_def)
  also have "(wmove L B)\<^sup>*\<^sup>* (?s, U, ?W ?is []) (t, U, ?W [] [])"
    using flush_inactive_run [OF fl(2), of ?s "[]" U "?W ?is []" th "[]"]
      d2 r(2) [of ?s] by (simp add: fl(3) kstate_order)
  also have "wmove L B (t, U, ?W [] []) (t, U, W)"
    using w_flushed [of "?W [] []" th L B t U] r(2) [of t "[]" "[]"] th(1) by (simp add: wmove_def fl(3) fun_upd_idem)
  finally show ?thesis .
qed

section \<open>A wait\<close>

text \<open>\<^verbatim>\<open>psipe_ops_wait\<close> of an operation that is completed, when nobody else takes a step.\<close>

lemma wait_steps:
  assumes inv: "winv (s, U, W)" and W: "W th = Some (Found i)" and op: "find_op i s = Some op"
    and run: "psipe_ops_wait s (Some op) = Inr (rv, t)"
  shows "(wstep L B)\<^sup>*\<^sup>* (s, U, W) (t, U, W(th := None))"
proof -
  let ?up = "\<lambda>op. op\<lparr>nwaiting := s32 (nwaiting op + 1)\<rparr>" and ?s = "ops_wait_enter s i"
  note id = find_op_mem(2) [OF op]
  have "i \<in> fst ` counts s" using find_op_counts [OF op] by force
  then have U: "i \<notin> op_id ` set U" using winvD(4) [OF inv] by auto
  then have m: "map_op i f U = U" for f by (rule map_op_other)
  define n where "n = s32 (s32 (nwaiting op + 1) - 1)"
  define u where "u = update_op i (\<lambda>op. op\<lparr>nwaiting := n\<rparr>) ?s"
  have f: "find_op i (update_op i g s) = map_option g (find_op i s)"
    if g: "\<And>op. op_id (g op) = op_id op" for g and s :: "'a kstate"
  proof -
    have "find (\<lambda>op. op_id op = i) (map_op i g ops) = map_option g (find (\<lambda>op. op_id op = i) ops)" for ops
      by (induction ops) (auto simp: map_op_def g)
    then show ?thesis by (simp add: find_op_def update_op_def find_append split: option.splits)
  qed
  have f1: "find_op i ?s = Some (?up op)" using op by (simp add: ops_wait_enter_def f)
  then have f2: "find_op i u = Some (?up op\<lparr>nwaiting := n\<rparr>)" by (simp add: u_def f)
  have leave: "ops_wait_leave ?s i = Inr (rv, t)" using run id by (simp add: psipe_ops_wait_def)
  then have fl: "flag op = 1" using f1 by (simp add: ops_wait_leave_def split: if_splits)
  have t: "t = (if n = 0 then u\<lparr>trace := trace u @ [Kfree_op i], active := list_del i (active u),
      inactive := list_del i (inactive u)\<rparr> else u)"
    using leave f1 fl by (simp add: ops_wait_leave_def n_def u_def Let_def split: if_splits)
  have a: "wstep L B (s, U, W) (?s, U, W(th \<mapsto> Waiting i))"
    using w_register [where W = W and th = th, OF W find_op_deref [OF op, of U]] by (simp only: m)
  have b: "wstep L B (?s, U, W(th \<mapsto> Waiting i)) (?s, U, W(th \<mapsto> Woken i (retval op)))"
    using w_wake [of "W(th \<mapsto> Waiting i)" th i ?s U "?up op" L B] find_op_deref [OF f1] fl by simp
  have "wstep L B (?s, U, W(th \<mapsto> Woken i (retval op))) (u, U, W(th := if n = 0 then Some (Doomed i None) else None))"
    using w_drop [of "W(th \<mapsto> Woken i (retval op))" th i "retval op" ?s U "?up op" n L B] find_op_deref [OF f1]
    by (simp add: m u_def n_def)
  with a b have drop: "(wstep L B)\<^sup>*\<^sup>* (s, U, W) (u, U, W(th := if n = 0 then Some (Doomed i None) else None))"
    by (blast intro: rtranclp.rtrancl_into_rtrancl rtranclp.rtrancl_refl)
  show ?thesis
  proof (cases "n = 0")
    case True
    let ?u = "u\<lparr>active := list_del i (active u), inactive := list_del i (inactive u)\<rparr>"
    let ?op = "?up op\<lparr>nwaiting := n\<rparr>"
    have "list_del i (?op # U) = U" using list_del_other [OF U] id by (simp add: list_del_def)
    then have "wstep L B (?u, ?op # U, W(th \<mapsto> Unlinked i None)) (t, U, W(th := None))"
      using w_free [of "W(th \<mapsto> Unlinked i None)" th i None "?op # U" L B ?u] True id
      by (simp add: t kstate_order)
    moreover have "wstep L B (u, U, W(th \<mapsto> Doomed i None)) (?u, ?op # U, W(th \<mapsto> Unlinked i None))"
      using w_unlink [of "W(th \<mapsto> Doomed i None)" th i None u, OF _ f2] by simp
    ultimately show ?thesis using drop True by (auto intro: rtranclp.rtrancl_into_rtrancl)
  qed (use drop t in simp)
qed

section \<open>A submission\<close>

lemma find_enqueued:
  assumes "kinv s"
  shows "find_op (next_id s) (ops_enqueue (s\<lparr>trace := tr\<rparr>) op) = Some (op\<lparr>op_id := next_id s\<rparr>)"
proof -
  have "\<forall>op \<in> set (active s). op_id op \<noteq> next_id s" using kinv_fresh [OF assms] by fastforce
  then have "find (\<lambda>op. op_id op = next_id s) (active s) = None" by (simp add: find_None_iff)
  then show ?thesis by (simp add: find_op_def ops_enqueue_def find_append)
qed

lemma start_finds:
  assumes "start_op L B s op = Inr (rv, t)" "find_op i s = Some op'"
  shows "\<exists>op''. find_op i t = Some op''"
  using counts_find [of i t] counts_start [OF assms(1)] find_op_counts [OF assms(2)] by force

lemma start_step:
  assumes W: "W th = Some (Submitted i True)" and op: "find_op i s = Some op"
    and st: "start_op L B s op = Inr (rv, t)" and U: "i \<notin> op_id ` set U"
  shows "wstep L B (s, U, W) (t, U, W(th := if rv < 0 then None else Some (Submitted i False)))"
proof -
  obtain d tr m where r: "run_ioctl_fn (op_fn op) L B (hw s) (trace s) (op_dma op) = Inr (rv, d, tr, m)"
    "t = update_op i (\<lambda>op. op\<lparr>op_dma := m\<rparr>) (s\<lparr>hw := d, trace := tr\<rparr>)"
    using st find_op_mem(2) [OF op] by (auto simp: start_op_def)
  have "map_op i f U = U" for f using U by (rule map_op_other)
  then show ?thesis
    using w_start [where W = W and th = th, OF W find_op_deref [OF op, of U] r(1)] by (simp only: r(2))
qed

lemma submit_steps:
  assumes inv: "winv (s, U, W)" and W: "W th = None" "unlocked W"
    and cmd: "cmd = PSIPE_IOCTL_SEND \<or> cmd = PSIPE_IOCTL_RECV"
    and run: "psipe_ioctl L B s cmd arg = Inr (rv, t)"
  shows "(wstep L B)\<^sup>*\<^sup>* (s, U, W) (t, U, W)"
proof -
  have WN: "W(th := None) = W" using W by auto
  obtain o' tr where new: "psipe_ops_new L (trace s) cmd arg = (o', tr)"
    by (cases "psipe_ops_new L (trace s) cmd arg") auto
  obtain r where init: "psipe_ops_init L B (s\<lparr>trace := tr\<rparr>) o' = Inr (r, t)"
    using run cmd new by (auto simp: psipe_ioctl_def)
  show ?thesis
  proof (cases o')
    case None
    then have "t = s\<lparr>trace := tr\<rparr>" using init by (simp add: psipe_ops_init_def)
    then show ?thesis using w_no_op [where W = W and th = th, OF W(1) cmd new [unfolded None]] by blast
  next
    case (Some op)
    obtain pr tr' m where pin: "psipe_dma_pin_pages L tr (op_dma op) = (pr, tr', m)"
      by (cases "psipe_dma_pin_pages L tr (op_dma op)") auto
    show ?thesis
    proof (cases "pr < 0")
      case True
      then have "t = s\<lparr>trace := tr'\<rparr>" using init Some pin by (simp add: psipe_ops_init_def)
      then show ?thesis
        using w_no_pages [where W = W and th = th, OF W(1) cmd new [unfolded Some] pin True] by blast
    next
      case False
      let ?i = "next_id s" and ?s = "ops_enqueue (s\<lparr>trace := tr'\<rparr>) (op\<lparr>op_dma := m\<rparr>)"
      let ?op = "op\<lparr>op_dma := m, op_id := ?i\<rparr>"
      have U: "?i \<notin> op_id ` set U" using winvD(5) [OF inv] by (metis image_iff less_irrefl)
      have enq: "wstep L B (s, U, W) (?s, U, W(th \<mapsto> Submitted ?i (active s = [])))"
        by (rule w_enqueue [where W = W and th = th, OF W cmd new [unfolded Some] pin]) (use False in simp)
      have found: "find_op ?i ?s = Some ?op"
        using find_enqueued [OF winvD(1) [OF inv], of tr' "op\<lparr>op_dma := m\<rparr>"] by simp
      have same: "ops_enqueue (s\<lparr>trace := tr'\<rparr>) ?op = ?s" by (simp add: ops_enqueue_def)
      have ret: "wstep L B (u, U, W(th \<mapsto> Submitted ?i False)) (u, U, W)" if "find_op ?i u = Some op'" for u op'
        using w_return [of "W(th \<mapsto> Submitted ?i False)" th ?i u U op' L B] find_op_deref [OF that] WN by simp
      show ?thesis
      proof (cases "active s = []")
        case True
        obtain sr where st: "start_op L B ?s ?op = Inr (sr, t)"
          using init Some pin False True same
          by (auto simp: psipe_ops_init_def Let_def split: if_splits)
        have "wstep L B (?s, U, W(th \<mapsto> Submitted ?i True))
            (t, U, W(th := if sr < 0 then None else Some (Submitted ?i False)))"
          using start_step [of "W(th \<mapsto> Submitted ?i True)" th, OF _ found st U] by simp
        with enq True have two: "(wstep L B)\<^sup>*\<^sup>* (s, U, W)
            (t, U, W(th := if sr < 0 then None else Some (Submitted ?i False)))" by auto
        show ?thesis
        proof (cases "sr < 0")
          case True
          with two WN show ?thesis by simp
        next
          case False
          obtain op'' where "find_op ?i t = Some op''" using start_finds [OF st found] by blast
          from two ret [OF this] False show ?thesis by (auto intro: rtranclp.rtrancl_into_rtrancl)
        qed
      next
        case nonempty: False
        then have t: "t = ?s" using init Some pin False same by (simp add: psipe_ops_init_def Let_def)
        from enq nonempty t ret [OF found] show ?thesis by (auto intro: rtranclp.rtrancl_into_rtrancl)
      qed
    qed
  qed
qed

section \<open>Too late\<close>

text \<open>A flush that nobody overtakes frees every operation nobody waits for.\<close>

lemma flush_frees:
  assumes inv: "kinv s" and op: "find_op i s = Some op" "nwaiting op = 0"
    and f: "psipe_ops_flush s = (rv, t)"
  shows "find_op i t = None"
proof (rule ccontr)
  assume "find_op i t \<noteq> None"
  then obtain op' where o': "find_op i t = Some op'" by blast
  obtain tr where t: "t = s\<lparr>trace := tr, active := filter (\<lambda>op. nwaiting op \<noteq> 0) (active s),
      inactive := filter (\<lambda>op. nwaiting op \<noteq> 0) (inactive s)\<rparr>" by (rule flush_spec [OF f])
  have "op' \<in> set (active s @ inactive s)" "nwaiting op' \<noteq> 0"
    using find_op_mem(1) [OF o'] by (auto simp: t)
  then have "find_op i s = Some op'" using find_op_unique [OF inv, of op'] find_op_mem(2) [OF o'] by simp
  with op \<open>nwaiting op' \<noteq> 0\<close> show False by simp
qed

text \<open>The flush records that it freed the operation.\<close>

lemma flush_active_frees:
  assumes "flush_active tr ops = (tr', kept)"
  shows "set tr \<subseteq> set tr' \<and> (\<forall>op \<in> set ops. nwaiting op = 0 \<longrightarrow> Kfree_op (op_id op) \<in> set tr')"
  using assms
proof (induction tr ops arbitrary: tr' kept rule: flush_active.induct)
  case (2 tr op ops)
  show ?case
  proof (cases "nwaiting op = 0")
    case True
    with 2(1) [OF True, of tr' kept] 2(3) show ?thesis
      by (auto simp: psipe_dma_unmap_pages_def psipe_dma_unpin_pages_def)
  next
    case False
    with 2(2) [OF False] 2(3) show ?thesis by (auto split: prod.splits)
  qed
qed simp

lemma flush_inactive_frees:
  assumes "flush_inactive tr ops = (tr', kept)"
  shows "set tr \<subseteq> set tr' \<and> (\<forall>op \<in> set ops. nwaiting op = 0 \<longrightarrow> Kfree_op (op_id op) \<in> set tr')"
  using assms
proof (induction tr ops arbitrary: tr' kept rule: flush_inactive.induct)
  case (2 tr op ops)
  show ?case
  proof (cases "nwaiting op = 0")
    case True
    with 2(1) [OF True, of tr' kept] 2(3) show ?thesis by auto
  next
    case False
    with 2(2) [OF False] 2(3) show ?thesis by (auto split: prod.splits)
  qed
qed simp

lemma flush_kfree:
  assumes op: "find_op i s = Some op" "nwaiting op = 0" and f: "psipe_ops_flush s = (rv, t)"
  shows "Kfree_op i \<in> set (trace t)"
proof -
  obtain tr1 a tr2 b where fl: "flush_active (trace s) (active s) = (tr1, a)"
    "flush_inactive tr1 (inactive s) = (tr2, b)" "trace t = tr2"
    using f by (auto simp: psipe_ops_flush_def split: prod.splits)
  note mem = find_op_mem [OF op(1)]
  show ?thesis
    using flush_active_frees [OF fl(1)] flush_inactive_frees [OF fl(2)] mem op(2) fl(3) by auto
qed

text \<open>A thread that has found that nobody waits for an operation can go on to free it.\<close>

lemma doomed_freed:
  assumes r: "wreach L B d (s, U, W)" and a: "W a = Some (Doomed i k)"
    and op: "find_op i s = Some op" and room: "roomy (s, U, W)"
  shows "\<exists>t U' W'. wreach L B d (t, U', W') \<and> (\<forall>b. b \<noteq> a \<longrightarrow> W' b = W b) \<and> deref i t U' = None \<and>
    Kfree_op i \<in> set (trace t)"
proof -
  let ?t = "s\<lparr>active := list_del i (active s), inactive := list_del i (inactive s)\<rparr>"
  have r2: "wreach L B d (?t, op # U, W(a \<mapsto> Unlinked i k))"
    by (rule wreach_step [OF r w_unlink [where W = W and th = a, OF a op] room])
  have m: "roomy (?t, op # U, W(a \<mapsto> Unlinked i k))"
    using room a by (subst roomy_same [where s = s and U = U]; simp)
  have "i \<in> op_id ` set (op # U)" using find_op_mem(2) [OF op] by simp
  from wreach_step [OF r2 w_free [where th = a, OF _ this] m, of k]
  have r3: "wreach L B d (?t\<lparr>trace := trace ?t @ [Kfree_op i]\<rparr>, list_del i (op # U),
      W(a \<mapsto> Unlinked i k, a := map_option Flushing k))" by simp
  have "deref i (?t\<lparr>trace := trace ?t @ [Kfree_op i]\<rparr>) (list_del i (op # U)) = None"
    by (auto simp: deref_def find_None_iff list_del_def)
  with r3 show ?thesis
    by (intro exI conjI) (assumption | simp)+
qed

text \<open>Before it does, another thread can still register for it.\<close>

lemma late_waiter:
  assumes r: "wreach L B d (s, U, W)" and a: "W a = Some (Doomed i k)" and b: "W b = Some (Found i)"
    and op: "find_op i s = Some op" and room: "roomy (s, U, W)"
  shows "\<exists>t U' W'. wreach L B d (t, U', W') \<and> W' b = Some (Waiting i) \<and> deref i t U' = None \<and>
    Kfree_op i \<in> set (trace t)"
proof -
  let ?up = "\<lambda>op. op\<lparr>nwaiting := s32 (nwaiting op + 1)\<rparr>"
  let ?s = "ops_wait_enter s i" and ?U = "map_op i ?up U" and ?W = "W(b \<mapsto> Waiting i)"
  have ab: "a \<noteq> b" using a b by auto
  have n: "next_id ?s = next_id s" by (simp add: ops_wait_enter_def update_op_def)
  have r1: "wreach L B d (?s, ?U, ?W)"
    by (rule wreach_step [OF r w_register [where W = W and th = b, OF b find_op_deref [OF op]] room])
  have m1: "roomy (?s, ?U, ?W)" using room b n by (subst roomy_same [where s = s and U = U]; simp)
  have "(i, nwaiting op) \<in> counts s" by (rule find_op_counts [OF op])
  then have "i \<in> fst ` counts ?s"
    unfolding ops_wait_enter_def counts_nwaiting [where h = "\<lambda>n. s32 (n + 1)"] by force
  then obtain op' where op': "find_op i ?s = Some op'" using counts_find by blast
  have "?W a = Some (Doomed i k)" using a ab by simp
  from doomed_freed [OF r1 this op' m1] ab show ?thesis by (metis fun_upd_same)
qed

end
