(* ===== verification/Thread_Props.thy ===== *)
theory Thread_Props
  imports Kcalm Kruns Examples
begin

text \<open>
  The properties of the kernel module with several threads inside its ioctls, each with a witness
  on the module of theory Examples.
\<close>

section \<open>A run with three threads\<close>

text \<open>Thread 0 submits a send and starts it.\<close>

definition ref_e1 :: "nat kstate" where
  "ref_e1 = \<lparr>hw = 0, trace = ref_calls, next_id = 1, active = [ref_queued 0], inactive = []\<rparr>"

lemma ref_t_enqueue:
  "wstep ref_linux ref_bus (kinit 0, [], Map.empty) (ref_e1, [], [0 \<mapsto> Submitted 0 True])"
  using w_enqueue [of Map.empty 0 PSIPE_IOCTL_SEND ref_linux "kinit 0" 0 "ref_queued 0"
      "[Kmalloc_op, Copy_from_user 0]" 0 ref_calls ref_dma ref_bus "[]"]
  by (simp add: kinit_def ref_ops_new ref_pin ref_calls_def ops_enqueue_def ref_e1_def ref_queued_def
      ref_op_def unlocked_def)

lemma ref_t_start:
  "wstep ref_linux ref_bus (ref_e1, [], [0 \<mapsto> Submitted 0 True]) (ref_s1, [], [0 \<mapsto> Submitted 0 False])"
proof -
  have st: "start_op ref_linux ref_bus ref_e1 (ref_queued 0) = Inr (2, ref_s1)"
    by (simp add: start_op_def ref_start ref_e1_def ref_s1_def update_op_def map_op_def ref_queued_def
        ref_running_def ref_op_def)
  have "find_op 0 ref_e1 = Some (ref_queued 0)" by (simp add: find_op_def ref_e1_def)
  from start_step [of "[0 \<mapsto> Submitted 0 True]" 0, OF _ this st, of "[]"] show ?thesis by simp
qed

lemma ref_get1: "psipe_ops_get ref_s1 0 = Some (ref_running 0)" "find_op 0 ref_s1 = Some (ref_running 0)"
  by (simp_all add: psipe_ops_get_def find_op_def ref_s1_def)

text \<open>While nobody is about to free anything every step is orderly.\<close>

lemma orderly_quiet: "(\<And>th. dooms W th = None) \<Longrightarrow> orderly W W'"
  by (simp add: orderly_def doomers_def)

lemma ref_t_submitted: "wcalm ref_linux ref_bus 0 (ref_s1, [], [0 \<mapsto> Submitted 0 False])"
proof -
  have "wcalm ref_linux ref_bus 0 (ref_e1, [], [0 \<mapsto> Submitted 0 True])"
    by (rule wcalm_step [OF wcalm_init ref_t_enqueue])
      (auto simp: kinit_def roomy_def dooms_def intro: orderly_quiet)
  then show ?thesis
    by (rule wcalm_step [OF _ ref_t_start]) (auto simp: ref_e1_def roomy_def dooms_def intro: orderly_quiet)
qed

text \<open>Thread 1 looks the operation up and waits for it.\<close>

lemma ref_t_waiting:
  "wcalm ref_linux ref_bus 0 (ops_wait_enter ref_s1 0, [], [0 \<mapsto> Submitted 0 False, 1 \<mapsto> Waiting 0])"
proof -
  have "wcalm ref_linux ref_bus 0 (ref_s1, [], [0 \<mapsto> Submitted 0 False, 1 \<mapsto> Found 0])"
    by (rule wcalm_step [OF ref_t_submitted w_get [OF _ _ ref_get1(1)]])
      (auto simp: ref_s1_def roomy_def unlocked_def dooms_def intro!: orderly_quiet)
  moreover have "wstep ref_linux ref_bus (ref_s1, [], [0 \<mapsto> Submitted 0 False, 1 \<mapsto> Found 0])
      (ops_wait_enter ref_s1 0, [], [0 \<mapsto> Submitted 0 False, 1 \<mapsto> Found 0, 1 \<mapsto> Waiting 0])"
    using w_register [OF _ find_op_deref [OF ref_get1(2), of "[]"], of "[0 \<mapsto> Submitted 0 False, 1 \<mapsto> Found 0]" 1]
    by (simp add: map_op_def)
  ultimately have "wcalm ref_linux ref_bus 0
      (ops_wait_enter ref_s1 0, [], [0 \<mapsto> Submitted 0 False, 1 \<mapsto> Found 0, 1 \<mapsto> Waiting 0])"
    by (rule wcalm_step) (auto simp: ref_s1_def roomy_def dooms_def intro!: orderly_quiet)
  then show ?thesis by simp
qed

text \<open>
  Instead, threads 1 and 2 look the operation up after its interrupt. Thread 1 waits, returns from
  \<^verbatim>\<open>wait_event\<close> and finds that it was the last one.
\<close>

definition ref_done :: "nat kstate" where
  "ref_done = \<lparr>hw = 7, trace = trace ref_s1 @ [Dma_unmap_sg DMA_TO_DEVICE, Unpin_user_pages 2,
     Kfree_array, Wake_up_all 0], next_id = 1, active = [], inactive = [(ref_running 0)\<lparr>flag := 1\<rparr>]\<rparr>"

lemma ref_t_handler: "psipe_irq_handler ref_linux ref_bus ref_s1 = Inr (IRQ_HANDLED, ref_done)"
proof -
  have "dma_npages (ref_mapped (send_dma ref_dma)) = 2"
    "direction (ref_mapped (send_dma ref_dma)) = DMA_TO_DEVICE"
    by (simp_all add: ref_mapped_def send_dma_def ref_dma_def)
  then show ?thesis
    by (simp add: psipe_irq_handler_def psipe_irq_check_and_ack_def ref_bus_def psipe_ops_next_def
        psipe_ops_current_def psipe_ops_fini_def Let_def list_del_def psipe_dma_unmap_pages_def
        psipe_dma_unpin_pages_def ref_done_def ref_s1_def)
qed

lemma ref_done_op:
  "psipe_ops_get ref_done 0 = Some ((ref_running 0)\<lparr>flag := 1\<rparr>)"
  "deref 0 ref_done [] = Some ((ref_running 0)\<lparr>flag := 1\<rparr>)"
  "deref 0 (ops_wait_enter ref_done 0) [] = Some ((ref_running 0)\<lparr>flag := 1, nwaiting := 1\<rparr>)"
  by (simp_all add: psipe_ops_get_def deref_def ref_done_def ops_wait_enter_def update_op_def map_op_def
      ref_running_def ref_queued_def s32_id)

lemma ref_drop: "update_op 0 (\<lambda>op. op\<lparr>nwaiting := 0\<rparr>) (ops_wait_enter ref_done 0) = ref_done"
  by (simp add: ref_done_def ops_wait_enter_def update_op_def map_op_def ref_running_def ref_queued_def)

lemma ref_t_last: "wreach ref_linux ref_bus 0 (ref_done, [], [1 \<mapsto> Doomed 0 None, 2 \<mapsto> Found 0])"
proof -
  let ?F = "[1 \<mapsto> Found 0, 2 \<mapsto> Found 0] :: threads" and ?e = "ops_wait_enter ref_done 0"
  note room = roomy_def ref_s1_def ref_done_def ops_wait_enter_def update_op_def unlocked_def
  have "wreach ref_linux ref_bus 0 (ref_s1, [], Map.empty)"
    using wreach_step [OF wcalm_reach [OF ref_t_submitted] w_return [of _ 0, OF _ find_op_deref [OF ref_get1(2)]]]
    by (simp add: room fun_upd_idem)
  then have "wreach ref_linux ref_bus 0 (ref_done, [], Map.empty)"
    by (rule wreach_step [OF _ w_interrupt [OF _ ref_t_handler]]) (simp_all add: room)
  then have "wreach ref_linux ref_bus 0 (ref_done, [], [1 \<mapsto> Found 0])"
    by (rule wreach_step [OF _ w_get [OF _ _ ref_done_op(1)]]) (simp_all add: room)
  then have f: "wreach ref_linux ref_bus 0 (ref_done, [], ?F)"
    by (rule wreach_step [OF _ w_get [OF _ _ ref_done_op(1)]]) (simp_all add: room)
  have "wstep ref_linux ref_bus (ref_done, [], ?F) (?e, [], ?F(1 \<mapsto> Waiting 0))"
    using w_register [of ?F 1 0, OF _ ref_done_op(2)] by (simp add: map_op_def)
  from wreach_step [OF f this] have w: "wreach ref_linux ref_bus 0 (?e, [], ?F(1 \<mapsto> Waiting 0))"
    by (simp add: room)
  have "wstep ref_linux ref_bus (?e, [], ?F(1 \<mapsto> Waiting 0)) (?e, [], ?F(1 \<mapsto> Woken 0 42))"
    using w_wake [of "?F(1 \<mapsto> Waiting 0)" 1 0, OF _ ref_done_op(3)] by (simp add: ref_running_def)
  from wreach_step [OF w this] have k: "wreach ref_linux ref_bus 0 (?e, [], ?F(1 \<mapsto> Woken 0 42))"
    by (simp add: room insert_commute)
  have "wstep ref_linux ref_bus (?e, [], ?F(1 \<mapsto> Woken 0 42)) (ref_done, [], ?F(1 \<mapsto> Doomed 0 None))"
    using w_drop [of "?F(1 \<mapsto> Woken 0 42)" 1 0 42, OF _ ref_done_op(3) refl]
    by (simp add: map_op_def ref_drop s32_id)
  from wreach_step [OF k this] have "wreach ref_linux ref_bus 0 (ref_done, [], ?F(1 \<mapsto> Doomed 0 None))"
    by (simp add: room insert_commute)
  moreover have "?F(1 \<mapsto> Doomed 0 None) = [1 \<mapsto> Doomed 0 None, 2 \<mapsto> Found 0]" by (simp add: fun_eq_iff)
  ultimately show ?thesis by simp
qed

section \<open>Properties\<close>

text \<open>
  C15. The threads inside the ioctls and the interrupts interleave at will, except that no thread comes
  too late: once a thread has found that nobody waits for an operation (the last waiter by its decrement,
  a flush by its look at \<^verbatim>\<open>nwaiting\<close>), no thread registers for the operation and no other one decides
  to free it. Then the operation a thread is registered for is in a list, with exactly the registered
  threads counted, no thread is about to free it, and no flush does; and whoever frees an operation finds
  it still there, to unlink it and to free it. C31 shows what happens otherwise. The threads the claim
  protects are these; C23 and \<open>flush_walk_dangles\<close> are about the others, which have no further step once
  their operation is freed.
\<close>

theorem registered_waiter_safe:
  assumes "wcalm L B d (s, U, W)"
  shows "(\<forall>i. \<forall>th \<in> waiters W i.
       (\<exists>op. find_op i s = Some op \<and> nwaiting op = int (card (waiters W i)) \<and> 0 < nwaiting op) \<and>
       doomers W i = {} \<and> (\<forall>rv t. psipe_ops_flush s = (rv, t) \<longrightarrow> find_op i t \<noteq> None)) \<and>
     (\<forall>th i k. W th = Some (Doomed i k) \<longrightarrow> find_op i s \<noteq> None) \<and>
     (\<forall>th i k. W th = Some (Unlinked i k) \<longrightarrow> i \<in> op_id ` set U)"
proof -
  have "find_op i t \<noteq> None"
    if th: "th \<in> waiters W i" and f: "psipe_ops_flush s = (rv, t)" for i th rv t
  proof -
    obtain op where op: "find_op i s = Some op" "0 < nwaiting op" by (rule calm_waiter [OF assms th])
    obtain tr where "t = s\<lparr>trace := tr, active := filter (\<lambda>op. nwaiting op \<noteq> 0) (active s),
        inactive := filter (\<lambda>op. nwaiting op \<noteq> 0) (inactive s)\<rparr>" by (rule flush_spec [OF f])
    then have "op \<in> set (active t @ inactive t)" using find_op_mem(1) [OF op(1)] op(2) by auto
    then show ?thesis using find_op_mem(2) [OF op(1)] by (auto simp: find_op_def find_None_iff)
  qed
  then show ?thesis using calm_waiter [OF assms] calm_doomer [OF assms] by metis
qed

theorem registered_waiter_safe_witness:
  "\<exists>op. find_op 0 (ops_wait_enter ref_s1 0) = Some op \<and> 0 < nwaiting op"
proof -
  have "1 \<in> waiters [0 \<mapsto> Submitted 0 False, 1 \<mapsto> Waiting 0] 0" by (simp add: waiters_def waits_def)
  then show ?thesis using registered_waiter_safe [OF ref_t_waiting] by blast
qed

text \<open>
  C23. A thread that is not registered has no protection at all. Whenever a thread has the pointer to an
  operation from \<^verbatim>\<open>psipe_ops_get\<close>, or has submitted the operation and not yet returned, or is the last
  waiter on its way to \<^verbatim>\<open>list_del\<close>, and nobody waits for the operation, a flush by another thread frees it:
  the next step of the thread, the increment of \<^verbatim>\<open>nwaiting\<close>, the call of \<^verbatim>\<open>ioctl_fn\<close>, the read of
  \<^verbatim>\<open>op->id\<close> or \<^verbatim>\<open>list_del\<close> and \<^verbatim>\<open>kfree\<close>, uses freed memory.
\<close>

theorem unregistered_thread_dangles:
  assumes "wreach L B d (s, U, W)"
    "W th = Some (Found i) \<or> W th = Some (Submitted i b) \<or> W th = Some (Doomed i None)"
    and "unlocked W" "find_op i s = Some op" "nwaiting op = 0"
    and "unat (next_id s) < 2 ^ 64 - 1" "card (dom W) < 2 ^ 31 - 1"
  shows "\<exists>t. wreach L B d (t, U, W) \<and> deref i t U = None \<and> Kfree_op i \<in> set (trace t)"
proof -
  note inv = wreach_winv [OF assms(1)]
  obtain rv t where f: "psipe_ops_flush s = (rv, t)" by (cases "psipe_ops_flush s")
  obtain th' where "W th' = None"
    using winvD(2) [OF inv] ex_new_if_finite [OF infinite_UNIV_nat] by (metis domIff)
  from flush_moves [OF inv this assms(3,6,7) f]
  have "wreach L B d (t, U, W)" using assms(1) by (rule wreach_moves)
  moreover have "find_op i t = None" by (rule flush_frees [OF winvD(1) [OF inv] assms(4,5) f])
  then have "i \<notin> fst ` counts t" using counts_find [of i t] by auto
  moreover have "i \<in> fst ` counts s" using find_op_counts [OF assms(4)] by force
  then have "i \<notin> op_id ` set U" using winvD(4) [OF inv] by auto
  ultimately show ?thesis using flush_kfree [OF assms(4,5) f] by (auto simp: deref_None)
qed

theorem unregistered_thread_dangles_witness:
  "\<exists>t. wreach ref_linux ref_bus 0 (t, [], [0 \<mapsto> Submitted 0 False]) \<and> deref 0 t [] = None \<and>
     Kfree_op 0 \<in> set (trace t)"
  by (rule unregistered_thread_dangles [OF wcalm_reach [OF ref_t_submitted] _ _ ref_get1(2),
        where th = 0 and b = False])
    (simp_all add: ref_running_def ref_queued_def ref_s1_def unlocked_def)

text \<open>
  C31. What C15 excludes can happen: whenever a thread has found that nobody waits for an operation, as
  the last waiter or in a flush, and another thread has the pointer to it, the other thread can register,
  and then the first one frees the operation: the other one waits on freed memory.
\<close>

theorem late_waiter_dangles:
  assumes "wreach L B d (s, U, W)" "W a = Some (Doomed i k)" "W b = Some (Found i)"
    and "find_op i s = Some op" "unat (next_id s) < 2 ^ 64 - 1" "card (dom W) < 2 ^ 31"
  shows "\<exists>t U' W'. wreach L B d (t, U', W') \<and> W' b = Some (Waiting i) \<and> deref i t U' = None \<and>
     Kfree_op i \<in> set (trace t)"
  using late_waiter [OF assms(1-4)] assms(5,6) by (simp add: roomy_def)

theorem late_waiter_dangles_witness:
  "\<exists>t U' W'. wreach ref_linux ref_bus 0 (t, U', W') \<and> W' 2 = Some (Waiting 0) \<and> deref 0 t U' = None \<and>
     Kfree_op 0 \<in> set (trace t)"
  by (rule late_waiter_dangles [OF ref_t_last, of 1 0 None])
    (simp_all add: find_op_def ref_done_def)

text \<open>
  A flush can come too late as well: while it has the pointer to the operation it visits next, the last
  waiter of that operation frees it.
\<close>

theorem flush_walk_dangles:
  assumes "wreach L B d (s, U, W)" "W a = Some (Doomed i None)" "W b = Some (Flushing (i # is, js))"
    and "find_op i s = Some op" "unat (next_id s) < 2 ^ 64 - 1" "card (dom W) < 2 ^ 31"
  shows "\<exists>t U' W'. wreach L B d (t, U', W') \<and> W' b = Some (Flushing (i # is, js)) \<and> deref i t U' = None"
proof -
  have "b \<noteq> a" using assms(2,3) by auto
  moreover have "roomy (s, U, W)" using assms(5,6) by (simp add: roomy_def)
  ultimately show ?thesis using doomed_freed [OF assms(1,2,4)] assms(3) by metis
qed

theorem flush_walk_dangles_witness:
  "\<exists>t U' W'. wreach ref_linux ref_bus 0 (t, U', W') \<and> W' 3 = Some (Flushing ([0], [])) \<and> deref 0 t U' = None"
proof -
  let ?D = "[1 \<mapsto> Doomed 0 None, 2 \<mapsto> Found 0] :: threads"
  have f: "find_op 0 ref_done = Some ((ref_running 0)\<lparr>flag := 1\<rparr>)" by (simp add: find_op_def ref_done_def)
  have "unlocked ?D" by (simp add: unlocked_def)
  from wreach_step [OF ref_t_last w_flush [OF _ this, of 3]]
  have "wreach ref_linux ref_bus 0 (ref_done, [], ?D(3 \<mapsto> Flushing ([], [0])))"
    by (simp add: roomy_def ref_done_def ref_running_def ref_queued_def)
  from wreach_step [OF this w_inactive [of _ 3 "[0]"]]
  have "wreach ref_linux ref_bus 0 (ref_done, [], ?D(3 \<mapsto> Flushing ([0], [])))"
    by (simp add: roomy_def linked_def f) (simp add: ref_done_def)
  from flush_walk_dangles [OF this _ _ f, of 1 3 "[]" "[]"] show ?thesis by (simp add: ref_done_def)
qed

text \<open>
  An ioctl that nobody overtakes is what theory Ksteps takes it for: it does the steps of a thread one
  after the other, and leaves the thread outside the module.
\<close>

theorem undisturbed_ioctl:
  assumes "wreach L B d (s, U, W)" "W th = None" "unlocked W"
    "unat (next_id s) < 2 ^ 64 - 1" "card (dom W) < 2 ^ 31 - 1" "psipe_ioctl L B s cmd arg = Inr (rv, t)"
  shows "(wstep L B)\<^sup>*\<^sup>* (s, U, W) (t, U, W)"
proof -
  note inv = wreach_winv [OF assms(1)]
  consider "cmd = PSIPE_IOCTL_SEND \<or> cmd = PSIPE_IOCTL_RECV"
    | op where "psipe_ops_get s arg = Some op" "psipe_ops_wait s (Some op) = Inr (rv, t)"
    | "psipe_ops_flush s = (rv, t)" | "t = s"
    using assms(6) by (cases "psipe_ops_get s arg")
      (auto simp: psipe_ioctl_def psipe_ops_wait_def split: if_splits)
  then show ?thesis
  proof cases
    case 1
    then show ?thesis by (rule submit_steps [OF inv assms(2,3) _ assms(6)])
  next
    case (2 op)
    have f: "find_op arg s = Some op"
      using 2(1) by (auto simp: psipe_ops_get_def find_op_def find_append split: if_splits option.splits)
    have g: "wstep L B (s, U, W) (s, U, W(th \<mapsto> Found arg))" by (rule w_get [OF assms(2,3) 2(1)])
    have "winv (s, U, W(th \<mapsto> Found arg))"
      by (rule winv_step [OF g inv]) (use assms(4,5) in \<open>simp add: roomy_def\<close>)
    from wait_steps [OF this _ f 2(2), of th] g assms(2)
    show ?thesis by (auto simp: fun_upd_idem intro: converse_rtranclp_into_rtranclp)
  next
    case 3
    then show ?thesis by (intro moves_steps flush_moves [OF inv assms(2-5)])
  qed simp
qed

theorem undisturbed_ioctl_witness:
  "(wstep ref_linux ref_bus)\<^sup>*\<^sup>* (kinit 0, [], Map.empty) (ref_s1, [], Map.empty)"
  by (rule undisturbed_ioctl [OF wreach_init _ _ _ _ ref_send1]) (simp_all add: unlocked_def kinit_def)

end
