(* ===== verification/Util.thy ===== *)
theory Util
  imports Prelude Cstring
begin

text \<open>
  Option parsing and the helpers of the programs that address one device by its PCI numbers
  (src/src/sw/userspace/psipe\_util.c). \<^verbatim>\<open>errno\<close> is part of the state, as the code tests it after
  every conversion and never resets it; a call of \<^verbatim>\<open>exit\<close> is the fault \<open>Exited\<close>. The \<^verbatim>\<open>open\<close>,
  \<^verbatim>\<open>close\<close> and \<^verbatim>\<open>calloc\<close> of the C library are parameters. What the functions print is left out.
\<close>

section \<open>Data\<close>

record pci_context =
  ctx_fd :: int
  pci_domain_nb :: u32
  pci_bus_nb :: u16
  pci_device_nb :: u8
  pci_func_nb :: u8
  vec_len :: u64

definition PCI_DOMAIN_NUMBER_INVALID :: int where "PCI_DOMAIN_NUMBER_INVALID = 0x10000"
definition PCI_BUS_NUMBER_INVALID :: int where "PCI_BUS_NUMBER_INVALID = 0x100"
definition PCI_DEVICE_NUMBER_INVALID :: int where "PCI_DEVICE_NUMBER_INVALID = 0x20"
definition PCI_FUNCTION_NUMBER_INVALID :: int where "PCI_FUNCTION_NUMBER_INVALID = 8"

definition ERANGE :: int where "ERANGE = 34"

text \<open>Arrays are \<open>None\<close> for the null pointer.\<close>

record context_multi =
  fds_len :: u64
  fds :: "int list option"
  mdata_len :: u64
  mdata :: "int list option"

text \<open>
  The state \<open>'w\<close> of the system holds \<^verbatim>\<open>errno\<close>. \<open>u_calloc\<close> tells whether the memory was allocated.
\<close>

record 'w libc =
  u_errno :: "'w \<Rightarrow> int"
  u_set_errno :: "int \<Rightarrow> 'w \<Rightarrow> 'w"
  u_open :: "string \<Rightarrow> 'w \<Rightarrow> int \<times> 'w"
  u_close :: "int \<Rightarrow> 'w \<Rightarrow> 'w"
  u_calloc :: "u64 \<Rightarrow> u64 \<Rightarrow> 'w \<Rightarrow> bool \<times> 'w"

section \<open>Numbers\<close>

text \<open>\<^verbatim>\<open>strtol\<close> followed by the check of \<^verbatim>\<open>errno\<close> and of \<^verbatim>\<open>endptr\<close>, as every option has it.\<close>

definition num_arg :: "'w libc \<Rightarrow> string option \<Rightarrow> 'w \<Rightarrow> (int \<times> 'w) res" where
  "num_arg U optarg w =
     (case optarg of
        None \<Rightarrow> Inl Null_Pointer
      | Some s \<Rightarrow>
          case strtol 10 s of (x, conv, erange) \<Rightarrow>
            let w = (if erange then u_set_errno U ERANGE w else w)
            in if u_errno U w \<noteq> 0 \<or> \<not> conv then Inl (Exited (- 1)) else Inr (x, w))"

section \<open>One device\<close>

definition parse_opt :: "'w libc \<Rightarrow> opt \<Rightarrow> pci_context \<times> 'w \<Rightarrow> (pci_context \<times> 'w) res" where
  "parse_opt U = (\<lambda>(op, optarg) (ctx, w).
     if op = CHR ''b'' then
       bindR (num_arg U optarg w) (\<lambda>(x, w).
         let ctx = ctx\<lparr>pci_bus_nb := of_int x\<rparr>
         in if PCI_BUS_NUMBER_INVALID \<le> uint (pci_bus_nb ctx) then Inl (Exited (- 1)) else Inr (ctx, w))
     else if op = CHR ''d'' then
       bindR (num_arg U optarg w) (\<lambda>(x, w).
         let ctx = ctx\<lparr>pci_domain_nb := of_int x\<rparr>
         in if PCI_DOMAIN_NUMBER_INVALID \<le> uint (pci_domain_nb ctx) then Inl (Exited (- 1))
            else Inr (ctx, w))
     else if op = CHR ''h'' then Inl (Exited 0)
     else if op = CHR ''s'' then
       bindR (num_arg U optarg w) (\<lambda>(x, w).
         let ctx = ctx\<lparr>pci_device_nb := of_int x\<rparr>
         in if PCI_DEVICE_NUMBER_INVALID \<le> uint (pci_device_nb ctx) then Inl (Exited (- 1))
            else Inr (ctx, w))
     else if op = CHR ''l'' then
       bindR (num_arg U optarg w) (\<lambda>(x, w). Inr (ctx\<lparr>vec_len := of_int x\<rparr>, w))
     else Inl (Exited (- 1)))"

text \<open>\<open>fd0\<close> is what the uninitialised descriptor of the structure holds.\<close>

definition parse_args :: "'w libc \<Rightarrow> int \<Rightarrow> string list \<Rightarrow> 'w \<Rightarrow> (pci_context \<times> 'w) res" where
  "parse_args U fd0 argv w =
     (let ctx = \<lparr>ctx_fd = fd0, pci_domain_nb = 0,
            pci_bus_nb = of_int PCI_BUS_NUMBER_INVALID,
            pci_device_nb = of_int PCI_DEVICE_NUMBER_INVALID, pci_func_nb = 0, vec_len = 0\<rparr>
      in bindR (foldR (parse_opt U) (getopt ''b:d:hr:s:l:v'' argv) (ctx, w)) (\<lambda>(ctx, w).
        if PCI_DEVICE_NUMBER_INVALID \<le> uint (pci_device_nb ctx) then Inl (Exited (- 1))
        else if PCI_BUS_NUMBER_INVALID \<le> uint (pci_bus_nb ctx) then Inl (Exited (- 1))
        else if PCI_DOMAIN_NUMBER_INVALID \<le> uint (pci_domain_nb ctx) then Inl (Exited (- 1))
        else if PCI_FUNCTION_NUMBER_INVALID \<le> uint (pci_func_nb ctx) then Inl (Exited (- 1))
        else Inr (ctx, w)))"

text \<open>The node opened; \<^verbatim>\<open>snprintf\<close> keeps at most 63 characters. A descriptor of -1 is closed as well.\<close>

definition dev_filename :: "pci_context \<Rightarrow> string" where
  "dev_filename ctx = take 63
     (''/dev/psipe/d'' @ dec (unat (pci_domain_nb ctx)) @ ''b'' @ dec (unat (pci_bus_nb ctx)) @
      ''d'' @ dec (unat (pci_device_nb ctx)) @ ''f'' @ dec (unat (pci_func_nb ctx)) @ ''_bar0'')"

definition open_psipe_dev :: "'w libc \<Rightarrow> pci_context \<Rightarrow> 'w \<Rightarrow> int \<times> pci_context \<times> 'w" where
  "open_psipe_dev U ctx w =
     (case u_open U (dev_filename ctx) w of (fd, w) \<Rightarrow>
        let ctx = ctx\<lparr>ctx_fd := fd\<rparr>
        in (ctx_fd ctx, ctx, if ctx_fd ctx = - 1 then u_close U (ctx_fd ctx) w else w))"

text \<open>Seconds and microseconds, as \<^verbatim>\<open>long\<close>s.\<close>

definition calc_time :: "int \<times> int \<Rightarrow> int \<times> int \<Rightarrow> int" where
  "calc_time t1 t2 =
     (let us1 = fst t1 * 1000000 + snd t1; us2 = fst t2 * 1000000 + snd t2 in us2 - us1)"

section \<open>Several devices\<close>

text \<open>One turn of the option loop; \<open>fds_pos\<close> is the number of devices opened.\<close>

definition parse_multi_opt ::
    "'w libc \<Rightarrow> opt \<Rightarrow> context_multi \<times> int \<times> 'w \<Rightarrow> (context_multi \<times> int \<times> 'w) res" where
  "parse_multi_opt U = (\<lambda>(op, optarg) (ctx, fds_pos, w).
     if op = CHR ''n'' then
       bindR (num_arg U optarg w) (\<lambda>(x, w).
         let ctx = ctx\<lparr>fds_len := of_int x\<rparr>
         in case u_calloc U (fds_len ctx) 4 w of (ok, w) \<Rightarrow>
           Inr (ctx\<lparr>fds := if ok then Some (replicate (unat (fds_len ctx)) 0) else None\<rparr>, fds_pos, w))
     else if op = CHR ''l'' then
       bindR (num_arg U optarg w) (\<lambda>(x, w).
         let ctx = ctx\<lparr>mdata_len := of_int x\<rparr>
         in case u_calloc U (mdata_len ctx) 4 w of (ok, w) \<Rightarrow>
           Inr (ctx\<lparr>mdata := if ok then Some (replicate (unat (mdata_len ctx)) 0) else None\<rparr>, fds_pos, w))
     else if op = CHR ''d'' then
       (case fds ctx of
          None \<Rightarrow> Inr (ctx, fds_pos, w)
        | Some a \<Rightarrow>
            if fds_len ctx = 0 \<or> 0 < fds_len ctx \<and> u64_of_int fds_pos = fds_len ctx
            then Inr (ctx, fds_pos, w)
            else case optarg of
              None \<Rightarrow> Inl Null_Pointer
            | Some name \<Rightarrow>
                case u_open U name w of (fd, w) \<Rightarrow>
                  bindR (store a fds_pos fd) (\<lambda>a.
                    if u_errno U w \<noteq> 0 \<or> fd < 0 then Inl (Exited (- 1))
                    else Inr (ctx\<lparr>fds := Some a\<rparr>, s32 (fds_pos + 1), w)))
     else if op = CHR ''h'' then Inl (Exited 0)
     else Inl (Exited (- 1)))"

definition parse_args_multi :: "'w libc \<Rightarrow> string list \<Rightarrow> 'w \<Rightarrow> (context_multi \<times> 'w) res" where
  "parse_args_multi U argv w =
     bindR (foldR (parse_multi_opt U) (getopt ''n:d:l:h'' argv)
       (\<lparr>fds_len = 0, fds = None, mdata_len = 0, mdata = None\<rparr>, 0, w)) (\<lambda>(ctx, fds_pos, w).
     if fds_len ctx = 0 then Inl (Exited (- 1))
     else if u64_of_int fds_pos \<noteq> fds_len ctx then Inl (Exited (- 1))
     else if mdata_len ctx = 0 then Inl (Exited (- 1))
     else Inr (ctx, w))"

definition free_context_multi :: "'w libc \<Rightarrow> context_multi \<Rightarrow> 'w \<Rightarrow> 'w res" where
  "free_context_multi U ctx w =
     foldR (\<lambda>i w. case fds ctx of
         None \<Rightarrow> Inl Null_Pointer
       | Some a \<Rightarrow> bindR (load a i) (\<lambda>fd. Inr (u_close U fd w)))
       [0..uint (fds_len ctx) - 1] w"

end
