(* ===== verification/Util_Props.thy ===== *)
theory Util_Props
  imports Util Kmodule
begin

text \<open>
  The properties of the option parsing, each with a witness on a small C library.
\<close>

text \<open>A library that always succeeds and counts the descriptors it has given out.\<close>

definition ref_libc :: "int libc" where
  "ref_libc = \<lparr>u_errno = (\<lambda>_. 0), u_set_errno = (\<lambda>_ w. w), u_open = (\<lambda>_ w. (\<bar>w\<bar> + 1, \<bar>w\<bar> + 1)),
     u_close = (\<lambda>_ w. w), u_calloc = (\<lambda>_ _ w. (True, w))\<rparr>"

section \<open>Options and their arguments\<close>

lemma num_arg_print:
  assumes "u_errno U w = 0" "n < 2 ^ 63"
  shows "num_arg U (Some (dec n)) w = Inr (int n, w)"
proof -
  have "int n < int (2 ^ 63)" using assms(2) by (simp only: of_nat_less_iff)
  then have "strtol 10 (dec n) = (int n, True, False)"
    by (intro strtol_print) (simp_all add: LONG_MAX_def)
  then show ?thesis using assms(1) by (simp add: num_arg_def)
qed

lemma num_arg_fault: "num_arg U (Some s) w = Inl e \<Longrightarrow> e = Exited (- 1)"
  by (auto simp: num_arg_def Let_def split: prod.splits if_splits)

definition valid_pci :: "pci_context \<Rightarrow> bool" where
  "valid_pci ctx \<longleftrightarrow> uint (pci_domain_nb ctx) < 0x10000 \<and> uint (pci_bus_nb ctx) < 0x100 \<and>
     uint (pci_device_nb ctx) < 0x20 \<and> uint (pci_func_nb ctx) < 8"

lemmas pci_limits = PCI_DOMAIN_NUMBER_INVALID_def PCI_BUS_NUMBER_INVALID_def
  PCI_DEVICE_NUMBER_INVALID_def PCI_FUNCTION_NUMBER_INVALID_def

definition arg_opts :: "char set" where
  "arg_opts = set ''bdsl''"

lemma parse_opt_fault:
  assumes "parse_opt U (op, optarg) s = Inl e" "op \<in> arg_opts \<Longrightarrow> optarg \<noteq> None"
  shows "e = Exited 0 \<or> e = Exited (- 1)"
  using assms
  by (cases optarg; cases s)
    (auto simp: parse_opt_def arg_opts_def Let_def bindR_Inl_iff dest: num_arg_fault split: if_splits)

lemma parse_opts_fault:
  assumes "foldR (parse_opt U) os s = Inl e" "\<forall>op. (op, None) \<in> set os \<longrightarrow> op \<notin> arg_opts"
  shows "e = Exited 0 \<or> e = Exited (- 1)"
  using assms
proof (induction os arbitrary: s)
  case (Cons o1 os)
  obtain op a where o1: "o1 = (op, a)" by (cases o1)
  show ?case
  proof (cases "parse_opt U (op, a) s")
    case (Inl f)
    then have "f = Exited 0 \<or> f = Exited (- 1)"
      by (rule parse_opt_fault) (use Cons.prems(2) [rule_format, of op] o1 in \<open>cases a; auto\<close>)
    then show ?thesis using Cons.prems(1) o1 Inl by simp
  next
    case (Inr s')
    then have "foldR (parse_opt U) os s' = Inl e" using Cons.prems(1) o1 by simp
    then show ?thesis by (rule Cons.IH) (use Cons.prems(2) in simp)
  qed
qed simp

lemma parse_args_options:
  "(op, None) \<in> set (getopt ''b:d:hr:s:l:v'' argv) \<Longrightarrow> op \<notin> arg_opts"
  by (drule getopt_args) (auto simp: arg_opts_def)

text \<open>
  C28. Whatever the arguments, \<^verbatim>\<open>parse_args\<close> either ends the program with status 0 or -1 or returns a
  context whose numbers are those of a PCI device; it never follows the null \<^verbatim>\<open>optarg\<close> of an option
  without an argument.
\<close>

theorem parse_args_sound:
  "(\<exists>ctx w'. parse_args U fd0 argv w = Inr (ctx, w') \<and> valid_pci ctx) \<or>
   (\<exists>c \<in> {0, - 1}. parse_args U fd0 argv w = Inl (Exited c))"
proof (cases "parse_args U fd0 argv w")
  case (Inr r)
  obtain ctx w' where r: "r = (ctx, w')" by (cases r)
  have "valid_pci ctx"
    using Inr unfolding r by (auto simp: parse_args_def valid_pci_def pci_limits Let_def split: if_splits)
  with Inr r show ?thesis by blast
next
  case (Inl e)
  then have "e = Exited 0 \<or> e = Exited (- 1)"
    unfolding parse_args_def Let_def bindR_Inl_iff
    by (auto split: if_splits dest!: parse_opts_fault parse_args_options)
  with Inl show ?thesis by blast
qed

text \<open>
  C29. The numbers given in decimal are those of the context returned, cut to the width of its fields
  before they are checked: a bus of 65536 or more, a slot of 256 or more and a domain of \<open>2 ^ 32\<close> or
  more pass when the rest is in range, and select another device.
\<close>

theorem parse_args_decimal:
  assumes "u_errno U w = 0" "b < 2 ^ 63" "d < 2 ^ 63" "s < 2 ^ 63" "l < 2 ^ 63"
  shows "parse_args U fd0 [''-b'', dec b, ''-d'', dec d, ''-s'', dec s, ''-l'', dec l] w =
     (if b mod 2 ^ 16 < 256 \<and> d mod 2 ^ 32 < 65536 \<and> s mod 256 < 32
      then Inr (\<lparr>ctx_fd = fd0, pci_domain_nb = of_nat (d mod 2 ^ 32), pci_bus_nb = of_nat (b mod 2 ^ 16),
                  pci_device_nb = of_nat (s mod 256), pci_func_nb = 0, vec_len = of_nat l\<rparr>, w)
      else Inl (Exited (- 1)))"
proof -
  have "getopt ''b:d:hr:s:l:v'' [''-b'', dec b, ''-d'', dec d, ''-s'', dec s, ''-l'', dec l] =
      [(CHR ''b'', Some (dec b)), (CHR ''d'', Some (dec d)), (CHR ''s'', Some (dec s)),
       (CHR ''l'', Some (dec l))]"
    by simp
  moreover have
    "uint (of_nat b :: u16) = int (b mod 2 ^ 16)" "uint (of_nat d :: u32) = int (d mod 2 ^ 32)"
    "uint (of_nat s :: u8) = int (s mod 256)"
    by (simp_all add: unsigned_of_nat take_bit_nat_def flip: uint_nat)
  moreover have
    "(of_nat (b mod 2 ^ 16) :: u16) = of_nat b" "(of_nat (d mod 2 ^ 32) :: u32) = of_nat d"
    "(of_nat (s mod 256) :: u8) = of_nat s"
    by (simp_all add: word_of_nat_eq_iff take_bit_nat_def)
  moreover note num_arg_print [of U w, OF assms(1)]
  ultimately show ?thesis using assms(2-5)
    by (auto simp: parse_args_def parse_opt_def pci_limits simp del: bindR_Inr_iff)
qed

theorem parse_args_decimal_witness:
  "parse_args ref_libc 3 [''-b'', ''65539'', ''-d'', ''0'', ''-s'', ''260'', ''-l'', ''8''] 0 =
     Inr (\<lparr>ctx_fd = 3, pci_domain_nb = 0, pci_bus_nb = 3, pci_device_nb = 4, pci_func_nb = 0, vec_len = 8\<rparr>, 0)"
proof -
  have d: "dec 65539 = ''65539''" "dec 260 = ''260''" "dec 8 = ''8''"
    by (simp_all add: print_base_large print_base_small, code_simp+)
  have "parse_args ref_libc 3 [''-b'', dec 65539, ''-d'', dec 0, ''-s'', dec 260, ''-l'', dec 8] 0 =
     Inr (\<lparr>ctx_fd = 3, pci_domain_nb = 0, pci_bus_nb = 3, pci_device_nb = 4, pci_func_nb = 0, vec_len = 8\<rparr>, 0)"
    by (subst parse_args_decimal) (simp_all add: ref_libc_def)
  then show ?thesis unfolding d print_0 .
qed

text \<open>The decimal digits a hexadecimal number begins with are its decimal form only below ten.\<close>

abbreviation decimal_char :: "char \<Rightarrow> bool" where "decimal_char c \<equiv> c \<in> set ''0123456789''"

lemma decimal_digit_char: "k < 10 \<Longrightarrow> decimal_char (digit_char k)"
proof -
  have "\<forall>k \<in> set [0..<10]. decimal_char (digit_char k)" by code_simp
  then show "k < 10 \<Longrightarrow> ?thesis" by simp
qed

lemma digit_char_inj:
  assumes "a < 16" "b < 16" "digit_char a = digit_char b" shows "a = b"
proof -
  have "digit 16 (digit_char a) = Some a" "digit 16 (digit_char b) = Some b"
    by (rule digit_digit_char, rule assms, simp)+
  then show "a = b" unfolding assms(3) by simp
qed

lemma print_base_nonempty: "print_base b n \<noteq> []"
  by (subst print_base.simps) simp

lemma print_base_snoc:
  assumes "2 \<le> b" "print_base b n = p @ [x]" "p \<noteq> []"
  shows "p = print_base b (n div b)" "x = digit_char (n mod b)" "b \<le> n"
proof -
  show "b \<le> n" using assms by (cases "n < b") (simp_all add: print_base_small)
  from print_base_large [OF assms(1) this] assms(2)
  show "p = print_base b (n div b)" "x = digit_char (n mod b)" by simp_all
qed

lemma print_base_prefix:
  "2 \<le> b \<Longrightarrow> print_base b n = p @ q \<Longrightarrow> p \<noteq> [] \<Longrightarrow> \<exists>m \<le> n. p = print_base b m"
proof (induction q arbitrary: n rule: rev_induct)
  case (snoc x q)
  have "p @ q = print_base b (n div b)" using print_base_snoc(1) [of b n "p @ q" x] snoc.prems by simp
  with snoc.IH [of "n div b"] snoc.prems obtain m where "m \<le> n div b" "p = print_base b m" by auto
  then show ?case using div_le_dividend le_trans by blast
qed auto

lemma dec_is_hex: "dec a = hex b \<Longrightarrow> a < 10 \<or> a < b"
proof (induction a arbitrary: b rule: less_induct)
  case (less a)
  show ?case
  proof (cases "a < 10")
    case large: False
    then have d: "dec a = dec (a div 10) @ [digit_char (a mod 10)]" by (simp add: print_base_large)
    then have h: "hex b = dec (a div 10) @ [digit_char (a mod 10)]" using less.prems by simp
    note s = print_base_snoc [OF _ h print_base_nonempty]
    have m: "a mod 10 = b mod 16" using s(2) digit_char_inj [of "a mod 10" "b mod 16"] by simp
    have "a div 10 < 10 \<and> a div 10 = b div 16 \<or> a div 10 < b div 16"
    proof (cases "a div 10 < 10")
      case True
      then have "hex (b div 16) = [digit_char (a div 10)]" using s(1) by (simp add: print_base_small)
      then have "b div 16 < 16" by (cases "b div 16 < 16") (simp_all add: print_base_large print_base_nonempty)
      then show ?thesis using s(1) True digit_char_inj [of "a div 10" "b div 16"] by (simp add: print_base_small)
    next
      case False
      then show ?thesis using less.IH [of "a div 10" "b div 16"] large s(1) by simp
    qed
    then have "a div 10 \<le> b div 16" "1 \<le> a div 10" using large by auto
    then have "10 * (a div 10) + a mod 10 < 16 * (b div 16) + b mod 16" using m by linarith
    then have "a < b" by simp
    then show ?thesis ..
  qed simp
qed

lemma dec_eq_hex: "dec n = hex n \<longleftrightarrow> n < 10"
  using dec_is_hex [of n n] by (auto simp: print_base_small)

lemma hex_starts_decimal: "takeWhile decimal_char (hex n) = dec n \<longleftrightarrow> n < 10"
proof
  assume e: "takeWhile decimal_char (hex n) = dec n"
  have "hex n = dec n @ dropWhile decimal_char (hex n)"
    unfolding e [symmetric] by (rule takeWhile_dropWhile_id [symmetric])
  from print_base_prefix [OF _ this print_base_nonempty] obtain m where "m \<le> n" "dec n = hex m" by auto
  with dec_is_hex [of n m] show "n < 10" by simp
next
  assume "n < 10"
  then show "takeWhile decimal_char (hex n) = dec n"
    using decimal_digit_char [of n] by (simp add: print_base_small del: list.set)
qed

lemma names_agree:
  assumes "\<not> decimal_char c"
  shows "dec n @ c # xs = hex n @ c # ys \<longleftrightarrow> n < 10 \<and> xs = ys"
proof
  assume e: "dec n @ c # xs = hex n @ c # ys"
  have "\<forall>x \<in> set (dec n). decimal_char x"
    using print_base_digit_chars [of 10 n] decimal_digit_char by force
  then have "takeWhile decimal_char (dec n) = dec n" by (simp add: takeWhile_eq_all_conv del: list.set)
  moreover have "takeWhile decimal_char (dec n @ c # xs) = takeWhile decimal_char (dec n)"
    "takeWhile decimal_char (hex n @ c # ys) = takeWhile decimal_char (hex n)"
    by (rule takeWhile_tail, rule assms)+
  ultimately have "n < 10" using e hex_starts_decimal by metis
  with e show "n < 10 \<and> xs = ys" by (simp add: print_base_small)
qed (auto simp: print_base_small)

lemma length_dec: "0 < k \<Longrightarrow> n < 10 ^ k \<Longrightarrow> length (dec n) \<le> k"
proof (induction k arbitrary: n)
  case (Suc k)
  show ?case
  proof (cases "n < 10")
    case False
    then have "0 < k" using Suc.prems by (cases k) simp_all
    moreover have "n div 10 < 10 ^ k" using Suc.prems by (simp add: less_mult_imp_div_less)
    ultimately show ?thesis using Suc.IH [of "n div 10"] False by (simp add: print_base_large)
  qed (simp add: print_base_small)
qed simp

lemma PCI_numbers: "unat (PCI_SLOT devfn) < 32" "unat (PCI_FUNC devfn) < 8"
proof -
  have "PCI_SLOT devfn \<le> 31" "PCI_FUNC devfn \<le> 7"
    unfolding PCI_SLOT_def PCI_FUNC_def by (simp_all add: word_and_le1)
  then show "unat (PCI_SLOT devfn) < 32" "unat (PCI_FUNC devfn) < 8"
    by (simp_all add: word_le_nat_alt)
qed

text \<open>
  C32. The module names the node of a device with hexadecimal numbers, \<^verbatim>\<open>open_psipe_dev\<close> opens one with
  decimal numbers. For every device, whatever its domain, bus, slot and function, the program that is given
  its numbers opens its node exactly when the domain, the bus and the slot are all below ten.
\<close>

theorem node_names_agree:
  assumes "pci_domain_nb ctx = domain" "unat (pci_bus_nb ctx) = unat bus"
    "unat (pci_device_nb ctx) = unat (PCI_SLOT devfn)" "unat (pci_func_nb ctx) = unat (PCI_FUNC devfn)"
  shows "dev_filename ctx = ''/dev/'' @ the (snd (psipe_devnode m True (device_name domain bus devfn))) \<longleftrightarrow>
     domain < 10 \<and> bus < 10 \<and> PCI_SLOT devfn < 10"
proof -
  let ?n = "unat domain" and ?b = "unat bus" and ?s = "unat (PCI_SLOT devfn)" and ?f = "unat (PCI_FUNC devfn)"
  have l: "length (dec ?n) \<le> 10" "length (dec ?b) \<le> 3" "length (dec ?s) \<le> 2"
    using unsigned_less [of domain, where ?'a = nat] unsigned_less [of bus, where ?'a = nat]
      PCI_numbers(1) [of devfn] by (auto intro!: length_dec)
  have small: "dec ?f = hex ?f" "length (hex ?f) = 1" "hex 0 = ''0''"
    using PCI_numbers(2) [of devfn] by (simp_all add: print_base_small digit_char_def)
  have "dev_filename ctx =
      ''/dev/psipe/d'' @ dec ?n @ CHR ''b'' # dec ?b @ CHR ''d'' # dec ?s @ CHR ''f'' # hex ?f @ ''_bar0''"
    using l small assms by (simp add: dev_filename_def)
  moreover have "the (snd (psipe_devnode m True (device_name domain bus devfn))) =
      ''psipe/d'' @ hex ?n @ CHR ''b'' # hex ?b @ CHR ''d'' # hex ?s @ CHR ''f'' # hex ?f @ ''_bar0''"
    using small by (simp add: psipe_devnode_def device_name_def)
  ultimately show ?thesis by (simp add: names_agree dec_eq_hex word_less_nat_alt)
qed

theorem node_names_agree_witness:
  "dev_filename \<lparr>ctx_fd = 0, pci_domain_nb = 0, pci_bus_nb = 10, pci_device_nb = 3, pci_func_nb = 0,
     vec_len = 0\<rparr> \<noteq> ''/dev/'' @ the (snd (psipe_devnode True True (device_name 0 10 24)))"
  using node_names_agree [of "\<lparr>ctx_fd = 0, pci_domain_nb = 0, pci_bus_nb = 10, pci_device_nb = 3,
      pci_func_nb = 0, vec_len = 0\<rparr>" 0 10 24 True]
  by (simp add: PCI_SLOT_def PCI_FUNC_def)

section \<open>Several devices\<close>

text \<open>A C library none of whose calls fail, and what opening a list of nodes gives.\<close>

definition never_fails :: "'w libc \<Rightarrow> bool" where
  "never_fails U \<longleftrightarrow> (\<forall>w. u_errno U w = 0 \<longrightarrow>
     (\<forall>n k. fst (u_calloc U n k w) \<and> u_errno U (snd (u_calloc U n k w)) = 0) \<and>
     (\<forall>name. 0 \<le> fst (u_open U name w) \<and> u_errno U (snd (u_open U name w)) = 0))"

lemma ref_libc_never_fails: "never_fails ref_libc"
  by (simp add: never_fails_def ref_libc_def)

fun opened :: "'w libc \<Rightarrow> string list \<Rightarrow> 'w \<Rightarrow> int list \<times> 'w" where
  "opened U [] w = ([], w)"
| "opened U (n # ns) w =
     (case u_open U n w of (fd, w) \<Rightarrow> case opened U ns w of (xs, w) \<Rightarrow> (fd # xs, w))"

lemma length_opened [simp]: "length (fst (opened U ns w)) = length ns"
  by (induction ns arbitrary: w) (simp_all add: case_prod_unfold)

lemma opened_errno: "never_fails U \<Longrightarrow> u_errno U w = 0 \<Longrightarrow> u_errno U (snd (opened U ns w)) = 0"
  by (induction ns arbitrary: w) (simp_all add: never_fails_def case_prod_unfold)

lemma u64_of_nat_eq:
  assumes "y < 2 ^ 31" "x < 2 ^ 31" shows "(of_nat x :: u64) = of_nat y \<longleftrightarrow> x = y"
proof
  assume "(of_nat x :: u64) = of_nat y"
  then have "unat (of_nat x :: u64) = unat (of_nat y :: u64)" by simp
  then show "x = y" using assms by (simp add: unat_of_nat_u64)
qed simp

text \<open>The loop over the options that name devices.\<close>

lemma parse_devices:
  assumes "never_fails U" "u_errno U w = 0" "fds ctx = Some (pre @ replicate (length ns) 0 @ post)"
    "fds_len ctx = of_nat (length pre + length ns + length post)"
    "length pre + length ns + length post < 2 ^ 31"
  shows "foldR (parse_multi_opt U) (map (\<lambda>n. (CHR ''d'', Some n)) ns) (ctx, int (length pre), w) =
     Inr (ctx\<lparr>fds := Some (pre @ fst (opened U ns w) @ post)\<rparr>, int (length pre + length ns),
       snd (opened U ns w))"
  using assms(2-)
proof (induction ns arbitrary: pre w ctx)
  case Nil
  then show ?case by simp
next
  case (Cons n ns)
  obtain fd w1 where o: "u_open U n w = (fd, w1)" by (cases "u_open U n w")
  then have ok: "0 \<le> fd" "u_errno U w1 = 0"
    using assms(1) Cons.prems(1) unfolding never_fails_def by (metis fst_conv snd_conv)+
  let ?k = "length pre + length (n # ns) + length post"
  have "(of_nat (length pre) :: u64) \<noteq> of_nat ?k" "(of_nat ?k :: u64) \<noteq> 0"
    using u64_of_nat_eq [of ?k "length pre"] u64_of_nat_eq [of ?k 0] Cons.prems(4) by auto
  then have "parse_multi_opt U (CHR ''d'', Some n) (ctx, int (length pre), w) =
      Inr (ctx\<lparr>fds := Some ((pre @ [fd]) @ replicate (length ns) 0 @ post)\<rparr>,
        int (length (pre @ [fd])), w1)"
    using Cons.prems ok by (simp add: parse_multi_opt_def o)
  moreover have "foldR (parse_multi_opt U) (map (\<lambda>n. (CHR ''d'', Some n)) ns)
      (ctx\<lparr>fds := Some ((pre @ [fd]) @ replicate (length ns) 0 @ post)\<rparr>,
        int (length (pre @ [fd])), w1) =
      Inr (ctx\<lparr>fds := Some ((pre @ [fd]) @ fst (opened U ns w1) @ post)\<rparr>,
        int (length (pre @ [fd]) + length ns), snd (opened U ns w1))"
    by (subst Cons.IH) (use Cons.prems ok in simp_all)
  ultimately show ?case by (simp add: o split: prod.split)
qed

abbreviation dev_words :: "string list \<Rightarrow> string list" where
  "dev_words ns \<equiv> concat (map (\<lambda>n. [''-d'', n]) ns)"

lemma getopt_dev_words:
  "getopt ''n:d:l:h'' (dev_words ns @ ws) =
     map (\<lambda>n. (CHR ''d'', Some n)) ns @ getopt ''n:d:l:h'' ws"
  by (induction ns) simp_all

text \<open>Allocating an array of \<open>k\<close> integers.\<close>

abbreviation calloc :: "'w libc \<Rightarrow> nat \<Rightarrow> 'w \<Rightarrow> 'w" where
  "calloc U k w \<equiv> snd (u_calloc U (of_nat k) 4 w)"

lemma calloc_errno: "never_fails U \<Longrightarrow> u_errno U w = 0 \<Longrightarrow> u_errno U (calloc U k w) = 0"
  by (simp add: never_fails_def)

lemma alloc_opts:
  assumes "never_fails U" "u_errno U w = 0" "k < 2 ^ 31"
  shows "parse_multi_opt U (CHR ''n'', Some (dec k)) (ctx, i, w) =
     Inr (ctx\<lparr>fds_len := of_nat k, fds := Some (replicate k 0)\<rparr>, i, calloc U k w)"
    "parse_multi_opt U (CHR ''l'', Some (dec k)) (ctx, i, w) =
     Inr (ctx\<lparr>mdata_len := of_nat k, mdata := Some (replicate k 0)\<rparr>, i, calloc U k w)"
  using assms num_arg_print [of U w k] unat_of_nat_u64 [of k]
  by (simp_all add: parse_multi_opt_def never_fails_def case_prod_unfold Let_def)

text \<open>The options \<^verbatim>\<open>-n\<close> with the number of devices and \<^verbatim>\<open>-d\<close> for each.\<close>

lemma parse_all_devices:
  assumes "never_fails U" "u_errno U w = 0" "length ns < 2 ^ 31" "ns \<noteq> []"
  shows "foldR (parse_multi_opt U)
       ((CHR ''n'', Some (dec (length ns))) # map (\<lambda>n. (CHR ''d'', Some n)) ns) (ctx, 0, w) =
     Inr (ctx\<lparr>fds_len := of_nat (length ns), fds := Some (fst (opened U ns (calloc U (length ns) w)))\<rparr>,
       int (length ns), snd (opened U ns (calloc U (length ns) w)))"
proof -
  let ?ctx = "ctx\<lparr>fds_len := of_nat (length ns), fds := Some (replicate (length ns) 0)\<rparr>"
  have "foldR (parse_multi_opt U) (map (\<lambda>n. (CHR ''d'', Some n)) ns)
      (?ctx, int (length ([] :: int list)), calloc U (length ns) w) =
    Inr (?ctx\<lparr>fds := Some ([] @ fst (opened U ns (calloc U (length ns) w)) @ [])\<rparr>,
      int (length ([] :: int list) + length ns), snd (opened U ns (calloc U (length ns) w)))"
    by (rule parse_devices) (use assms calloc_errno in auto)
  then show ?thesis using alloc_opts(1) [OF assms(1-3)] by simp
qed

lemma close_all:
  assumes "fds ctx = Some xs" "fds_len ctx = of_nat (length xs)" "length xs < 2 ^ 31"
  shows "free_context_multi U ctx w = Inr (fold (u_close U) xs w)"
proof -
  have "foldR (\<lambda>i w. bindR (load (ys @ zs) i) (\<lambda>fd. Inr (u_close U fd w)))
      (map int [length ys..<length ys + length zs]) w = Inr (fold (u_close U) zs w)"
    for ys zs and w
  proof (induction zs arbitrary: ys w)
    case (Cons z zs)
    have "[length ys..<length ys + length (z # zs)] =
        length ys # [length (ys @ [z])..<length (ys @ [z]) + length zs]"
      by (simp add: upt_conv_Cons del: upt_Suc)
    then show ?case using Cons [of "ys @ [z]"] by (simp del: upt_Suc)
  qed simp
  from this [of "[]" xs w] have
    "foldR (\<lambda>i w. bindR (load xs i) (\<lambda>fd. Inr (u_close U fd w))) (map int [0..<length xs]) w =
      Inr (fold (u_close U) xs w)" by simp
  moreover have "uint (fds_len ctx) = int (length xs)"
    using assms(2,3) by (simp add: unsigned_of_nat take_bit_nat_eq_self flip: uint_nat)
  moreover have "[0..int k - 1] = map int [0..<k]" for k
    by (induction k) (simp_all add: upto_rec2)
  ultimately show ?thesis using assms(1) by (simp add: free_context_multi_def)
qed

text \<open>
  When the library calls succeed, \<^verbatim>\<open>parse_args_multi\<close> with the number of devices, their nodes and
  the number of integers returns the descriptors of the nodes in order, an array of zeros of that
  length, and \<^verbatim>\<open>free_context_multi\<close> closes exactly these descriptors.
\<close>

theorem multi_opens_and_closes:
  assumes "never_fails U" "u_errno U w = 0" "ns \<noteq> []" "length ns < 2 ^ 31" "0 < m" "m < 2 ^ 31"
  shows "\<exists>ctx w'. parse_args_multi U
       ([''-n'', dec (length ns)] @ dev_words ns @ [''-l'', dec m]) w = Inr (ctx, w') \<and>
     fds ctx = Some (fst (opened U ns (calloc U (length ns) w))) \<and> mdata ctx = Some (replicate m 0) \<and>
     (\<forall>v. free_context_multi U ctx v = Inr (fold (u_close U) (fst (opened U ns (calloc U (length ns) w))) v))"
proof -
  let ?w = "calloc U (length ns) w"
  let ?ctx = "\<lparr>fds_len = of_nat (length ns), fds = Some (fst (opened U ns ?w)), mdata_len = of_nat m,
    mdata = Some (replicate m 0)\<rparr>"
  have nz: "(of_nat (length ns) :: u64) \<noteq> 0" "(of_nat m :: u64) \<noteq> 0"
    using u64_of_nat_eq [of 0 "length ns"] u64_of_nat_eq [of 0 m] assms(3-6) by auto
  have "u_errno U (snd (opened U ns ?w)) = 0"
    by (intro opened_errno calloc_errno assms)
  note l = alloc_opts(2) [OF assms(1) this assms(6)]
  have "getopt ''n:d:l:h'' ([''-n'', dec (length ns)] @ dev_words ns @ [''-l'', dec m]) =
      ((CHR ''n'', Some (dec (length ns))) # map (\<lambda>n. (CHR ''d'', Some n)) ns) @
      [(CHR ''l'', Some (dec m))]"
    using getopt_dev_words [of ns "[''-l'', dec m]"] by simp
  then have "parse_args_multi U ([''-n'', dec (length ns)] @ dev_words ns @ [''-l'', dec m]) w =
      Inr (?ctx, calloc U m (snd (opened U ns ?w)))"
    unfolding parse_args_multi_def
    by (simp only: foldR_append parse_all_devices [OF assms(1,2,4,3)] bindR.simps)
      (simp add: l nz)
  moreover have "free_context_multi U ?ctx v = Inr (fold (u_close U) (fst (opened U ns ?w)) v)" for v
    by (rule close_all) (use assms in simp_all)
  ultimately show ?thesis by auto
qed

theorem multi_opens_and_closes_witness:
  "\<exists>ctx w'. parse_args_multi ref_libc ([''-n'', dec 2] @ dev_words [''a'', ''b''] @ [''-l'', dec 4]) 0 =
       Inr (ctx, w') \<and> fds ctx = Some [1, 2] \<and> mdata ctx = Some [0, 0, 0, 0]"
proof -
  have w: "u_errno ref_libc 0 = 0" "[''a'', ''b''] \<noteq> []" "length [''a'', ''b''] < 2 ^ 31"
    "0 < (4 :: nat)" "(4 :: nat) < 2 ^ 31"
    by (simp_all add: ref_libc_def)
  have o: "fst (opened ref_libc [''a'', ''b''] (calloc ref_libc 2 0)) = [1, 2]"
    "replicate 4 0 = [0, 0, 0, 0 :: int]" "length [''a'', ''b''] = 2"
    by (simp_all add: ref_libc_def eval_nat_numeral)
  show ?thesis using multi_opens_and_closes [OF ref_libc_never_fails w] unfolding o by blast
qed

text \<open>
  A second \<^verbatim>\<open>-n\<close> allocates a new array but keeps the position: with a smaller number the next
  \<^verbatim>\<open>-d\<close> is stored behind the array, and with the same number the call succeeds with an array of zeros,
  that is with standard input in place of every device.
\<close>

theorem second_count_breaks_array:
  assumes "never_fails U" "u_errno U w = 0" "ns \<noteq> []" "length ns < 2 ^ 31"
    and "0 < k" "k < length ns" "0 < m" "m < 2 ^ 31"
  shows "parse_args_multi U ([''-n'', dec (length ns)] @ dev_words ns @ [''-n'', dec k, ''-d'', n]) w =
       Inl Out_Of_Bounds \<and>
     (\<exists>ctx w'. parse_args_multi U
        ([''-n'', dec (length ns)] @ dev_words ns @ [''-n'', dec (length ns), ''-l'', dec m]) w =
          Inr (ctx, w') \<and> fds ctx = Some (replicate (length ns) 0))"
proof -
  let ?w = "calloc U (length ns) w"
  have nz: "(of_nat (length ns) :: u64) \<noteq> 0" "(of_nat m :: u64) \<noteq> 0" "(of_nat k :: u64) \<noteq> 0"
    "(of_nat (length ns) :: u64) \<noteq> of_nat k"
    using u64_of_nat_eq [of 0 "length ns"] u64_of_nat_eq [of 0 m] u64_of_nat_eq [of 0 k]
      u64_of_nat_eq [of k "length ns"] assms(3-8) by auto
  have e: "u_errno U (snd (opened U ns ?w)) = 0"
    by (intro opened_errno calloc_errno assms)
  have k: "k < 2 ^ 31" using assms by simp
  have g: "getopt ''n:d:l:h'' ([''-n'', dec (length ns)] @ dev_words ns @ ws) =
      ((CHR ''n'', Some (dec (length ns))) # map (\<lambda>n. (CHR ''d'', Some n)) ns) @
      getopt ''n:d:l:h'' ws" for ws
    using getopt_dev_words [of ns ws] by simp
  have oob: "parse_multi_opt U (CHR ''d'', Some n)
      (\<lparr>fds_len = of_nat k, fds = Some (replicate k 0), mdata_len = a, mdata = b\<rparr>, int (length ns), v) =
        Inl Out_Of_Bounds" for a b v
    using nz assms(6) by (simp add: parse_multi_opt_def store_def split: prod.split)
  have "parse_args_multi U ([''-n'', dec (length ns)] @ dev_words ns @ [''-n'', dec k, ''-d'', n]) w =
      Inl Out_Of_Bounds"
    unfolding parse_args_multi_def g foldR_append
    by (simp only: parse_all_devices [OF assms(1,2,4,3)] bindR.simps)
      (simp add: alloc_opts(1) [OF assms(1) e k] oob)
  moreover have "parse_args_multi U
        ([''-n'', dec (length ns)] @ dev_words ns @ [''-n'', dec (length ns), ''-l'', dec m]) w =
      Inr (\<lparr>fds_len = of_nat (length ns), fds = Some (replicate (length ns) 0), mdata_len = of_nat m,
        mdata = Some (replicate m 0)\<rparr>, calloc U m (calloc U (length ns) (snd (opened U ns ?w))))"
    unfolding parse_args_multi_def g foldR_append
    by (simp only: parse_all_devices [OF assms(1,2,4,3)] bindR.simps)
      (simp add: alloc_opts(1) [OF assms(1) e assms(4)]
        alloc_opts(2) [OF assms(1) calloc_errno [OF assms(1) e] assms(8)] nz)
  ultimately show ?thesis by auto
qed

theorem second_count_breaks_array_witness:
  "parse_args_multi ref_libc
     ([''-n'', dec 2] @ dev_words [''a'', ''b''] @ [''-n'', dec 1, ''-d'', ''c'']) 0 = Inl Out_Of_Bounds"
proof -
  have w: "u_errno ref_libc 0 = 0" "[''a'', ''b''] \<noteq> []" "length [''a'', ''b''] < 2 ^ 31"
    "0 < (1 :: nat)" "1 < length [''a'', ''b'']" "0 < (4 :: nat)" "(4 :: nat) < 2 ^ 31"
    by (simp_all add: ref_libc_def)
  have o: "length [''a'', ''b''] = 2" by simp
  show ?thesis
    using second_count_breaks_array [OF ref_libc_never_fails w, of "''c''"] unfolding o by blast
qed

end
