(* ===== verification/Oldprogs.thy ===== *)
theory Oldprogs
  imports Util
begin

text \<open>
  The programs from before the wrappers: an array of integers goes to a device and comes back
  (src/src/sw/userspace/master0.c, chiplet0.c), and the same with several devices (master1.c,
  chiplet1.c). The ioctl commands they use are defined nowhere in the repository, so the commands
  and what they do are parameters, as the C library is. Timing and messages are left out, except
  the number of errors the master prints.
\<close>

section \<open>The device\<close>

text \<open>The array the programs work on; \<open>None\<close> is the null pointer.\<close>

type_synonym buffer = "int list option"

text \<open>
  The four commands, and \<^verbatim>\<open>ioctl\<close> with and without a pointer to a \<^verbatim>\<open>struct psipe_data\<close>: its length
  in bytes and the array its address names, which the device may change at any time up to the next
  call's return.
\<close>

record 'w old_io =
  psipe_IOCTL_ASEND :: u32
  psipe_IOCTL_WAIT :: u32
  PSIPE_IOCTL_ARECV :: u32
  PSIPE_IOCTL_RETURN :: u32
  ioctl_data :: "int \<Rightarrow> u32 \<Rightarrow> u64 \<Rightarrow> buffer \<Rightarrow> 'w \<Rightarrow> int \<times> buffer \<times> 'w"
  ioctl_plain :: "int \<Rightarrow> u32 \<Rightarrow> buffer \<Rightarrow> 'w \<Rightarrow> int \<times> buffer \<times> 'w"

text \<open>
  The values of an \<^verbatim>\<open>int\<close> counter in a loop with an \<^verbatim>\<open>unsigned long\<close> bound: after \<open>2 ^ 31 - 1\<close> it is
  negative, which the comparison takes for a huge number.
\<close>

definition int_below :: "u64 \<Rightarrow> int list" where
  "int_below n = map int [0..<min (unat n) (2 ^ 31)]"

section \<open>The chiplet's side\<close>

definition fill_ints :: "u64 \<Rightarrow> buffer \<Rightarrow> buffer res" where
  "fill_ints len = foldR (\<lambda>i data. case data of
       None \<Rightarrow> Inl Null_Pointer
     | Some xs \<Rightarrow> bindR (store xs i i) (\<lambda>xs. Inr (Some xs))) (int_below (len div 4))"

definition handle_work ::
    "'w old_io \<Rightarrow> int \<Rightarrow> u64 \<Rightarrow> buffer \<Rightarrow> 'w \<Rightarrow> (int \<times> buffer \<times> 'w) res" where
  "handle_work D fd len data w =
     (case ioctl_data D fd (PSIPE_IOCTL_ARECV D) len data w of (r, data, w) \<Rightarrow>
        if r < 0 then Inr (- 1, data, w)
        else bindR (fill_ints len data) (\<lambda>data.
          case ioctl_plain D fd (PSIPE_IOCTL_RETURN D) data w of (r, data, w) \<Rightarrow>
            Inr (if r < 0 then - 1 else 0, data, w)))"

definition chiplet0_main :: "'w libc \<Rightarrow> 'w old_io \<Rightarrow> int \<Rightarrow> string list \<Rightarrow> 'w \<Rightarrow> (int \<times> 'w) res" where
  "chiplet0_main U D fd0 argv w =
     bindR (parse_args U fd0 argv w) (\<lambda>(ctx, w).
       if vec_len ctx = 0 then Inr (- 1, w)
       else case open_psipe_dev U ctx w of (fd, ctx, w) \<Rightarrow>
         if fd < 0 then Inr (- 2, w)
         else case u_calloc U (vec_len ctx) 4 w of (ok, w) \<Rightarrow>
           if \<not> ok then Inr (- 3, u_close U (ctx_fd ctx) w)
           else bindR (handle_work D (ctx_fd ctx) (vec_len ctx * 4)
                         (Some (replicate (unat (vec_len ctx)) 0)) w) (\<lambda>(r, data, w).
             Inr (if r \<noteq> 0 then - 4 else 0, u_close U (ctx_fd ctx) w)))"

section \<open>The master's side\<close>

text \<open>The two commands for one device, up to the check of the second.\<close>

definition send_and_wait ::
    "'w old_io \<Rightarrow> int \<Rightarrow> u64 \<Rightarrow> buffer \<Rightarrow> 'w \<Rightarrow> int \<times> buffer \<times> 'w" where
  "send_and_wait D fd len data w =
     (case ioctl_data D fd (psipe_IOCTL_ASEND D) len data w of (r, data, w) \<Rightarrow>
        if r < 0 then (- 1, data, w)
        else case ioctl_plain D fd (psipe_IOCTL_WAIT D) data w of (r, data, w) \<Rightarrow>
          (if r < 0 then - 1 else 0, data, w))"

definition count_errors :: "u64 \<Rightarrow> buffer \<Rightarrow> int res" where
  "count_errors len data = foldR (\<lambda>i errcnt. case data of
       None \<Rightarrow> Inl Null_Pointer
     | Some xs \<Rightarrow> bindR (load xs i) (\<lambda>x. Inr (if x \<noteq> i then s32 (errcnt + 1) else errcnt)))
     (int_below (len div 4)) 0"

text \<open>The result comes with the number of errors printed, if it came to that.\<close>

definition offload_work ::
    "'w old_io \<Rightarrow> int \<Rightarrow> u64 \<Rightarrow> buffer \<Rightarrow> 'w \<Rightarrow> (int \<times> int option \<times> 'w) res" where
  "offload_work D fd len data w =
     (case send_and_wait D fd len data w of (r, data, w) \<Rightarrow>
        if r < 0 then Inr (- 1, None, w)
        else bindR (count_errors len data) (\<lambda>errcnt. Inr (0, Some errcnt, w)))"

text \<open>When \<^verbatim>\<open>calloc\<close> fails the descriptor is not closed.\<close>

definition master0_main ::
    "'w libc \<Rightarrow> 'w old_io \<Rightarrow> int \<Rightarrow> string list \<Rightarrow> 'w \<Rightarrow> (int \<times> int option \<times> 'w) res" where
  "master0_main U D fd0 argv w =
     bindR (parse_args U fd0 argv w) (\<lambda>(ctx, w).
       if vec_len ctx = 0 then Inr (- 1, None, w)
       else case open_psipe_dev U ctx w of (fd, ctx, w) \<Rightarrow>
         if fd < 0 then Inr (- 2, None, w)
         else case u_calloc U (vec_len ctx) 4 w of (ok, w) \<Rightarrow>
           if \<not> ok then Inr (- 3, None, w)
           else bindR (offload_work D (ctx_fd ctx) (vec_len ctx * 4)
                         (Some (replicate (unat (vec_len ctx)) 0)) w) (\<lambda>(r, errs, w).
             Inr (if r \<noteq> 0 then - 4 else 0, errs, u_close U (ctx_fd ctx) w)))"

section \<open>Several devices\<close>

definition fd_at :: "context_multi \<Rightarrow> int \<Rightarrow> int res" where
  "fd_at ctx i = (case fds ctx of None \<Rightarrow> Inl Null_Pointer | Some a \<Rightarrow> load a i)"

text \<open>The loops over the devices, which end with the first that fails.\<close>

fun handle_devices ::
    "'w old_io \<Rightarrow> context_multi \<Rightarrow> u64 \<Rightarrow> int list \<Rightarrow> buffer \<Rightarrow> 'w \<Rightarrow> (int \<times> buffer \<times> 'w) res" where
  "handle_devices D ctx len [] data w = Inr (0, data, w)"
| "handle_devices D ctx len (i # is) data w =
     bindR (fd_at ctx i) (\<lambda>fd. bindR (handle_work D fd len data w) (\<lambda>(r, data, w).
       if r < 0 then Inr (- 1, data, w) else handle_devices D ctx len is data w))"

definition handle_work_multi ::
    "'w old_io \<Rightarrow> context_multi \<Rightarrow> 'w \<Rightarrow> (int \<times> buffer \<times> 'w) res" where
  "handle_work_multi D ctx w =
     handle_devices D ctx (mdata_len ctx * 4) (int_below (fds_len ctx)) (mdata ctx) w"

fun send_devices ::
    "'w old_io \<Rightarrow> context_multi \<Rightarrow> u64 \<Rightarrow> int list \<Rightarrow> buffer \<Rightarrow> 'w \<Rightarrow> (int \<times> buffer \<times> 'w) res" where
  "send_devices D ctx len [] data w = Inr (0, data, w)"
| "send_devices D ctx len (i # is) data w =
     bindR (fd_at ctx i) (\<lambda>fd. case send_and_wait D fd len data w of (r, data, w) \<Rightarrow>
       if r < 0 then Inr (- 1, data, w) else send_devices D ctx len is data w)"

definition offload_work_multi ::
    "'w old_io \<Rightarrow> context_multi \<Rightarrow> 'w \<Rightarrow> (int \<times> int option \<times> 'w) res" where
  "offload_work_multi D ctx w =
     bindR (send_devices D ctx (mdata_len ctx * 4) (int_below (fds_len ctx)) (mdata ctx) w)
       (\<lambda>(r, data, w). if r < 0 then Inr (- 1, None, w)
         else bindR (count_errors (mdata_len ctx * 4) data) (\<lambda>errcnt. Inr (0, Some errcnt, w)))"

definition chiplet1_main :: "'w libc \<Rightarrow> 'w old_io \<Rightarrow> string list \<Rightarrow> 'w \<Rightarrow> (int \<times> 'w) res" where
  "chiplet1_main U D argv w =
     bindR (parse_args_multi U argv w) (\<lambda>(ctx, w).
       bindR (handle_work_multi D ctx w) (\<lambda>(r, data, w).
         bindR (free_context_multi U ctx w) (\<lambda>w. Inr (if r \<noteq> 0 then - 4 else 0, w))))"

definition master1_main :: "'w libc \<Rightarrow> 'w old_io \<Rightarrow> string list \<Rightarrow> 'w \<Rightarrow> (int \<times> int option \<times> 'w) res" where
  "master1_main U D argv w =
     bindR (parse_args_multi U argv w) (\<lambda>(ctx, w).
       bindR (offload_work_multi D ctx w) (\<lambda>(r, errs, w).
         bindR (free_context_multi U ctx w) (\<lambda>w. Inr (if r \<noteq> 0 then - 4 else 0, errs, w))))"

end
