(* ===== verification/Old_Props.thy ===== *)
theory Old_Props
  imports Oldprogs
begin

text \<open>
  The properties of the programs of theory Oldprogs, each with a witness.
\<close>

section \<open>The loops\<close>

lemma int_below_len:
  assumes "n < 2 ^ 31" shows "int_below ((of_nat n * 4) div 4) = map int [0..<n]"
proof -
  have "n * 4 < 2 ^ 64" "n < 2 ^ 64" using assms by simp_all
  then have "unat ((of_nat n * 4 :: u64) div 4) = n"
    using unat_of_nat_u64 [of "n * 4"] by (simp add: unat_div_distrib)
  then show ?thesis using assms by (simp add: int_below_def min_def)
qed

lemma foldR_Some:
  "foldR (\<lambda>i data. case data of None \<Rightarrow> Inl e | Some xs \<Rightarrow> bindR (f i xs) (\<lambda>xs. Inr (Some xs))) is (Some s) =
     bindR (foldR f is s) (\<lambda>s. Inr (Some s))"
proof (induction "is" arbitrary: s)
  case (Cons i "is")
  then show ?case by (cases "f i s") simp_all
qed simp

lemma fill_ints_ok:
  assumes "n < 2 ^ 31" "length xs = n"
  shows "fill_ints (of_nat n * 4) (Some xs) = Inr (Some (map int [0..<n]))"
  using fill [OF assms(2) order_refl, of int] assms(2)
  by (simp add: fill_ints_def int_below_len [OF assms(1)] foldR_Some foldR_map)

definition wrong_cells :: "int list \<Rightarrow> nat list" where
  "wrong_cells xs = filter (\<lambda>i. xs ! i \<noteq> int i) [0..<length xs]"

lemma count_errors_ok:
  assumes "n < 2 ^ 31" "length xs = n"
  shows "count_errors (of_nat n * 4) (Some xs) = Inr (int (length (wrong_cells xs)))"
proof -
  let ?f = "\<lambda>i e. bindR (load xs (int i)) (\<lambda>x. Inr (if x \<noteq> int i then s32 (e + 1) else e))"
  have "foldR ?f [0..<k] 0 = Inr (int (length (filter (\<lambda>i. xs ! i \<noteq> int i) [0..<k])))"
    if "k \<le> n" for k
    using that
  proof (induction k)
    case (Suc k)
    have "length (filter (\<lambda>i. xs ! i \<noteq> int i) [0..<k]) \<le> k"
      using length_filter_le [of "\<lambda>i. xs ! i \<noteq> int i" "[0..<k]"] by simp
    then have "s32 (int (length (filter (\<lambda>i. xs ! i \<noteq> int i) [0..<k])) + 1) =
        int (length (filter (\<lambda>i. xs ! i \<noteq> int i) [0..<k])) + 1"
      using assms(1) Suc.prems by (intro s32_id) simp_all
    then show ?case using Suc assms(2) by (simp add: foldR_append)
  qed simp
  then show ?thesis
    using assms by (simp add: count_errors_def int_below_len foldR_map wrong_cells_def)
qed

section \<open>A chiplet and its master\<close>

text \<open>The arguments are good, the device opens and there is memory for \<open>n\<close> integers.\<close>

definition old_ready ::
    "'w libc \<Rightarrow> int \<Rightarrow> string list \<Rightarrow> 'w \<Rightarrow> nat \<Rightarrow> int \<Rightarrow> 'w \<Rightarrow> bool" where
  "old_ready U fd0 argv w n fd w' \<longleftrightarrow> 0 < n \<and> n < 2 ^ 31 \<and> 0 \<le> fd \<and>
     (\<exists>ctx w1 ctx' w2. parse_args U fd0 argv w = Inr (ctx, w1) \<and> vec_len ctx = of_nat n \<and>
        open_psipe_dev U ctx w1 = (fd, ctx', w2) \<and> u_calloc U (of_nat n) 4 w2 = (True, w'))"

lemma opened_ctx:
  "open_psipe_dev U ctx w = (fd, ctx', w') \<Longrightarrow> ctx_fd ctx' = fd \<and> vec_len ctx' = vec_len ctx"
  by (auto simp: open_psipe_dev_def Let_def split: prod.splits)

lemma ready_runs:
  assumes "old_ready U fd0 argv w n fd w'"
  shows "chiplet0_main U D fd0 argv w = bindR (handle_work D fd (of_nat n * 4) (Some (replicate n 0)) w')
       (\<lambda>(r, data, w). Inr (if r \<noteq> 0 then - 4 else 0, u_close U fd w))"
    "master0_main U D fd0 argv w = bindR (offload_work D fd (of_nat n * 4) (Some (replicate n 0)) w')
       (\<lambda>(r, errs, w). Inr (if r \<noteq> 0 then - 4 else 0, errs, u_close U fd w))"
proof -
  have n: "(of_nat n :: u64) \<noteq> 0" "unat (of_nat n :: u64) = n"
    using assms unat_of_nat_u64 [of n] by (auto simp: old_ready_def)
  obtain ctx w1 ctx' w2 where c: "parse_args U fd0 argv w = Inr (ctx, w1)" "vec_len ctx = of_nat n"
    "open_psipe_dev U ctx w1 = (fd, ctx', w2)" "u_calloc U (of_nat n) 4 w2 = (True, w')" "0 \<le> fd"
    using assms by (auto simp: old_ready_def)
  show "chiplet0_main U D fd0 argv w = bindR (handle_work D fd (of_nat n * 4) (Some (replicate n 0)) w')
       (\<lambda>(r, data, w). Inr (if r \<noteq> 0 then - 4 else 0, u_close U fd w))"
    "master0_main U D fd0 argv w = bindR (offload_work D fd (of_nat n * 4) (Some (replicate n 0)) w')
       (\<lambda>(r, errs, w). Inr (if r \<noteq> 0 then - 4 else 0, errs, u_close U fd w))"
    using c n opened_ctx [OF c(3)] by (simp_all add: chiplet0_main_def master0_main_def)
qed

text \<open>
  What programs 0 do with their array, whatever the ioctls do, as nothing says what they are: when they
  have received one, chiplet 0 hands back the array of the indices; master 0 counts the cells of its array
  that are not their index after the wait. Both close the device, and the result tells whether the last
  ioctl failed.
\<close>

lemma old_programs_results:
  assumes "old_ready U fd0 argv w n fd w'"
  shows "\<lbrakk>ioctl_data D fd (PSIPE_IOCTL_ARECV D) (of_nat n * 4) (Some (replicate n 0)) w' = (r, Some xs, w1);
      0 \<le> r; length xs = n;
      ioctl_plain D fd (PSIPE_IOCTL_RETURN D) (Some (map int [0..<n])) w1 = (r', data, w2)\<rbrakk> \<Longrightarrow>
      chiplet0_main U D fd0 argv w = Inr (if r' < 0 then - 4 else 0, u_close U fd w2)"
    and "\<lbrakk>ioctl_data D fd (psipe_IOCTL_ASEND D) (of_nat n * 4) (Some (replicate n 0)) w' = (r, data, w1);
      0 \<le> r; ioctl_plain D fd (psipe_IOCTL_WAIT D) data w1 = (r', Some xs, w2); 0 \<le> r'; length xs = n\<rbrakk> \<Longrightarrow>
      master0_main U D fd0 argv w = Inr (0, Some (int (length (wrong_cells xs))), u_close U fd w2)"
proof -
  have n: "n < 2 ^ 31" using assms by (simp add: old_ready_def)
  assume "ioctl_data D fd (PSIPE_IOCTL_ARECV D) (of_nat n * 4) (Some (replicate n 0)) w' = (r, Some xs, w1)"
    "0 \<le> r" "length xs = n" "ioctl_plain D fd (PSIPE_IOCTL_RETURN D) (Some (map int [0..<n])) w1 = (r', data, w2)"
  then show "chiplet0_main U D fd0 argv w = Inr (if r' < 0 then - 4 else 0, u_close U fd w2)"
    using fill_ints_ok [OF n] by (simp add: ready_runs [OF assms] handle_work_def)
next
  have n: "n < 2 ^ 31" using assms by (simp add: old_ready_def)
  assume "ioctl_data D fd (psipe_IOCTL_ASEND D) (of_nat n * 4) (Some (replicate n 0)) w' = (r, data, w1)"
    "0 \<le> r" "ioctl_plain D fd (psipe_IOCTL_WAIT D) data w1 = (r', Some xs, w2)" "0 \<le> r'" "length xs = n"
  then show "master0_main U D fd0 argv w = Inr (0, Some (int (length (wrong_cells xs))), u_close U fd w2)"
    using count_errors_ok [OF n] by (simp add: ready_runs [OF assms] offload_work_def send_and_wait_def)
qed

section \<open>Descriptors\<close>

text \<open>
  The open descriptors \<open>V\<close> of the process: \<^verbatim>\<open>open\<close> gives a new one or an error, \<^verbatim>\<open>close\<close> takes one
  away, nothing else changes them.
\<close>

definition tracks_fds :: "'w libc \<Rightarrow> 'w old_io \<Rightarrow> ('w \<Rightarrow> int set) \<Rightarrow> bool" where
  "tracks_fds U D V \<longleftrightarrow> (\<forall>w. \<forall>fd \<in> V w. 0 \<le> fd) \<and>
     (\<forall>n w fd w'. u_open U n w = (fd, w') \<longrightarrow>
        (if fd < 0 then V w' = V w else fd \<notin> V w \<and> V w' = insert fd (V w))) \<and>
     (\<forall>fd w. V (u_close U fd w) = V w - {fd}) \<and>
     (\<forall>a b w. V (snd (u_calloc U a b w)) = V w) \<and> (\<forall>e w. V (u_set_errno U e w) = V w) \<and>
     (\<forall>fd c l b w. V (snd (snd (ioctl_data D fd c l b w))) = V w) \<and>
     (\<forall>fd c b w. V (snd (snd (ioctl_plain D fd c b w))) = V w)"

lemma tracks_simps:
  assumes "tracks_fds U D V"
  shows "u_calloc U a b w = (ok, w') \<Longrightarrow> V w' = V w"
    "ioctl_data D fd c l data w = (r, data', w') \<Longrightarrow> V w' = V w"
    "ioctl_plain D fd c data w = (r, data', w') \<Longrightarrow> V w' = V w"
    "V (u_close U fd w) = V w - {fd}" "V (u_set_errno U e w) = V w"
proof -
  note t = assms [unfolded tracks_fds_def]
  show "u_calloc U a b w = (ok, w') \<Longrightarrow> V w' = V w" using t by (metis snd_conv)
  show "ioctl_data D fd c l data w = (r, data', w') \<Longrightarrow> V w' = V w" using t by (metis snd_conv)
  show "ioctl_plain D fd c data w = (r, data', w') \<Longrightarrow> V w' = V w" using t by (metis snd_conv)
  show "V (u_close U fd w) = V w - {fd}" "V (u_set_errno U e w) = V w" using t by simp_all
qed

lemma num_arg_fds:
  "tracks_fds U D V \<Longrightarrow> V w = S \<Longrightarrow> keeps UNIV (\<lambda>(_, w'). V w' = S) (num_arg U a w)"
  by (auto simp: num_arg_def Let_def tracks_simps(5) split: option.splits prod.splits)

lemma parse_args_fds:
  assumes t: "tracks_fds U D V"
  shows "keeps UNIV (\<lambda>(_, w'). V w' = V w) (parse_args U fd0 argv w)"
proof -
  have o: "keeps UNIV (\<lambda>(_, w'). V w' = S) (parse_opt U o1 (ctx, w))" if "V w = S" for o1 ctx w S
    by (cases o1) (auto simp: parse_opt_def Let_def intro!: keeps_if keeps_bind2 [OF num_arg_fds [OF t that]])
  have "keeps UNIV (\<lambda>(_, w'). V w' = V w) (foldR (parse_opt U) os (ctx, w))" for os ctx
    by (rule keeps_foldR) (auto intro: o)
  then show ?thesis unfolding parse_args_def Let_def by (rule keeps_bind2) simp
qed

lemma open_fds:
  assumes t: "tracks_fds U D V" and o: "open_psipe_dev U ctx w = (fd, ctx', w')"
  shows "fd < 0 \<Longrightarrow> V w' = V w" "\<not> fd < 0 \<Longrightarrow> fd \<notin> V w \<and> V w' = insert fd (V w)"
proof -
  obtain w1 where w1: "u_open U (dev_filename ctx) w = (fd, w1)"
    "w' = (if fd = - 1 then u_close U fd w1 else w1)"
    using o by (auto simp: open_psipe_dev_def Let_def split: prod.splits)
  have p: "if fd < 0 then V w1 = V w else fd \<notin> V w \<and> V w1 = insert fd (V w)" "- 1 \<notin> V w"
    using t w1(1) by (force simp: tracks_fds_def)+
  show "fd < 0 \<Longrightarrow> V w' = V w" "\<not> fd < 0 \<Longrightarrow> fd \<notin> V w \<and> V w' = insert fd (V w)"
    using p w1(2) tracks_simps(4) [OF t, of fd w1] by (auto split: if_splits)
qed

lemma work_fds:
  assumes "tracks_fds U D V" "V w = S"
  shows "keeps UNIV (\<lambda>(_, _, w'). V w' = S) (handle_work D fd len data w)"
    "keeps UNIV (\<lambda>(_, _, w'). V w' = S) (offload_work D fd len data w)"
  using assms(2)
  by (auto simp: handle_work_def offload_work_def send_and_wait_def split: prod.splits
      dest!: tracks_simps(2,3) [OF assms(1)] intro!: keeps_bind [where Q = "\<lambda>_. True"])
    (auto simp: keeps_def split: sum.splits)

text \<open>
  C35. However the library, the device and the arguments behave, both programs 0 close the device they
  have opened before they end, with one exception: the master, when there is no memory for the array.
\<close>

theorem old_descriptors_closed:
  assumes "tracks_fds U D V"
  shows "(chiplet0_main U D fd0 argv w = Inr (r, w') \<longrightarrow> V w' = V w) \<and>
     (master0_main U D fd0 argv w = Inr (r, errs, w') \<longrightarrow>
        (if r = - 3 then \<exists>fd. fd \<notin> V w \<and> V w' = insert fd (V w) else V w' = V w))"
proof -
  obtain y where p: "parse_args U fd0 argv w = y" by simp
  show ?thesis
  proof (cases y)
    case (Inr x)
    obtain ctx w1 where x: "x = (ctx, w1)" by (cases x)
    have v1: "V w1 = V w" using parse_args_fds [OF assms, of w fd0 argv] p Inr x by simp
    obtain fd ctx' w2 where o: "open_psipe_dev U ctx w1 = (fd, ctx', w2)" by (metis prod_cases3)
    obtain ok w3 where c: "u_calloc U (vec_len ctx) 4 w2 = (ok, w3)" by (metis surj_pair)
    note v2 = open_fds [OF assms o] and v3 = tracks_simps(1) [OF assms c] and f = opened_ctx [OF o]
    note h = keepsD(1) [OF work_fds(1) [OF assms refl]] keepsD(1) [OF work_fds(2) [OF assms refl]]
    show ?thesis
      using v1 v2 v3 o c f p Inr x
      by (auto simp: chiplet0_main_def master0_main_def tracks_simps(4) [OF assms] split: if_splits dest!: h)
  qed (simp_all add: p chiplet0_main_def master0_main_def)
qed

text \<open>A library that keeps a list of descriptors, and has no memory.\<close>

definition old_argv :: "string list" where
  "old_argv = [''-b'', ''0'', ''-s'', ''3'', ''-l'', ''3'']"

definition poor_libc :: "nat list libc" where
  "poor_libc = \<lparr>u_errno = (\<lambda>_. 0), u_set_errno = (\<lambda>_ w. w),
     u_open = (\<lambda>_ w. (int (Suc (sum_list w)), Suc (sum_list w) # w)),
     u_close = (\<lambda>fd. filter (\<lambda>x. int x \<noteq> fd)), u_calloc = (\<lambda>_ _ w. (False, w))\<rparr>"

definition no_dev :: "nat list old_io" where
  "no_dev = \<lparr>psipe_IOCTL_ASEND = 1, psipe_IOCTL_WAIT = 2, PSIPE_IOCTL_ARECV = 3, PSIPE_IOCTL_RETURN = 4,
     ioctl_data = (\<lambda>fd c l b w. (- 1, b, w)), ioctl_plain = (\<lambda>fd c b w. (- 1, b, w))\<rparr>"

lemma poor_tracks: "tracks_fds poor_libc no_dev (\<lambda>w. int ` set w)"
proof -
  have "1 + int (sum_list w) \<noteq> int x" if "x \<in> set w" for w x
    using member_le_sum_list [OF that] by simp
  then show ?thesis by (auto simp: tracks_fds_def poor_libc_def no_dev_def)
qed

theorem old_descriptors_closed_witness:
  "\<exists>fd r errs w'. master0_main poor_libc no_dev 0 old_argv [0, 1, 2] = Inr (r, errs, w') \<and> r = - 3 \<and>
     int ` set w' = insert fd (int ` set [0, 1, 2])"
proof -
  have "master0_main poor_libc no_dev 0 old_argv [0, 1, 2] = Inr (- 3, None, [4, 0, 1, 2])"
    by code_simp
  with old_descriptors_closed [OF poor_tracks] show ?thesis by fastforce
qed

section \<open>One device among several\<close>

text \<open>
  With one device, programs 1 do to it exactly what programs 0 do.
\<close>

lemma handle_work_result: "keeps UNIV (\<lambda>(r, _). r = - 1 \<or> r = 0) (handle_work D fd len data w)"
  by (auto simp: handle_work_def split: prod.splits intro!: keeps_bind [where Q = "\<lambda>_. True"])
    (auto simp: keeps_def split: sum.splits)

theorem one_device_same:
  assumes "fds_len ctx = 1" "fds ctx = Some [fd]"
  shows "handle_work_multi D ctx w = handle_work D fd (mdata_len ctx * 4) (mdata ctx) w \<and>
     offload_work_multi D ctx w = offload_work D fd (mdata_len ctx * 4) (mdata ctx) w"
proof -
  have i: "int_below 1 = [0]" by (simp add: int_below_def)
  have l: "fd_at ctx 0 = Inr fd" by (simp add: fd_at_def assms load_def)
  have "handle_devices D ctx len [0] data w = handle_work D fd len data w" for len data w
    by (cases "handle_work D fd len data w") (use handle_work_result [of D fd len data w] in \<open>auto simp: l\<close>)
  moreover have "send_devices D ctx len [0] data w = Inr (send_and_wait D fd len data w)" for len data w
    by (auto simp: l send_and_wait_def split: prod.splits)
  ultimately show ?thesis
    unfolding handle_work_multi_def offload_work_multi_def offload_work_def assms(1) i
    by (simp del: handle_devices.simps send_devices.simps split: prod.splits)
qed

end
