(* ===== verification/Machine.thy ===== *)
theory Machine
  imports Ksteps Dev_Steps
begin

text \<open>
  One machine as it runs: the kernel module on top of the device, from the device's set-up and the
  module's on. \<open>bus_invariant\<close> is what the module, which reaches the device through two register
  functions only, can be relied on: whatever these keep, it keeps. Theory Dev_Steps provides the
  invariant, so that the reachable states of the machine have both.
\<close>

section \<open>What the registers keep, the module keeps\<close>

locale bus_invariant =
  fixes B :: "'d bus"
    and P :: "'d \<Rightarrow> bool"
  assumes write_keeps: "P d \<Longrightarrow> keeps UNIV P (iowrite32 B d a x)"
    and read_keeps: "P d \<Longrightarrow> keeps UNIV (\<lambda>(_, t). P t) (ioread32 B d a)"
begin

lemmas registers = write_keeps keeps_bind [OF write_keeps] keeps_bind2 [OF read_keeps]

lemma setup_keeps: "P d \<Longrightarrow> keeps UNIV (\<lambda>(_, t). P t) (psipe_dma_write_setup B d m k dir)"
  unfolding psipe_dma_write_setup_def Let_def by (rule registers) auto

lemma handles_keep: "P d \<Longrightarrow> keeps UNIV P (write_handles B d ofs hs)"
  by (induction hs arbitrary: d ofs) (auto intro!: registers)

lemma ring_keeps: "P d \<Longrightarrow> keeps UNIV (\<lambda>(_, t, _). P t) (map_and_ring L B d tr m)"
  unfolding map_and_ring_def psipe_dma_write_maps_def psipe_dma_doorbell_ring_def
  by (auto split: prod.splits intro!: registers keeps_bind [where Q = P] handles_keep)

lemma run_keeps: "P d \<Longrightarrow> keeps UNIV (\<lambda>(_, t, _). P t) (run_ioctl_fn f L B d tr m)"
  by (cases f) (auto simp: psipe_ioctl_send_def psipe_ioctl_recv_def psipe_check_size_avail_def
      psipe_set_size_avail_def intro!: keeps_bind2 [OF setup_keeps] keeps_bind2 [where Q = "\<lambda>_. P"]
        registers setup_keeps ring_keeps)

lemma start_keeps: "P (hw s) \<Longrightarrow> keeps UNIV (\<lambda>(_, t). P (hw t)) (start_op L B s op)"
  unfolding start_op_def by (rule keeps_bind [OF run_keeps]) (auto simp: update_op_def)

lemma init_keeps: "P (hw s) \<Longrightarrow> keeps UNIV (\<lambda>(_, t). P (hw t)) (psipe_ops_init L B s op)"
  unfolding psipe_ops_init_def Let_def
  by (auto simp: ops_enqueue_def split: option.splits prod.splits intro!: keeps_bind2 [OF start_keeps])

lemma next_keeps: "P (hw s) \<Longrightarrow> keeps UNIV (\<lambda>t. P (hw t)) (psipe_ops_next L B s)"
  unfolding psipe_ops_next_def Let_def
  by (auto simp: psipe_ops_fini_def update_op_def split: option.splits intro!: keeps_bind2 [OF start_keeps])

lemma irq_keeps: "P (hw s) \<Longrightarrow> keeps UNIV (\<lambda>(_, t). P (hw t)) (psipe_irq_handler L B s)"
  unfolding psipe_irq_handler_def psipe_irq_check_and_ack_def Let_def
  by (rule keeps_bind2 [where Q = "\<lambda>_. P"])
    (auto intro!: registers keeps_bind [OF next_keeps])

lemma step_keeps: "kstep L B s t \<Longrightarrow> P (hw s) \<Longrightarrow> P (hw t)"
proof (induction rule: kstep.induct)
  case (submit cmd s arg rv t)
  then show ?case
    by (auto simp: psipe_ioctl_def split: prod.splits if_splits dest: keepsD(1) [OF init_keeps, rotated])
next
  case (interrupt s r t)
  then show ?case by (auto dest: keepsD(1) [OF irq_keeps, rotated])
qed (auto simp: ops_wait_enter_def ops_wait_leave_def update_op_def psipe_ioctl_def psipe_ops_flush_def
    Let_def split: if_splits option.splits prod.splits)

end

lemma dreach_keeps:
  "dreach fuel H module_cap d \<Longrightarrow> keeps UNIV (dreach fuel H module_cap) (dev_iowrite32 fuel H d a x)"
  "dreach fuel H module_cap d \<Longrightarrow> keeps UNIV (\<lambda>(_, t). dreach fuel H module_cap t) (dev_ioread32 fuel H d a)"
  by (cases "dev_iowrite32 fuel H d a x"; cases "dev_ioread32 fuel H d a";
      auto intro: dreach_step module_access)+

interpretation dev: bus_invariant "dev_bus fuel H" "dreach fuel H module_cap" for fuel H
  by unfold_locales (simp_all add: dev_bus_def dreach_keeps)

section \<open>The machine\<close>

text \<open>
  A step is a step of the module (an ioctl, an interrupt, a waiter), a reset of the device, or
  anything the rest of the world does: bytes that arrive, memory that is written.
\<close>

inductive machine :: "nat \<Rightarrow> 'w host \<Rightarrow> linux \<Rightarrow> 'w PSIPEDevice kstate \<Rightarrow> bool"
  for fuel :: nat and H :: "'w host" and L :: linux where
  machine_init: "psipe_device_init fuel H dev = Inr d \<Longrightarrow> machine fuel H L (kinit d)"
| machine_step: "machine fuel H L s \<Longrightarrow> kstep L (dev_bus fuel H) s t \<Longrightarrow>
    unat (next_id s) < 2 ^ 64 - 1 \<Longrightarrow> machine fuel H L t"
| machine_reset: "machine fuel H L s \<Longrightarrow> machine fuel H L (s\<lparr>hw := psipe_device_reset H (hw s)\<rparr>)"
| machine_world: "machine fuel H L s \<Longrightarrow> machine fuel H L (s\<lparr>hw := (hw s)\<lparr>env := w\<rparr>\<rparr>)"

lemma machine_dreach: "machine fuel H L s \<Longrightarrow> dreach fuel H module_cap (hw s)"
proof (induction rule: machine.induct)
  case (machine_init dev d)
  then show ?case by (simp add: kinit_def dreach_init)
qed (auto intro: dev.step_keeps dreach_step bus_reset world)

lemma machine_kinv: "machine fuel H L s \<Longrightarrow> kinv s"
proof (induction rule: machine.induct)
  case (machine_step s t)
  then show ?case by (blast intro: kinv_step)
qed (simp_all add: kinv_init)

end
