(* ===== verification/Drain.thy ===== *)
theory Drain
  imports System Machine
begin

text \<open>
  A queue of operations on the device. The interrupt of one transfer starts the next, so the module
  drains its queue without further ioctls. \<open>serial\<close> is what the queued operations do one after the
  other to memory and connection; \<open>drain_step\<close> and \<open>drain\<close> show that the interrupts do the same.
\<close>

section \<open>The operations one after the other\<close>

text \<open>A mapped buffer by itself: what of the device's configuration the addresses depend on.\<close>

definition plain_config :: DMAConfig where
  "plain_config = \<lparr>npages = 0, cfg_len = 0, len_avail = 0,
     cfg_mask = DMA_BIT_MASK PSIPE_HW_DMA_ADDR_CAPABILITY, page_size = 4096, handles = (\<lambda>_. 0)\<rparr>"

definition buffer_config :: "psipe_dma \<Rightarrow> DMAConfig" where
  "buffer_config m = mapped_config plain_config m"

definition mapped_len :: "psipe_dma \<Rightarrow> nat" where
  "mapped_len m = unat (trunc32 (dma_len m))"

text \<open>Storing bytes in a buffer, the functional form of \<open>sg_written\<close>.\<close>

definition sg_store :: "DMAConfig \<Rightarrow> (u64 \<Rightarrow> u8) \<Rightarrow> u8 list \<Rightarrow> u64 \<Rightarrow> u8" where
  "sg_store cfg m bs = fold (\<lambda>i m. m(sg_phys cfg i := bs ! i)) [0..<length bs] m"

text \<open>
  An operation with its mapped buffer and what the peer sends for it: the answer to the question
  for its available length, or its own question, after requests nobody waits for, and the frames.
\<close>

datatype job =
    Job_Send psipe_dma u64
  | Job_Recv psipe_dma "u32 list" "u8 list"

fun job_input :: "job \<Rightarrow> u8 list" where
  "job_input (Job_Send m l) = enc_req PSIPE_REQ_RLN @ enc_len l"
| "job_input (Job_Recv m rs ds) = concat (map enc_req rs) @ enc_req PSIPE_REQ_SLN @ frames ds"

fun job_step :: "job \<Rightarrow> (u64 \<Rightarrow> u8) \<times> u8 list \<Rightarrow> (u64 \<Rightarrow> u8) \<times> u8 list" where
  "job_step (Job_Send m l) (mem, out) =
     (mem, out @ enc_req PSIPE_REQ_SLN @ frames (sg_bytes (buffer_config m) mem 0 (mapped_len m)))"
| "job_step (Job_Recv m rs ds) (mem, out) =
     (sg_store (buffer_config m) mem ds, out @ enc_req PSIPE_REQ_RLN @ enc_len (trunc32 (dma_len m)))"

definition serial :: "job list \<Rightarrow> (u64 \<Rightarrow> u8) \<times> u8 list \<Rightarrow> (u64 \<Rightarrow> u8) \<times> u8 list" where
  "serial = fold job_step"

text \<open>
  The job of a queued operation: its mapping succeeds and describes a buffer the device can take,
  the peer has room for it or sends as many bytes as it holds, and the fuel is enough.
\<close>

fun job_of :: "linux \<Rightarrow> nat \<Rightarrow> psipe_op \<Rightarrow> job \<Rightarrow> bool" where
  "job_of L fuel op (Job_Send m l) \<longleftrightarrow> op_fn op = psipe_ioctl_send_fn \<and>
     dma_len (op_dma op) \<le> trunc32 l \<and>
     (\<forall>tr. mapping_ok L tr plain_config (send_dma (op_dma op)) m) \<and> Suc (mapped_len m) < fuel"
| "job_of L fuel op (Job_Recv m rs ds) \<longleftrightarrow> op_fn op = psipe_ioctl_recv_fn \<and>
     skipped PSIPE_REQ_SLN rs \<and> length ds = mapped_len m \<and>
     (\<forall>tr. mapping_ok L tr plain_config (recv_dma (op_dma op)) m) \<and> sg_inj (buffer_config m) \<and>
     Suc (length ds + length rs) < fuel"

section \<open>A buffer does not depend on the buffers before it\<close>

lemma plain_config [simp]: "plain plain_config"
  by (simp add: plain_def plain_config_def)

lemma mapped_config_simps:
  "cfg_len (mapped_config cfg m) = trunc32 (dma_len m)" "npages (mapped_config cfg m) = nmapped m"
  "page_size (mapped_config cfg m) = page_size cfg" "cfg_mask (mapped_config cfg m) = cfg_mask cfg"
  by (simp_all add: mapped_config_def)

lemma mapped_handles:
  assumes "unat (nmapped m) \<le> length (sgl m)" "k < unat (nmapped m)"
  shows "handles (mapped_config cfg m) k = trunc32 (sgl m ! k)"
  using assms by (simp add: mapped_config_def blit_def)

text \<open>The handles in use are the mapping's; nothing else of the old table matters.\<close>

lemma sg_wf_pages: "sg_wf c \<Longrightarrow> 0 < unat (cfg_len c) \<Longrightarrow> 0 < unat (npages c)"
  by (rule ccontr) (simp add: sg_wf_def)

lemma same_buffer:
  assumes h: "\<And>k. k < unat (npages c) \<Longrightarrow> handles c' k = handles c k" and n: "npages c' = npages c"
    and l: "cfg_len c' = cfg_len c" and wf: "sg_wf c" and pos: "0 < unat (cfg_len c)"
    and p: "plain c'"
  shows "sg_wf c'" "i < unat (cfg_len c) \<Longrightarrow> sg_phys c' i = sg_phys c i" "sg_inj c' = sg_inj c"
proof -
  have h0: "handles c' 0 = handles c 0" and f: "first_ofs c' = first_ofs c"
    using h sg_wf_pages [OF wf pos] by (simp_all add: first_ofs_def)
  have "contiguous c' = contiguous c" by (simp add: contiguous_def h h0 n)
  then show "sg_wf c'" using wf p by (simp add: sg_wf_def plain_def f n l h)
  have phys: "sg_phys c' i = sg_phys c i" if "i < unat (cfg_len c)" for i
  proof -
    have "(first_ofs c + i) div 4096 < unat (npages c)"
      using wf that by (simp add: sg_wf_def less_mult_imp_div_less mult.commute)
    then show ?thesis using h h0 f by (simp add: sg_phys_def Let_def)
  qed
  then show "i < unat (cfg_len c) \<Longrightarrow> sg_phys c' i = sg_phys c i" .
  show "sg_inj c' = sg_inj c"
    unfolding sg_inj_def l using phys by (intro inj_on_cong) simp
qed

lemma mapping_plain:
  assumes m: "mapping_ok L tr plain_config m m'" and p: "plain cfg"
  shows "mapping_ok L tr cfg m m'"
    "sg_bytes (mapped_config cfg m') mem 0 (mapped_len m') =
       sg_bytes (buffer_config m') mem 0 (mapped_len m')"
    "sg_inj (mapped_config cfg m') = sg_inj (buffer_config m')"
    "length ds = mapped_len m' \<Longrightarrow> sg_written (mapped_config cfg m') mem mem' 0 ds \<longleftrightarrow>
       sg_written (buffer_config m') mem mem' 0 ds"
proof -
  let ?c = "buffer_config m'" and ?c' = "mapped_config cfg m'"
  have n: "unat (nmapped m') \<le> length (sgl m')" and wf: "sg_wf ?c"
    and pos: "0 < unat (cfg_len ?c)"
    using m by (simp_all add: mapping_ok_def buffer_config_def mapped_config_simps)
  have h: "k < unat (npages ?c) \<Longrightarrow> handles ?c' k = handles ?c k" for k
    using n by (simp add: buffer_config_def mapped_handles mapped_config_simps)
  have e: "npages ?c' = npages ?c" "cfg_len ?c' = cfg_len ?c" "plain ?c'"
    using p by (simp_all add: buffer_config_def mapped_config_simps plain_def)
  note s = same_buffer [OF h e(1,2) wf pos e(3)]
  have phys: "sg_phys ?c' i = sg_phys ?c i" if "i < mapped_len m'" for i
    using s(2) that by (simp add: buffer_config_def mapped_config_simps mapped_len_def)
  show "mapping_ok L tr cfg m m'" using m s(1) by (simp add: mapping_ok_def)
  show "sg_bytes ?c' mem 0 (mapped_len m') = sg_bytes ?c mem 0 (mapped_len m')"
    using phys by (simp add: sg_bytes_def)
  show "sg_inj ?c' = sg_inj ?c" by (rule s(3))
  show "sg_written ?c' mem mem' 0 ds \<longleftrightarrow> sg_written ?c mem mem' 0 ds"
    if "length ds = mapped_len m'"
    using phys that by (simp add: sg_written_def)
qed

lemma sg_store_written:
  assumes inj: "sg_inj c" and len: "length ds = unat (cfg_len c)"
  shows "sg_written c mem (sg_store c mem ds) 0 ds"
proof -
  define m where "m = (\<lambda>n. fold (\<lambda>i m. m(sg_phys c i := ds ! i)) [0..<n] mem)"
  have "(\<forall>i < n. m n (sg_phys c i) = ds ! i) \<and> (\<forall>a. (\<forall>i < n. a \<noteq> sg_phys c i) \<longrightarrow> m n a = mem a)"
    if "n \<le> length ds" for n
    using that
  proof (induction n)
    case 0
    then show ?case by (simp add: m_def)
  next
    case (Suc n)
    have s: "m (Suc n) = (m n)(sg_phys c n := ds ! n)" by (simp add: m_def)
    have d: "sg_phys c i \<noteq> sg_phys c n" if "i < n" for i
      using inj that Suc.prems len by (auto simp: sg_inj_def dest: inj_onD)
    have "n \<le> length ds" using Suc.prems by simp
    from Suc.IH [OF this] show ?case unfolding s using d by (simp add: less_Suc_eq)
  qed
  from this [of "length ds"] show ?thesis by (simp add: sg_written_def sg_store_def m_def)
qed

lemma sg_written_unique:
  assumes "sg_written c mem m1 0 ds" "sg_written c mem m2 0 ds" shows "m1 = m2"
  using assms unfolding sg_written_def by (intro ext) metis

section \<open>One operation\<close>

definition serving :: "'w PSIPEDevice \<Rightarrow> bool" where
  "serving d \<longleftrightarrow> dev_ready d \<and> connected d \<and> plain (config (dma d))"

text \<open>Every reachable machine that has its connection is one of these.\<close>

lemma machine_serving:
  assumes "machine fuel H L s" "qemu_target_page_size H = 4096" "connected (hw s)"
  shows "serving (hw s)"
  using dreach_settled [OF machine_dreach [OF assms(1)] assms(2)] assms(3)
  by (simp add: serving_def settled_def)

definition mem_out :: "'w view \<Rightarrow> 'w PSIPEDevice \<Rightarrow> (u64 \<Rightarrow> u8) \<times> u8 list" where
  "mem_out v d = (ram v (env d), outb v (env d))"

lemma left_by_serving: "left_by m d t \<Longrightarrow> serving d \<Longrightarrow> dev_ready t \<Longrightarrow> serving t"
  by (auto simp: left_by_def serving_def connected_def psipe_proxy_endpoint_def plain_def
      mapped_config_simps)

lemma job_started:
  assumes H: "host_contract H v" "msi_stable H" and d: "serving d" and j: "job_of L fuel op j"
    and inb: "inb v (env d) = job_input j @ rest"
  obtains rv t tr' m where
    "run_ioctl_fn (op_fn op) L (dev_bus fuel H) d tr (op_dma op) = Inr (rv, t, tr', m)" "0 \<le> rv"
    "serving t" "work_ended H t" "inb v (env t) = rest"
    "mem_out v t = job_step j (mem_out v d)"
proof (cases j)
  case (Job_Send m l)
  note s = d [unfolded serving_def]
  have mp: "mapping_ok L tr plain_config (send_dma (op_dma op)) m" and fits: "dma_len (op_dma op) \<le> trunc32 l"
    and fuel: "Suc (unat (trunc32 (dma_len m))) < fuel" and fn: "op_fn op = psipe_ioctl_send_fn"
    using j by (auto simp: Job_Send mapped_len_def)
  note mp' = mapping_plain [OF mp, of "config (dma d)"]
  have inb': "inb v (env d) = enc_req PSIPE_REQ_RLN @ enc_len l @ rest" using inb by (simp add: Job_Send)
  show ?thesis
  proof (rule send_on_device_left [OF H _ _ inb' fits mp'(1) fuel])
    fix rv t tr'
    assume t: "psipe_ioctl_send L (dev_bus fuel H) d tr (op_dma op) = Inr (rv, t, tr', m)" "0 \<le> rv"
      "dev_ready t" "work_ended H t" "inb v (env t) = rest" "ram v (env t) = ram v (env d)"
      "outb v (env t) = outb v (env d) @ enc_req PSIPE_REQ_SLN @
         frames (sg_bytes (mapped_config (config (dma d)) m) (ram v (env d)) 0
           (unat (trunc32 (dma_len m))))" "left_by m d t"
    have "mem_out v t = job_step j (mem_out v d)"
      using t(6,7) mp'(2) s by (simp add: mem_out_def Job_Send mapped_len_def)
    then show thesis using that t left_by_serving [OF t(8) d t(3)] fn by simp
  qed (use s in simp_all)
next
  case (Job_Recv m rs ds)
  note s = d [unfolded serving_def]
  have mp: "mapping_ok L tr plain_config (recv_dma (op_dma op)) m" and sk: "skipped PSIPE_REQ_SLN rs"
    and len: "length ds = mapped_len m" and inj: "sg_inj (buffer_config m)"
    and fuel: "Suc (length ds + length rs) < fuel" and fn: "op_fn op = psipe_ioctl_recv_fn"
    using j by (auto simp: Job_Recv)
  note mp' = mapping_plain [OF mp, of "config (dma d)"]
  have inb': "inb v (env d) = concat (map enc_req rs) @ enc_req PSIPE_REQ_SLN @ frames ds @ rest"
    using inb by (simp add: Job_Recv)
  have dl: "dma_len m = dma_len (op_dma op)"
    using mp mapping_dma_len by (auto simp: mapping_ok_def recv_dma_def)
  show ?thesis
  proof (rule recv_on_device_left [OF H _ _ inb' sk len [unfolded mapped_len_def] mp'(1) _ fuel])
    fix rv t tr'
    assume t: "psipe_ioctl_recv L (dev_bus fuel H) d tr (op_dma op) = Inr (rv, t, tr', m)" "0 \<le> rv"
      "dev_ready t" "work_ended H t" "inb v (env t) = rest"
      "sg_written (mapped_config (config (dma d)) m) (ram v (env d)) (ram v (env t)) 0 ds"
      "outb v (env t) = outb v (env d) @ enc_req PSIPE_REQ_RLN @ enc_len (trunc32 (dma_len (op_dma op)))"
      "left_by m d t"
    have "sg_written (buffer_config m) (ram v (env d)) (ram v (env t)) 0 ds"
      using t(6) mp'(4) [OF _ len] s by simp
    moreover have "sg_written (buffer_config m) (ram v (env d))
        (sg_store (buffer_config m) (ram v (env d)) ds) 0 ds"
      using len by (intro sg_store_written inj)
        (simp add: buffer_config_def mapped_config_simps mapped_len_def)
    ultimately have "mem_out v t = job_step j (mem_out v d)"
      using t(7) dl by (simp add: mem_out_def Job_Recv sg_written_unique)
    then show thesis using that t left_by_serving [OF t(8) d t(3)] fn by simp
  qed (use s mp' inj in simp_all)
qed

section \<open>One interrupt\<close>

text \<open>Acknowledging the interrupt leaves the device, memory and the connection as they are.\<close>

definition holds :: "'w host \<Rightarrow> 'w view \<Rightarrow> u8 list \<Rightarrow> (u64 \<Rightarrow> u8) \<times> u8 list \<Rightarrow> 'w PSIPEDevice \<Rightarrow> bool" where
  "holds H v i mo d \<longleftrightarrow> host_contract H v \<and> msi_stable H \<and> serving d \<and> inb v (env d) = i \<and>
     mem_out v d = mo"

lemma holds_lower: "holds H v i mo d \<Longrightarrow> holds H v i mo (psipe_irq_lower H d n)"
  by (auto simp: holds_def serving_def mem_out_def irq_lower_env connected_def
      psipe_proxy_endpoint_def)

interpretation serving: irq_line "dev_bus fuel H" "work_ended H" "holds H v i mo" for fuel H v i mo
proof
  fix d :: "'a PSIPEDevice"
  assume h: "holds H v i mo d"
  then have r: "dev_ready d" "msi_stable H" by (simp_all add: holds_def serving_def)
  show "\<exists>x. ioread32 (dev_bus fuel H) d PSIPE_HW_IRQ_WORK_ENDED_ADDR = Inr (x, d) \<and>
      (x \<noteq> 0 \<longleftrightarrow> work_ended H d)"
    by (simp add: read_flag_dev [OF r(1)] flag_is_work_ended)
  show "\<exists>d'. iowrite32 (dev_bus fuel H) d PSIPE_HW_IRQ_WORK_ENDED_ACK_ADDR 1 = Inr d' \<and>
      holds H v i mo d' \<and> \<not> work_ended H d'"
    using holds_lower [OF h] ack_lowers [OF r(2)] by (simp add: ack_flag_dev [OF r(1)])
qed

lemma update_head:
  assumes "kinv s" "active s = op # ops" and f: "\<And>op. op_id (f op) = op_id op"
  shows "update_op (op_id op) f s = s\<lparr>active := f op # ops\<rparr>"
proof -
  have "op_id op \<notin> op_id ` set ops" "op_id op \<notin> op_id ` set (inactive s)"
    using kinv_head [OF assms(1,2)] by (auto simp: set_op_ids)
  then have "map_op (op_id op) f ops = ops" "map_op (op_id op) f (inactive s) = inactive s"
    by (simp_all add: map_op_other)
  moreover have "map_op (op_id op) f (op # ops) = f op # map_op (op_id op) f ops"
    by (simp add: map_op_def)
  ultimately show ?thesis using assms(2) by (simp add: update_op_def)
qed

text \<open>What a started operation returns is an \<^verbatim>\<open>int\<close>.\<close>

lemma s32_int_of_u64 [simp]: "s32 (int_of_u64 w) = int_of_u64 w"
  by (simp add: s32_def int_of_u64_def)

lemma ring_rv: "map_and_ring L B d tr m = Inr (rv, d', tr', m') \<Longrightarrow> s32 rv = rv"
  by (cases "dma_map_sg L tr m") (auto simp: map_and_ring_def psipe_dma_map_pages_def Let_def split: if_splits)

lemma run_rv: "run_ioctl_fn f L B d tr m = Inr (rv, d', tr', m') \<Longrightarrow> s32 rv = rv"
  by (cases f) (auto simp: psipe_ioctl_send_def psipe_ioctl_recv_def s32_def errno_defs split: if_splits
      dest: ring_rv)

text \<open>The interrupt that completes the head and starts the operation behind it.\<close>

lemma drain_step_full:
  assumes d: "holds H v (job_input j @ rest) mo (hw s)" "work_ended H (hw s)"
    and q: "kinv s" "active s = op # op' # ops" and j: "job_of L fuel op' j"
  obtains t o2 where
    "psipe_irq_handler L (dev_bus fuel H) s = Inr (IRQ_HANDLED, t)" "kinv t"
    "holds H v rest (job_step j mo) (hw t)" "work_ended H (hw t)"
    "active t = o2 # ops" "op_id o2 = op_id op'" "0 \<le> retval o2"
    "inactive t = inactive s @ [op\<lparr>flag := 1\<rparr>]"
    "completed (trace t) = completed (trace s) @ [op_id op]"
    "nwaiting o2 = nwaiting op'" "s32 (retval o2) = retval o2" "next_id t = next_id s"
proof -
  let ?B = "dev_bus fuel H"
  obtain d' where d': "holds H v (job_input j @ rest) mo d'" "psipe_irq_handler L ?B s =
      bindR (psipe_ops_next L ?B (s\<lparr>hw := d'\<rparr>)) (\<lambda>s. Inr (IRQ_HANDLED, s))"
    using serving.raised_irq [OF d] by blast
  let ?s = "psipe_ops_fini (s\<lparr>hw := d'\<rparr>) op"
  have q': "kinv (s\<lparr>hw := d'\<rparr>)" "active (s\<lparr>hw := d'\<rparr>) = op # op' # ops" using q by simp_all
  note f = fini_head [OF q'] kinv_fini [OF q'] and h = d'(1) [unfolded holds_def]
  obtain rv u tr m where u: "run_ioctl_fn (op_fn op') L ?B d' (trace ?s) (op_dma op') = Inr (rv, u, tr, m)"
    "0 \<le> rv" "serving u" "work_ended H u" "inb v (env u) = rest"
    "mem_out v u = job_step j (mem_out v d')"
    using h j by (auto elim: job_started [where tr = "trace ?s"])
  have hw: "hw ?s = d'" by (simp add: psipe_ops_fini_def)
  have c: "completed tr = completed (trace ?s)" by (rule run_completed [OF u(1)])
  define s1 where "s1 = ?s\<lparr>hw := u, trace := tr\<rparr>"
  have k1: "kinv s1" unfolding s1_def by (rule kinv_frame [OF f(5) c])
  have a1: "active s1 = op' # ops" by (simp add: s1_def f(1))
  let ?o = "op'\<lparr>op_dma := m\<rparr>"
  have st: "start_op L ?B ?s op' = Inr (rv, s1\<lparr>active := ?o # ops\<rparr>)"
    using update_head [OF k1 a1, of "\<lambda>op. op\<lparr>op_dma := m\<rparr>"]
    by (simp add: start_op_def hw u(1) s1_def)
  have k2: "kinv (s1\<lparr>active := ?o # ops\<rparr>)" by (rule kinv_start [OF f(5) st])
  define t where "t = s1\<lparr>active := ?o\<lparr>retval := rv\<rparr> # ops\<rparr>"
  have up: "update_op (op_id op') (\<lambda>op. op\<lparr>retval := rv\<rparr>) (s1\<lparr>active := ?o # ops\<rparr>) = t"
    using update_head [OF k2, of ?o ops "\<lambda>op. op\<lparr>retval := rv\<rparr>"] by (simp add: t_def)
  have nx: "psipe_ops_next L ?B (s\<lparr>hw := d'\<rparr>) = Inr t"
    using q(2) f(1) st up by (simp add: psipe_ops_next_def psipe_ops_current_def Let_def)
  have "kinv t" by (rule kinv_next [OF q'(1) nx])
  moreover have "holds H v rest (job_step j mo) u" using u h by (simp add: holds_def)
  ultimately show ?thesis
    using that [of t "?o\<lparr>retval := rv\<rparr>"] d'(2) nx u f c run_rv [OF u(1)] by (simp add: t_def s1_def)
qed

lemma drain_step:
  assumes d: "holds H v (job_input j @ rest) mo (hw s)" "work_ended H (hw s)"
    and q: "kinv s" "active s = op # op' # ops" and j: "job_of L fuel op' j"
  obtains t o2 where
    "psipe_irq_handler L (dev_bus fuel H) s = Inr (IRQ_HANDLED, t)" "kinv t"
    "holds H v rest (job_step j mo) (hw t)" "work_ended H (hw t)"
    "active t = o2 # ops" "op_id o2 = op_id op'" "0 \<le> retval o2"
    "inactive t = inactive s @ [op\<lparr>flag := 1\<rparr>]"
    "completed (trace t) = completed (trace s) @ [op_id op]"
  by (rule drain_step_full [OF assms]) (rule that)

lemma drain_last_full:
  assumes d: "holds H v rest mo (hw s)" "work_ended H (hw s)"
    and q: "kinv s" "active s = [op]"
  obtains t where
    "psipe_irq_handler L (dev_bus fuel H) s = Inr (IRQ_HANDLED, t)" "kinv t"
    "holds H v rest mo (hw t)" "\<not> work_ended H (hw t)"
    "active t = []" "inactive t = inactive s @ [op\<lparr>flag := 1\<rparr>]"
    "completed (trace t) = completed (trace s) @ [op_id op]" "next_id t = next_id s"
proof -
  obtain d' where d': "holds H v rest mo d'" "\<not> work_ended H d'"
    "psipe_irq_handler L (dev_bus fuel H) s =
      bindR (psipe_ops_next L (dev_bus fuel H) (s\<lparr>hw := d'\<rparr>)) (\<lambda>s. Inr (IRQ_HANDLED, s))"
    using serving.raised_irq [OF d] by blast
  have q': "kinv (s\<lparr>hw := d'\<rparr>)" "active (s\<lparr>hw := d'\<rparr>) = [op]" using q by simp_all
  note f = fini_head [OF q'] kinv_fini [OF q']
  have "hw (psipe_ops_fini (s\<lparr>hw := d'\<rparr>) op) = d'" by (simp add: psipe_ops_fini_def)
  moreover have "psipe_ops_next L (dev_bus fuel H) (s\<lparr>hw := d'\<rparr>) = Inr (psipe_ops_fini (s\<lparr>hw := d'\<rparr>) op)"
    using q(2) f(1) by (simp add: psipe_ops_next_def psipe_ops_current_def Let_def)
  ultimately show ?thesis using that d' f by simp
qed

lemma drain_last:
  assumes d: "holds H v rest mo (hw s)" "work_ended H (hw s)"
    and q: "kinv s" "active s = [op]"
  obtains t where
    "psipe_irq_handler L (dev_bus fuel H) s = Inr (IRQ_HANDLED, t)" "kinv t"
    "holds H v rest mo (hw t)" "\<not> work_ended H (hw t)"
    "active t = []" "inactive t = inactive s @ [op\<lparr>flag := 1\<rparr>]"
    "completed (trace t) = completed (trace s) @ [op_id op]"
  by (rule drain_last_full [OF assms]) (rule that)

section \<open>The whole queue\<close>

text \<open>Linux calls the handler while the device's interrupt is raised, at most \<open>n\<close> times.\<close>

fun handle_irqs :: "nat \<Rightarrow> 'w host \<Rightarrow> linux \<Rightarrow> nat \<Rightarrow> 'w PSIPEDevice kstate \<Rightarrow>
    'w PSIPEDevice kstate res" where
  "handle_irqs fuel H L 0 s = Inr s"
| "handle_irqs fuel H L (Suc n) s =
     (if \<not> work_ended H (hw s) then Inr s
      else bindR (psipe_irq_handler L (dev_bus fuel H) s) (\<lambda>(_, s). handle_irqs fuel H L n s))"

lemma drain:
  assumes "holds H v (concat (map job_input jobs) @ rest) mo (hw s)" "work_ended H (hw s)"
    "kinv s" "active s = op # ops" "list_all2 (job_of L fuel) ops jobs"
  shows "\<exists>t dn. handle_irqs fuel H L (Suc (length ops)) s = Inr t \<and> active t = [] \<and>
     inactive t = inactive s @ (op\<lparr>flag := 1\<rparr>) # dn \<and> map op_id dn = map op_id ops \<and>
     list_all (\<lambda>op. flag op = 1 \<and> 0 \<le> retval op) dn \<and>
     completed (trace t) = completed (trace s) @ map op_id (op # ops) \<and>
     holds H v rest (serial jobs mo) (hw t) \<and> \<not> work_ended H (hw t)"
  using assms(5,1-4)
proof (induction ops jobs arbitrary: s op mo rule: list_all2_induct)
  case Nil
  have h: "holds H v rest mo (hw s)" using Nil.prems(1) by simp
  obtain t where "psipe_irq_handler L (dev_bus fuel H) s = Inr (IRQ_HANDLED, t)"
    "holds H v rest mo (hw t)" "\<not> work_ended H (hw t)" "active t = []"
    "inactive t = inactive s @ [op\<lparr>flag := 1\<rparr>]"
    "completed (trace t) = completed (trace s) @ [op_id op]"
    by (rule drain_last [OF h Nil.prems(2-4)])
  then show ?case using Nil.prems(2) by (simp add: serial_def)
next
  case (Cons op' ops j jobs)
  have h: "holds H v (job_input j @ concat (map job_input jobs) @ rest) mo (hw s)"
    using Cons.prems(1) by simp
  obtain t o2 where t: "psipe_irq_handler L (dev_bus fuel H) s = Inr (IRQ_HANDLED, t)" "kinv t"
    "holds H v (concat (map job_input jobs) @ rest) (job_step j mo) (hw t)" "work_ended H (hw t)"
    "active t = o2 # ops" "op_id o2 = op_id op'" "0 \<le> retval o2"
    "inactive t = inactive s @ [op\<lparr>flag := 1\<rparr>]"
    "completed (trace t) = completed (trace s) @ [op_id op]"
    by (rule drain_step [OF h Cons.prems(2-4) Cons.hyps(1)])
  obtain u dn where u: "handle_irqs fuel H L (Suc (length ops)) t = Inr u" "active u = []"
    "inactive u = inactive t @ (o2\<lparr>flag := 1\<rparr>) # dn" "map op_id dn = map op_id ops"
    "list_all (\<lambda>op. flag op = 1 \<and> 0 \<le> retval op) dn"
    "completed (trace u) = completed (trace t) @ map op_id (o2 # ops)"
    "holds H v rest (serial jobs (job_step j mo)) (hw u)" "\<not> work_ended H (hw u)"
    using Cons.IH [OF t(3,4,2,5)] by blast
  have "handle_irqs fuel H L (Suc (length (op' # ops))) s = handle_irqs fuel H L (Suc (length ops)) t"
    using Cons.prems(2) t(1) by (simp del: handle_irqs.simps(2) add: handle_irqs.simps(2) [of _ _ _ "Suc _"])
  with u t show ?case
    by (intro exI [of _ u] exI [of _ "(o2\<lparr>flag := 1\<rparr>) # dn"]) (simp add: serial_def)
qed

section \<open>A burst of requests\<close>

text \<open>Ioctls one after the other, with the values they return.\<close>

fun submit_all :: "linux \<Rightarrow> 'd bus \<Rightarrow> 'd kstate \<Rightarrow> (u32 \<times> u64) list \<Rightarrow> (int list \<times> 'd kstate) res" where
  "submit_all L B s [] = Inr ([], s)"
| "submit_all L B s ((cmd, arg) # reqs) =
     bindR (psipe_ioctl L B s cmd arg) (\<lambda>(rv, s).
       bindR (submit_all L B s reqs) (\<lambda>(rvs, s). Inr (rv # rvs, s)))"

text \<open>The request becomes an operation whose pages can be pinned, with the job of the operation.\<close>

definition request_of :: "linux \<Rightarrow> nat \<Rightarrow> u32 \<times> u64 \<Rightarrow> job \<Rightarrow> bool" where
  "request_of L fuel r j \<longleftrightarrow> (fst r = PSIPE_IOCTL_SEND \<or> fst r = PSIPE_IOCTL_RECV) \<and>
     (\<forall>tr. \<exists>op tr1 tr2 m. psipe_ops_new L tr (fst r) (snd r) = (Some op, tr1) \<and>
        psipe_dma_pin_pages L tr1 (op_dma op) = (0, tr2, m) \<and> job_of L fuel (op\<lparr>op_dma := m\<rparr>) j)"

definition next_ids :: "u64 \<Rightarrow> nat \<Rightarrow> u64 list" where
  "next_ids i n = map (\<lambda>k. i + of_nat k) [0..<n]"

lemma next_ids_simps [simp]: "next_ids i 0 = []" "next_ids i (Suc n) = i # next_ids (i + 1) n"
proof -
  have "[0..<Suc n] = 0 # map Suc [0..<n]" by (simp add: map_Suc_upt upt_conv_Cons)
  then show "next_ids i (Suc n) = i # next_ids (i + 1) n"
    by (simp only: next_ids_def) (simp add: comp_def ac_simps)
qed (simp add: next_ids_def)

lemma job_of_id [simp]: "job_of L fuel (op\<lparr>op_id := i\<rparr>) j = job_of L fuel op j"
  by (cases j) simp_all

text \<open>What a request has done when it is queued, or is about to be started.\<close>

lemma new_op_fields:
  "psipe_ops_new L tr cmd arg = (Some op, tr') \<Longrightarrow>
     nwaiting op = 0 \<and> (\<exists>op0. kmalloc_op L tr = Some op0 \<and> retval op = retval op0)"
  by (auto simp: psipe_ops_new_def Let_def split: option.splits prod.splits if_splits)

lemma request_queued_full:
  assumes r: "request_of L fuel (cmd, arg) j" and k: "kinv s" "unat (next_id s) < 2 ^ 64 - 1"
  obtains t op where "kinv t" "active t = active s @ [op]" "op_id op = next_id s"
    "job_of L fuel op j" "hw t = hw s" "next_id t = next_id s + 1" "inactive t = inactive s"
    "completed (trace t) = completed (trace s)"
    "psipe_ioctl L B s cmd arg = (if active s = []
       then bindR (start_op L B t op) (\<lambda>(rv, u). Inr (sint (if rv < 0 then u64_of_int rv else op_id op), u))
       else Inr (sint (next_id s), t))"
    "nwaiting op = 0" "\<exists>tr op0. kmalloc_op L tr = Some op0 \<and> retval op = retval op0"
proof -
  obtain op tr1 tr2 m where n: "psipe_ops_new L (trace s) cmd arg = (Some op, tr1)"
    "psipe_dma_pin_pages L tr1 (op_dma op) = (0, tr2, m)" "job_of L fuel (op\<lparr>op_dma := m\<rparr>) j"
    and c: "cmd = PSIPE_IOCTL_SEND \<or> cmd = PSIPE_IOCTL_RECV"
    using r by (fastforce simp: request_of_def)
  let ?o = "op\<lparr>op_dma := m, op_id := next_id s\<rparr>"
  let ?t = "ops_enqueue (s\<lparr>trace := tr2\<rparr>) ?o"
  have tr: "completed tr2 = completed (trace s)"
    using new_completed [OF n(1)] pin_completed [OF n(2)] by simp
  have "kinv ?t"
    using kinv_enqueue [OF kinv_trace [OF k(1) tr], of ?o] k(2) new_flag [OF n(1)] by simp
  moreover have "psipe_ioctl L B s cmd arg = (if active s = []
       then bindR (start_op L B ?t ?o) (\<lambda>(rv, u). Inr (sint (if rv < 0 then u64_of_int rv else op_id ?o), u))
       else Inr (sint (next_id s), ?t))"
    using c n(1,2)
    by (cases "start_op L B ?t ?o") (auto simp: psipe_ioctl_def psipe_ops_init_def Let_def)
  ultimately show ?thesis
    using that [of ?t ?o] n(3) tr new_op_fields [OF n(1)] by (auto simp: ops_enqueue_def)
qed

lemma request_queued:
  assumes r: "request_of L fuel (cmd, arg) j" and k: "kinv s" "unat (next_id s) < 2 ^ 64 - 1"
  obtains t op where "kinv t" "active t = active s @ [op]" "op_id op = next_id s"
    "job_of L fuel op j" "hw t = hw s" "next_id t = next_id s + 1" "inactive t = inactive s"
    "completed (trace t) = completed (trace s)"
    "psipe_ioctl L B s cmd arg = (if active s = []
       then bindR (start_op L B t op) (\<lambda>(rv, u). Inr (sint (if rv < 0 then u64_of_int rv else op_id op), u))
       else Inr (sint (next_id s), t))"
  by (rule request_queued_full [OF assms]) (rule that)

lemma submit_queued:
  assumes "list_all2 (request_of L fuel) reqs jobs" "kinv s" "active s \<noteq> []"
    "unat (next_id s) + length reqs < 2 ^ 64"
  shows "\<exists>t ops. submit_all L B s reqs = Inr (map sint (next_ids (next_id s) (length reqs)), t) \<and>
     kinv t \<and> hw t = hw s \<and> active t = active s @ ops \<and> list_all2 (job_of L fuel) ops jobs \<and>
     map op_id ops = next_ids (next_id s) (length reqs) \<and>
     completed (trace t) = completed (trace s) \<and> inactive t = inactive s"
  using assms
proof (induction reqs jobs arbitrary: s rule: list_all2_induct)
  case Nil
  then show ?case by simp
next
  case (Cons r reqs j jobs)
  obtain cmd arg where r: "r = (cmd, arg)" by (cases r)
  have w: "unat (next_id s) < 2 ^ 64 - 1" using Cons.prems(3) by simp
  obtain t op where t: "kinv t" "active t = active s @ [op]" "op_id op = next_id s"
    "job_of L fuel op j" "hw t = hw s" "next_id t = next_id s + 1" "inactive t = inactive s"
    "completed (trace t) = completed (trace s)" "psipe_ioctl L B s cmd arg = (if active s = []
       then bindR (start_op L B t op) (\<lambda>(rv, u). Inr (sint (if rv < 0 then u64_of_int rv else op_id op), u))
       else Inr (sint (next_id s), t))"
    by (rule request_queued [OF Cons.hyps(1) [unfolded r] Cons.prems(1) w])
  have "unat (next_id t) = Suc (unat (next_id s))" using w by (simp add: t(6) unat_word_ariths)
  then have w': "unat (next_id t) + length reqs < 2 ^ 64" using Cons.prems(3) by simp
  obtain u ops where u: "submit_all L B t reqs = Inr (map sint (next_ids (next_id t) (length reqs)), u)"
     "kinv u" "hw u = hw t" "active u = active t @ ops" "list_all2 (job_of L fuel) ops jobs"
     "map op_id ops = next_ids (next_id t) (length reqs)"
     "completed (trace u) = completed (trace t)" "inactive u = inactive t"
    using Cons.IH [OF t(1) _ w'] t(2) by auto
  show ?case
    using u t Cons.prems(2) by (intro exI [of _ u] exI [of _ "op # ops"]) (simp add: r)
qed

text \<open>The first request of an idle module is started at once.\<close>

lemma submit_first_full:
  assumes d: "holds H v (job_input j @ rest) mo (hw s)"
    and r: "request_of L fuel (cmd, arg) j" and k: "kinv s" "unat (next_id s) < 2 ^ 64 - 1"
    and a: "active s = []"
  obtains t op where "psipe_ioctl L (dev_bus fuel H) s cmd arg = Inr (sint (next_id s), t)" "kinv t"
    "holds H v rest (job_step j mo) (hw t)" "work_ended H (hw t)" "active t = [op]"
    "op_id op = next_id s" "next_id t = next_id s + 1" "inactive t = inactive s"
    "completed (trace t) = completed (trace s)"
    "nwaiting op = 0" "\<exists>tr op0. kmalloc_op L tr = Some op0 \<and> retval op = retval op0"
proof -
  let ?B = "dev_bus fuel H"
  obtain t op where t: "kinv t" "active t = active s @ [op]" "op_id op = next_id s"
    "job_of L fuel op j" "hw t = hw s" "next_id t = next_id s + 1" "inactive t = inactive s"
    "completed (trace t) = completed (trace s)" "psipe_ioctl L ?B s cmd arg = (if active s = []
       then bindR (start_op L ?B t op) (\<lambda>(rv, u). Inr (sint (if rv < 0 then u64_of_int rv else op_id op), u))
       else Inr (sint (next_id s), t))"
    "nwaiting op = 0" "\<exists>tr op0. kmalloc_op L tr = Some op0 \<and> retval op = retval op0"
    by (rule request_queued_full [OF r k])
  have h: "holds H v (job_input j @ rest) mo (hw t)" using d t(5) by simp
  obtain rv u tr m where u: "run_ioctl_fn (op_fn op) L ?B (hw t) (trace t) (op_dma op) = Inr (rv, u, tr, m)"
    "0 \<le> rv" "serving u" "work_ended H u" "inb v (env u) = rest"
    "mem_out v u = job_step j (mem_out v (hw t))"
    using h [unfolded holds_def] t(4) by (auto elim: job_started [where tr = "trace t"])
  have c: "completed tr = completed (trace t)" by (rule run_completed [OF u(1)])
  define t1 where "t1 = t\<lparr>hw := u, trace := tr\<rparr>"
  have k1: "kinv t1" unfolding t1_def by (rule kinv_frame [OF t(1) c])
  have a1: "active t1 = [op]" using t(2) a by (simp add: t1_def)
  have st: "start_op L ?B t op = Inr (rv, t1\<lparr>active := [op\<lparr>op_dma := m\<rparr>]\<rparr>)"
    using update_head [OF k1 a1, of "\<lambda>op. op\<lparr>op_dma := m\<rparr>"] by (simp add: start_op_def u(1) t1_def)
  moreover have "kinv (t1\<lparr>active := [op\<lparr>op_dma := m\<rparr>]\<rparr>)" by (rule kinv_start [OF t(1) st])
  moreover have "holds H v rest (job_step j mo) u" using u h by (simp add: holds_def)
  ultimately show ?thesis
    using that [of "t1\<lparr>active := [op\<lparr>op_dma := m\<rparr>]\<rparr>" "op\<lparr>op_dma := m\<rparr>"] t a u c
    by (simp add: t1_def)
qed

lemma submit_first:
  assumes d: "holds H v (job_input j @ rest) mo (hw s)"
    and r: "request_of L fuel (cmd, arg) j" and k: "kinv s" "unat (next_id s) < 2 ^ 64 - 1"
    and a: "active s = []"
  obtains t op where "psipe_ioctl L (dev_bus fuel H) s cmd arg = Inr (sint (next_id s), t)" "kinv t"
    "holds H v rest (job_step j mo) (hw t)" "work_ended H (hw t)" "active t = [op]"
    "op_id op = next_id s" "next_id t = next_id s + 1" "inactive t = inactive s"
    "completed (trace t) = completed (trace s)"
  by (rule submit_first_full [OF assms]) (rule that)

lemma burst:
  assumes d: "holds H v (concat (map job_input jobs) @ rest) mo (hw s)"
    and r: "list_all2 (request_of L fuel) reqs jobs" "reqs \<noteq> []"
    and k: "kinv s" "unat (next_id s) + length reqs < 2 ^ 64" and a: "active s = []"
  shows "\<exists>u t ops. submit_all L (dev_bus fuel H) s reqs =
       Inr (map sint (next_ids (next_id s) (length reqs)), u) \<and>
     handle_irqs fuel H L (length reqs) u = Inr t \<and> active t = [] \<and> inactive t = inactive s @ ops \<and>
     map op_id ops = next_ids (next_id s) (length reqs) \<and>
     list_all (\<lambda>op. flag op = 1) ops \<and> list_all (\<lambda>op. 0 \<le> retval op) (tl ops) \<and>
     completed (trace t) = completed (trace s) @ next_ids (next_id s) (length reqs) \<and>
     holds H v rest (serial jobs mo) (hw t) \<and> \<not> work_ended H (hw t)"
proof -
  obtain cmd arg reqs' j jobs' where l: "reqs = (cmd, arg) # reqs'" "jobs = j # jobs'"
    "request_of L fuel (cmd, arg) j" "list_all2 (request_of L fuel) reqs' jobs'"
    using r by (cases reqs) (auto simp: list_all2_Cons1)
  have w: "unat (next_id s) < 2 ^ 64 - 1" using k(2) by (simp add: l(1))
  have d': "holds H v (job_input j @ concat (map job_input jobs') @ rest) mo (hw s)"
    using d by (simp add: l(2))
  obtain s1 op where s1: "psipe_ioctl L (dev_bus fuel H) s cmd arg = Inr (sint (next_id s), s1)" "kinv s1"
    "holds H v (concat (map job_input jobs') @ rest) (job_step j mo) (hw s1)" "work_ended H (hw s1)"
    "active s1 = [op]" "op_id op = next_id s" "next_id s1 = next_id s + 1" "inactive s1 = inactive s"
    "completed (trace s1) = completed (trace s)"
    by (rule submit_first [OF d' l(3) k(1) w a])
  have "unat (next_id s1) = Suc (unat (next_id s))" using w by (simp add: s1(7) unat_word_ariths)
  then have w1: "unat (next_id s1) + length reqs' < 2 ^ 64" using k(2) by (simp add: l(1))
  obtain u ops where u: "submit_all L (dev_bus fuel H) s1 reqs' =
      Inr (map sint (next_ids (next_id s1) (length reqs')), u)" "kinv u" "hw u = hw s1"
    "active u = active s1 @ ops" "list_all2 (job_of L fuel) ops jobs'"
    "map op_id ops = next_ids (next_id s1) (length reqs')"
    "completed (trace u) = completed (trace s1)" "inactive u = inactive s1"
    using submit_queued [OF l(4) s1(2) _ w1, of "dev_bus fuel H"] s1(5) by force
  have hu: "holds H v (concat (map job_input jobs') @ rest) (job_step j mo) (hw u)"
    "work_ended H (hw u)" and au: "active u = op # ops"
    using s1 u by simp_all
  have n: "length ops = length reqs'"
    using list_all2_lengthD [OF u(5)] list_all2_lengthD [OF l(4)] by simp
  obtain t dn where t: "handle_irqs fuel H L (length reqs) u = Inr t" "active t = []"
     "inactive t = inactive u @ (op\<lparr>flag := 1\<rparr>) # dn" "map op_id dn = map op_id ops"
     "list_all (\<lambda>op. flag op = 1 \<and> 0 \<le> retval op) dn"
     "completed (trace t) = completed (trace u) @ map op_id (op # ops)"
     "holds H v rest (serial jobs' (job_step j mo)) (hw t)" "\<not> work_ended H (hw t)"
    using drain [OF hu u(2) au u(5)] n by (auto simp del: handle_irqs.simps simp: l(1))
  show ?thesis
    using s1 u t
    by (intro exI [of _ u] exI [of _ t] exI [of _ "(op\<lparr>flag := 1\<rparr>) # dn"])
      (auto simp: l(1,2) serial_def list_all_iff simp del: handle_irqs.simps)
qed

end
