(* ===== verification/Talk.thy ===== *)
theory Talk
  imports Drain
begin

text \<open>
  Two machines in conversation: each queues a list of operations, one side's send meeting the other
  side's receive. The abstract view is a list of buffer copies between two memories (\<open>talk\<close>); the
  jobs of the two queues are derived from it, and each queue writes to its connection what the
  other one reads.
\<close>

section \<open>Exchanges\<close>

text \<open>Who sends, with the sender's and the receiver's mapped buffer.\<close>

datatype exchange = First_sends psipe_dma psipe_dma | Second_sends psipe_dma psipe_dma

type_synonym memories = "(u64 \<Rightarrow> u8) \<times> (u64 \<Rightarrow> u8)"

definition buffer_copy :: "psipe_dma \<Rightarrow> (u64 \<Rightarrow> u8) \<Rightarrow> psipe_dma \<Rightarrow> (u64 \<Rightarrow> u8) \<Rightarrow> u64 \<Rightarrow> u8" where
  "buffer_copy a m b m' =
     sg_store (buffer_config b) m' (sg_bytes (buffer_config a) m 0 (mapped_len a))"

fun exchange_step :: "exchange \<Rightarrow> memories \<Rightarrow> memories" where
  "exchange_step (First_sends a b) (m1, m2) = (m1, buffer_copy a m1 b m2)"
| "exchange_step (Second_sends a b) (m1, m2) = (buffer_copy a m2 b m1, m2)"

definition talk :: "exchange list \<Rightarrow> memories \<Rightarrow> memories" where
  "talk = fold exchange_step"

section \<open>The two queues\<close>

text \<open>The receiver answers with the length it has; no other request precedes the sender's.\<close>

definition sender_job :: "psipe_dma \<Rightarrow> psipe_dma \<Rightarrow> job" where
  "sender_job a b = Job_Send a (trunc32 (dma_len b))"

definition receiver_job :: "psipe_dma \<Rightarrow> (u64 \<Rightarrow> u8) \<Rightarrow> psipe_dma \<Rightarrow> job" where
  "receiver_job a m b = Job_Recv b [] (sg_bytes (buffer_config a) m 0 (mapped_len a))"

fun exchange_jobs :: "exchange \<Rightarrow> memories \<Rightarrow> job \<times> job" where
  "exchange_jobs (First_sends a b) (m1, m2) = (sender_job a b, receiver_job a m1 b)"
| "exchange_jobs (Second_sends a b) (m1, m2) = (receiver_job a m2 b, sender_job a b)"

fun talk_jobs :: "exchange list \<Rightarrow> memories \<Rightarrow> (job \<times> job) list" where
  "talk_jobs [] mm = []"
| "talk_jobs (x # xs) mm = exchange_jobs x mm # talk_jobs xs (exchange_step x mm)"

definition first_jobs :: "exchange list \<Rightarrow> memories \<Rightarrow> job list" where
  "first_jobs xs mm = map fst (talk_jobs xs mm)"

definition second_jobs :: "exchange list \<Rightarrow> memories \<Rightarrow> job list" where
  "second_jobs xs mm = map snd (talk_jobs xs mm)"

definition jobs_input :: "job list \<Rightarrow> u8 list" where
  "jobs_input js = concat (map job_input js)"

text \<open>One exchange: memory as in \<open>exchange_step\<close>, each output the other side's input.\<close>

lemma exchange_serial:
  "job_step (fst (exchange_jobs x mm)) (fst mm, o1) =
     (fst (exchange_step x mm), o1 @ job_input (snd (exchange_jobs x mm)))"
  "job_step (snd (exchange_jobs x mm)) (snd mm, o2) =
     (snd (exchange_step x mm), o2 @ job_input (fst (exchange_jobs x mm)))"
  by (cases x; cases mm; simp add: sender_job_def receiver_job_def buffer_copy_def)+

lemma talk_serial:
  "serial (first_jobs xs mm) (fst mm, o1) = (fst (talk xs mm), o1 @ jobs_input (second_jobs xs mm))"
  "serial (second_jobs xs mm) (snd mm, o2) = (snd (talk xs mm), o2 @ jobs_input (first_jobs xs mm))"
  by (induction xs mm arbitrary: o1 o2 rule: talk_jobs.induct)
    (simp_all add: serial_def first_jobs_def second_jobs_def talk_def jobs_input_def exchange_serial)

section \<open>One side\<close>

text \<open>A machine that is idle, with its requests and what it will read.\<close>

definition talker :: "'w host \<Rightarrow> 'w view \<Rightarrow> linux \<Rightarrow> nat \<Rightarrow> 'w PSIPEDevice kstate \<Rightarrow>
    (u32 \<times> u64) list \<Rightarrow> job list \<Rightarrow> bool" where
  "talker H v L fuel s reqs jobs \<longleftrightarrow> host_contract H v \<and> msi_stable H \<and> serving (hw s) \<and> kinv s \<and>
     active s = [] \<and> unat (next_id s) + length reqs < 2 ^ 64 \<and> reqs \<noteq> [] \<and>
     list_all2 (request_of L fuel) reqs jobs \<and> inb v (env (hw s)) = jobs_input jobs"

lemma talker_runs:
  assumes "talker H v L fuel s reqs jobs"
    "serial jobs (ram v (env (hw s)), outb v (env (hw s))) = (m, outb v (env (hw s)) @ out)"
  shows "\<exists>u t. submit_all L (dev_bus fuel H) s reqs =
       Inr (map sint (next_ids (next_id s) (length reqs)), u) \<and>
     handle_irqs fuel H L (length reqs) u = Inr t \<and> active t = [] \<and>
     completed (trace t) = completed (trace s) @ next_ids (next_id s) (length reqs) \<and>
     ram v (env (hw t)) = m \<and> outb v (env (hw t)) = outb v (env (hw s)) @ out \<and>
     inb v (env (hw t)) = [] \<and> serving (hw t) \<and> \<not> work_ended H (hw t)"
proof -
  have "holds H v (concat (map job_input jobs) @ []) (mem_out v (hw s)) (hw s)"
    using assms(1) by (simp add: holds_def talker_def jobs_input_def)
  from burst [OF this, of L fuel reqs] assms show ?thesis
    unfolding talker_def holds_def mem_out_def by fastforce
qed

end
