(* ===== verification/Ref_Drain.thy ===== *)
theory Ref_Drain
  imports Examples Talk
begin

text \<open>
  The requests of the witnesses for whole queues: sends and receives of one sixteen-byte buffer on
  the reference Linux of theory Examples.
\<close>

lemma ref_ops_recv:
  "psipe_ops_new ref_linux tr PSIPE_IOCTL_RECV 0 =
     (Some ((ref_queued 0)\<lparr>op_fn := psipe_ioctl_recv_fn\<rparr>), tr @ [Kmalloc_op, Copy_from_user 0])"
  by (simp add: psipe_ops_new_def ref_linux_def ref_op_def ref_dma_def ref_queued_def Let_def
      ioctl_defs)

lemma ref_buffer:
  assumes l: "dma_len m = 16"
  shows "mapping_ok ref_linux tr plain_config m (ref_mapped m)" "mapped_len (ref_mapped m) = 16"
    "sg_inj (buffer_config (ref_mapped m))"
    "i < 16 \<Longrightarrow> sg_phys (buffer_config (ref_mapped m)) i = sg_phys ref_config i"
    "cfg_len (buffer_config (ref_mapped m)) = 16"
proof -
  let ?c = "buffer_config (ref_mapped m)"
  have h: "handles ?c k = handles ref_config k" if "k < unat (npages ref_config)" for k
    using that by (auto simp: buffer_config_def mapped_config_def ref_mapped_def plain_config_def
        blit_def dest!: less_2_cases)
  have e: "npages ?c = npages ref_config" "cfg_len ?c = cfg_len ref_config" "plain ?c"
    using l by (simp_all add: buffer_config_def mapped_config_def ref_mapped_def plain_def plain_config_def)
  note s = same_buffer [OF h e(1,2) ref_sg_wf _ e(3), simplified]
  show "mapping_ok ref_linux tr plain_config m (ref_mapped m)"
    using ref_map_pages [of tr m] s(1) l
    by (simp add: mapping_ok_def buffer_config_def ref_mapped_def handle_window_def)
  show "mapped_len (ref_mapped m) = 16" using l by (simp add: mapped_len_def ref_mapped_def)
  show "sg_inj ?c" using s(3) ref_sg_inj by simp
  show "i < 16 \<Longrightarrow> sg_phys ?c i = sg_phys ref_config i" using s(2) .
  show "cfg_len ?c = 16" using e(2) by simp
qed

lemma ref_requests:
  "request_of ref_linux 20 (PSIPE_IOCTL_SEND, 0) (Job_Send (ref_mapped (send_dma ref_dma)) 16)"
  "length ds = 16 \<Longrightarrow>
     request_of ref_linux 20 (PSIPE_IOCTL_RECV, 0) (Job_Recv (ref_mapped (recv_dma ref_dma)) [] ds)"
proof -
  have l: "dma_len (send_dma ref_dma) = 16" "dma_len (recv_dma ref_dma) = 16" "dma_len ref_dma = 16"
    by (simp_all add: send_dma_def recv_dma_def ref_dma_def)
  show "request_of ref_linux 20 (PSIPE_IOCTL_SEND, 0) (Job_Send (ref_mapped (send_dma ref_dma)) 16)"
    by (simp add: request_of_def ref_ops_new ref_pin ref_buffer l)
  show "request_of ref_linux 20 (PSIPE_IOCTL_RECV, 0) (Job_Recv (ref_mapped (recv_dma ref_dma)) [] ds)"
    if "length ds = 16"
    using that by (simp add: request_of_def ref_ops_recv ref_pin ref_buffer l skipped_def)
qed

lemma ref_stored:
  assumes "dma_len m = 16" "length ds = 16" "dma_len m' = 16"
  shows "sg_bytes (buffer_config (ref_mapped m')) (sg_store (buffer_config (ref_mapped m)) mem ds) 0 16 = ds"
proof -
  note b = ref_buffer [OF assms(1)]
  have w: "sg_written (buffer_config (ref_mapped m)) mem (sg_store (buffer_config (ref_mapped m)) mem ds) 0 ds"
    using assms(2) by (intro sg_store_written b(3)) (simp add: b(5))
  show ?thesis
    using w assms(2) b(4) ref_buffer(4) [OF assms(3)]
    by (auto simp: sg_bytes_def sg_written_def intro!: nth_equalityI)
qed

text \<open>The same buffer, mapped for sending and for receiving.\<close>

definition ref_out :: psipe_dma where "ref_out = ref_mapped (send_dma ref_dma)"

definition ref_in :: psipe_dma where "ref_in = ref_mapped (recv_dma ref_dma)"

lemma ref_talk_jobs:
  "request_of ref_linux 20 (PSIPE_IOCTL_SEND, 0) (sender_job ref_out ref_in)"
  "request_of ref_linux 20 (PSIPE_IOCTL_RECV, 0) (receiver_job ref_out m ref_in)"
proof -
  have l: "dma_len (send_dma ref_dma) = 16" "trunc32 (dma_len ref_in) = 16"
    by (simp_all add: send_dma_def ref_in_def recv_dma_def ref_dma_def ref_mapped_def)
  show "request_of ref_linux 20 (PSIPE_IOCTL_SEND, 0) (sender_job ref_out ref_in)"
    using ref_requests(1) by (simp add: sender_job_def ref_out_def l)
  show "request_of ref_linux 20 (PSIPE_IOCTL_RECV, 0) (receiver_job ref_out m ref_in)"
    using ref_requests(2) ref_buffer(2) [OF l(1)]
    by (simp add: receiver_job_def ref_out_def ref_in_def sg_bytes_def)
qed

end
