(* ===== verification/Stack.thy ===== *)
theory Stack
  imports Drain Link
begin

text \<open>
  The system calls of theory \<^verbatim>\<open>Wrappers\<close> on the modelled module and devices: a machine is the module's
  state and the device behind every descriptor, and \<^verbatim>\<open>ioctl\<close> runs the module on it. The process and
  the devices share memory through a page table; interrupts arrive before any system call, in any
  order, and while a process sleeps. Theory \<^verbatim>\<open>Stack_Laws\<close> proves that this is a system of theory
  \<^verbatim>\<open>Link\<close>.
\<close>

section \<open>The machine\<close>

text \<open>
  What is not under src/: host, Linux, the page table of the process (the DMA address of a user
  address), the store of the process's memory in that of the machine, and the arrival of bytes on a
  connection. \<open>behind\<close> is the program at the other end of each connection; \<open>irqs n\<close> are the
  descriptors whose devices' interrupts are taken before system call number \<open>n\<close>; \<open>greeting\<close> is what
  the devices have sent before the first transfer, the connection test of the proxy.
\<close>

record 'e board =
  b_host :: "'e host"
  b_view :: "'e view"
  b_linux :: linux
  b_fuel :: nat
  page :: "u64 \<Rightarrow> u64 option"
  user_store :: "'e \<Rightarrow> (u64 \<Rightarrow> u8) \<Rightarrow> 'e"
  arrive :: "'e \<Rightarrow> u8 list \<Rightarrow> 'e"
  behind :: "int \<Rightarrow> u8 list list \<Rightarrow> nat \<Rightarrow> u8 list"
  irqs :: "nat \<Rightarrow> int list"
  greeting :: "u8 list"

text \<open>The C library and the rest of the kernel, on their own state.\<close>

record 'r libc =
  lc_opendir :: "string \<Rightarrow> 'r \<Rightarrow> dirent list option \<times> 'r"
  lc_malloc :: "u64 \<Rightarrow> 'r \<Rightarrow> bool \<times> 'r"
  lc_memalign :: "u64 \<Rightarrow> u64 \<Rightarrow> 'r \<Rightarrow> int \<times> u64 \<times> 'r"
  lc_open :: "string \<Rightarrow> 'r \<Rightarrow> int \<times> 'r"
  lc_close :: "int \<Rightarrow> 'r \<Rightarrow> 'r"
  lc_params :: u64
  lc_garbage :: int

text \<open>
  Behind every descriptor the module's state with the device. \<open>transfers\<close>, \<open>unwaited\<close> and \<open>arrived\<close>
  record what has been posted, what of it has not been waited for, and what has arrived on the
  connection; the module and the devices do not read them.
\<close>

record ('e, 'r) node =
  kernels :: "int \<Rightarrow> 'e PSIPEDevice kstate"
  transfers :: "int \<Rightarrow> transfer list"
  unwaited :: "int \<Rightarrow> post list"
  arrived :: "int \<Rightarrow> u8 list"
  calls :: nat
  libs :: 'r

text \<open>What a transfer puts on the connection, and what the device on the other side puts there.\<close>

fun wire_out :: "transfer \<Rightarrow> u8 list" where
  "wire_out (T_Out bs) = enc_req PSIPE_REQ_SLN @ frames bs"
| "wire_out (T_In bs) = enc_req PSIPE_REQ_RLN @ enc_len (of_nat (length bs))"

fun other_end :: "transfer \<Rightarrow> transfer" where
  "other_end (T_Out bs) = T_In bs"
| "other_end (T_In bs) = T_Out bs"

definition wire_in :: "transfer \<Rightarrow> u8 list" where
  "wire_in t = wire_out (other_end t)"

definition wires :: "(transfer \<Rightarrow> u8 list) \<Rightarrow> transfer list \<Rightarrow> u8 list" where
  "wires f ts = concat (map f ts)"

definition said :: "'e board \<Rightarrow> transfer list \<Rightarrow> u8 list" where
  "said b ts = greeting b @ wires wire_out ts"

section \<open>Entering and leaving the kernel\<close>

text \<open>The devices see the process's memory as it is at the system call.\<close>

definition set_env :: "'e \<Rightarrow> 'e PSIPEDevice kstate \<Rightarrow> 'e PSIPEDevice kstate" where
  "set_env e s = s\<lparr>hw := (hw s)\<lparr>env := e\<rparr>\<rparr>"

definition entered :: "'e board \<Rightarrow> int \<Rightarrow> ('e, 'r) node proc \<Rightarrow> 'e PSIPEDevice kstate" where
  "entered b fd p =
     (let s = kernels (pos p) fd in set_env (user_store b (env (hw s)) (pmem p)) s)"

definition user_mem :: "'e board \<Rightarrow> 'e PSIPEDevice kstate \<Rightarrow> (u64 \<Rightarrow> u8) \<Rightarrow> u64 \<Rightarrow> u8" where
  "user_mem b s m =
     (\<lambda>x. case page b x of None \<Rightarrow> m x | Some a \<Rightarrow> ram (b_view b) (env (hw s)) a)"

definition set_kernel :: "int \<Rightarrow> 'e PSIPEDevice kstate \<Rightarrow> ('e, 'r) node proc \<Rightarrow> ('e, 'r) node proc" where
  "set_kernel fd s p = p\<lparr>pos := (pos p)\<lparr>kernels := (kernels (pos p))(fd := s)\<rparr>\<rparr>"

definition left :: "'e board \<Rightarrow> int \<Rightarrow> 'e PSIPEDevice kstate \<Rightarrow> ('e, 'r) node proc \<Rightarrow> ('e, 'r) node proc" where
  "left b fd s p = set_kernel fd s (p\<lparr>pmem := user_mem b s (pmem p)\<rparr>)"

abbreviation b_bus :: "'e board \<Rightarrow> 'e PSIPEDevice bus" where
  "b_bus b \<equiv> dev_bus (b_fuel b) (b_host b)"

text \<open>An interrupt, if the device raises one. A fault of the module would leave things as they are.\<close>

definition take_irq :: "'e board \<Rightarrow> int \<Rightarrow> ('e, 'r) node proc \<Rightarrow> ('e, 'r) node proc" where
  "take_irq b fd p =
     (let s = entered b fd p
      in if \<not> work_ended (b_host b) (hw s) then p
         else case psipe_irq_handler (b_linux b) (b_bus b) s of
           Inl _ \<Rightarrow> p
         | Inr (_, t) \<Rightarrow> left b fd t p)"

section \<open>The ioctls\<close>

text \<open>
  A send or receive. \<^verbatim>\<open>copy_from_user\<close> reads the structure the caller passes; the value of the ioctl
  is cut to an \<^verbatim>\<open>int\<close>. What the other side contributes to the transfer arrives on the connection.
\<close>

definition new_transfer :: "'e board \<Rightarrow> int \<Rightarrow> u32 \<Rightarrow> psipe_data \<Rightarrow> ('e, 'r) node proc \<Rightarrow> transfer" where
  "new_transfer b fd cmd d p =
     (let ts = transfers (pos p) fd
      in if cmd = PSIPE_IOCTL_SEND then T_Out (peek p (data_addr d) (unat (data_len d)))
         else T_In (behind b fd (outs ts) (length (ins ts))))"

fun new_post :: "post list \<Rightarrow> u64 \<Rightarrow> u64 \<Rightarrow> transfer \<Rightarrow> post" where
  "new_post ps h a (T_Out bs) = (if ps = [] then P_Sent h else P_Send h a bs)"
| "new_post ps h a (T_In bs) = P_Recv h a bs"

definition posted_op :: "int \<Rightarrow> transfer \<Rightarrow> u64 \<Rightarrow> u64 \<Rightarrow> ('e, 'r) node \<Rightarrow> ('e, 'r) node" where
  "posted_op fd t h a w = w\<lparr>transfers := (transfers w)(fd := transfers w fd @ [t]),
     unwaited := (unwaited w)(fd := unwaited w fd @ [new_post (unwaited w fd) h a t]),
     arrived := (arrived w)(fd := arrived w fd @ wire_in t)\<rparr>"

definition with_data :: "linux \<Rightarrow> psipe_data \<Rightarrow> linux" where
  "with_data L d = L\<lparr>copy_from_user := (\<lambda>_ _. (0, d))\<rparr>"

definition stack_submit ::
    "'e board \<Rightarrow> int \<Rightarrow> u32 \<Rightarrow> psipe_data \<Rightarrow> ('e, 'r) node proc \<Rightarrow> int \<times> ('e, 'r) node proc" where
  "stack_submit b fd cmd d p =
     (let t = new_transfer b fd cmd d p;
          s = entered b fd p;
          s = set_env (arrive b (env (hw s)) (wire_in t)) s
      in case psipe_ioctl (with_data (b_linux b) d) (b_bus b) s cmd 0 of
           Inl _ \<Rightarrow> (- 1, p)
         | Inr (rv, s) \<Rightarrow>
             let r = s32 rv; q = left b fd s p
             in (r, if r < 0 then q
                    else q\<lparr>pos := posted_op fd t (u64_of_int r) (data_addr d) (pos q)\<rparr>))"

text \<open>\<^verbatim>\<open>wait_event\<close>: interrupts are taken until the operation's flag is set.\<close>

fun sleeps :: "'e board \<Rightarrow> int \<Rightarrow> u64 \<Rightarrow> nat \<Rightarrow> ('e, 'r) node proc \<Rightarrow> ('e, 'r) node proc" where
  "sleeps b fd h 0 p = p"
| "sleeps b fd h (Suc n) p =
     (case find_op h (kernels (pos p) fd) of
        None \<Rightarrow> p
      | Some op \<Rightarrow> if flag op = 1 then p else sleeps b fd h n (take_irq b fd p))"

definition stack_wait ::
    "'e board \<Rightarrow> int \<Rightarrow> u64 \<Rightarrow> ('e, 'r) node proc \<Rightarrow> int \<times> ('e, 'r) node proc" where
  "stack_wait b fd h p =
     (let s = kernels (pos p) fd
      in case psipe_ops_get s h of
        None \<Rightarrow> (- EINVAL, p)
      | Some op \<Rightarrow>
          let q = sleeps b fd (op_id op) (length (active s))
                    (set_kernel fd (ops_wait_enter s (op_id op)) p)
          in case ops_wait_leave (kernels (pos q) fd) (op_id op) of
               Inl _ \<Rightarrow> (- 1, q)
             | Inr (rv, t) \<Rightarrow>
                 let q = set_kernel fd t q; w = pos q
                 in (s32 rv, q\<lparr>pos := w\<lparr>unwaited := (unwaited w)(fd :=
                      tl (dropWhile (\<lambda>x. post_id x \<noteq> h) (unwaited w fd)))\<rparr>\<rparr>))"

definition stack_flush :: "'e board \<Rightarrow> int \<Rightarrow> u32 \<Rightarrow> ('e, 'r) node proc \<Rightarrow> int \<times> ('e, 'r) node proc" where
  "stack_flush b fd cmd p =
     (case psipe_ioctl (b_linux b) (b_bus b) (kernels (pos p) fd) cmd 0 of
        Inl _ \<Rightarrow> (- 1, p)
      | Inr (rv, s) \<Rightarrow> (s32 rv, set_kernel fd s p))"

definition interrupted :: "'e board \<Rightarrow> ('e, 'r) node proc \<Rightarrow> ('e, 'r) node proc" where
  "interrupted b p =
     fold (take_irq b) (irqs b (calls (pos p))) (p\<lparr>pos := (pos p)\<lparr>calls := Suc (calls (pos p))\<rparr>\<rparr>)"

definition stack_ioctl ::
    "'e board \<Rightarrow> int \<Rightarrow> u32 \<Rightarrow> ioctl_arg \<Rightarrow> ('e, 'r) node proc \<Rightarrow> int \<times> ('e, 'r) node proc" where
  "stack_ioctl b fd cmd arg p =
     (let p = interrupted b p
      in case arg of
        Data d \<Rightarrow> stack_submit b fd cmd d p
      | Handle h \<Rightarrow> stack_wait b fd h p
      | No_Arg \<Rightarrow> stack_flush b fd cmd p)"

definition set_libs :: "('e, 'r) node proc \<Rightarrow> 'r \<Rightarrow> ('e, 'r) node proc" where
  "set_libs p r = p\<lparr>pos := (pos p)\<lparr>libs := r\<rparr>\<rparr>"

definition stack_sys :: "'e board \<Rightarrow> 'r libc \<Rightarrow> ('e, 'r) node sys" where
  "stack_sys b C = \<lparr>
     sys_ioctl = stack_ioctl b,
     sys_opendir = (\<lambda>path p. apsnd (set_libs p) (lc_opendir C path (libs (pos p)))),
     sys_malloc = (\<lambda>sz p. apsnd (set_libs p) (lc_malloc C sz (libs (pos p)))),
     sys_memalign = (\<lambda>al sz p. apsnd (apsnd (set_libs p)) (lc_memalign C al sz (libs (pos p)))),
     sys_open = (\<lambda>path p. apsnd (set_libs p) (lc_open C path (libs (pos p)))),
     sys_close = (\<lambda>fd p. set_libs p (lc_close C fd (libs (pos p)))),
     params_at = lc_params C,
     garbage = lc_garbage C\<rparr>"

end
