(* ===== verification/Stack_Inv.thy ===== *)
theory Stack_Inv
  imports Stack
begin

text \<open>
  The invariant of the machine of theory \<^verbatim>\<open>Stack\<close>: what the module, the device and the memory have to
  do with the operations the process has posted. The posts of a descriptor are those already
  executed, of which the last one may await its interrupt, and those queued behind it.
\<close>

section \<open>What is assumed of the board\<close>

definition stores_user :: "'e board \<Rightarrow> bool" where
  "stores_user b \<longleftrightarrow> inj_on (page b) (dom (page b)) \<and>
     (\<forall>e m. (\<forall>x a. page b x = Some a \<longrightarrow> ram (b_view b) (user_store b e m) a = m x) \<and>
        inb (b_view b) (user_store b e m) = inb (b_view b) e \<and>
        outb (b_view b) (user_store b e m) = outb (b_view b) e \<and>
        msi_enabled (b_host b) (user_store b e m) = msi_enabled (b_host b) e)"

definition delivers :: "'e board \<Rightarrow> bool" where
  "delivers b \<longleftrightarrow>
     (\<forall>e bs. inb (b_view b) (arrive b e bs) = inb (b_view b) e @ bs \<and>
        ram (b_view b) (arrive b e bs) = ram (b_view b) e \<and>
        outb (b_view b) (arrive b e bs) = outb (b_view b) e \<and>
        msi_enabled (b_host b) (arrive b e bs) = msi_enabled (b_host b) e)"

text \<open>
  \<^verbatim>\<open>kmalloc\<close> succeeds with memory in which \<^verbatim>\<open>retval\<close> is not negative, as zeroed memory is: the
  module does not store the result of an operation it starts at once.
\<close>

definition allocates :: "linux \<Rightarrow> bool" where
  "allocates L \<longleftrightarrow>
     (\<forall>tr. \<exists>op. kmalloc_op L tr = Some op \<and> 0 \<le> retval op \<and> s32 (retval op) = retval op)"

definition board_ok :: "'e board \<Rightarrow> int set \<Rightarrow> bool" where
  "board_ok b F \<longleftrightarrow> host_contract (b_host b) (b_view b) \<and> msi_stable (b_host b) \<and> stores_user b \<and>
     delivers b \<and> allocates (b_linux b) \<and> (\<forall>n. set (irqs b n) \<subseteq> F)"

text \<open>
  A buffer the devices can take: its pages can be pinned, and are mapped to a list of addresses the
  device can take, at which the page table says its bytes are.
\<close>

definition mapped_at :: "'e board \<Rightarrow> u64 \<Rightarrow> nat \<Rightarrow> psipe_dma \<Rightarrow> bool" where
  "mapped_at b a n m \<longleftrightarrow> mapped_len m = n \<and>
     (\<forall>i < n. page b (a + of_nat i) = Some (sg_phys (buffer_config m) i))"

definition can_take :: "'e board \<Rightarrow> u64 \<Rightarrow> nat \<Rightarrow> bool" where
  "can_take b a n \<longleftrightarrow> 0 < n \<and> Suc n < b_fuel b \<and> n < 2 ^ 32 \<and>
     (\<exists>k hs. unat k \<le> handle_window \<and> unat k \<le> length hs \<and>
       (\<forall>m. dma_addr m = a \<and> unat (dma_len m) = n \<longrightarrow>
          (\<forall>tr. \<exists>tr'. psipe_dma_pin_pages (b_linux b) tr m =
             (0, tr', m\<lparr>dma_npages := u64_of_int (page_count a (dma_len m))\<rparr>)) \<and>
          (\<forall>tr. dma_map_sg (b_linux b) tr m = (k, hs)) \<and>
          sg_wf (buffer_config (m\<lparr>nmapped := ucast k, sgl := hs\<rparr>)) \<and>
          mapped_at b a n (m\<lparr>nmapped := ucast k, sgl := hs\<rparr>)))"

section \<open>Posts\<close>

fun post_region :: "post \<Rightarrow> u64 set" where
  "post_region (P_Sent i) = {}"
| "post_region (P_Send i a bs) = span a (length bs)"
| "post_region (P_Recv i a bs) = span a (length bs)"

text \<open>A receive changes nothing another post reads or writes.\<close>

definition harmless :: "post \<Rightarrow> post \<Rightarrow> bool" where
  "harmless q q' \<longleftrightarrow> (is_recv q \<longrightarrow> post_region q \<inter> post_region q' = {})"

text \<open>What an executed receive has left in memory; what a queued operation will do.\<close>

fun executed :: "(u64 \<Rightarrow> u8) \<Rightarrow> post \<Rightarrow> bool" where
  "executed m (P_Recv i a bs) \<longleftrightarrow> ram_bytes m a (length bs) = bs"
| "executed m _ \<longleftrightarrow> True"

fun queued :: "'e board \<Rightarrow> (u64 \<Rightarrow> u8) \<Rightarrow> post \<Rightarrow> job \<Rightarrow> bool" where
  "queued b m (P_Send i a bs) (Job_Send d l) \<longleftrightarrow>
     mapped_at b a (length bs) d \<and> l = of_nat (length bs) \<and> ram_bytes m a (length bs) = bs"
| "queued b m (P_Recv i a bs) (Job_Recv d rs ds) \<longleftrightarrow> mapped_at b a (length bs) d \<and> rs = [] \<and> ds = bs"
| "queued b m _ _ \<longleftrightarrow> False"

fun post_out :: "post \<Rightarrow> u8 list" where
  "post_out (P_Sent i) = []"
| "post_out (P_Send i a bs) = wire_out (T_Out bs)"
| "post_out (P_Recv i a bs) = wire_out (T_In bs)"

section \<open>One descriptor\<close>

definition op_ok :: "u64 option \<Rightarrow> psipe_op \<Rightarrow> bool" where
  "op_ok W op \<longleftrightarrow> nwaiting op = of_bool (W = Some (op_id op)) \<and> 0 \<le> retval op \<and>
     s32 (retval op) = retval op"

text \<open>
  \<open>split_posts b m s dn act jobs\<close>: the posts \<open>dn\<close> are complete, those in \<open>act\<close> are the module's queue,
  the first of them executed by the device, the others with their \<open>jobs\<close> still to do.
\<close>

definition split_posts ::
    "'e board \<Rightarrow> (u64 \<Rightarrow> u8) \<Rightarrow> 'e PSIPEDevice kstate \<Rightarrow> post list \<Rightarrow> post list \<Rightarrow> job list \<Rightarrow> bool" where
  "split_posts b m s dn act jobs \<longleftrightarrow>
     map post_id act = map op_id (active s) \<and> post_id ` set dn \<subseteq> op_id ` set (inactive s) \<and>
     (\<forall>q \<in> set (dn @ take 1 act). executed m q) \<and>
     list_all2 (queued b m) (drop 1 act) jobs \<and>
     list_all2 (job_of (b_linux b) (b_fuel b)) (drop 1 (active s)) jobs \<and>
     inb (b_view b) (env (hw s)) = concat (map job_input jobs) \<and>
     (work_ended (b_host b) (hw s) \<longleftrightarrow> act \<noteq> [])"

definition fd_ok ::
    "'e board \<Rightarrow> u64 option \<Rightarrow> (u64 \<Rightarrow> u8) \<Rightarrow> 'e PSIPEDevice kstate \<Rightarrow> transfer list \<Rightarrow> post list \<Rightarrow> bool" where
  "fd_ok b W m s ts ps \<longleftrightarrow>
     kinv s \<and> serving (hw s) \<and> unat (next_id s) = length ts \<and> length ts \<le> 2 ^ 31 \<and>
     (\<forall>op \<in> set (active s @ inactive s). op_ok W op) \<and>
     distinct (map post_id ps) \<and> sorted_wrt harmless ps \<and>
     (\<exists>dn act jobs. ps = dn @ act \<and> split_posts b m s dn act jobs \<and>
        outb (b_view b) (env (hw s)) @ concat (map post_out (drop 1 act)) = said b ts)"

lemma fd_okI:
  assumes "kinv s" "serving (hw s)" "unat (next_id s) = length ts" "length ts \<le> 2 ^ 31"
    "\<And>op. op \<in> set (active s @ inactive s) \<Longrightarrow> op_ok W op" "distinct (map post_id ps)" "sorted_wrt harmless ps"
    "ps = dn @ act" "split_posts b m s dn act jobs"
    "outb (b_view b) (env (hw s)) @ concat (map post_out (drop 1 act)) = said b ts"
  shows "fd_ok b W m s ts ps"
  unfolding fd_ok_def using assms by blast

section \<open>All descriptors\<close>

definition stack_inv :: "'e board \<Rightarrow> int set \<Rightarrow> (int \<Rightarrow> u64 option) \<Rightarrow> ('e, 'r) node proc \<Rightarrow> bool" where
  "stack_inv b F W p \<longleftrightarrow>
     (\<forall>fd \<in> F. fd_ok b (W fd) (pmem p) (kernels (pos p) fd) (transfers (pos p) fd) (unwaited (pos p) fd) \<and>
        arrived (pos p) fd = wires wire_in (transfers (pos p) fd)) \<and>
     (\<forall>fd. fd \<notin> F \<longrightarrow> unwaited (pos p) fd = []) \<and>
     (\<forall>fd \<in> F. \<forall>fd' \<in> F. fd \<noteq> fd' \<longrightarrow>
        (\<forall>q \<in> set (unwaited (pos p) fd). \<forall>q' \<in> set (unwaited (pos p) fd'). harmless q q'))"

definition stack_view ::
    "'e board \<Rightarrow> int set \<Rightarrow> ('r \<Rightarrow> u64 set) \<Rightarrow> ('r \<Rightarrow> nat) \<Rightarrow> ('e, 'r) node link_view" where
  "stack_view b F hp rm = \<lparr>
     open_fds = F, log = transfers, posted = unwaited, peer = behind b, takes = can_take b,
     heap = (\<lambda>w. hp (libs w)), room = (\<lambda>w. rm (libs w)), sane = stack_inv b F (\<lambda>_. None)\<rparr>"

text \<open>Allocations hand out memory that is not in use, every part of which the devices can take.\<close>

definition libc_ok :: "'e board \<Rightarrow> 'r libc \<Rightarrow> ('r \<Rightarrow> u64 set) \<Rightarrow> ('r \<Rightarrow> nat) \<Rightarrow> bool" where
  "libc_ok b C hp rm \<longleftrightarrow> (\<forall>r al sz. unat sz \<le> rm r \<longrightarrow>
     (\<exists>a r'. lc_memalign C al sz r = (0, a, r') \<and> span a (unat sz) \<inter> hp r = {} \<and>
        hp r' = hp r \<union> span a (unat sz) \<and> rm r' = rm r - unat sz \<and>
        (\<forall>x y. x + y \<le> unat sz \<and> 0 < y \<longrightarrow> can_take b (a + of_nat x) y)))"

section \<open>Memory\<close>

lemma executed_frame:
  assumes "executed m q" "\<And>x. x \<in> post_region q \<Longrightarrow> m' x = m x" shows "executed m' q"
proof (cases q)
  case (P_Recv i a bs)
  then have "ram_bytes m' a (length bs) = ram_bytes m a (length bs)"
    using assms(2) span_nth by (intro nth_equalityI) simp_all
  then show ?thesis using assms(1) P_Recv by simp
qed simp_all

lemma queued_frame:
  assumes "queued b m q j" "\<And>x. x \<in> post_region q \<Longrightarrow> m' x = m x" shows "queued b m' q j"
proof (cases q)
  case (P_Send i a bs)
  then have "ram_bytes m' a (length bs) = ram_bytes m a (length bs)"
    using assms(2) span_nth by (intro nth_equalityI) simp_all
  then show ?thesis using assms(1) P_Send by (cases j) simp_all
next
  case (P_Recv i a bs)
  then show ?thesis using assms(1) by (cases j) simp_all
qed (use assms in simp)

lemma split_posts_frame:
  assumes "split_posts b m s dn act jobs" "\<And>q x. q \<in> set (dn @ act) \<Longrightarrow> x \<in> post_region q \<Longrightarrow> m' x = m x"
  shows "split_posts b m' s dn act jobs"
proof -
  have "executed m' q" if "q \<in> set (dn @ take 1 act)" for q
  proof (rule executed_frame)
    show "executed m q" using assms(1) that unfolding split_posts_def by blast
    have "q \<in> set (dn @ act)" using that by (auto dest: in_set_takeD)
    then show "m' x = m x" if "x \<in> post_region q" for x using assms(2) that by blast
  qed
  moreover have "list_all2 (queued b m') (drop 1 act) jobs"
  proof (rule list.rel_mono_strong)
    show "list_all2 (queued b m) (drop 1 act) jobs" using assms(1) by (simp add: split_posts_def)
    fix q j assume q: "q \<in> set (drop 1 act)" "queued b m q j"
    from q(2) show "queued b m' q j"
      by (rule queued_frame) (use assms(2) q(1) in \<open>auto dest: in_set_dropD\<close>)
  qed
  ultimately show ?thesis using assms(1) by (simp add: split_posts_def)
qed

lemma fd_ok_frame:
  assumes "fd_ok b W m s ts ps" "\<And>q x. q \<in> set ps \<Longrightarrow> x \<in> post_region q \<Longrightarrow> m' x = m x"
  shows "fd_ok b W m' s ts ps"
proof -
  obtain dn act jobs where h: "ps = dn @ act" "split_posts b m s dn act jobs"
    "outb (b_view b) (env (hw s)) @ concat (map post_out (drop 1 act)) = said b ts"
    using assms(1) unfolding fd_ok_def by blast
  have "split_posts b m' s dn act jobs"
    by (rule split_posts_frame [OF h(2)]) (use assms(2) h(1) in blast)
  then show ?thesis using assms(1) h unfolding fd_ok_def by blast
qed

section \<open>Entering the kernel\<close>

text \<open>The environment may change in memory only.\<close>

lemma serving_env [simp]: "serving (d\<lparr>env := e\<rparr>) = serving d"
  by (simp add: serving_def dev_ready_def connected_def psipe_dma_is_idle_def)

lemma set_env_simps [simp]:
  "active (set_env e s) = active s" "inactive (set_env e s) = inactive s"
  "next_id (set_env e s) = next_id s" "trace (set_env e s) = trace s"
  "hw (set_env e s) = (hw s)\<lparr>env := e\<rparr>" "kinv (set_env e s) = kinv s"
  by (simp_all add: set_env_def kinv_def)

lemma work_ended_env:
  "msi_enabled H e = msi_enabled H (env d) \<Longrightarrow> work_ended H (d\<lparr>env := e\<rparr>) = work_ended H d"
  by (simp add: work_ended_def psipe_irq_check_def psipe_irq_check_msi_def psipe_irq_check_intx_def)

lemma fd_ok_env:
  assumes "fd_ok b W m s ts ps" "inb (b_view b) e = inb (b_view b) (env (hw s))"
    "outb (b_view b) e = outb (b_view b) (env (hw s))"
    "msi_enabled (b_host b) e = msi_enabled (b_host b) (env (hw s))"
  shows "fd_ok b W m (set_env e s) ts ps"
  using assms(1) by (simp add: fd_ok_def split_posts_def assms(2-4) work_ended_env)

definition synced :: "'e board \<Rightarrow> (u64 \<Rightarrow> u8) \<Rightarrow> 'e PSIPEDevice kstate \<Rightarrow> bool" where
  "synced b m s \<longleftrightarrow> (\<forall>x a. page b x = Some a \<longrightarrow> ram (b_view b) (env (hw s)) a = m x)"

lemma entered_ok:
  assumes "stores_user b" "fd_ok b W (pmem p) (kernels (pos p) fd) ts ps"
  shows "fd_ok b W (pmem p) (entered b fd p) ts ps" "synced b (pmem p) (entered b fd p)"
proof -
  show "fd_ok b W (pmem p) (entered b fd p) ts ps"
    unfolding entered_def Let_def by (rule fd_ok_env) (use assms in \<open>simp_all add: stores_user_def\<close>)
  show "synced b (pmem p) (entered b fd p)"
    using assms(1) by (simp add: synced_def entered_def Let_def stores_user_def)
qed

text \<open>What the device leaves in memory, as the process sees it.\<close>

lemma user_mem_same:
  "synced b m s \<Longrightarrow> ram (b_view b) (env (hw t)) = ram (b_view b) (env (hw s)) \<Longrightarrow> user_mem b t m = m"
  by (rule ext) (auto simp: user_mem_def synced_def split: option.splits)

lemma page_inj: "stores_user b \<Longrightarrow> page b x = Some y \<Longrightarrow> page b x' = Some y \<Longrightarrow> x = x'"
  unfolding stores_user_def by (elim conjE, rule inj_onD [of "page b" "dom (page b)"]) auto

lemma mapped_page:
  assumes "mapped_at b a n d" "x \<in> span a n"
  shows "page b x = Some (sg_phys (buffer_config d) (unat (x - a)))"
proof -
  have "page b (a + of_nat (unat (x - a))) = Some (sg_phys (buffer_config d) (unat (x - a)))"
    using assms unfolding mapped_at_def span_def by blast
  then show ?thesis by simp
qed

lemma mapped_phys:
  assumes "stores_user b" "mapped_at b a n d" "n \<le> 2 ^ 64" "page b x = Some y"
  shows "(\<exists>i < n. y = sg_phys (buffer_config d) i) \<longleftrightarrow> x \<in> span a n"
proof
  assume "\<exists>i < n. y = sg_phys (buffer_config d) i"
  then obtain i where i: "i < n" "page b (a + of_nat i) = Some y"
    using assms(2) by (auto simp: mapped_at_def)
  then have "x = a + of_nat i" using page_inj [OF assms(1,4)] by simp
  then show "x \<in> span a n" using span_nth [OF i(1)] by simp
next
  assume x: "x \<in> span a n"
  then have "y = sg_phys (buffer_config d) (unat (x - a))"
    using mapped_page [OF assms(2) x] assms(4) by simp
  then show "\<exists>i < n. y = sg_phys (buffer_config d) i" using x by (auto simp: span_def)
qed

lemma mapped_inj:
  assumes "stores_user b" "mapped_at b a n d" "n \<le> 2 ^ 64"
  shows "sg_inj (buffer_config d)"
proof -
  have "i = j" if "i < n" "j < n" "sg_phys (buffer_config d) i = sg_phys (buffer_config d) j" for i j
  proof -
    have "page b (a + of_nat i) = Some (sg_phys (buffer_config d) i)"
      "page b (a + of_nat j) = Some (sg_phys (buffer_config d) i)"
      using assms(2) that by (simp_all add: mapped_at_def)
    then have "a + of_nat i = a + of_nat j" by (rule page_inj [OF assms(1)])
    moreover have "i < 2 ^ 64" "j < 2 ^ 64" using that assms(3) by simp_all
    ultimately show ?thesis by (metis add_left_cancel unat_of_nat_u64)
  qed
  moreover have "unat (cfg_len (buffer_config d)) = n"
    using assms(2) by (simp add: mapped_at_def mapped_len_def buffer_config_def mapped_config_simps)
  ultimately show ?thesis by (auto simp: sg_inj_def inj_on_def)
qed

lemma user_mem_stored:
  assumes b: "stores_user b" and m: "mapped_at b a (length bs) d" "length bs \<le> 2 ^ 64"
    and s: "synced b m s" and t: "ram (b_view b) (env (hw t)) =
      sg_store (buffer_config d) (ram (b_view b) (env (hw s))) bs"
  shows "user_mem b t m = ram_store m a bs"
proof
  fix x
  let ?c = "buffer_config d" and ?r = "ram (b_view b) (env (hw s))"
  have len: "length bs = unat (cfg_len ?c)"
    using m(1) by (simp add: mapped_at_def mapped_len_def buffer_config_def mapped_config_simps)
  have w: "(\<forall>i < length bs. sg_store ?c ?r bs (sg_phys ?c i) = bs ! i) \<and>
      (\<forall>y. (\<forall>i < length bs. y \<noteq> sg_phys ?c i) \<longrightarrow> sg_store ?c ?r bs y = ?r y)"
    using sg_store_written [OF mapped_inj [OF b m] len] by (simp add: sg_written_def)
  show "user_mem b t m x = ram_store m a bs x"
  proof (cases "page b x")
    case None
    have "x \<notin> span a (length bs)" using mapped_page [OF m(1)] None by auto
    then show ?thesis using None by (simp add: user_mem_def ram_store_def span_def)
  next
    case (Some y)
    note iff = mapped_phys [OF b m Some]
    show ?thesis
    proof (cases "x \<in> span a (length bs)")
      case True
      then have u: "unat (x - a) < length bs" by (simp add: span_def)
      have "y = sg_phys ?c (unat (x - a))" using mapped_page [OF m(1) True] Some by simp
      then show ?thesis using w u Some t by (simp add: user_mem_def ram_store_def)
    next
      case False
      then have "sg_store ?c ?r bs y = ?r y" using w iff by blast
      then show ?thesis using False Some s t by (simp add: user_mem_def ram_store_def span_def synced_def)
    qed
  qed
qed

lemma sent_bytes:
  assumes "mapped_at b a (length bs) d" "ram_bytes m a (length bs) = bs" "synced b m s"
  shows "sg_bytes (buffer_config d) (ram (b_view b) (env (hw s))) 0 (mapped_len d) = bs"
proof (rule nth_equalityI)
  show l: "length (sg_bytes (buffer_config d) (ram (b_view b) (env (hw s))) 0 (mapped_len d)) = length bs"
    using assms(1) by (simp add: sg_bytes_def mapped_at_def)
  fix i assume "i < length (sg_bytes (buffer_config d) (ram (b_view b) (env (hw s))) 0 (mapped_len d))"
  then have i: "i < length bs" using l by simp
  then have "ram (b_view b) (env (hw s)) (sg_phys (buffer_config d) i) = m (a + of_nat i)"
    using assms(1,3) by (simp add: mapped_at_def synced_def)
  also have "\<dots> = bs ! i" using assms(2) i by (metis nth_ram_bytes)
  finally show "sg_bytes (buffer_config d) (ram (b_view b) (env (hw s))) 0 (mapped_len d) ! i = bs ! i"
    using assms(1) i by (simp add: sg_bytes_def mapped_at_def)
qed

end
