(* ===== verification/Stack_Steps.thy ===== *)
theory Stack_Steps
  imports Stack_Inv
begin

text \<open>
  An interrupt keeps the invariant of its descriptor: it completes the operation at the head of the
  queue and executes the next one.
\<close>

section \<open>Executing a post\<close>

fun post_mem :: "(u64 \<Rightarrow> u8) \<Rightarrow> post \<Rightarrow> u64 \<Rightarrow> u8" where
  "post_mem m (P_Recv i a bs) = ram_store m a bs"
| "post_mem m _ = m"

lemma post_mem_send: "\<not> is_recv q \<Longrightarrow> post_mem m q = m"
  by (cases q) simp_all

lemma post_mem_outside: "x \<notin> post_region q \<Longrightarrow> post_mem m q x = m x"
  by (cases q) (simp_all add: ram_store_def span_def)

lemma post_mem_harmless: "harmless q q' \<Longrightarrow> x \<in> post_region q' \<Longrightarrow> post_mem m q x = m x"
  using post_mem_outside post_mem_send by (cases "is_recv q") (auto simp: harmless_def)

lemma mapped_at_small: "mapped_at b a n d \<Longrightarrow> n \<le> 2 ^ 64"
  using unat_u64_lt [of "trunc32 (dma_len d)"] by (auto simp: mapped_at_def mapped_len_def)

lemma mapped_at_len: "mapped_at b a n d \<Longrightarrow> trunc32 (dma_len d) = of_nat n"
  by (auto simp: mapped_at_def mapped_len_def)

lemma queued_executes:
  assumes b: "stores_user b" and q: "queued b m q j" and s: "synced b m s"
    and t: "mem_out (b_view b) (hw t) = job_step j (mem_out (b_view b) (hw s))"
  shows "user_mem b t m = post_mem m q" "executed (post_mem m q) q"
    "outb (b_view b) (env (hw t)) = outb (b_view b) (env (hw s)) @ post_out q"
proof -
  have "user_mem b t m = post_mem m q \<and> executed (post_mem m q) q \<and>
    outb (b_view b) (env (hw t)) = outb (b_view b) (env (hw s)) @ post_out q"
  proof (cases q)
    case (P_Sent i)
    then show ?thesis using q by simp
  next
    case (P_Send i a bs)
    then obtain d l where j: "j = Job_Send d l" "mapped_at b a (length bs) d"
      "ram_bytes m a (length bs) = bs" using q by (cases j) simp_all
    then show ?thesis
      using t sent_bytes [OF j(2,3) s] user_mem_same [OF s] by (simp add: P_Send mem_out_def)
  next
    case (P_Recv i a bs)
    then obtain d where j: "j = Job_Recv d [] bs" "mapped_at b a (length bs) d"
      using q by (cases j) simp_all
    note small = mapped_at_small [OF j(2)]
    have "user_mem b t m = ram_store m a bs"
      by (rule user_mem_stored [OF b j(2) small s]) (use t j(1) in \<open>simp add: mem_out_def\<close>)
    then show ?thesis
      using t j(1) mapped_at_len [OF j(2)] ram_bytes_store [OF small]
      by (simp add: P_Recv mem_out_def)
  qed
  then show "user_mem b t m = post_mem m q" "executed (post_mem m q) q"
    "outb (b_view b) (env (hw t)) = outb (b_view b) (env (hw s)) @ post_out q" by blast+
qed

text \<open>Of the posts around it, an executed one leaves intact what they left or still need.\<close>

lemma executed_after:
  assumes "executed m q'" "harmless q' q" shows "executed (post_mem m q) q'"
proof (cases "is_recv q'")
  case True
  then have "post_region q' \<inter> post_region q = {}" using assms(2) by (simp add: harmless_def)
  then show ?thesis
    by (intro executed_frame [OF assms(1)] post_mem_outside) blast
qed (cases q'; simp)

lemma queued_after: "queued b m q' j \<Longrightarrow> harmless q q' \<Longrightarrow> queued b (post_mem m q) q' j"
  by (erule queued_frame) (rule post_mem_harmless)

section \<open>An interrupt\<close>

lemma fd_ok_holds:
  assumes "board_ok b F" "fd_ok b W m s ts ps" "inb (b_view b) (env (hw s)) = i"
  shows "holds (b_host b) (b_view b) i (mem_out (b_view b) (hw s)) (hw s)"
  using assms by (simp add: holds_def board_ok_def fd_ok_def)

lemma irq_last:
  assumes bd: "board_ok b F" and ok: "fd_ok b W m s ts ps" and sy: "synced b m s"
    and sp: "ps = dn @ [q]" "split_posts b m s dn [q] []"
    and out: "outb (b_view b) (env (hw s)) = said b ts"
  obtains t where "psipe_irq_handler (b_linux b) (b_bus b) s = Inr (IRQ_HANDLED, t)"
    "fd_ok b W (user_mem b t m) t ts ps" "active t = []" "user_mem b t m = m"
    "op_id ` set (active t @ inactive t) = op_id ` set (active s @ inactive s)"
proof -
  note S = sp(2) [unfolded split_posts_def] and O = ok [unfolded fd_ok_def]
  obtain op where a: "active s = [op]" "op_id op = post_id q"
    using S by (auto simp: map_eq_Cons_conv)
  have h: "holds (b_host b) (b_view b) [] (mem_out (b_view b) (hw s)) (hw s)"
    by (rule fd_ok_holds [OF bd ok]) (use S in simp)
  obtain t where t: "psipe_irq_handler (b_linux b) (b_bus b) s = Inr (IRQ_HANDLED, t)" "kinv t"
    "holds (b_host b) (b_view b) [] (mem_out (b_view b) (hw s)) (hw t)"
    "\<not> work_ended (b_host b) (hw t)" "active t = []" "inactive t = inactive s @ [op\<lparr>flag := 1\<rparr>]"
    "completed (trace t) = completed (trace s) @ [op_id op]" "next_id t = next_id s"
    by (rule drain_last_full [OF h _ _ a(1)]) (use S O in simp_all)
  note T = t(3) [unfolded holds_def mem_out_def]
  have u: "user_mem b t m = m" by (rule user_mem_same [OF sy]) (use T in simp)
  have "split_posts b m t ps [] []"
    using S T t(4-6) a unfolding split_posts_def sp(1) by auto
  then have "fd_ok b W m t ts ps"
    using O t(2,5,6,8) T out a(1) unfolding fd_ok_def
    by (intro conjI exI [of _ ps] exI [of _ "[]"]) (auto simp: op_ok_def)
  then show ?thesis using that t(1,5,6) u a by simp
qed

lemma irq_next:
  assumes bd: "board_ok b F" and ok: "fd_ok b W m s ts ps" and sy: "synced b m s"
    and sp: "ps = dn @ q # q' # act" "split_posts b m s dn (q # q' # act) (j # jobs)"
    and out: "outb (b_view b) (env (hw s)) @ concat (map post_out (q' # act)) = said b ts"
  obtains t where "psipe_irq_handler (b_linux b) (b_bus b) s = Inr (IRQ_HANDLED, t)"
    "fd_ok b W (user_mem b t m) t ts ps" "length (active t) < length (active s)"
    "user_mem b t m = post_mem m q'"
    "op_id ` set (active t @ inactive t) = op_id ` set (active s @ inactive s)"
proof -
  note S = sp(2) [unfolded split_posts_def] and O = ok [unfolded fd_ok_def]
  obtain op op' ops where a: "active s = op # op' # ops" "op_id op = post_id q" "op_id op' = post_id q'"
    "map post_id act = map op_id ops"
    using S by (auto simp: Cons_eq_map_conv)
  have h: "holds (b_host b) (b_view b) (job_input j @ concat (map job_input jobs))
      (mem_out (b_view b) (hw s)) (hw s)"
    by (rule fd_ok_holds [OF bd ok]) (use S in simp)
  obtain t o2 where t: "psipe_irq_handler (b_linux b) (b_bus b) s = Inr (IRQ_HANDLED, t)" "kinv t"
    "holds (b_host b) (b_view b) (concat (map job_input jobs)) (job_step j (mem_out (b_view b) (hw s))) (hw t)"
    "work_ended (b_host b) (hw t)" "active t = o2 # ops" "op_id o2 = op_id op'" "0 \<le> retval o2"
    "inactive t = inactive s @ [op\<lparr>flag := 1\<rparr>]" "nwaiting o2 = nwaiting op'"
    "s32 (retval o2) = retval o2" "next_id t = next_id s"
    by (rule drain_step_full [OF h _ _ a(1), of "b_linux b" "b_fuel b"]) (use S O a(1) in simp_all)
  note T = t(3) [unfolded holds_def]
  have st: "stores_user b" using bd by (simp add: board_ok_def)
  have qj: "queued b m q' j" using S by simp
  note E = queued_executes [OF st qj sy, of t]
  let ?m = "post_mem m q'"
  have u: "user_mem b t m = ?m" "executed ?m q'"
    "outb (b_view b) (env (hw t)) = outb (b_view b) (env (hw s)) @ post_out q'"
    using E T by simp_all
  have ord: "\<forall>x \<in> set (dn @ [q]). harmless x q'" "\<forall>x \<in> set act. harmless q' x"
    using O unfolding sp(1) by (auto simp: sorted_wrt_append)
  have ex: "\<forall>x \<in> set (dn @ [q]). executed ?m x"
    using S ord(1) by (auto intro: executed_after)
  have qu: "list_all2 (queued b ?m) act jobs"
  proof (rule list.rel_mono_strong)
    show "list_all2 (queued b m) act jobs" using S by simp
    show "queued b ?m x k" if "x \<in> set act" "queued b m x k" for x k
      by (rule queued_after [OF that(2)]) (use ord(2) that(1) in blast)
  qed
  have ids: "post_id ` set (dn @ [q]) \<subseteq> op_id ` set (inactive t)"
    using S a(2) unfolding t(8) by auto
  have "split_posts b ?m t (dn @ [q]) (q' # act) jobs"
    unfolding split_posts_def
    using ids ex qu S t(4-6) a(1,3,4) u(2) T by simp
  moreover have "ps = (dn @ [q]) @ q' # act" by (simp add: sp(1))
  moreover have "outb (b_view b) (env (hw t)) @ concat (map post_out (drop 1 (q' # act))) = said b ts"
    using out u(3) by simp
  moreover have "\<forall>x \<in> set (active t @ inactive t). op_ok W x"
    using O t(5-10) a(1) by (auto simp: op_ok_def)
  ultimately have "fd_ok b W ?m t ts ps"
    using O t(2,11) T unfolding fd_ok_def by metis
  then show ?thesis using that t(1,5,6,8) u(1) a(1) by auto
qed

lemma irq_ok:
  assumes bd: "board_ok b F" and ok: "fd_ok b W m s ts ps" and sy: "synced b m s"
    and w: "work_ended (b_host b) (hw s)"
  obtains t where "psipe_irq_handler (b_linux b) (b_bus b) s = Inr (IRQ_HANDLED, t)"
    "fd_ok b W (user_mem b t m) t ts ps" "length (active t) < length (active s)"
    "user_mem b t m = m \<or> (\<exists>q \<in> set ps. user_mem b t m = post_mem m q)"
    "op_id ` set (active t @ inactive t) = op_id ` set (active s @ inactive s)"
proof -
  obtain dn act jobs where sp: "ps = dn @ act" "split_posts b m s dn act jobs"
    "outb (b_view b) (env (hw s)) @ concat (map post_out (drop 1 act)) = said b ts"
    using ok unfolding fd_ok_def by blast
  note S = sp(2) [unfolded split_posts_def]
  obtain q act' where act: "act = q # act'" using S w by (cases act) simp_all
  have n: "length act' = length jobs" using S by (auto simp: act dest: list_all2_lengthD)
  have l: "length (active s) = Suc (length act')"
    using S map_eq_imp_length_eq unfolding act by fastforce
  show ?thesis
  proof (cases act')
    case Nil
    then have jobs: "jobs = []" using n by simp
    note eqs = act Nil jobs
    have ps: "ps = dn @ [q]" using sp(1) by (simp only: eqs)
    have sp2: "split_posts b m s dn [q] []" using sp(2) by (simp only: eqs)
    have out: "outb (b_view b) (env (hw s)) = said b ts"
      using sp(3) by (simp add: eqs)
    show ?thesis
    proof (rule irq_last [OF bd ok sy ps sp2 out])
      fix t
      assume t: "psipe_irq_handler (b_linux b) (b_bus b) s = Inr (IRQ_HANDLED, t)"
        "fd_ok b W (user_mem b t m) t ts ps" "active t = []" "user_mem b t m = m"
        "op_id ` set (active t @ inactive t) = op_id ` set (active s @ inactive s)"
      then show thesis using l by (intro that [OF t(1,2) _ _ t(5)]) simp_all
    qed
  next
    case (Cons q' act'')
    then obtain j js where jobs: "jobs = j # js" using n by (cases jobs) simp_all
    note eqs = act Cons jobs
    have ps: "ps = dn @ q # q' # act''" using sp(1) by (simp only: eqs)
    have sp2: "split_posts b m s dn (q # q' # act'') (j # js)" using sp(2) by (simp only: eqs)
    have out: "outb (b_view b) (env (hw s)) @ concat (map post_out (q' # act'')) = said b ts"
      using sp(3) by (simp only: eqs drop_Suc_Cons One_nat_def drop_0)
    show ?thesis
    proof (rule irq_next [OF bd ok sy ps sp2 out])
      fix t
      assume t: "psipe_irq_handler (b_linux b) (b_bus b) s = Inr (IRQ_HANDLED, t)"
        "fd_ok b W (user_mem b t m) t ts ps" "length (active t) < length (active s)"
        "user_mem b t m = post_mem m q'"
        "op_id ` set (active t @ inactive t) = op_id ` set (active s @ inactive s)"
      then show thesis by (intro that [OF t(1-3) _ t(5)]) (auto simp: ps)
    qed
  qed
qed

end
