(* ===== verification/Stack_Submit.thy ===== *)
theory Stack_Submit
  imports Stack_Steps
begin

text \<open>
  A send or receive ioctl keeps the invariant of its descriptor: with an empty queue the operation is
  executed at once, otherwise it is queued.
\<close>

section \<open>A request\<close>

lemma with_data_sels [simp]:
  "kmalloc_op (with_data L d) = kmalloc_op L" "kmalloc_array (with_data L d) = kmalloc_array L"
  "pin_user_pages_fast (with_data L d) = pin_user_pages_fast L"
  "pin_user_pages (with_data L d) = pin_user_pages L" "sg_alloc_table (with_data L d) = sg_alloc_table L"
  "dma_map_sg (with_data L d) = dma_map_sg L" "copy_from_user (with_data L d) tr arg = (0, d)"
  by (simp_all add: with_data_def)

lemma with_data_pin [simp]: "psipe_dma_pin_pages (with_data L d) = psipe_dma_pin_pages L"
  by (intro ext) (simp only: psipe_dma_pin_pages_def with_data_sels)

lemma mapping_with_data [simp]: "mapping_ok (with_data L d) tr cfg m m' = mapping_ok L tr cfg m m'"
  by (simp add: mapping_ok_def psipe_dma_map_pages_def)

lemma job_of_with_data [simp]: "job_of (with_data L d) fuel op j = job_of L fuel op j"
  by (cases j) simp_all

text \<open>The buffer of a transfer as it will be mapped, and the job of the request.\<close>

definition mapped_buffer ::
    "int \<Rightarrow> dma_data_direction \<Rightarrow> u64 \<Rightarrow> u64 \<Rightarrow> u32 \<Rightarrow> u64 list \<Rightarrow> psipe_dma" where
  "mapped_buffer md dir a l k hs = \<lparr>dma_mode = md, direction = dir, sgl = hs,
     dma_npages = u64_of_int (page_count a l), nmapped = ucast k, dma_addr = a, dma_len = l\<rparr>"

lemma mapped_buffer_ok:
  assumes c: "can_take b a (unat l)"
  obtains k hs where "\<And>md dir. mapped_at b a (unat l) (mapped_buffer md dir a l k hs)"
    "\<And>md dir tr m. dma_addr m = a \<Longrightarrow> dma_len m = l \<Longrightarrow> dma_npages m = u64_of_int (page_count a l) \<Longrightarrow>
       dma_mode m = md \<Longrightarrow> direction m = dir \<Longrightarrow>
       mapping_ok (b_linux b) tr plain_config m (mapped_buffer md dir a l k hs)"
proof -
  obtain k hs where k: "unat k \<le> handle_window" "unat k \<le> length hs"
    and m: "\<And>m. dma_addr m = a \<Longrightarrow> unat (dma_len m) = unat l \<Longrightarrow>
      (\<forall>tr. dma_map_sg (b_linux b) tr m = (k, hs)) \<and>
      sg_wf (buffer_config (m\<lparr>nmapped := ucast k, sgl := hs\<rparr>)) \<and>
      mapped_at b a (unat l) (m\<lparr>nmapped := ucast k, sgl := hs\<rparr>)"
    and n: "0 < unat l" "unat l < 2 ^ 32"
    using c unfolding can_take_def by blast
  have e: "m\<lparr>nmapped := ucast k, sgl := hs\<rparr> = mapped_buffer (dma_mode m) (direction m) a l k hs"
    if "dma_addr m = a" "dma_len m = l" "dma_npages m = u64_of_int (page_count a l)" for m :: psipe_dma
    using that by (simp add: mapped_buffer_def)
  have u: "unat (ucast k :: u64) = unat k" by (simp add: unsigned_ucast_eq take_bit_nat_eq_self_iff less_trans [OF unsigned_less])
  show ?thesis
  proof (rule that [of k hs])
    fix md dir
    have "(mapped_buffer md dir a l k hs)\<lparr>nmapped := ucast k, sgl := hs\<rparr> = mapped_buffer md dir a l k hs"
      by (simp add: mapped_buffer_def)
    then show "mapped_at b a (unat l) (mapped_buffer md dir a l k hs)"
      using m [of "mapped_buffer md dir a l k hs"] by (simp add: mapped_buffer_def)
  next
    fix md dir tr and m' :: psipe_dma
    assume a: "dma_addr m' = a" "dma_len m' = l" "dma_npages m' = u64_of_int (page_count a l)"
      "dma_mode m' = md" "direction m' = dir"
    have g: "dma_map_sg (b_linux b) tr m' = (k, hs)" "sg_wf (buffer_config (mapped_buffer md dir a l k hs))"
      using m [OF a(1)] e [OF a(1-3)] a by auto
    have "psipe_dma_map_pages (b_linux b) tr m' =
        (int_of_u64 (ucast k), tr @ [Dma_map_sg dir], mapped_buffer md dir a l k hs)"
      using g(1) e [OF a(1-3)] a(4,5) by (simp add: psipe_dma_map_pages_def)
    moreover have "int_of_u64 (ucast k) = int (unat k)"
      using k(1) u by (subst int_of_u64_small) (simp_all add: handle_window_def)
    ultimately show "mapping_ok (b_linux b) tr plain_config m' (mapped_buffer md dir a l k hs)"
      using g(2) k n u trunc32_id [OF n(2)]
      by (simp add: mapping_ok_def buffer_config_def mapped_buffer_def)
  qed
qed

text \<open>The request of a transfer, on memory that holds the message of a send.\<close>

fun transfer_cmd :: "transfer \<Rightarrow> u32" where
  "transfer_cmd (T_Out bs) = PSIPE_IOCTL_SEND"
| "transfer_cmd (T_In bs) = PSIPE_IOCTL_RECV"

fun transfer_bytes :: "transfer \<Rightarrow> u8 list" where
  "transfer_bytes (T_Out bs) = bs"
| "transfer_bytes (T_In bs) = bs"

definition full_post :: "u64 \<Rightarrow> u64 \<Rightarrow> transfer \<Rightarrow> post" where
  "full_post h a t = (case t of T_Out bs \<Rightarrow> P_Send h a bs | T_In bs \<Rightarrow> P_Recv h a bs)"

lemma full_post_simps [simp]:
  "post_id (full_post h a t) = h" "post_region (full_post h a t) = span a (length (transfer_bytes t))"
  "post_out (full_post h a t) = wire_out t" "post_id (new_post ps h a t) = h"
  by (cases t; simp add: full_post_def)+

lemma new_post_full: "ps \<noteq> [] \<Longrightarrow> new_post ps h a t = full_post h a t"
  by (cases t) (simp_all add: full_post_def)

lemma new_post_mem: "post_mem m (new_post ps h a t) = post_mem m (full_post h a t)"
  by (cases t) (simp_all add: full_post_def)

lemma new_post_executed: "executed m (full_post h a t) \<Longrightarrow> executed m (new_post ps h a t)"
  by (cases t) (simp_all add: full_post_def)

lemma new_post_harmless: "harmless q (full_post h a t) \<Longrightarrow> harmless q (new_post ps h a t)"
  by (cases t) (auto simp: full_post_def harmless_def)

lemma transfer_request:
  assumes c: "can_take b a (unat l)" and k: "allocates (b_linux b)"
    and t: "length (transfer_bytes t) = unat l"
      "\<And>bs. t = T_Out bs \<Longrightarrow> ram_bytes m a (unat l) = bs" and b: "stores_user b"
  obtains j where
    "request_of (with_data (b_linux b) \<lparr>data_addr = a, data_len = l\<rparr>) (b_fuel b) (transfer_cmd t, 0) j"
    "\<forall>h. queued b m (full_post h a t) j" "job_input j = wire_in t"
proof -
  let ?L = "with_data (b_linux b) \<lparr>data_addr = a, data_len = l\<rparr>"
  obtain k hs where at: "\<And>md dir. mapped_at b a (unat l) (mapped_buffer md dir a l k hs)"
    and ok: "\<And>md dir tr m. dma_addr m = a \<Longrightarrow> dma_len m = l \<Longrightarrow>
       dma_npages m = u64_of_int (page_count a l) \<Longrightarrow> dma_mode m = md \<Longrightarrow> direction m = dir \<Longrightarrow>
       mapping_ok (b_linux b) tr plain_config m (mapped_buffer md dir a l k hs)"
    using mapped_buffer_ok [OF c] by metis
  have n: "Suc (unat l) < b_fuel b" "unat l < 2 ^ 32" using c by (auto simp: can_take_def)
  have tl: "trunc32 l = l" by (rule trunc32_id [OF n(2)])
  have pin: "\<exists>tr'. psipe_dma_pin_pages (b_linux b) tr m =
      (0, tr', m\<lparr>dma_npages := u64_of_int (page_count a l)\<rparr>)"
    if "dma_addr m = a" "dma_len m = l" for m tr
    using c that unfolding can_take_def by blast
  have req: "request_of ?L (b_fuel b) (cmd, 0) j"
    if cmd: "cmd = PSIPE_IOCTL_SEND \<and> f = psipe_ioctl_send_fn \<or> cmd = PSIPE_IOCTL_RECV \<and> f = psipe_ioctl_recv_fn"
      and j: "\<And>op. op_fn op = f \<Longrightarrow> dma_addr (op_dma op) = a \<Longrightarrow> dma_len (op_dma op) = l \<Longrightarrow>
        dma_npages (op_dma op) = u64_of_int (page_count a l) \<Longrightarrow> job_of (b_linux b) (b_fuel b) op j"
    for cmd f j
    unfolding request_of_def fst_conv snd_conv
  proof (intro conjI allI)
    show "cmd = PSIPE_IOCTL_SEND \<or> cmd = PSIPE_IOCTL_RECV" using cmd by blast
    fix tr
    obtain op0 where op0: "kmalloc_op (b_linux b) tr = Some op0" using k by (auto simp: allocates_def)
    define op where "op = op0\<lparr>op_dma := (op_dma op0)\<lparr>dma_addr := a, dma_len := l,
        dma_mode := PSIPE_MODE_OFF\<rparr>, op_fn := f, nwaiting := 0, flag := 0\<rparr>"
    have new: "psipe_ops_new ?L tr cmd 0 = (Some op, tr @ [Kmalloc_op, Copy_from_user 0])"
      using cmd by (auto simp: psipe_ops_new_def op0 op_def Let_def)
    have d: "dma_addr (op_dma op) = a" "dma_len (op_dma op) = l" "op_fn op = f" by (simp_all add: op_def)
    obtain tr2 where "psipe_dma_pin_pages (b_linux b) (tr @ [Kmalloc_op, Copy_from_user 0]) (op_dma op) =
        (0, tr2, (op_dma op)\<lparr>dma_npages := u64_of_int (page_count a l)\<rparr>)"
      using pin [OF d(1,2)] by blast
    moreover have "job_of ?L (b_fuel b)
        (op\<lparr>op_dma := (op_dma op)\<lparr>dma_npages := u64_of_int (page_count a l)\<rparr>\<rparr>) j"
      unfolding job_of_with_data by (rule j) (use d in simp_all)
    ultimately show "\<exists>op tr1 tr2 m. psipe_ops_new ?L tr cmd 0 = (Some op, tr1) \<and>
        psipe_dma_pin_pages ?L tr1 (op_dma op) = (0, tr2, m) \<and> job_of ?L (b_fuel b) (op\<lparr>op_dma := m\<rparr>) j"
      using new by auto
  qed
  show ?thesis
  proof (cases t)
    case (T_Out bs)
    let ?d = "mapped_buffer PSIPE_MODE_ACTIVE DMA_TO_DEVICE a l k hs" and ?n = "length bs"
    have l: "unat l = ?n" "l = of_nat ?n" using t(1) T_Out by (simp_all)
    show ?thesis
    proof (rule that [of "Job_Send ?d (of_nat ?n)"])
      show "request_of ?L (b_fuel b) (transfer_cmd t, 0) (Job_Send ?d (of_nat ?n))"
        by (rule req [where f = psipe_ioctl_send_fn])
          (use T_Out tl n at ok l in \<open>auto simp: mapped_at_def send_dma_def\<close>)
      show "\<forall>h. queued b m (full_post h a t) (Job_Send ?d (of_nat ?n))"
        using T_Out at t(2) l by (simp add: full_post_def)
      show "job_input (Job_Send ?d (of_nat ?n)) = wire_in t" using T_Out by (simp add: wire_in_def)
    qed
  next
    case (T_In bs)
    let ?d = "mapped_buffer PSIPE_MODE_PASSIVE DMA_FROM_DEVICE a l k hs"
    have l: "unat l = length bs" using t(1) T_In by simp
    have inj: "sg_inj (buffer_config ?d)"
      by (rule mapped_inj [OF b at mapped_at_small [OF at]])
    show ?thesis
    proof (rule that [of "Job_Recv ?d [] bs"])
      show "request_of ?L (b_fuel b) (transfer_cmd t, 0) (Job_Recv ?d [] bs)"
        by (rule req [where f = psipe_ioctl_recv_fn])
          (use T_In n at ok l inj in \<open>auto simp: mapped_at_def recv_dma_def skipped_def\<close>)
      show "\<forall>h. queued b m (full_post h a t) (Job_Recv ?d [] bs)"
        using T_In at l by (simp add: full_post_def)
      show "job_input (Job_Recv ?d [] bs) = wire_in t" using T_In by (simp add: wire_in_def)
    qed
  qed
qed

section \<open>A send or receive\<close>

lemma kinv_id_below: "kinv s \<Longrightarrow> op \<in> set (active s @ inactive s) \<Longrightarrow> unat (op_id op) < unat (next_id s)"
  by (auto simp: kinv_def op_ids_def)

lemma split_ids:
  assumes "split_posts b m s dn act jobs"
  shows "post_id ` set (dn @ act) \<subseteq> op_id ` set (active s @ inactive s)"
proof -
  have "map post_id act = map op_id (active s)" "post_id ` set dn \<subseteq> op_id ` set (inactive s)"
    using assms by (simp_all add: split_posts_def)
  moreover have "post_id ` set act = op_id ` set (active s)"
    using arg_cong [OF calculation(1), of set] by simp
  ultimately show ?thesis by auto
qed

lemma fd_ok_fresh:
  assumes "fd_ok b W m s ts ps" shows "next_id s \<notin> post_id ` set ps"
proof
  assume i: "next_id s \<in> post_id ` set ps"
  obtain dn act jobs where "ps = dn @ act" "split_posts b m s dn act jobs"
    using assms unfolding fd_ok_def by blast
  then have "next_id s \<in> op_id ` set (active s @ inactive s)" using split_ids i by fast
  then show False using kinv_id_below [of s] assms unfolding fd_ok_def by force
qed

lemma next_id_Suc:
  assumes "fd_ok b W m s ts ps" "length ts < 2 ^ 31"
  shows "unat (next_id s + 1) = Suc (length ts)" "unat (next_id s) < 2 ^ 64 - 1"
proof -
  have u: "unat (next_id s) = length ts" using assms(1) by (simp add: fd_ok_def)
  show "unat (next_id s) < 2 ^ 64 - 1" using u assms(2) by simp
  have "next_id s + 1 = of_nat (Suc (length ts))" by (simp flip: u)
  then show "unat (next_id s + 1) = Suc (length ts)"
    using assms(2) by (simp only:) (rule unat_of_nat_u64, simp)
qed

lemma wires_append [simp]: "wires f (ts @ us) = wires f ts @ wires f us" "wires f [t] = f t" "wires f [] = []"
  by (simp_all add: wires_def)

lemma said_append: "said b (ts @ [t]) = said b ts @ wire_out t"
  by (simp add: said_def)

text \<open>The parts of the invariant that do not depend on when the new operation is executed.\<close>

lemma fd_ok_new:
  assumes ok: "fd_ok b None m s ts ps" and n: "length ts < 2 ^ 31"
    and hl: "\<forall>x \<in> set ps. harmless x (full_post (next_id s) a t)"
    and u: "kinv u" "serving (hw u)" "next_id u = next_id s + 1"
      "active u = active s @ [op]" "inactive u = inactive s" "op_ok None op"
    and sp: "ps @ [new_post ps (next_id s) a t] = dn' @ act" "split_posts b m' u dn' act jobs"
      "outb (b_view b) (env (hw u)) @ concat (map post_out (drop 1 act)) = said b ts @ wire_out t"
  shows "fd_ok b None m' u (ts @ [t]) (ps @ [new_post ps (next_id s) a t])"
proof -
  let ?q = "new_post ps (next_id s) a t"
  note O = ok [unfolded fd_ok_def]
  have "distinct (map post_id (ps @ [?q]))" using O fd_ok_fresh [OF ok] by auto
  moreover have "sorted_wrt harmless (ps @ [?q])"
    using O hl new_post_harmless by (auto simp: sorted_wrt_append)
  moreover have "\<forall>x \<in> set (active u @ inactive u). op_ok None x" using O u by auto
  moreover have "unat (next_id u) = length (ts @ [t])" "length (ts @ [t]) \<le> 2 ^ 31"
    using next_id_Suc [OF ok n] u(3) n by simp_all
  moreover have "\<exists>dn act jobs. ps @ [?q] = dn @ act \<and> split_posts b m' u dn act jobs \<and>
      outb (b_view b) (env (hw u)) @ concat (map post_out (drop 1 act)) = said b (ts @ [t])"
    using sp by (auto simp: said_append)
  ultimately show ?thesis using u(1,2) unfolding fd_ok_def by blast
qed

lemma allocated_ok:
  assumes "allocates L" "\<exists>tr op0. kmalloc_op L tr = Some op0 \<and> retval op = retval op0" "nwaiting op = 0"
  shows "op_ok None op"
proof -
  obtain tr op0 where "kmalloc_op L tr = Some op0" "retval op = retval op0" using assms(2) by blast
  moreover obtain op1 where "kmalloc_op L tr = Some op1" "0 \<le> retval op1" "s32 (retval op1) = retval op1"
    using assms(1) unfolding allocates_def by blast
  ultimately show ?thesis using assms(3) by (simp add: op_ok_def)
qed

lemma submit_now:
  assumes bd: "board_ok b F" and ok: "fd_ok b None m s ts ps" and sy: "synced b m s"
    and n: "length ts < 2 ^ 31" and a: "active s = []"
    and hl: "\<forall>x \<in> set ps. harmless x (full_post (next_id s) a t)"
    and r: "request_of L (b_fuel b) (cmd, 0) j" "queued b m (full_post (next_id s) a t) j" "job_input j = wire_in t"
    and L: "allocates L"
    and s': "s' = set_env (arrive b (env (hw s)) (wire_in t)) s"
  obtains u where "psipe_ioctl L (b_bus b) s' cmd 0 = Inr (sint (next_id s), u)"
    "fd_ok b None (user_mem b u m) u (ts @ [t]) (ps @ [new_post ps (next_id s) a t])"
    "user_mem b u m = post_mem m (full_post (next_id s) a t)"
proof -
  let ?q = "full_post (next_id s) a t" and ?n = "new_post ps (next_id s) a t"
  have st: "stores_user b" and dl: "delivers b" using bd by (simp_all add: board_ok_def)
  obtain dn act jobs where sp: "ps = dn @ act" "split_posts b m s dn act jobs"
    "outb (b_view b) (env (hw s)) @ concat (map post_out (drop 1 act)) = said b ts"
    using ok unfolding fd_ok_def by blast
  note S = sp(2) [unfolded split_posts_def]
  have e: "act = []" "jobs = []" using S a by auto
  have ps: "ps = dn" using sp(1) e by simp
  have h: "holds (b_host b) (b_view b) (job_input j @ []) (mem_out (b_view b) (hw s)) (hw s')"
    using fd_ok_holds [OF bd ok] dl S r(3) e unfolding s' by (simp add: holds_def delivers_def mem_out_def)
  have k: "kinv s'" "unat (next_id s') < 2 ^ 64 - 1" "active s' = []"
    using ok next_id_Suc [OF ok n] a by (simp_all add: s' fd_ok_def)
  obtain u op where u: "psipe_ioctl L (b_bus b) s' cmd 0 = Inr (sint (next_id s'), u)" "kinv u"
    "holds (b_host b) (b_view b) [] (job_step j (mem_out (b_view b) (hw s))) (hw u)"
    "work_ended (b_host b) (hw u)" "active u = [op]"
    "op_id op = next_id s'" "next_id u = next_id s' + 1" "inactive u = inactive s'"
    "nwaiting op = 0" "\<exists>tr op0. kmalloc_op L tr = Some op0 \<and> retval op = retval op0"
    by (rule submit_first_full [OF h r(1) k])
  note U = u(3) [unfolded holds_def]
  note E = queued_executes [OF st r(2) sy, of u]
  let ?m = "post_mem m ?q"
  have um: "user_mem b u m = ?m" "executed ?m ?q"
    "outb (b_view b) (env (hw u)) = outb (b_view b) (env (hw s)) @ post_out ?q"
    using E U by simp_all
  have op: "op_ok None op" by (rule allocated_ok [OF L u(10,9)])
  have ex: "\<forall>x \<in> set ps. executed ?m x"
    using S hl e ps by (auto intro: executed_after)
  have "split_posts b ?m u ps [?n] []"
    unfolding split_posts_def using ex um(2) U u(4-6,8) S ps
    by (simp add: s' new_post_executed)
  moreover have "outb (b_view b) (env (hw u)) @ concat (map post_out (drop 1 [?n])) =
      said b ts @ wire_out t"
    using um(3) sp(3) e by simp
  ultimately have "fd_ok b None ?m u (ts @ [t]) (ps @ [?n])"
    by (intro fd_ok_new [OF ok n hl u(2) _ _ _ _ op refl]) (use u(5,7,8) U a in \<open>simp_all only: s' append.simps set_env_simps\<close>)
  then show ?thesis using that u(1) um(1) by (simp add: s')
qed

lemma submit_behind:
  assumes bd: "board_ok b F" and ok: "fd_ok b None m s ts ps" and sy: "synced b m s"
    and n: "length ts < 2 ^ 31" and a: "active s \<noteq> []"
    and hl: "\<forall>x \<in> set ps. harmless x (full_post (next_id s) a t)"
    and r: "request_of L (b_fuel b) (cmd, 0) j" "queued b m (full_post (next_id s) a t) j" "job_input j = wire_in t"
    and L: "allocates L" "\<And>op. job_of L (b_fuel b) op j = job_of (b_linux b) (b_fuel b) op j"
    and s': "s' = set_env (arrive b (env (hw s)) (wire_in t)) s"
  obtains u where "psipe_ioctl L (b_bus b) s' cmd 0 = Inr (sint (next_id s), u)"
    "fd_ok b None (user_mem b u m) u (ts @ [t]) (ps @ [new_post ps (next_id s) a t])"
    "user_mem b u m = m" "ps \<noteq> []"
proof -
  let ?q = "full_post (next_id s) a t"
  have dl: "delivers b" using bd by (simp add: board_ok_def)
  obtain dn act jobs where sp: "ps = dn @ act" "split_posts b m s dn act jobs"
    "outb (b_view b) (env (hw s)) @ concat (map post_out (drop 1 act)) = said b ts"
    using ok unfolding fd_ok_def by blast
  note S = sp(2) [unfolded split_posts_def]
  have ne: "act \<noteq> []" using S a by auto
  have ps: "ps \<noteq> []" using sp(1) ne by simp
  have k: "kinv s'" "unat (next_id s') < 2 ^ 64 - 1"
    using ok next_id_Suc [OF ok n] by (simp_all add: s' fd_ok_def)
  obtain u op where u: "kinv u" "active u = active s' @ [op]" "op_id op = next_id s'"
    "job_of L (b_fuel b) op j" "hw u = hw s'" "next_id u = next_id s' + 1" "inactive u = inactive s'"
    "psipe_ioctl L (b_bus b) s' cmd 0 = (if active s' = []
       then bindR (start_op L (b_bus b) u op) (\<lambda>(rv, u). Inr (sint (if rv < 0 then u64_of_int rv else op_id op), u))
       else Inr (sint (next_id s'), u))"
    "nwaiting op = 0" "\<exists>tr op0. kmalloc_op L tr = Some op0 \<and> retval op = retval op0"
    by (rule request_queued_full [OF r(1) k])
  have env: "inb (b_view b) (env (hw u)) = inb (b_view b) (env (hw s)) @ wire_in t"
    "outb (b_view b) (env (hw u)) = outb (b_view b) (env (hw s))"
    "ram (b_view b) (env (hw u)) = ram (b_view b) (env (hw s))"
    "work_ended (b_host b) (hw u) = work_ended (b_host b) (hw s)"
    using dl u(5) by (simp_all add: s' delivers_def work_ended_env)
  have um: "user_mem b u m = m" by (rule user_mem_same [OF sy env(3)])
  have op: "op_ok None op" by (rule allocated_ok [OF L(1) u(10,9)])
  have d1: "drop 1 (act @ [?q]) = drop 1 act @ [?q]" "drop 1 (active s @ [op]) = drop 1 (active s) @ [op]"
    "take 1 (act @ [?q]) = take 1 act"
    using ne a by (cases act; cases "active s"; simp)+
  have "split_posts b m u dn (act @ [?q]) (jobs @ [j])"
    unfolding split_posts_def d1 env u(2)
    using S u(3,4,7) r(2,3) L(2) ne d1(2)
    by (simp add: s' list_all2_appendI)
  moreover have "ps @ [?q] = dn @ act @ [?q]" by (simp add: sp(1))
  moreover have "outb (b_view b) (env (hw u)) @ concat (map post_out (drop 1 (act @ [?q]))) =
      said b ts @ wire_out t"
    unfolding d1 env using sp(3) by (simp flip: append_assoc)
  moreover have "serving (hw u)" using ok by (simp add: u(5) s' fd_ok_def)
  ultimately have "fd_ok b None m u (ts @ [t]) (ps @ [new_post ps (next_id s) a t])"
    unfolding new_post_full [OF ps] using u(2,6,7)
    by (intro fd_ok_new [OF ok n hl u(1) _ _ _ _ op, unfolded new_post_full [OF ps]]) (simp_all only: s' set_env_simps)
  then show ?thesis using that u(8) um ps a by (simp add: s')
qed

text \<open>A send or receive of a buffer the devices can take, whatever the module is doing.\<close>

lemma submit_ok:
  assumes bd: "board_ok b F" and ok: "fd_ok b None m s ts ps" and sy: "synced b m s"
    and n: "length ts < 2 ^ 31" and c: "can_take b a (unat l)"
    and t: "length (transfer_bytes t) = unat l" "\<And>bs. t = T_Out bs \<Longrightarrow> ram_bytes m a (unat l) = bs"
    and hl: "\<forall>x \<in> set ps. harmless x (full_post (next_id s) a t)"
  obtains u where
    "psipe_ioctl (with_data (b_linux b) \<lparr>data_addr = a, data_len = l\<rparr>) (b_bus b)
       (set_env (arrive b (env (hw s)) (wire_in t)) s) (transfer_cmd t) 0 = Inr (sint (next_id s), u)"
    "fd_ok b None (user_mem b u m) u (ts @ [t]) (ps @ [new_post ps (next_id s) a t])"
    "user_mem b u m = post_mem m (full_post (next_id s) a t) \<or> ps \<noteq> [] \<and> user_mem b u m = m"
proof -
  have st: "stores_user b" and al: "allocates (b_linux b)" using bd by (simp_all add: board_ok_def)
  obtain j where j:
    "request_of (with_data (b_linux b) \<lparr>data_addr = a, data_len = l\<rparr>) (b_fuel b) (transfer_cmd t, 0) j"
    "\<forall>h. queued b m (full_post h a t) j" "job_input j = wire_in t"
    by (rule transfer_request [OF c al t st])
  have al': "allocates (with_data (b_linux b) \<lparr>data_addr = a, data_len = l\<rparr>)"
    using al by (simp add: allocates_def)
  show ?thesis
  proof (cases "active s = []")
    case True
    show ?thesis
      by (rule submit_now [OF bd ok sy n True hl j(1) j(2) [rule_format] j(3) al' refl]) (rule that, assumption, assumption, blast)
  next
    case False
    show ?thesis
      by (rule submit_behind [OF bd ok sy n False hl j(1) j(2) [rule_format] j(3) al' job_of_with_data refl])
        (rule that, assumption, assumption, blast)
  qed
qed

end
