(* ===== verification/Stack_Irqs.thy ===== *)
theory Stack_Irqs
  imports Stack_Submit Kwaiters
begin

text \<open>
  Interrupts keep the invariant of all descriptors, whatever the order in which the devices raise
  them; memory changes only where a posted receive writes.
\<close>

section \<open>What interrupts change\<close>

definition written :: "('e, 'r) node \<Rightarrow> u64 set" where
  "written w = {x. \<exists>fd. \<exists>q \<in> set (unwaited w fd). is_recv q \<and> x \<in> post_region q}"

lemma inflight_view: "inflight (stack_view b F hp rm) w = written w"
proof -
  have "(\<exists>q \<in> set ps. is_recv q \<and> x \<in> post_region q) \<longleftrightarrow>
      (\<exists>i a bs. P_Recv i a bs \<in> set ps \<and> x \<in> span a (length bs))" for ps x
  proof
    assume "\<exists>q \<in> set ps. is_recv q \<and> x \<in> post_region q"
    then obtain q where q: "q \<in> set ps" "is_recv q" "x \<in> post_region q" by blast
    obtain i a bs where "q = P_Recv i a bs" using q(2) by (cases q) simp_all
    then show "\<exists>i a bs. P_Recv i a bs \<in> set ps \<and> x \<in> span a (length bs)" using q by auto
  next
    assume "\<exists>i a bs. P_Recv i a bs \<in> set ps \<and> x \<in> span a (length bs)"
    then show "\<exists>q \<in> set ps. is_recv q \<and> x \<in> post_region q" by force
  qed
  then show ?thesis by (simp add: inflight_def stack_view_def written_def)
qed

definition same_ghosts :: "('e, 'r) node proc \<Rightarrow> ('e, 'r) node proc \<Rightarrow> bool" where
  "same_ghosts p q \<longleftrightarrow> transfers (pos q) = transfers (pos p) \<and> unwaited (pos q) = unwaited (pos p) \<and>
     arrived (pos q) = arrived (pos p) \<and> libs (pos q) = libs (pos p)"

definition calm ::
    "'e board \<Rightarrow> int set \<Rightarrow> (int \<Rightarrow> u64 option) \<Rightarrow> ('e, 'r) node proc \<Rightarrow> ('e, 'r) node proc \<Rightarrow> bool" where
  "calm b F W p q \<longleftrightarrow>
     stack_inv b F W q \<and> same_ghosts p q \<and> same_outside (written (pos p)) (pmem p) (pmem q)"

lemma calm_refl: "stack_inv b F W p \<Longrightarrow> calm b F W p p"
  by (simp add: calm_def same_ghosts_def)

lemma calm_trans: "calm b F W p q \<Longrightarrow> calm b F W q r \<Longrightarrow> calm b F W p r"
  by (auto simp: calm_def same_ghosts_def written_def intro: same_outside_trans)

section \<open>Changing one descriptor\<close>

text \<open>
  The invariant of all descriptors when one is changed and the memory with it: the other descriptors
  still find what their posts left or need.
\<close>

lemma stack_inv_update:
  assumes inv: "stack_inv b F W p" and fd: "fd \<in> F"
    and q: "kernels (pos q) = (kernels (pos p))(fd := s)" "transfers (pos q) = (transfers (pos p))(fd := ts)"
      "unwaited (pos q) = (unwaited (pos p))(fd := ps)" "arrived (pos q) = (arrived (pos p))(fd := wires wire_in ts)"
    and ok: "fd_ok b w (pmem q) s ts ps"
    and frame: "\<And>fd' x y. fd' \<noteq> fd \<Longrightarrow> x \<in> set (unwaited (pos p) fd') \<Longrightarrow> y \<in> post_region x \<Longrightarrow> pmem q y = pmem p y"
    and harm: "\<And>fd' x y. fd' \<in> F \<Longrightarrow> fd' \<noteq> fd \<Longrightarrow> x \<in> set ps \<Longrightarrow> y \<in> set (unwaited (pos p) fd') \<Longrightarrow>
      harmless x y \<and> harmless y x"
  shows "stack_inv b F (W(fd := w)) q"
proof -
  note I = inv [unfolded stack_inv_def]
  have one: "fd_ok b ((W(fd := w)) fd') (pmem q) (kernels (pos q) fd') (transfers (pos q) fd') (unwaited (pos q) fd') \<and>
        arrived (pos q) fd' = wires wire_in (transfers (pos q) fd')" if f: "fd' \<in> F" for fd'
  proof (cases "fd' = fd")
    case True
    then show ?thesis using ok by (simp add: q)
  next
    case False
    have "fd_ok b (W fd') (pmem q) (kernels (pos p) fd') (transfers (pos p) fd') (unwaited (pos p) fd')"
      by (rule fd_ok_frame [where m = "pmem p"]) (use I f frame [OF False] in auto)
    then show ?thesis using False I f by (simp add: q)
  qed
  have two: "unwaited (pos q) fd' = []" if "fd' \<notin> F" for fd'
    using I fd that by (auto simp: q)
  have three: "harmless x y" if "fd1 \<in> F" "fd2 \<in> F" "fd1 \<noteq> fd2" "x \<in> set (unwaited (pos q) fd1)"
    "y \<in> set (unwaited (pos q) fd2)" for fd1 fd2 x y
  proof (cases "fd1 = fd")
    case True
    then show ?thesis using harm that by (simp add: q)
  next
    case False
    show ?thesis
    proof (cases "fd2 = fd")
      case True
      then show ?thesis using harm that False by (simp add: q)
    next
      case False
      then have "x \<in> set (unwaited (pos p) fd1)" "y \<in> set (unwaited (pos p) fd2)"
        using that \<open>fd1 \<noteq> fd\<close> by (simp_all add: q)
      then show ?thesis using I that(1-3) by blast
    qed
  qed
  show ?thesis unfolding stack_inv_def using one two three by blast
qed

lemma stack_inv_fd:
  assumes "stack_inv b F W p" "fd \<in> F"
  shows "fd_ok b (W fd) (pmem p) (kernels (pos p) fd) (transfers (pos p) fd) (unwaited (pos p) fd)"
    "arrived (pos p) fd = wires wire_in (transfers (pos p) fd)"
  using assms by (simp_all add: stack_inv_def)

lemma stack_inv_apart:
  assumes "stack_inv b F W p" "fd \<in> F" "x \<in> set (unwaited (pos p) fd)"
    "fd' \<noteq> fd" "y \<in> set (unwaited (pos p) fd')"
  shows "harmless x y" "harmless y x"
proof -
  have "fd' \<in> F" using assms(1,5) unfolding stack_inv_def by (metis empty_iff list.set(1))
  have h: "\<forall>fd \<in> F. \<forall>fd' \<in> F. fd \<noteq> fd' \<longrightarrow>
      (\<forall>q \<in> set (unwaited (pos p) fd). \<forall>q' \<in> set (unwaited (pos p) fd'). harmless q q')"
    using assms(1) by (simp add: stack_inv_def)
  show "harmless x y"
    by (rule h [rule_format, OF assms(2) \<open>fd' \<in> F\<close> _ assms(3,5)]) (use assms(4) in simp)
  show "harmless y x"
    by (rule h [rule_format, OF \<open>fd' \<in> F\<close> assms(2) _ assms(5,3)]) (rule assms(4))
qed

lemma set_kernel_simps [simp]:
  "pmem (set_kernel fd s p) = pmem p" "kernels (pos (set_kernel fd s p)) = (kernels (pos p))(fd := s)"
  "transfers (pos (set_kernel fd s p)) = transfers (pos p)"
  "unwaited (pos (set_kernel fd s p)) = unwaited (pos p)"
  "arrived (pos (set_kernel fd s p)) = arrived (pos p)" "libs (pos (set_kernel fd s p)) = libs (pos p)"
  by (simp_all add: set_kernel_def)

lemma left_simps [simp]:
  "pmem (left b fd s p) = user_mem b s (pmem p)" "kernels (pos (left b fd s p)) = (kernels (pos p))(fd := s)"
  "transfers (pos (left b fd s p)) = transfers (pos p)"
  "unwaited (pos (left b fd s p)) = unwaited (pos p)"
  "arrived (pos (left b fd s p)) = arrived (pos p)" "libs (pos (left b fd s p)) = libs (pos p)"
  by (simp_all add: left_def)

section \<open>Interrupts\<close>

lemma entered_work:
  "stores_user b \<Longrightarrow> work_ended (b_host b) (hw (entered b fd p)) = work_ended (b_host b) (hw (kernels (pos p) fd))"
  unfolding entered_def Let_def by (simp add: work_ended_env stores_user_def)

lemma entered_queues [simp]:
  "active (entered b fd p) = active (kernels (pos p) fd)"
  "inactive (entered b fd p) = inactive (kernels (pos p) fd)"
  "next_id (entered b fd p) = next_id (kernels (pos p) fd)"
  by (simp_all add: entered_def Let_def)

lemma take_irq_ok:
  assumes bd: "board_ok b F" and inv: "stack_inv b F W p" and fd: "fd \<in> F"
  shows "calm b F W p (take_irq b fd p)"
    "work_ended (b_host b) (hw (kernels (pos p) fd)) \<Longrightarrow>
       length (active (kernels (pos (take_irq b fd p)) fd)) < length (active (kernels (pos p) fd))"
    "op_id ` set (active (kernels (pos (take_irq b fd p)) fd) @ inactive (kernels (pos (take_irq b fd p)) fd)) =
       op_id ` set (active (kernels (pos p) fd) @ inactive (kernels (pos p) fd))"
proof -
  let ?q = "take_irq b fd p" and ?s = "entered b fd p"
  have st: "stores_user b" using bd by (simp add: board_ok_def)
  note fdi = stack_inv_fd [OF inv fd]
  note en = entered_ok [OF st fdi(1)]
  have "calm b F W p ?q \<and>
    (work_ended (b_host b) (hw (kernels (pos p) fd)) \<longrightarrow>
       length (active (kernels (pos ?q) fd)) < length (active (kernels (pos p) fd))) \<and>
    op_id ` set (active (kernels (pos ?q) fd) @ inactive (kernels (pos ?q) fd)) =
       op_id ` set (active (kernels (pos p) fd) @ inactive (kernels (pos p) fd))"
  proof (cases "work_ended (b_host b) (hw ?s)")
    case False
    then have "?q = p" by (simp add: take_irq_def)
    then show ?thesis using calm_refl [OF inv] False entered_work [OF st, of fd p] by simp
  next
    case True
    obtain t where t: "psipe_irq_handler (b_linux b) (b_bus b) ?s = Inr (IRQ_HANDLED, t)"
      "fd_ok b (W fd) (user_mem b t (pmem p)) t (transfers (pos p) fd) (unwaited (pos p) fd)"
      "length (active t) < length (active ?s)"
      "user_mem b t (pmem p) = pmem p \<or> (\<exists>q \<in> set (unwaited (pos p) fd). user_mem b t (pmem p) = post_mem (pmem p) q)"
      "op_id ` set (active t @ inactive t) = op_id ` set (active ?s @ inactive ?s)"
      by (rule irq_ok [OF bd en True])
    have q: "?q = left b fd t p" using True t(1) by (simp add: take_irq_def Let_def)
    have frame: "pmem ?q y = pmem p y" if "fd' \<noteq> fd" "x \<in> set (unwaited (pos p) fd')" "y \<in> post_region x" for fd' x y
      using t(4)
    proof
      assume "\<exists>q \<in> set (unwaited (pos p) fd). user_mem b t (pmem p) = post_mem (pmem p) q"
      then obtain q1 where q1: "q1 \<in> set (unwaited (pos p) fd)" "user_mem b t (pmem p) = post_mem (pmem p) q1" by blast
      show ?thesis
        using post_mem_harmless [OF stack_inv_apart(1) [OF inv fd q1(1) that(1,2)] that(3)] q1(2) by (simp add: q)
    qed (simp add: q)
    have "stack_inv b F (W(fd := W fd)) ?q"
      by (rule stack_inv_update [OF inv fd, where s = t and ts = "transfers (pos p) fd" and ps = "unwaited (pos p) fd"])
        (use t(2) fdi(2) frame stack_inv_apart [OF inv fd] in \<open>simp_all add: q fun_upd_idem\<close>)
    moreover have "same_outside (written (pos p)) (pmem p) (pmem ?q)"
      using t(4)
    proof
      assume "\<exists>q \<in> set (unwaited (pos p) fd). user_mem b t (pmem p) = post_mem (pmem p) q"
      then obtain q1 where q1: "q1 \<in> set (unwaited (pos p) fd)" "user_mem b t (pmem p) = post_mem (pmem p) q1" by blast
      show ?thesis
        unfolding same_outside_def
      proof (intro allI impI)
        fix x assume x: "x \<notin> written (pos p)"
        show "pmem ?q x = pmem p x"
        proof (cases "is_recv q1")
          case True
          then have "x \<notin> post_region q1" using x q1(1) by (auto simp: written_def)
          then show ?thesis using q1(2) post_mem_outside by (simp add: q)
        next
          case False
          then show ?thesis using q1(2) post_mem_send by (simp add: q)
        qed
      qed
    qed (simp add: q)
    ultimately show ?thesis using t(3,5) by (simp add: calm_def same_ghosts_def q)
  qed
  then show "calm b F W p ?q" "work_ended (b_host b) (hw (kernels (pos p) fd)) \<Longrightarrow>
       length (active (kernels (pos ?q) fd)) < length (active (kernels (pos p) fd))"
    "op_id ` set (active (kernels (pos ?q) fd) @ inactive (kernels (pos ?q) fd)) =
       op_id ` set (active (kernels (pos p) fd) @ inactive (kernels (pos p) fd))" by blast+
qed

lemma irqs_ok:
  assumes bd: "board_ok b F" shows "stack_inv b F W p \<Longrightarrow> set fds \<subseteq> F \<Longrightarrow> calm b F W p (fold (take_irq b) fds p)"
proof (induction fds arbitrary: p)
  case (Cons fd fds)
  have s: "calm b F W p (take_irq b fd p)" by (rule take_irq_ok(1) [OF bd Cons.prems(1)]) (use Cons.prems(2) in simp)
  then have "calm b F W (take_irq b fd p) (fold (take_irq b) fds (take_irq b fd p))"
    using Cons.IH Cons.prems(2) by (simp add: calm_def)
  then show ?case using calm_trans [OF s] by simp
qed (simp add: calm_refl)

lemma interrupted_ok:
  assumes bd: "board_ok b F" and inv: "stack_inv b F W p" shows "calm b F W p (interrupted b p)"
proof -
  let ?p = "p\<lparr>pos := (pos p)\<lparr>calls := Suc (calls (pos p))\<rparr>\<rparr>"
  have "stack_inv b F W ?p" using inv by (simp add: stack_inv_def)
  then have "calm b F W ?p (interrupted b p)"
    unfolding interrupted_def by (rule irqs_ok [OF bd]) (use bd in \<open>simp add: board_ok_def\<close>)
  then show ?thesis by (simp add: calm_def same_ghosts_def written_def)
qed

end
