(* ===== verification/Stack_Laws.thy ===== *)
theory Stack_Laws
  imports Stack_Irqs
begin

text \<open>
  The machine of theory \<^verbatim>\<open>Stack\<close> meets the contract of theory \<^verbatim>\<open>Link\<close>: each system call does what
  the law on it says.
\<close>

section \<open>Waiting\<close>

lemma fd_ok_active_work:
  assumes "fd_ok b W m s ts ps" "op \<in> set (active s)" shows "work_ended (b_host b) (hw s)"
proof -
  obtain dn act jobs where "split_posts b m s dn act jobs" using assms(1) unfolding fd_ok_def by blast
  then show ?thesis using assms(2) by (auto simp: split_posts_def)
qed

text \<open>A process that waits for an operation of the queue sleeps until it is complete.\<close>

lemma sleeps_ok:
  assumes bd: "board_ok b F" and fd: "fd \<in> F"
  shows "stack_inv b F W p \<Longrightarrow>
    h \<in> op_id ` set (active (kernels (pos p) fd) @ inactive (kernels (pos p) fd)) \<Longrightarrow>
    length (active (kernels (pos p) fd)) \<le> n \<Longrightarrow>
    calm b F W p (sleeps b fd h n p) \<and> h \<in> op_id ` set (inactive (kernels (pos (sleeps b fd h n p)) fd))"
proof (induction n arbitrary: p)
  case 0
  then show ?case using calm_refl by simp
next
  case (Suc n)
  let ?s = "kernels (pos p) fd"
  note ok = stack_inv_fd(1) [OF Suc.prems(1) fd]
  have k: "kinv ?s" using ok by (simp add: fd_ok_def)
  obtain op where op: "op \<in> set (active ?s @ inactive ?s)" "op_id op = h" using Suc.prems(2) by blast
  have f: "find_op h ?s = Some op" using find_op_unique [OF k op(1)] op(2) by simp
  show ?case
  proof (cases "flag op = 1")
    case True
    then have "op \<in> set (inactive ?s)" using k op(1) by (auto simp: kinv_def)
    then show ?thesis using calm_refl [OF Suc.prems(1)] f True op(2) by auto
  next
    case False
    then have "op \<in> set (active ?s)" using k op(1) by (auto simp: kinv_def)
    then have w: "work_ended (b_host b) (hw ?s)" by (rule fd_ok_active_work [OF ok])
    note irq = take_irq_ok [OF bd Suc.prems(1) fd]
    have "calm b F W (take_irq b fd p) (sleeps b fd h n (take_irq b fd p)) \<and>
        h \<in> op_id ` set (inactive (kernels (pos (sleeps b fd h n (take_irq b fd p))) fd))"
    proof (rule Suc.IH)
      show "stack_inv b F W (take_irq b fd p)" using irq(1) by (simp add: calm_def)
      show "h \<in> op_id ` set (active (kernels (pos (take_irq b fd p)) fd) @ inactive (kernels (pos (take_irq b fd p)) fd))"
        unfolding irq(3) by (rule Suc.prems(2))
      show "length (active (kernels (pos (take_irq b fd p)) fd)) \<le> n" using irq(2) [OF w] Suc.prems(3) by simp
    qed
    then show ?thesis using calm_trans [OF irq(1)] f False by simp
  qed
qed

text \<open>Going to sleep counts the waiter; waking up gives the operation back.\<close>

lemma job_of_nwaiting [simp]: "job_of L fuel (op\<lparr>nwaiting := k\<rparr>) j = job_of L fuel op j"
  by (cases j) simp_all

lemma enter_simps [simp]:
  "hw (ops_wait_enter s h) = hw s" "next_id (ops_wait_enter s h) = next_id s"
  "active (ops_wait_enter s h) = map_op h (\<lambda>op. op\<lparr>nwaiting := s32 (nwaiting op + 1)\<rparr>) (active s)"
  "inactive (ops_wait_enter s h) = map_op h (\<lambda>op. op\<lparr>nwaiting := s32 (nwaiting op + 1)\<rparr>) (inactive s)"
  by (simp_all add: ops_wait_enter_def update_op_def)

lemma enter_ok:
  assumes ok: "fd_ok b None m s ts ps"
  shows "fd_ok b (Some h) m (ops_wait_enter s h) ts ps"
    "op_id ` set (active (ops_wait_enter s h) @ inactive (ops_wait_enter s h)) =
       op_id ` set (active s @ inactive s)"
proof -
  let ?f = "\<lambda>op. op\<lparr>nwaiting := s32 (nwaiting op + 1)\<rparr>" and ?t = "ops_wait_enter s h"
  note O = ok [unfolded fd_ok_def]
  have k: "kinv ?t" unfolding ops_wait_enter_def by (intro kinv_update_op) (use O in simp_all)
  have ids: "op_id ` set (map_op h ?f ops) = op_id ` set ops" "map op_id (map_op h ?f ops) = map op_id ops" for ops
    by (rule op_id_map_op, simp) (rule map_op_ids, simp)
  have op: "op_ok (Some h) x" if x: "x \<in> set (active ?t @ inactive ?t)" for x
  proof -
    have "x \<in> set (map_op h ?f (active s @ inactive s))" using x by (simp add: map_op_def)
    then obtain y where "y \<in> set (active s @ inactive s)" "x = (if op_id y = h then ?f y else y)"
      unfolding map_op_def set_map by (elim imageE)
    then show ?thesis using O by (force simp: op_ok_def)
  qed
  have jobs: "list_all2 (job_of L fuel) (drop 1 (map_op h ?f ops)) js = list_all2 (job_of L fuel) (drop 1 ops) js"
    for L fuel ops js
    by (auto simp: map_op_def drop_map list_all2_conv_all_nth)
  have sp: "split_posts b m ?t dn act jobs" if "split_posts b m s dn act jobs" for dn act jobs
    using that by (simp add: split_posts_def ids jobs del: One_nat_def)
  obtain dn act jobs where "ps = dn @ act" "split_posts b m s dn act jobs"
    "outb (b_view b) (env (hw s)) @ concat (map post_out (drop 1 act)) = said b ts"
    using O by blast
  then show "fd_ok b (Some h) m ?t ts ps"
    by (intro fd_okI [OF k _ _ _ op, where dn = dn and act = act and jobs = jobs])
      (use O sp in \<open>simp_all only: enter_simps\<close>)
  show "op_id ` set (active ?t @ inactive ?t) = op_id ` set (active s @ inactive s)"
    by (simp add: image_Un ids)
qed

lemma kinv_apart:
  assumes "kinv s" "x \<in> set (active s)" "y \<in> set (inactive s)" shows "op_id x \<noteq> op_id y"
proof -
  have "op_id y \<in> set (completed (trace s))" "unat (op_id x) \<in> set (op_ids (active s))"
    using assms by (auto simp: kinv_def op_ids_def)
  then have "unat (op_id y) < unat (op_id x)"
    using assms(1) by (simp add: kinv_def sorted_wrt_append)
  then show ?thesis by auto
qed

lemma leave_ok:
  assumes ok: "fd_ok b (Some h) m s ts ps" and h: "h \<in> op_id ` set (inactive s)"
    and ps: "ps = pre @ q # rest" "post_id q = h"
  obtains rv t where "ops_wait_leave s h = Inr (rv, t)" "0 \<le> rv" "s32 rv = rv"
    "fd_ok b None m t ts rest" "\<forall>x \<in> set (pre @ [q]). executed m x"
proof -
  note O = ok [unfolded fd_ok_def]
  have k: "kinv s" using O by simp
  obtain op where op: "op \<in> set (inactive s)" "op_id op = h" using h by blast
  have f: "find_op h s = Some op" using find_op_unique [OF k, of op] op by simp
  have fl: "flag op = 1" using k op(1) by (auto simp: kinv_def)
  have ok1: "nwaiting op = 1" "0 \<le> retval op" "s32 (retval op) = retval op"
    using O op by (auto simp: op_ok_def)
  let ?g = "\<lambda>op. op\<lparr>nwaiting := 0\<rparr>"
  define t where "t = s\<lparr>trace := trace s @ [Kfree_op h], active := list_del h (map_op h ?g (active s)),
      inactive := list_del h (map_op h ?g (inactive s))\<rparr>"
  have l: "ops_wait_leave s h = Inr (retval op, t)"
    using f fl ok1(1) by (simp add: ops_wait_leave_def update_op_def t_def)
  have del: "list_del h (map_op h ?g ops) = list_del h ops" for ops
    by (induction ops) (simp_all add: list_del_def map_op_def)
  have "h \<notin> op_id ` set (active s)"
  proof
    assume "h \<in> op_id ` set (active s)"
    then obtain x where "x \<in> set (active s)" "op_id x = h" by blast
    then show False using kinv_apart [OF k _ op(1)] op(2) by simp
  qed
  then have act: "active t = active s" by (simp add: t_def del list_del_other)
  have inact: "inactive t = filter (\<lambda>op. op_id op \<noteq> h) (inactive s)"
    by (simp add: t_def del) (simp add: list_del_def)
  obtain dn act jobs where sp: "ps = dn @ act" "split_posts b m s dn act jobs"
    "outb (b_view b) (env (hw s)) @ concat (map post_out (drop 1 act)) = said b ts"
    using O by blast
  note S = sp(2) [unfolded split_posts_def]
  have "q \<notin> set act"
  proof
    assume "q \<in> set act"
    then have "h \<in> op_id ` set (active s)" using S ps(2) by (metis image_eqI list.set_map)
    then show False using \<open>h \<notin> op_id ` set (active s)\<close> by blast
  qed
  then have "q \<in> set dn" using sp(1) ps(1) by (metis Un_iff in_set_conv_decomp set_append)
  then obtain d1 d2 where dn: "dn = d1 @ q # d2" by (meson split_list)
  have dist: "distinct (map post_id ps)" using O by simp
  have eq: "d1 = pre" "d2 @ act = rest"
  proof -
    have "distinct ps" using dist by (simp add: distinct_map)
    then have "q \<notin> set d1" "q \<notin> set (d2 @ act)" unfolding sp(1) dn by auto
    moreover have "d1 @ q # d2 @ act = pre @ q # rest" using sp(1) ps(1) dn by simp
    ultimately have "d1 = pre \<and> d2 @ act = rest" using append_Cons_eq_iff [of q d1 "d2 @ act"] by blast
    then show "d1 = pre" "d2 @ act = rest" by blast+
  qed
  have d2: "h \<notin> post_id ` set d2" "post_id ` set d2 \<subseteq> op_id ` set (inactive s)"
    using dist ps(2) S unfolding sp(1) dn by auto
  have "post_id ` set d2 \<subseteq> op_id ` set (inactive t)"
  proof
    fix i assume i: "i \<in> post_id ` set d2"
    then obtain x where x: "x \<in> set (inactive s)" "i = op_id x" using d2(2) by blast
    moreover have "i \<noteq> h" using i d2(1) by blast
    ultimately show "i \<in> op_id ` set (inactive t)" unfolding inact by simp
  qed
  then have "split_posts b m t d2 act jobs"
    using S unfolding split_posts_def act by (simp add: dn t_def)
  moreover have "kinv t" by (rule kinv_leave [OF k l])
  moreover have "op_ok None x" if "x \<in> set (active t @ inactive t)" for x
    using that O \<open>h \<notin> op_id ` set (active s)\<close> unfolding act inact by (force simp: op_ok_def)
  moreover have "distinct (map post_id rest)" "sorted_wrt harmless rest"
    using O unfolding ps(1) by (simp_all add: sorted_wrt_append)
  ultimately have "fd_ok b None m t ts rest"
    by (intro fd_okI [OF _ _ _ _ _ _ _ eq(2) [symmetric]]) (use O sp(3) in \<open>simp_all add: t_def\<close>)
  moreover have "\<forall>x \<in> set (pre @ [q]). executed m x" using S by (auto simp: dn eq(1))
  ultimately show ?thesis using that l ok1(2,3) by blast
qed

lemma find_app: "find P (xs @ ys) = (case find P xs of Some x \<Rightarrow> Some x | None \<Rightarrow> find P ys)"
  by (induction xs) auto

lemma psipe_ops_get_find:
  assumes "kinv s" "h \<in> op_id ` set (active s @ inactive s)"
  shows "\<exists>op. psipe_ops_get s h = Some op \<and> op_id op = h"
proof -
  obtain op where op: "op \<in> set (active s @ inactive s)" "op_id op = h" using assms(2) by blast
  have "h < next_id s" using kinv_id_below [OF assms(1) op(1)] op(2) by (simp add: word_less_nat_alt)
  moreover have "find_op h s = Some op" using find_op_unique [OF assms(1) op(1)] op(2) by simp
  ultimately show ?thesis
    using op(2) by (simp add: psipe_ops_get_def find_op_def find_app not_le)
qed

lemma dropWhile_post:
  assumes "q \<notin> f ` set pre" shows "tl (dropWhile (\<lambda>x. f x \<noteq> q) (pre @ x # rest)) = (if f x = q then rest else tl (dropWhile (\<lambda>x. f x \<noteq> q) rest))"
  using assms by (induction pre) auto

lemma stack_wait_ok:
  assumes bd: "board_ok b F" and inv: "stack_inv b F (\<lambda>_. None) p" and fd: "fd \<in> F"
    and ps: "unwaited (pos p) fd = pre @ q # rest" "post_id q \<notin> post_id ` set pre"
  obtains rv p' where "stack_wait b fd (post_id q) p = (rv, p')" "0 \<le> rv"
    "stack_inv b F (\<lambda>_. None) p'" "transfers (pos p') = transfers (pos p)"
    "unwaited (pos p') = (unwaited (pos p))(fd := rest)" "arrived (pos p') = arrived (pos p)"
    "libs (pos p') = libs (pos p)" "same_outside (written (pos p)) (pmem p) (pmem p')"
    "\<forall>x \<in> set (pre @ [q]). executed (pmem p') x"
proof -
  let ?s = "kernels (pos p) fd" and ?h = "post_id q" and ?W = "(\<lambda>_. None) (fd := Some (post_id q))"
  let ?p1 = "set_kernel fd (ops_wait_enter ?s ?h) p"
  note fdi = stack_inv_fd [OF inv fd]
  have k: "kinv ?s" using fdi(1) by (simp add: fd_ok_def)
  obtain dn act jobs where sp: "unwaited (pos p) fd = dn @ act" "split_posts b (pmem p) ?s dn act jobs"
    using fdi(1) unfolding fd_ok_def by blast
  have h: "?h \<in> op_id ` set (active ?s @ inactive ?s)"
    using split_ids [OF sp(2)] ps(1) unfolding sp(1) [symmetric] by auto
  obtain op where op: "psipe_ops_get ?s ?h = Some op" "op_id op = ?h"
    using psipe_ops_get_find [OF k h] by blast
  note en = enter_ok [OF fdi(1), of ?h]
  have inv1: "stack_inv b F ?W ?p1"
    by (rule stack_inv_update [OF inv fd, where s = "ops_wait_enter ?s ?h" and ts = "transfers (pos p) fd"
          and ps = "unwaited (pos p) fd"])
      (use en(1) fdi(2) stack_inv_apart [OF inv fd] in \<open>simp_all add: fun_upd_idem\<close>)
  define q1 where "q1 = sleeps b fd ?h (length (active ?s)) ?p1"
  have sl: "calm b F ?W ?p1 q1" "?h \<in> op_id ` set (inactive (kernels (pos q1) fd))"
  proof -
    have n: "length (active (kernels (pos ?p1) fd)) \<le> length (active ?s)" by (simp add: map_op_def)
    have "?h \<in> op_id ` set (active (kernels (pos ?p1) fd) @ inactive (kernels (pos ?p1) fd))"
      using h en(2) by simp
    from sleeps_ok [OF bd fd inv1 this n]
    show "calm b F ?W ?p1 q1" "?h \<in> op_id ` set (inactive (kernels (pos q1) fd))" by (simp_all add: q1_def)
  qed
  have inv2: "stack_inv b F ?W q1" and g: "transfers (pos q1) = transfers (pos p)"
    "unwaited (pos q1) = unwaited (pos p)" "arrived (pos q1) = arrived (pos p)" "libs (pos q1) = libs (pos p)"
    "same_outside (written (pos p)) (pmem p) (pmem q1)"
    using sl(1) by (simp_all add: calm_def same_ghosts_def written_def)
  have ok2: "fd_ok b (Some ?h) (pmem q1) (kernels (pos q1) fd) (transfers (pos p) fd) (unwaited (pos p) fd)"
    using stack_inv_fd(1) [OF inv2 fd] by (simp add: g)
  obtain rv t where t: "ops_wait_leave (kernels (pos q1) fd) ?h = Inr (rv, t)" "0 \<le> rv" "s32 rv = rv"
    "fd_ok b None (pmem q1) t (transfers (pos p) fd) rest" "\<forall>x \<in> set (pre @ [q]). executed (pmem q1) x"
    by (rule leave_ok [OF ok2 sl(2) ps(1) refl])
  define p' where "p' = (let q = set_kernel fd t q1; w = pos q
    in q\<lparr>pos := w\<lparr>unwaited := (unwaited w)(fd := tl (dropWhile (\<lambda>x. post_id x \<noteq> ?h) (unwaited w fd)))\<rparr>\<rparr>)"
  have w: "stack_wait b fd ?h p = (rv, p')"
    using op t(1,3) by (simp add: stack_wait_def p'_def q1_def Let_def)
  have p': "kernels (pos p') = (kernels (pos q1))(fd := t)" "transfers (pos p') = transfers (pos p)"
    "unwaited (pos p') = (unwaited (pos p))(fd := rest)" "arrived (pos p') = arrived (pos p)"
    "libs (pos p') = libs (pos p)" "pmem p' = pmem q1"
    using dropWhile_post [OF ps(2)] by (simp_all add: p'_def Let_def g ps(1))
  have sub: "set rest \<subseteq> set (unwaited (pos q1) fd)" using ps(1) by (auto simp: g)
  have "stack_inv b F (?W(fd := None)) p'"
    by (rule stack_inv_update [OF inv2 fd, where s = t and ts = "transfers (pos p) fd" and ps = rest])
      (use t(4) fdi(2) stack_inv_apart [OF inv2 fd] sub in \<open>auto simp: p' g fun_upd_idem\<close>)
  then have "stack_inv b F (\<lambda>_. None) p'" by (simp add: fun_upd_idem)
  then show ?thesis using that [OF w t(2)] p' g(5) t(5) by simp
qed

section \<open>Sending and receiving\<close>

lemma full_post_harmless:
  assumes "q \<in> set (unwaited w fd)" "span a (length (transfer_bytes t)) \<inter> written w = {}"
  shows "harmless q (full_post h a t)"
  using assms by (auto simp: harmless_def written_def)

lemma full_post_recv: "is_recv (full_post h a t) \<longleftrightarrow> (\<exists>bs. t = T_In bs)"
  by (cases t) (simp_all add: full_post_def)

lemma post_id_fresh:
  assumes "fd_ok b W m s ts ps" "length ts < 2 ^ 31"
  shows "unat (next_id s) < 2 ^ 31" "s32 (sint (next_id s)) = int (unat (next_id s))"
    "u64_of_int (int (unat (next_id s))) = next_id s"
proof -
  show u: "unat (next_id s) < 2 ^ 31" using assms by (simp add: fd_ok_def)
  have b: "uint (next_id s) < 2 ^ 31"
    using of_nat_less_iff [where 'a = int, THEN iffD2, OF u] by simp
  then have "sint (next_id s) = uint (next_id s)"
    unfolding sint_uint by (intro signed_take_bit_int_eq_self) (simp_all add: order.trans [of _ 0])
  moreover have "- (2 ^ 31) \<le> uint (next_id s)" by (rule order.trans [of _ 0]) simp_all
  ultimately show "s32 (sint (next_id s)) = int (unat (next_id s))" using s32_id [OF _ b] by simp
  show "u64_of_int (int (unat (next_id s))) = next_id s" by (simp add: u64_of_int_def)
qed

lemma stack_submit_ok:
  fixes p :: "('e, 'r) node proc"
  assumes bd: "board_ok b F" and inv: "stack_inv b F (\<lambda>_. None) p" and fd: "fd \<in> F"
    and c: "can_take b a (unat l)" and n: "length (transfers (pos p) fd) < 2 ^ 31"
    and t: "new_transfer b fd (transfer_cmd t) \<lparr>data_addr = a, data_len = l\<rparr> p = t"
      "length (transfer_bytes t) = unat l" "\<And>bs. t = T_Out bs \<Longrightarrow> ram_bytes (pmem p) a (unat l) = bs"
    and cl: "span a (unat l) \<inter> written (pos p) = {}"
    and apart: "\<And>bs fd' x. t = T_In bs \<Longrightarrow> fd' \<noteq> fd \<Longrightarrow> x \<in> set (unwaited (pos p) fd') \<Longrightarrow>
      span a (unat l) \<inter> post_region x = {}"
    and h: "h = next_id (kernels (pos p) fd)" and ps: "ps = unwaited (pos p) fd"
  obtains p' where "stack_submit b fd (transfer_cmd t) \<lparr>data_addr = a, data_len = l\<rparr> p = (int (unat h), p')"
    "stack_inv b F (\<lambda>_. None) p'" "transfers (pos p') = (transfers (pos p))(fd := transfers (pos p) fd @ [t])"
    "unwaited (pos p') = (unwaited (pos p))(fd := ps @ [new_post ps h a t])"
    "libs (pos p') = libs (pos p)"
    "pmem p' = post_mem (pmem p) (full_post h a t) \<or> ps \<noteq> [] \<and> pmem p' = pmem p"
proof -
  let ?ts = "transfers (pos p) fd" and ?s = "entered b fd p" and ?d = "\<lparr>data_addr = a, data_len = l\<rparr>"
  have st: "stores_user b" using bd by (simp add: board_ok_def)
  note fdi = stack_inv_fd [OF inv fd]
  note en = entered_ok [OF st fdi(1) [folded ps]]
  have hs: "next_id ?s = h" by (simp add: h)
  have hl: "\<forall>x \<in> set ps. harmless x (full_post (next_id ?s) a t)"
    using full_post_harmless [of _ "pos p" fd a t] cl t(2) by (simp add: ps)
  obtain u where u: "psipe_ioctl (with_data (b_linux b) ?d) (b_bus b)
       (set_env (arrive b (env (hw ?s)) (wire_in t)) ?s) (transfer_cmd t) 0 = Inr (sint h, u)"
    "fd_ok b None (user_mem b u (pmem p)) u (?ts @ [t]) (ps @ [new_post ps h a t])"
    "user_mem b u (pmem p) = post_mem (pmem p) (full_post h a t) \<or> ps \<noteq> [] \<and> user_mem b u (pmem p) = pmem p"
    by (rule submit_ok [OF bd en n c t(2,3) hl, unfolded hs])
  note hn = post_id_fresh [OF fdi(1) n, folded h]
  define p' where "p' = (let q = left b fd u p in q\<lparr>pos := posted_op fd t h a (pos q)\<rparr>)"
  have eq: "stack_submit b fd (transfer_cmd t) ?d p = (int (unat h), p')"
    unfolding stack_submit_def Let_def t(1) u(1) by (simp add: hn [simplified] p'_def Let_def)
  have p': "kernels (pos p') = (kernels (pos p))(fd := u)" "transfers (pos p') = (transfers (pos p))(fd := ?ts @ [t])"
    "unwaited (pos p') = (unwaited (pos p))(fd := ps @ [new_post ps h a t])"
    "arrived (pos p') = (arrived (pos p))(fd := wires wire_in (?ts @ [t]))"
    "libs (pos p') = libs (pos p)" "pmem p' = user_mem b u (pmem p)"
    by (simp_all add: p'_def Let_def posted_op_def fdi(2) ps)
  have other: "harmless (full_post h a t) x" if "fd' \<noteq> fd" "x \<in> set (unwaited (pos p) fd')" for fd' x
    using apart that t(2) by (auto simp: harmless_def full_post_recv)
  have "stack_inv b F ((\<lambda>_. None)(fd := None)) p'"
  proof (rule stack_inv_update [OF inv fd p'(1-4)])
    show "fd_ok b None (pmem p') u (?ts @ [t]) (ps @ [new_post ps h a t])" using u(2) by (simp add: p')
    show "pmem p' y = pmem p y" if "fd' \<noteq> fd" "x \<in> set (unwaited (pos p) fd')" "y \<in> post_region x" for fd' x y
      using u(3) post_mem_harmless [OF other [OF that(1,2)] that(3)] by (auto simp: p')
    show "harmless x y \<and> harmless y x"
      if f: "fd' \<in> F" "fd' \<noteq> fd" "x \<in> set (ps @ [new_post ps h a t])" "y \<in> set (unwaited (pos p) fd')" for fd' x y
    proof (cases "x \<in> set ps")
      case True
      then show ?thesis using stack_inv_apart [OF inv fd _ f(2,4)] by (simp add: ps)
    next
      case False
      then have "x = new_post ps h a t" using f(3) by simp
      moreover have "harmless y (full_post h a t)" using full_post_harmless [OF f(4)] cl t(2) by simp
      moreover have "harmless (full_post h a t) y" by (rule other [OF f(2,4)])
      ultimately show ?thesis using new_post_harmless by (cases t) (auto simp: full_post_def harmless_def)
    qed
  qed
  then have "stack_inv b F (\<lambda>_. None) p'" by (simp add: fun_upd_idem)
  then show ?thesis using that [OF eq] p' u(3) by simp
qed

section \<open>The laws\<close>

lemma stack_view_sels [simp]:
  "open_fds (stack_view b F hp rm) = F" "log (stack_view b F hp rm) = transfers"
  "posted (stack_view b F hp rm) = unwaited" "peer (stack_view b F hp rm) = behind b"
  "takes (stack_view b F hp rm) = can_take b" "heap (stack_view b F hp rm) w = hp (libs w)"
  "room (stack_view b F hp rm) w = rm (libs w)" "sane (stack_view b F hp rm) p = stack_inv b F (\<lambda>_. None) p"
  "sent (stack_view b F hp rm) w fd = outs (transfers w fd)"
  "recvs (stack_view b F hp rm) w fd = length (ins (transfers w fd))"
  "inflight (stack_view b F hp rm) = written"
  by (simp_all add: stack_view_def sent_def recvs_def) (rule ext, rule inflight_view [unfolded stack_view_def])

lemma calmD:
  assumes "calm b F W p q"
  shows "stack_inv b F W q" "transfers (pos q) = transfers (pos p)" "unwaited (pos q) = unwaited (pos p)"
    "libs (pos q) = libs (pos p)" "written (pos q) = written (pos p)"
    "same_outside (written (pos p)) (pmem p) (pmem q)"
  using assms by (simp_all add: calm_def same_ghosts_def written_def)

lemma fresh_post:
  assumes "stack_inv b F W p" "fd \<in> F" "length (transfers (pos p) fd) < 2 ^ 31" "h = next_id (kernels (pos p) fd)"
  shows "unat h < 2 ^ 31" "u64_of_int (int (unat h)) = h" "h \<notin> post_id ` set (unwaited (pos p) fd)"
  using post_id_fresh [OF stack_inv_fd(1) [OF assms(1,2)] assms(3)]
    fd_ok_fresh [OF stack_inv_fd(1) [OF assms(1,2)]] assms(4) by simp_all

lemma fresh_handle_stack:
  assumes "unat h < 2 ^ 31" "u64_of_int (int (unat h)) = h" "h \<notin> post_id ` set (unwaited w fd)"
  shows "fresh_handle (stack_view b F hp rm) w fd (int (unat h))"
  using assms(2,3) of_nat_less_iff [where 'a = int, THEN iffD2, OF assms(1)]
  unfolding fresh_handle_def stack_view_sels by simp

lemma stack_send_law:
  assumes bd: "board_ok b F" shows "send_law (stack_sys b C) (stack_view b F hp rm)"
  unfolding send_law_def stack_view_sels
proof (intro allI impI, elim conjE)
  fix p :: "('a, 'b) node proc" and fd and a l :: u64
  assume fd: "fd \<in> F" and inv: "stack_inv b F (\<lambda>_. None) p" and c: "can_take b a (unat l)"
    and n: "length (transfers (pos p) fd) < 2 ^ 31" and cl: "span a (unat l) \<inter> written (pos p) = {}"
  let ?V = "stack_view b F hp rm" and ?bs = "peek p a (unat l)" and ?p = "interrupted b p"
  let ?t = "T_Out ?bs" and ?h = "next_id (kernels (pos ?p) fd)"
  note q = calmD [OF interrupted_ok [OF bd inv]]
  have bs: "peek ?p a (unat l) = ?bs" by (rule ram_bytes_same [OF q(6) cl])
  note n' = n [folded q(2)] and cl' = cl [folded q(5)]
  have new: "new_transfer b fd (transfer_cmd ?t) \<lparr>data_addr = a, data_len = l\<rparr> ?p = ?t"
    by (simp add: new_transfer_def bs)
  have len: "length (transfer_bytes ?t) = unat l" by simp
  have out: "ram_bytes (pmem ?p) a (unat l) = bs'" if "?t = T_Out bs'" for bs' using that bs by simp
  have ap: "span a (unat l) \<inter> post_region x = {}" if "?t = T_In bs'" for bs' x using that by simp
  obtain p' where p': "stack_submit b fd (transfer_cmd ?t) \<lparr>data_addr = a, data_len = l\<rparr> ?p = (int (unat ?h), p')"
    "stack_inv b F (\<lambda>_. None) p'" "transfers (pos p') = (transfers (pos ?p))(fd := transfers (pos ?p) fd @ [?t])"
    "unwaited (pos p') = (unwaited (pos ?p))(fd := unwaited (pos ?p) fd @ [new_post (unwaited (pos ?p) fd) ?h a ?t])"
    "libs (pos p') = libs (pos ?p)"
    "pmem p' = post_mem (pmem ?p) (full_post ?h a ?t) \<or> unwaited (pos ?p) fd \<noteq> [] \<and> pmem p' = pmem ?p"
    by (rule stack_submit_ok [OF bd q(1) fd c n' new len out cl' ap refl refl])
  have "pmem p' = pmem ?p" using p'(6) by (auto simp: full_post_def)
  then have "posts ?V fd p [?t] [send_op ?V (pos p) fd ?h a ?bs] (written (pos p)) p'"
    using p'(2-5) q(2-4,6) by (simp add: posts_def send_op_def)
  moreover have "psipe_send (stack_sys b C) fd a l p = (int (unat ?h), p')"
    using p'(1) by (simp add: psipe_send_def stack_sys_def stack_ioctl_def Let_def)
  moreover note new = fresh_post [OF q(1) fd n' refl]
  have "fresh_handle ?V (pos p) fd (int (unat ?h))"
    by (rule fresh_handle_stack [OF new [unfolded q(3)]])
  ultimately show "\<exists>r p'. psipe_send (stack_sys b C) fd a l p = (r, p') \<and> fresh_handle ?V (pos p) fd r \<and>
      posts ?V fd p [?t] [send_op ?V (pos p) fd (u64_of_int r) a ?bs] (written (pos p)) p'"
    using new(2) by metis
qed

lemma pending_view:
  assumes "span a n \<inter> written w = {}" "span a n \<inter> pending_sends (stack_view b F hp rm) w G = {}"
    "fd \<in> G" "x \<in> set (unwaited w fd)"
  shows "span a n \<inter> post_region x = {}"
proof (cases x)
  case (P_Send i a' bs)
  then have "post_region x \<subseteq> pending_sends (stack_view b F hp rm) w G"
    using assms(3,4) unfolding pending_sends_def by auto
  then show ?thesis using assms(2) by blast
next
  case (P_Recv i a' bs)
  then have "post_region x \<subseteq> written w" using assms(4) unfolding written_def by force
  then show ?thesis using assms(1) by blast
qed simp

lemma stack_recv_law:
  assumes bd: "board_ok b F" shows "recv_law (stack_sys b C) (stack_view b F hp rm)"
  unfolding recv_law_def stack_view_sels
proof (intro allI impI, elim conjE)
  fix p :: "('a, 'b) node proc" and fd and a l :: u64 and bs
  let ?V = "stack_view b F hp rm" and ?p = "interrupted b p"
  assume fd: "fd \<in> F" and inv: "stack_inv b F (\<lambda>_. None) p" and c: "can_take b a (unat l)"
    and n: "length (transfers (pos p) fd) < 2 ^ 31" and cl: "span a (unat l) \<inter> written (pos p) = {}"
    and ps: "span a (unat l) \<inter> pending_sends ?V (pos p) (- {fd}) = {}"
    and bs: "bs = behind b fd (outs (transfers (pos p) fd)) (length (ins (transfers (pos p) fd)))"
      "length bs = unat l"
  let ?t = "T_In bs" and ?h = "next_id (kernels (pos ?p) fd)"
  note q = calmD [OF interrupted_ok [OF bd inv]]
  note n' = n [folded q(2)] and cl' = cl [folded q(5)]
  have new: "new_transfer b fd (transfer_cmd ?t) \<lparr>data_addr = a, data_len = l\<rparr> ?p = ?t"
    by (simp add: new_transfer_def q(2) bs(1) Let_def)
  have len: "length (transfer_bytes ?t) = unat l" using bs(2) by simp
  have out: "ram_bytes (pmem ?p) a (unat l) = bs'" if "?t = T_Out bs'" for bs' using that by simp
  have ap: "span a (unat l) \<inter> post_region x = {}" if "fd' \<noteq> fd" "x \<in> set (unwaited (pos ?p) fd')" for fd' x
    by (rule pending_view [OF cl ps _ that(2) [unfolded q(3)]]) (use that(1) in simp)
  obtain p' where p': "stack_submit b fd (transfer_cmd ?t) \<lparr>data_addr = a, data_len = l\<rparr> ?p = (int (unat ?h), p')"
    "stack_inv b F (\<lambda>_. None) p'" "transfers (pos p') = (transfers (pos ?p))(fd := transfers (pos ?p) fd @ [?t])"
    "unwaited (pos p') = (unwaited (pos ?p))(fd := unwaited (pos ?p) fd @ [new_post (unwaited (pos ?p) fd) ?h a ?t])"
    "libs (pos p') = libs (pos ?p)"
    "pmem p' = post_mem (pmem ?p) (full_post ?h a ?t) \<or> unwaited (pos ?p) fd \<noteq> [] \<and> pmem p' = pmem ?p"
    by (rule stack_submit_ok [OF bd q(1) fd c n' new len out cl' ap refl refl])
  have w: "written (pos p') = written (pos p) \<union> span a (length bs)"
    using p'(4) by (auto simp: written_def q(3) split: if_splits)
  have m: "pmem p' = ram_store (pmem ?p) a bs \<or> unwaited (pos p) fd \<noteq> [] \<and> pmem p' = pmem ?p"
    using p'(6) by (simp add: full_post_def q(3))
  have "same_outside (written (pos p')) (pmem ?p) (pmem p')"
    using m same_outside_store [of a bs "written (pos p')" "pmem ?p"] w by auto
  moreover have "same_outside (written (pos p')) (pmem p) (pmem ?p)"
    by (rule same_outside_mono [OF q(6)]) (simp add: w)
  ultimately have "posts ?V fd p [?t] [P_Recv ?h a bs] (written (pos p')) p'"
    using p'(2-5) q(2-4) by (auto simp: posts_def intro: same_outside_trans)
  moreover have "psipe_recv (stack_sys b C) fd a l p = (int (unat ?h), p')"
    using p'(1) by (simp add: psipe_recv_def stack_sys_def stack_ioctl_def Let_def)
  moreover have "unwaited (pos p) fd = [] \<longrightarrow> peek p' a (length bs) = bs"
    using m ram_bytes_store [of bs "pmem ?p" a] unat_u64_lt [of l] bs(2) by auto
  moreover note new = fresh_post [OF q(1) fd n' refl]
  have "fresh_handle ?V (pos p) fd (int (unat ?h))"
    by (rule fresh_handle_stack [OF new [unfolded q(3)]])
  ultimately show "\<exists>r p'. psipe_recv (stack_sys b C) fd a l p = (r, p') \<and> fresh_handle ?V (pos p) fd r \<and>
      posts ?V fd p [?t] [P_Recv (u64_of_int r) a bs] (written (pos p')) p' \<and>
      (unwaited (pos p) fd = [] \<longrightarrow> peek p' a (length bs) = bs)"
    using new(2) by metis
qed

lemma executed_recv: "executed m (P_Recv i a bs) \<Longrightarrow> ram_bytes m a (length bs) = bs"
  by simp

lemma stack_wait_law:
  assumes bd: "board_ok b F" shows "wait_law (stack_sys b C) (stack_view b F hp rm)"
  unfolding wait_law_def stack_view_sels
proof (intro allI impI, elim conjE)
  fix p :: "('a, 'b) node proc" and fd pre q0 rest
  let ?V = "stack_view b F hp rm" and ?p = "interrupted b p"
  assume fd: "fd \<in> F" and inv: "stack_inv b F (\<lambda>_. None) p"
    and ps: "unwaited (pos p) fd = pre @ q0 # rest" "post_id q0 \<notin> post_id ` set pre"
  note q = calmD [OF interrupted_ok [OF bd inv]]
  obtain rv p' where w: "stack_wait b fd (post_id q0) ?p = (rv, p')" "0 \<le> rv"
    "stack_inv b F (\<lambda>_. None) p'" "transfers (pos p') = transfers (pos ?p)"
    "unwaited (pos p') = (unwaited (pos ?p))(fd := rest)" "arrived (pos p') = arrived (pos ?p)"
    "libs (pos p') = libs (pos ?p)" "same_outside (written (pos ?p)) (pmem ?p) (pmem p')"
    "\<forall>x \<in> set (pre @ [q0]). executed (pmem p') x"
    by (rule stack_wait_ok [OF bd q(1) fd ps(1) [folded q(3)] ps(2)])
  have "same_outside (written (pos p)) (pmem p) (pmem p')"
    by (rule same_outside_trans [OF q(6) w(8) [unfolded q(5)]])
  then have "waited ?V fd p (pre @ [q0]) rest p'"
    using w(3-5,7) q(2-4) executed_recv w(9) unfolding waited_def stack_view_sels by metis
  moreover have "psipe_wait (stack_sys b C) fd (post_id q0) p = (rv, p')"
    using w(1) by (simp add: psipe_wait_def stack_sys_def stack_ioctl_def Let_def)
  ultimately show "\<exists>r p'. psipe_wait (stack_sys b C) fd (post_id q0) p = (r, p') \<and> 0 \<le> r \<and>
      waited ?V fd p (pre @ [q0]) rest p'" using w(2) by blast
qed

lemma fd_ok_empty:
  assumes "fd_ok b W m s ts []"
  shows "active s = []" "split_posts b m s [] [] []" "outb (b_view b) (env (hw s)) = said b ts"
proof -
  obtain jobs where "split_posts b m s [] [] jobs" "outb (b_view b) (env (hw s)) = said b ts"
    using assms by (auto simp: fd_ok_def)
  moreover from this have "jobs = []" by (simp add: split_posts_def)
  ultimately show "active s = []" "split_posts b m s [] [] []"
    "outb (b_view b) (env (hw s)) = said b ts" by (simp_all add: split_posts_def)
qed

lemma stack_flush_ok:
  assumes inv: "stack_inv b F (\<lambda>_. None) p" and fd: "fd \<in> F" and ps: "unwaited (pos p) fd = []"
  obtains p' where "stack_flush b fd PSIPE_IOCTL_FLUSH p = (0, p')" "stack_inv b F (\<lambda>_. None) p'"
    "transfers (pos p') = transfers (pos p)" "unwaited (pos p') = unwaited (pos p)" "pmem p' = pmem p"
proof -
  let ?s = "kernels (pos p) fd"
  note fdi = stack_inv_fd [OF inv fd, unfolded ps]
  note emp = fd_ok_empty [OF fdi(1)]
  obtain rv t where t: "psipe_ops_flush ?s = (rv, t)" by fastforce
  obtain tr where tr: "rv = 0" "t = ?s\<lparr>trace := tr, active := filter (\<lambda>op. nwaiting op \<noteq> 0) (active ?s),
      inactive := filter (\<lambda>op. nwaiting op \<noteq> 0) (inactive ?s)\<rparr>"
    using t by (elim flush_spec)
  have k: "kinv t" by (rule kinv_flush [OF _ t]) (use fdi(1) in \<open>simp add: fd_ok_def\<close>)
  have "split_posts b (pmem p) t [] [] []" using emp by (simp add: split_posts_def tr(2))
  then have ok: "fd_ok b None (pmem p) t (transfers (pos p) fd) []"
    by (intro fd_okI [OF k, where dn = "[]" and act = "[]" and jobs = "[]"])
      (use fdi(1) emp in \<open>auto simp: tr(2) fd_ok_def\<close>)
  let ?p' = "set_kernel fd t p"
  have eq: "stack_flush b fd PSIPE_IOCTL_FLUSH p = (0, ?p')"
    using t tr(1) by (simp add: stack_flush_def psipe_ioctl_def)
  have "stack_inv b F ((\<lambda>_. None)(fd := None)) ?p'"
    by (rule stack_inv_update [OF inv fd, where s = t and ts = "transfers (pos p) fd" and ps = "[]"])
      (use ok fdi(2) ps in \<open>simp_all add: fun_upd_idem\<close>)
  then have "stack_inv b F (\<lambda>_. None) ?p'" by (simp add: fun_upd_idem)
  then show ?thesis using that [OF eq] by simp
qed

lemma set_libs_simps [simp]:
  "stack_inv b F W (set_libs p r) = stack_inv b F W p" "transfers (pos (set_libs p r)) = transfers (pos p)"
  "unwaited (pos (set_libs p r)) = unwaited (pos p)" "pmem (set_libs p r) = pmem p" "libs (pos (set_libs p r)) = r"
  by (simp_all add: set_libs_def stack_inv_def)

lemma stack_quiet_law:
  assumes bd: "board_ok b F" shows "quiet_law (stack_sys b C) (stack_view b F hp rm)"
  unfolding quiet_law_def stack_view_sels
proof (intro allI impI, elim conjE)
  fix p :: "('a, 'b) node proc" and fd
  let ?V = "stack_view b F hp rm" and ?p = "interrupted b p"
  assume fd: "fd \<in> F" and inv: "stack_inv b F (\<lambda>_. None) p"
  have "quiet ?V p (snd (psipe_flush (stack_sys b C) fd p))" if ps: "unwaited (pos p) fd = []"
  proof -
    note q = calmD [OF interrupted_ok [OF bd inv]]
    obtain p' where p': "stack_flush b fd PSIPE_IOCTL_FLUSH ?p = (0, p')" "stack_inv b F (\<lambda>_. None) p'"
      "transfers (pos p') = transfers (pos ?p)" "unwaited (pos p') = unwaited (pos ?p)" "pmem p' = pmem ?p"
      by (rule stack_flush_ok [OF q(1) fd ps [folded q(3)]])
    then have "quiet ?V p p'" using q(2,3,6) by (simp add: quiet_def)
    then show ?thesis using p'(1) by (simp add: psipe_flush_def stack_sys_def stack_ioctl_def Let_def)
  qed
  moreover have "quiet ?V p (sys_close (stack_sys b C) fd p)" using inv by (simp add: quiet_def stack_sys_def)
  ultimately show "(unwaited (pos p) fd = [] \<longrightarrow> quiet ?V p (snd (psipe_flush (stack_sys b C) fd p))) \<and>
      quiet ?V p (sys_close (stack_sys b C) fd p)" by blast
qed

lemma stack_memalign_law:
  assumes "libc_ok b C hp rm" shows "memalign_law (stack_sys b C) (stack_view b F hp rm)"
  unfolding memalign_law_def stack_view_sels parts_taken_def
proof (intro allI impI, elim conjE)
  fix p :: "('a, 'b) node proc" and al sz :: u64
  let ?V = "stack_view b F hp rm" and ?r = "libs (pos p)"
  assume inv: "stack_inv b F (\<lambda>_. None) p" and sz: "unat sz \<le> rm ?r"
  obtain a r' where a: "lc_memalign C al sz ?r = (0, a, r')" "span a (unat sz) \<inter> hp ?r = {}"
    "hp r' = hp ?r \<union> span a (unat sz)" "rm r' = rm ?r - unat sz"
    "\<forall>x y. x + y \<le> unat sz \<and> 0 < y \<longrightarrow> can_take b (a + of_nat x) y"
    using assms sz unfolding libc_ok_def by blast
  have m: "sys_memalign (stack_sys b C) al sz p = (0, a, set_libs p r')" using a(1) by (simp add: stack_sys_def)
  have "quiet ?V p (set_libs p r')" using inv by (simp add: quiet_def)
  then show "\<exists>a p'. sys_memalign (stack_sys b C) al sz p = (0, a, p') \<and> quiet ?V p p' \<and>
      span a (unat sz) \<inter> hp ?r = {} \<and> hp (libs (pos p')) = hp ?r \<union> span a (unat sz) \<and>
      rm (libs (pos p')) = rm ?r - unat sz \<and> (\<forall>x y. x + y \<le> unat sz \<and> 0 < y \<longrightarrow> can_take b (a + of_nat x) y)"
    using m a(2-5) set_libs_simps(5) by metis
qed

lemma post_region_busy:
  assumes "q \<in> set (unwaited w fd)" shows "post_region q \<subseteq> busy (stack_view b F hp rm) w"
proof (cases q)
  case (P_Send i a bs)
  then show ?thesis using assms by (force simp: busy_def pending_sends_def)
next
  case (P_Recv i a bs)
  then show ?thesis using assms by (force simp: busy_def written_def)
qed simp

lemma stack_store_law: "store_law (stack_view b F hp rm)"
  unfolding store_law_def stack_view_sels
proof (intro allI impI, elim conjE)
  fix p :: "('a, 'b) node proc" and m
  assume inv: "stack_inv b F (\<lambda>_. None) p"
    and m: "same_outside (- busy (stack_view b F hp rm) (pos p)) (pmem p) m"
  have "fd_ok b None m (kernels (pos p) fd) (transfers (pos p) fd) (unwaited (pos p) fd)" if "fd \<in> F" for fd
  proof (rule fd_ok_frame [OF stack_inv_fd(1) [OF inv that]])
    fix q x assume "q \<in> set (unwaited (pos p) fd)" "x \<in> post_region q"
    then have "x \<in> busy (stack_view b F hp rm) (pos p)" using post_region_busy by blast
    then show "m x = pmem p x" using m by (simp add: same_outside_def)
  qed
  then show "stack_inv b F (\<lambda>_. None) (p\<lparr>pmem := m\<rparr>)" using inv by (simp add: stack_inv_def)
qed

lemma stack_contract:
  assumes "board_ok b F" "libc_ok b C hp rm"
  shows "link_contract (stack_sys b C) (stack_view b F hp rm)"
  unfolding link_contract_def
  by (intro conjI stack_send_law stack_recv_law stack_wait_law stack_quiet_law stack_memalign_law stack_store_law assms)

end
