(* ===== verification/Stack_Run.thy ===== *)
theory Stack_Run
  imports Stack_Laws Master
begin

text \<open>
  Whole computers: a board with its C library, started with the module loaded and every device
  connected. The programs run on them, and what one device has put on its connection is what has
  arrived on the other side.
\<close>

section \<open>Computers\<close>

record ('e, 'r) computer =
  pc_board :: "'e board"
  pc_libc :: "'r libc"
  pc_fds :: "int set"
  pc_heap :: "'r \<Rightarrow> u64 set"
  pc_room :: "'r \<Rightarrow> nat"

definition pc_sys :: "('e, 'r) computer \<Rightarrow> ('e, 'r) node sys" where
  "pc_sys m = stack_sys (pc_board m) (pc_libc m)"

definition pc_view :: "('e, 'r) computer \<Rightarrow> ('e, 'r) node link_view" where
  "pc_view m = stack_view (pc_board m) (pc_fds m) (pc_heap m) (pc_room m)"

definition pc_ok :: "('e, 'r) computer \<Rightarrow> bool" where
  "pc_ok m \<longleftrightarrow> board_ok (pc_board m) (pc_fds m) \<and> libc_ok (pc_board m) (pc_libc m) (pc_heap m) (pc_room m)"

text \<open>
  A descriptor whose module has been given no operation yet. The state is one the module and the
  device can be in: \<open>machine\<close> are the states reached from \<^verbatim>\<open>psipe_device_init\<close>.
\<close>

definition fresh_fd :: "'e board \<Rightarrow> 'e PSIPEDevice kstate \<Rightarrow> bool" where
  "fresh_fd b s \<longleftrightarrow> machine (b_fuel b) (b_host b) (b_linux b) s \<and> qemu_target_page_size (b_host b) = 4096 \<and>
     connected (hw s) \<and> next_id s = 0 \<and> active s = [] \<and> inactive s = [] \<and> \<not> work_ended (b_host b) (hw s) \<and>
     inb (b_view b) (env (hw s)) = [] \<and> outb (b_view b) (env (hw s)) = greeting b"

definition booted ::
    "('e, 'r) computer \<Rightarrow> ('e, 'r) node proc \<Rightarrow> psipe_devices \<Rightarrow> ('e, 'r) node proc \<Rightarrow> bool" where
  "booted m p0 devs p \<longleftrightarrow>
     pc_ok m \<and> (\<exists>rv. psipe_open_devs (pc_sys m) p0 = Inr (rv, Some devs, p)) \<and>
     devs_fds devs \<noteq> [] \<and> devs_num devs = int (length (devs_fds devs)) \<and>
     distinct (devs_fds devs) \<and> set (devs_fds devs) \<subseteq> pc_fds m \<and>
     (\<forall>fd \<in> pc_fds m. fresh_fd (pc_board m) (kernels (pos p) fd)) \<and>
     transfers (pos p) = (\<lambda>_. []) \<and> unwaited (pos p) = (\<lambda>_. []) \<and> arrived (pos p) = (\<lambda>_. []) \<and>
     span (params_at (pc_sys m)) 20 \<subseteq> pc_heap m (libs (pos p)) \<and>
     can_take (pc_board m) (params_at (pc_sys m)) 20"

lemma fresh_fd_ok: "fresh_fd b s \<Longrightarrow> fd_ok b None mm s [] []"
  unfolding fresh_fd_def
  by (intro fd_okI [where dn = "[]" and act = "[]" and jobs = "[]"])
    (auto intro: machine_kinv machine_serving simp: split_posts_def said_def)

lemma pc_contract: "pc_ok m \<Longrightarrow> link_contract (pc_sys m) (pc_view m)"
  unfolding pc_ok_def pc_sys_def pc_view_def by (blast intro: stack_contract)

lemma booted_started:
  assumes "booted m p0 devs p" shows "started (pc_sys m) (pc_view m) p0 devs p"
proof -
  note B = assms [unfolded booted_def]
  have "stack_inv (pc_board m) (pc_fds m) (\<lambda>_. None) p"
    using B by (simp add: stack_inv_def fresh_fd_ok)
  then show ?thesis
    using B pc_contract [of m] by (simp add: started_def pc_view_def)
qed

section \<open>Two ends of a connection\<close>

text \<open>
  What either device has put on the connection since the greeting is what has arrived at the other,
  nothing that has arrived is left unread, and no operation is queued.
\<close>

definition wired ::
    "('e, 'r) computer \<Rightarrow> int \<Rightarrow> ('e, 'r) node proc \<Rightarrow> ('f, 's) computer \<Rightarrow> int \<Rightarrow> ('f, 's) node proc \<Rightarrow> bool" where
  "wired m fd p m' fd' q \<longleftrightarrow>
     (let b = pc_board m; s = kernels (pos p) fd; b' = pc_board m'; s' = kernels (pos q) fd'
      in outb (b_view b) (env (hw s)) = greeting b @ arrived (pos q) fd' \<and>
         outb (b_view b') (env (hw s')) = greeting b' @ arrived (pos p) fd \<and>
         inb (b_view b) (env (hw s)) = [] \<and> inb (b_view b') (env (hw s')) = [] \<and>
         active s = [] \<and> active s' = [])"

lemma other_end_other_end [simp]: "other_end (other_end t) = t"
  by (cases t) simp_all

lemma wires_other_end: "wires wire_in (map other_end ts) = wires wire_out ts"
  "wires wire_out (map other_end ts) = wires wire_in ts"
  by (simp_all add: wires_def wire_in_def [abs_def] comp_def)

text \<open>A descriptor with nothing posted.\<close>

lemma quiet_fd:
  assumes "sane (pc_view m) p" "posted (pc_view m) (pos p) = (\<lambda>_. [])" "fd \<in> pc_fds m"
  shows "outb (b_view (pc_board m)) (env (hw (kernels (pos p) fd))) = said (pc_board m) (log (pc_view m) (pos p) fd)"
    "inb (b_view (pc_board m)) (env (hw (kernels (pos p) fd))) = []" "active (kernels (pos p) fd) = []"
    "arrived (pos p) fd = wires wire_in (log (pc_view m) (pos p) fd)"
proof -
  have inv: "stack_inv (pc_board m) (pc_fds m) (\<lambda>_. None) p" "unwaited (pos p) fd = []"
    using assms(1,2) by (simp_all add: pc_view_def)
  note I = stack_inv_fd [OF inv(1) assms(3), unfolded inv(2)]
  note E = fd_ok_empty [OF I(1)]
  show "outb (b_view (pc_board m)) (env (hw (kernels (pos p) fd))) = said (pc_board m) (log (pc_view m) (pos p) fd)"
    using E(3) by (simp add: pc_view_def)
  show "inb (b_view (pc_board m)) (env (hw (kernels (pos p) fd))) = []" using E(2) by (simp add: split_posts_def)
  show "active (kernels (pos p) fd) = []" by (rule E(1))
  show "arrived (pos p) fd = wires wire_in (log (pc_view m) (pos p) fd)" using I(2) by (simp add: pc_view_def)
qed

lemma wired_ends:
  assumes "sane (pc_view m) p" "posted (pc_view m) (pos p) = (\<lambda>_. [])" "fd \<in> pc_fds m"
    and "sane (pc_view m') q" "posted (pc_view m') (pos q) = (\<lambda>_. [])" "fd' \<in> pc_fds m'"
    and "log (pc_view m') (pos q) fd' = map other_end (log (pc_view m) (pos p) fd)"
  shows "wired m fd p m' fd' q"
  using quiet_fd [OF assms(1-3)] quiet_fd [OF assms(4-6)] assms(7)
  by (simp add: wired_def said_def wires_other_end)

section \<open>Master and chiplets\<close>

text \<open>
  \<open>chiplet_on m\<close>: \<open>chiplet_behind\<close> on a computer. The program at the other end of the chiplet's first
  device sends \<open>msgs\<close>; the answer of the chiplet, if it gives one, is \<open>out\<close>.
\<close>

definition chiplet_on ::
    "(u64 \<Rightarrow> u64 \<Rightarrow> u64) \<Rightarrow> (u64 \<Rightarrow> u64 \<Rightarrow> u64) \<Rightarrow> ('e, 'r) computer \<Rightarrow> ('e, 'r) node proc \<Rightarrow> int \<Rightarrow>
      u8 list list \<Rightarrow> u8 list \<Rightarrow> bool" where
  "chiplet_on add mul m q0 fd msgs out \<longleftrightarrow>
     (\<exists>devs q. booted m q0 devs q \<and> fd = hd (devs_fds devs) \<and>
        length (concat (drop 1 msgs)) \<le> pc_room m (libs (pos q))) \<and>
     (\<forall>k < 4. behind (pc_board m) fd [] k = msgs ! k) \<and>
     (\<forall>q'. chiplet_main add mul (pc_sys m) q0 = Inr q' \<longrightarrow> outs (transfers (pos q') fd) = [out])"

lemma chiplet_on_behind:
  assumes "chiplet_on add mul m q0 fd msgs out"
  shows "chiplet_behind add mul (pc_sys m) (pc_view m) q0 fd msgs out" "fd \<in> pc_fds m"
proof -
  obtain devs q where B: "booted m q0 devs q" "fd = hd (devs_fds devs)"
    "length (concat (drop 1 msgs)) \<le> pc_room m (libs (pos q))"
    using assms unfolding chiplet_on_def by blast
  show "chiplet_behind add mul (pc_sys m) (pc_view m) q0 fd msgs out"
    using assms booted_started [OF B(1)] B unfolding chiplet_on_def chiplet_behind_def
    by (auto simp: pc_view_def)
  show "fd \<in> pc_fds m" using B(1,2) by (auto simp: booted_def hd_in_set subset_iff)
qed

text \<open>The buffers of the master's matrices: the devices can take them, and they do not overlap.\<close>

definition pc_matrices :: "('e, 'r) computer \<Rightarrow> u64 \<Rightarrow> u64 \<Rightarrow> u64 \<Rightarrow> nat \<Rightarrow> nat \<Rightarrow> nat \<Rightarrow> bool" where
  "pc_matrices m C A B n t k \<longleftrightarrow> laid_out (pc_sys m) (pc_view m) C A B n t k"

lemma offloaded_machines:
  assumes m: "booted m p0 devs p" "d = length (devs_fds devs)" "pc_matrices m C A B n t k"
    and sz: "int_sized n t k" and t: "0 < t" and dN: "d \<le> n * k"
    and chips: "\<forall>i < d. chiplet_on add mul (mc i) (q0 i) (fdc i) (task_msgs (pmem p) C A B n t k d i)
        (behind (pc_board m) (devs_fds devs ! i) (task_msgs (pmem p) C A B n t k d i) 0)"
  obtains p' where "matmul (pc_sys m) (int n) (int t) (int k) C A B p0 = Inr p'"
    "matmul_gold add mul (int n) (int t) (int k) (elems (peek p A (8 * (n * t))))
       (elems (peek p B (8 * (t * k)))) (elems (peek p C (8 * (n * k)))) =
       Inr (elems (peek p' C (8 * (n * k))))"
    "\<forall>i < d. \<exists>q'. chiplet_main add mul (pc_sys (mc i)) (q0 i) = Inr q' \<and>
       wired m (devs_fds devs ! i) p' (mc i) (fdc i) q'"
proof -
  have peer: "peer (pc_view m) = behind (pc_board m)" by (simp add: pc_view_def)
  have ch: "\<forall>i < d. chiplet_behind add mul (pc_sys (mc i)) (pc_view (mc i)) (q0 i) (fdc i)
      (task_msgs (pmem p) C A B n t k d i)
      (peer (pc_view m) (devs_fds devs ! i) (task_msgs (pmem p) C A B n t k d i) 0)"
    unfolding peer by (intro allI impI chiplet_on_behind(1)) (rule chips [rule_format])
  obtain p' where p': "matmul (pc_sys m) (int n) (int t) (int k) C A B p0 = Inr p'"
    "matmul_gold add mul (int n) (int t) (int k) (elems (peek p A (8 * (n * t))))
       (elems (peek p B (8 * (t * k)))) (elems (peek p C (8 * (n * k)))) =
       Inr (elems (peek p' C (8 * (n * k))))"
    "posted (pc_view m) (pos p') = (\<lambda>_. [])" "sane (pc_view m) p'"
    "\<forall>i < d. answered add mul (pc_sys (mc i)) (pc_view (mc i)) (q0 i) (fdc i) (task_msgs (pmem p) C A B n t k d i)
       (log (pc_view m) (pos p') (devs_fds devs ! i))"
    by (rule offloaded_run [OF booted_started [OF m(1)] m(2) m(3) [unfolded pc_matrices_def] sz t dN ch])
  have "\<exists>q'. chiplet_main add mul (pc_sys (mc i)) (q0 i) = Inr q' \<and>
      wired m (devs_fds devs ! i) p' (mc i) (fdc i) q'" if i: "i < d" for i
  proof -
    let ?msgs = "task_msgs (pmem p) C A B n t k d i"
    obtain q' out where q': "chiplet_main add mul (pc_sys (mc i)) (q0 i) = Inr q'"
      "posted (pc_view (mc i)) (pos q') = (\<lambda>_. [])" "sane (pc_view (mc i)) q'"
      "log (pc_view (mc i)) (pos q') (fdc i) = map T_In ?msgs @ [T_Out out]"
      "log (pc_view m) (pos p') (devs_fds devs ! i) = map T_Out ?msgs @ [T_In out]"
      using p'(5) i unfolding answered_def by blast
    have "devs_fds devs ! i \<in> pc_fds m" using m(1,2) i by (auto simp: booted_def)
    moreover have "fdc i \<in> pc_fds (mc i)" using chiplet_on_behind(2) chips i by blast
    ultimately have "wired m (devs_fds devs ! i) p' (mc i) (fdc i) q'"
      using p'(3,4) q' by (intro wired_ends) (simp_all add: comp_def)
    then show ?thesis using q'(1) by blast
  qed
  then show ?thesis using that [OF p'(1,2)] by blast
qed

end
