(* ===== verification/Ref_Stack.thy ===== *)
theory Ref_Stack
  imports Stack_Run Ref_Link Examples
begin

text \<open>
  A computer on which the witnesses run: one page of user memory that is where the devices see it,
  an allocator that hands it out upwards, and devices realised as servers with their peer's
  acknowledgement. Interrupts are taken before every system call.
\<close>

section \<open>A device that has found its peer\<close>

definition boot_dev :: "world PSIPEDevice" where
  "boot_dev = (let d = before_proxy ref_host (ref_dev DMA_MODE_ACTIVE (enc_req PSIPE_REQ_ACK)) in
     d\<lparr>env := (env d)\<lparr>w_in := [], w_out := enc_req PSIPE_REQ_ACK\<rparr>,
       proxy := (proxy d)\<lparr>server := (server (proxy d))\<lparr>sin_port := htons PSIPE_PROXY_PORT, s_addr := 0x0100007F\<rparr>\<rparr>\<rparr>)"

lemma ref_host_sels:
  "gethostbyname ref_host w = Some 0x0100007F" "sock_socket ref_host w = (3, w)"
  "sock_bind ref_host w fd p a = (0, w)" "sock_listen ref_host w fd k = (0, w)"
  "sock_accept ref_host w fd = Some (4, w)"
  "sock_send ref_host w fd bs = (int (length bs), w\<lparr>w_out := w_out w @ bs\<rparr>)"
  "sock_select ref_host w fd = (if w_in w = [] then None else Some (1, True, w))"
  "sock_recv ref_host w fd n = ref_recv w fd n" "msi_enabled ref_host w" "qemu_target_page_size ref_host = 4096"
  by (simp_all add: ref_host_def)

lemma ref_before_env:
  "env (before_proxy ref_host (ref_dev m i)) = (ref_world i)\<lparr>w_log := w_log (env (before_proxy ref_host (ref_dev m i)))\<rparr>"
  by (simp add: before_proxy_def psipe_mmio_init_def psipe_dma_init_def psipe_irq_init_def psipe_irq_init_msi_def
      psipe_irq_init_intx_def ref_host_def Let_def ref_world_def)

lemma ref_before_proxy: "proxy (before_proxy ref_host (ref_dev m i)) = proxy (ref_dev m i)"
  by (rule before_proxy_ready(2)) (simp add: ref_host_def)

lemma boot_init: "psipe_device_init (Suc n) ref_host (ref_dev DMA_MODE_ACTIVE (enc_req PSIPE_REQ_ACK)) = Inr boot_dev"
proof -
  define d where "d = before_proxy ref_host (ref_dev DMA_MODE_ACTIVE (enc_req PSIPE_REQ_ACK))"
  obtain g where e: "env d = (ref_world (enc_req PSIPE_REQ_ACK))\<lparr>w_log := g\<rparr>"
    unfolding d_def using ref_before_env by blast
  have p: "proxy d = proxy (ref_dev DMA_MODE_ACTIVE (enc_req PSIPE_REQ_ACK))" unfolding d_def by (rule ref_before_proxy)
  have l: "length (enc_req PSIPE_REQ_ACK) = 4" "enc_req PSIPE_REQ_ACK \<noteq> []"
    "recv_into 4 (enc_req PSIPE_REQ_ACK) (PSIPE_REQ_NIL :: u32) = PSIPE_REQ_ACK"
    "PSIPE_REQ_ACK \<noteq> PSIPE_REQ_SYN" "PSIPE_REQ_ACK \<noteq> PSIPE_REQ_RST" "PSIPE_REQ_ACK \<noteq> PSIPE_REQ_SLN"
    "PSIPE_REQ_ACK \<noteq> PSIPE_REQ_RLN" by code_simp+
  show ?thesis
    unfolding psipe_device_init_def before_proxy_def [symmetric] boot_dev_def d_def [symmetric] Let_def
    by (simp add: psipe_proxy_init_def psipe_proxy_init_server_def e p ref_dev_def ref_host_sels
        psipe_proxy_issue_req_def psipe_proxy_endpoint_def psipe_proxy_await_req_def await_body_def
        psipe_proxy_wait_req_def psipe_proxy_handle_req_def ref_recv_def ref_world_def l Let_def)
qed

lemma boot_dev_facts:
  "connected boot_dev" "\<not> work_ended ref_host boot_dev" "w_in (env boot_dev) = []"
  "w_out (env boot_dev) = enc_req PSIPE_REQ_ACK"
proof -
  define d where "d = before_proxy ref_host (ref_dev DMA_MODE_ACTIVE (enc_req PSIPE_REQ_ACK))"
  have p: "proxy d = proxy (ref_dev DMA_MODE_ACTIVE (enc_req PSIPE_REQ_ACK))" unfolding d_def by (rule ref_before_proxy)
  have "irq d = irq (psipe_irq_init ref_host (ref_dev DMA_MODE_ACTIVE (enc_req PSIPE_REQ_ACK)))"
    by (simp add: d_def before_proxy_def)
  then have i: "irq d = \<lparr>msi_raised = (\<lambda>_. False), pin_raised = False\<rparr>"
    by (simp add: psipe_irq_init_def psipe_irq_init_msi_def psipe_irq_init_intx_def ref_dev_def)
  show "connected boot_dev" "\<not> work_ended ref_host boot_dev" "w_in (env boot_dev) = []"
    "w_out (env boot_dev) = enc_req PSIPE_REQ_ACK"
    unfolding boot_dev_def d_def [symmetric] Let_def
    by (simp_all add: connected_def psipe_proxy_endpoint_def p ref_dev_def work_ended_def psipe_irq_check_def
        psipe_irq_check_msi_def ref_host_sels i)
qed

section \<open>The computer\<close>

definition page_linux :: linux where
  "page_linux = ref_linux\<lparr>kmalloc_op := (\<lambda>_. Some (ref_op\<lparr>retval := 0\<rparr>)),
     dma_map_sg := (\<lambda>_ m. (1, [dma_addr m]))\<rparr>"

definition ref_fds :: "string list \<Rightarrow> int list" where
  "ref_fds names = map (\<lambda>i. 3 + int i) [0..<length names]"

definition ref_board :: "(int \<Rightarrow> u8 list list \<Rightarrow> nat \<Rightarrow> u8 list) \<Rightarrow> string list \<Rightarrow> world board" where
  "ref_board out names = \<lparr>
     b_host = ref_host, b_view = ref_view, b_linux = page_linux, b_fuel = 5000,
     page = (\<lambda>x. if unat x < 4096 then Some x else None),
     user_store = (\<lambda>w m. w\<lparr>w_ram := (\<lambda>a. if unat a < 4096 then m a else w_ram w a)\<rparr>),
     arrive = (\<lambda>w bs. w\<lparr>w_in := w_in w @ bs\<rparr>),
     behind = out, irqs = (\<lambda>_. ref_fds names), greeting = enc_req PSIPE_REQ_ACK\<rparr>"

text \<open>The state of the library: how much memory is in use, and the next descriptor.\<close>

definition ref_libc :: "string list \<Rightarrow> (nat \<times> int) libc" where
  "ref_libc names = \<lparr>
     lc_opendir = (\<lambda>_ r. (Some ((False, ''.'') # map (Pair True) names), r)),
     lc_malloc = (\<lambda>_ r. (True, r)),
     lc_memalign = (\<lambda>_ sz r. if unat sz \<le> 4096 - fst r
       then (0, of_nat (fst r), (fst r + unat sz, snd r)) else (ENOMEM, 0, r)),
     lc_open = (\<lambda>_ r. (snd r, (fst r, snd r + 1))),
     lc_close = (\<lambda>_ r. r), lc_params = 256, lc_garbage = 0\<rparr>"

definition ref_pc :: "(int \<Rightarrow> u8 list list \<Rightarrow> nat \<Rightarrow> u8 list) \<Rightarrow> string list \<Rightarrow> (world, nat \<times> int) computer" where
  "ref_pc out names = \<lparr>pc_board = ref_board out names, pc_libc = ref_libc names,
     pc_fds = set (ref_fds names), pc_heap = (\<lambda>r. span 0 (fst r)), pc_room = (\<lambda>r. 4096 - fst r)\<rparr>"

definition ref_node :: "int \<Rightarrow> (world, nat \<times> int) node" where
  "ref_node fd = \<lparr>kernels = (\<lambda>_. kinit boot_dev), transfers = (\<lambda>_. []), unwaited = (\<lambda>_. []),
     arrived = (\<lambda>_. []), calls = 0, libs = (1024, fd)\<rparr>"

definition ref_pc_proc :: "(u64 \<Rightarrow> u8) \<Rightarrow> int \<Rightarrow> (world, nat \<times> int) node proc" where
  "ref_pc_proc mem fd = \<lparr>pmem = mem, pos = ref_node fd\<rparr>"

lemma ref_board_sels [simp]:
  "b_host (ref_board out names) = ref_host" "b_view (ref_board out names) = ref_view"
  "b_linux (ref_board out names) = page_linux" "b_fuel (ref_board out names) = 5000"
  "page (ref_board out names) x = (if unat x < 4096 then Some x else None)"
  "behind (ref_board out names) = out" "irqs (ref_board out names) n = ref_fds names"
  "greeting (ref_board out names) = enc_req PSIPE_REQ_ACK"
  by (simp_all add: ref_board_def)

lemma page_linux_sels [simp]:
  "kmalloc_array page_linux tr n" "pin_user_pages_fast page_linux tr a n = n"
  "sg_alloc_table page_linux tr n ofs l = 0" "dma_map_sg page_linux tr m = (1, [dma_addr m])"
  "kmalloc_op page_linux tr = Some (ref_op\<lparr>retval := 0\<rparr>)"
  by (simp_all add: page_linux_def ref_linux_def)

lemma ref_board_ok: "board_ok (ref_board out names) (set (ref_fds names))"
proof -
  have "stores_user (ref_board out names)"
    by (auto simp: stores_user_def inj_on_def dom_def ref_board_def ref_view_def ref_host_sels split: if_splits)
  moreover have "delivers (ref_board out names)"
    by (simp add: delivers_def ref_board_def ref_view_def ref_host_sels)
  ultimately show ?thesis
    using ref_host_contract ref_host_msi_stable by (simp add: board_ok_def allocates_def)
qed

text \<open>Any part of the page is a buffer the devices can take.\<close>

lemma page_pin:
  assumes "0 < unat (dma_len m)" "unat (dma_addr m) + unat (dma_len m) \<le> 4096"
  shows "\<exists>tr'. psipe_dma_pin_pages page_linux tr m = (0, tr', m\<lparr>dma_npages := u64_of_int (page_count (dma_addr m) (dma_len m))\<rparr>)"
proof -
  have z: "(unat (dma_addr m) + unat (dma_len m) - 1) div 4096 = 0" "unat (dma_addr m) div 4096 = 0"
    using assms by simp_all
  have "page_count (dma_addr m) (dma_len m) = 1"
    using page_count_eq [of "dma_len m" "dma_addr m"] assms unfolding z by simp
  then show ?thesis
    by (simp add: psipe_dma_pin_pages_def Let_def PSIPE_HW_BAR0_DMA_HANDLES_CNT_def errno_defs)
qed

lemma page_mapped:
  assumes m: "dma_addr m = a" "unat (dma_len m) = n" and n: "0 < n" "unat a + n \<le> 4096"
  defines "m' \<equiv> m\<lparr>nmapped := 1, sgl := [a]\<rparr>"
  shows "sg_wf (buffer_config m')" "mapped_at (ref_board out names) a n m'"
proof -
  let ?c = "buffer_config m'"
  have tr: "trunc32 a = a" "trunc32 (dma_len m) = dma_len m" using m n by (simp_all add: trunc32_id)
  have h: "handles ?c 0 = a" using mapped_handles [of m' 0 plain_config] tr by (simp add: m'_def buffer_config_def)
  have c: "page_size ?c = 4096" "cfg_mask ?c = DMA_BIT_MASK PSIPE_HW_DMA_ADDR_CAPABILITY" "unat (cfg_len ?c) = n"
    "npages ?c = 1"
    using tr m by (simp_all add: m'_def buffer_config_def mapped_config_simps plain_config_def)
  have f: "first_ofs ?c = unat a" using h n by (simp add: first_ofs_def)
  show "sg_wf ?c" using c f n by (simp add: sg_wf_def contiguous_def PSIPE_HW_BAR0_DMA_HANDLES_CNT_def)
  have "page (ref_board out names) (a + of_nat i) = Some (sg_phys ?c i)" if i: "i < n" for i
  proof -
    have "a + of_nat i = of_nat (unat a + i)" by simp
    then have "unat (a + of_nat i) = unat a + i" using i n by (simp only:) (rule unat_of_nat_u64, simp)
    moreover have "sg_phys ?c i = a + of_nat i" using i n by (simp add: sg_phys_def f h)
    ultimately show ?thesis using i n by simp
  qed
  then show "mapped_at (ref_board out names) a n m'"
    using m tr by (simp add: mapped_at_def mapped_len_def m'_def)
qed

lemma page_can_take:
  assumes "0 < n" "unat a + n \<le> 4096" shows "can_take (ref_board out names) a n"
proof -
  have "\<exists>tr'. psipe_dma_pin_pages page_linux tr m = (0, tr', m\<lparr>dma_npages := u64_of_int (page_count a (dma_len m))\<rparr>)"
    if "dma_addr m = a" "unat (dma_len m) = n" for m tr
    using page_pin [of m tr] assms that by simp
  then show ?thesis
    unfolding can_take_def using assms page_mapped [OF _ _ assms]
    by (intro conjI exI [of _ 1] exI [of _ "[a]"]) (auto simp: handle_window_def)
qed

lemma ref_libc_ok:
  "libc_ok (ref_board out names) (ref_libc names) (\<lambda>r. span 0 (fst r)) (\<lambda>r. 4096 - fst r)"
  unfolding libc_ok_def
proof (intro allI impI)
  fix r :: "nat \<times> int" and al sz :: u64
  assume sz: "unat sz \<le> 4096 - fst r"
  let ?a = "of_nat (fst r) :: u64"
  have m: "lc_memalign (ref_libc names) al sz r = (0, ?a, (fst r + unat sz, snd r))"
    using sz by (simp add: ref_libc_def)
  have d: "span ?a (unat sz) \<inter> span 0 (fst r) = {}"
  proof (cases "fst r \<le> 4096")
    case True
    then show ?thesis using span_disjoint [of "fst r" "unat sz" 0] sz by (simp add: Int_commute)
  next
    case False
    then show ?thesis using sz by (simp add: span_def)
  qed
  have "can_take (ref_board out names) (?a + of_nat x) y" if xy: "x + y \<le> unat sz" "0 < y" for x y
  proof (rule page_can_take [OF xy(2)])
    have "unat (?a + of_nat x) \<le> fst r + x"
      unfolding of_nat_add [symmetric] unat_of_nat by (rule mod_less_eq_dividend)
    then show "unat (?a + of_nat x) + y \<le> 4096" using xy sz by linarith
  qed
  then show "\<exists>a r'. lc_memalign (ref_libc names) al sz r = (0, a, r') \<and>
      span a (unat sz) \<inter> span 0 (fst r) = {} \<and> span 0 (fst r') = span 0 (fst r) \<union> span a (unat sz) \<and>
      4096 - fst r' = 4096 - fst r - unat sz \<and>
      (\<forall>x y. x + y \<le> unat sz \<and> 0 < y \<longrightarrow> can_take (ref_board out names) (a + of_nat x) y)"
    using m d span_split [of 0 "fst r" "unat sz"] by (intro exI [of _ ?a] exI [of _ "(fst r + unat sz, snd r)"]) auto
qed

lemma ref_fresh: "fresh_fd (ref_board out names) (kinit boot_dev)"
proof -
  have "machine (Suc 4999) ref_host page_linux (kinit boot_dev)" by (rule machine_init [OF boot_init])
  then show ?thesis
    using boot_dev_facts by (simp add: fresh_fd_def ref_host_sels kinit_def ref_view_def)
qed

section \<open>Booting\<close>

lemma pc_open_dev:
  "open_dev (pc_sys (ref_pc out names)) True name (int k, map (\<lambda>i. 3 + int i) [0..<k] @ g # gs, ref_pc_proc mem (3 + int k)) =
   Inr (int (Suc k), map (\<lambda>i. 3 + int i) [0..<Suc k] @ gs, ref_pc_proc mem (3 + int (Suc k)))"
  by (simp add: open_dev_def pc_sys_def ref_pc_def stack_sys_def ref_libc_def ref_pc_proc_def ref_node_def
      set_libs_def list_update_append ac_simps)

lemma pc_open_loop:
  "foldR (open_dev (pc_sys (ref_pc out names)) True) ns
     (int k, map (\<lambda>i. 3 + int i) [0..<k] @ replicate (length ns) g, ref_pc_proc mem (3 + int k)) =
   Inr (int (k + length ns), map (\<lambda>i. 3 + int i) [0..<k + length ns], ref_pc_proc mem (3 + int (k + length ns)))"
proof (induction ns arbitrary: k)
  case (Cons name ns)
  show ?case unfolding foldR.simps length_Cons replicate_Suc pc_open_dev bindR.simps Cons.IH by simp
qed simp

lemma ref_booted:
  assumes "names \<noteq> []"
  shows "booted (ref_pc out names) (ref_pc_proc mem 3) (ref_devs (length names))
     (ref_pc_proc mem (3 + int (length names)))"
proof -
  let ?S = "pc_sys (ref_pc out names)" and ?p = "ref_pc_proc mem 3"
  have [simp]: "filter fst (map (Pair True) names) = map (Pair True) names"
    "snd \<circ> Pair True = id" by (induction names) auto
  have dir: "sys_opendir ?S path ?p = (Some ((False, ''.'') # map (Pair True) names), ?p)"
    "sys_malloc ?S sz ?p = (True, ?p)" "garbage ?S = 0" "params_at ?S = 256" for path sz
    by (simp_all add: pc_sys_def ref_pc_def stack_sys_def ref_libc_def set_libs_def ref_pc_proc_def ref_node_def)
  have "psipe_open_devs ?S ?p = Inr (0, Some (ref_devs (length names)), ref_pc_proc mem (3 + int (length names)))"
    using assms pc_open_loop [of out names names 0 0 mem]
    by (simp add: psipe_open_devs_def psipe_count_devs_def dir ref_devs_def)
  moreover have "span 256 20 \<subseteq> span 0 1024" using span_offset [of 256 20 1024 0] by simp
  moreover have "pc_ok (ref_pc out names)"
    using ref_board_ok ref_libc_ok by (simp add: pc_ok_def ref_pc_def)
  moreover have "can_take (ref_board out names) 256 20" by (rule page_can_take) simp_all
  ultimately show ?thesis
    using assms ref_fresh unfolding booted_def dir(4)
    by (simp add: ref_pc_def ref_fds_def ref_pc_proc_def ref_node_def distinct_map inj_on_def)
qed

text \<open>A master with a 1 times 2 matrix at 512, a 2 times 3 matrix at 640 and the result at 768, two devices.\<close>

definition pc_mem :: "u64 \<Rightarrow> u8" where
  "pc_mem = ram_store (ram_store (ram_store (\<lambda>_. 0) 512 (unelems [0, 1]))
     640 (unelems [0, 1, 2, 3, 4, 5])) 768 (unelems [0, 1, 2])"

definition pc_msgs :: "nat \<Rightarrow> u8 list list" where
  "pc_msgs i = task_msgs pc_mem 768 512 640 1 2 3 2 i"

definition pc_part :: "nat \<Rightarrow> u8 list" where
  "pc_part i = unelems (map (\<lambda>g. cell (+) (*) 2 3 (elems (ram_bytes pc_mem 512 (8 * (1 * 2))))
     (elems (ram_bytes pc_mem 640 (8 * (2 * 3)))) g (elems (ram_bytes pc_mem 768 (8 * (1 * 3))) ! g))
     [part_start (1 * 3) 2 i..<part_start (1 * 3) 2 (Suc i)])"

lemma pc_matrices_elems:
  "elems (ram_bytes pc_mem 512 16) = [0, 1]" "elems (ram_bytes pc_mem 640 48) = [0, 1, 2, 3, 4, 5]"
  "elems (ram_bytes pc_mem 768 24) = [0, 1, 2]"
proof -
  note st = ram_bytes_store [of "unelems xs" for xs, simplified]
  show "elems (ram_bytes pc_mem 512 16) = [0, 1]"
    using spans_apart [of 512 16 768 24] spans_apart [of 512 16 640 48] st [of "[0, 1]"]
    by (simp add: pc_mem_def ram_bytes_apart)
  show "elems (ram_bytes pc_mem 640 48) = [0, 1, 2, 3, 4, 5]"
    using spans_apart [of 640 48 768 24] st [of "[0, 1, 2, 3, 4, 5]"] by (simp add: pc_mem_def ram_bytes_apart)
  show "elems (ram_bytes pc_mem 768 24) = [0, 1, 2]" using st [of "[0, 1, 2]"] by (simp add: pc_mem_def)
qed

lemma ref_pc_matrices: "pc_matrices (ref_pc out names) 768 512 640 1 2 3"
proof -
  have "can_take (ref_board out names) (768 + of_nat x) y" if "x + y \<le> 24" "0 < y" for x y
  proof (rule page_can_take [OF that(2)])
    have "unat (768 + of_nat x :: u64) = 768 + x"
      using that unat_of_nat_u64 [of "768 + x"] by simp
    then show "unat (768 + of_nat x :: u64) + y \<le> 4096" using that by simp
  qed
  moreover have "can_take (ref_board out names) 512 16" "can_take (ref_board out names) 640 48"
    by (rule page_can_take; simp)+
  ultimately show ?thesis
    using spans_apart [of 256 20 512 16] spans_apart [of 256 20 640 48] spans_apart [of 256 20 768 24]
      spans_apart [of 512 16 768 24] spans_apart [of 640 48 768 24]
    by (auto simp: pc_matrices_def laid_out_def pc_sys_def pc_view_def ref_pc_def stack_sys_def ref_libc_def
        parts_taken_def)
qed

lemma ref_chiplet_on:
  assumes i: "i < 2"
  shows "chiplet_on (+) (*) (ref_pc (\<lambda>_ _ k. pc_msgs i ! k) [''d0'']) (ref_pc_proc (\<lambda>_. 0) 3) 3 (pc_msgs i) (pc_part i)"
proof -
  let ?m = "ref_pc (\<lambda>_ _ k. pc_msgs i ! k) [''d0'']"
  have B: "booted ?m (ref_pc_proc (\<lambda>_. 0) 3) (ref_devs 1) (ref_pc_proc (\<lambda>_. 0) 4)"
    using ref_booted [of "[''d0'']"] by simp
  note S = booted_started [OF B]
  have fd: "3 = hd (devs_fds (ref_devs 1))" by simp
  have "part_len (1 * 3) 2 i \<le> 1 * 3" using part_facts(2,3) [of 2 "1 * 3" i] i by simp
  then have room: "8 * (1 * 2) + 8 * (2 * 3) + 8 * part_len (1 * 3) 2 i \<le> room (pc_view ?m) (pos (ref_pc_proc (\<lambda>_. 0) 4))"
    by (simp add: pc_view_def ref_pc_def ref_pc_proc_def ref_node_def)
  have peer: "\<forall>k < 4. peer (pc_view ?m) 3 [] k = task_msgs pc_mem 768 512 640 1 2 3 2 i ! k"
    by (simp add: pc_view_def ref_pc_def pc_msgs_def)
  have sz: "int_sized 1 2 3" by (simp add: int_sized_def)
  from chiplet_sends [OF S fd room peer sz _ _ i, of "(+)" "(*)", folded pc_msgs_def pc_part_def]
  obtain q' where "chiplet_main (+) (*) (pc_sys ?m) (ref_pc_proc (\<lambda>_. 0) 3) = Inr q'"
    "log (pc_view ?m) (pos q') 3 = map T_In (pc_msgs i) @ [T_Out (pc_part i)]"
    by auto
  then have "\<forall>q'. chiplet_main (+) (*) (pc_sys ?m) (ref_pc_proc (\<lambda>_. 0) 3) = Inr q' \<longrightarrow>
      outs (transfers (pos q') 3) = [pc_part i]"
    by (auto simp: pc_view_def)
  moreover have "length (concat (drop 1 (pc_msgs i))) \<le> pc_room ?m (libs (pos (ref_pc_proc (\<lambda>_. 0) 4)))"
    using room unfolding pc_msgs_def length_task by (simp add: pc_view_def)
  moreover have "\<forall>k < 4. behind (pc_board ?m) 3 [] k = pc_msgs i ! k" by (simp add: ref_pc_def)
  ultimately show ?thesis using B fd unfolding chiplet_on_def by blast
qed

text \<open>A computer with a receive posted: three bytes into the buffer at 2048.\<close>

definition busy_pc :: "(world, nat \<times> int) computer" where
  "busy_pc = ref_pc (\<lambda>_ _ _. [1, 2, 3]) [''d0'']"

definition busy_proc :: "(world, nat \<times> int) node proc" where
  "busy_proc = snd (psipe_recv (pc_sys busy_pc) 3 2048 3 (ref_pc_proc (\<lambda>_. 0) 4))"

lemma busy_state:
  "board_ok (pc_board busy_pc) {3}" "stack_inv (pc_board busy_pc) {3} (\<lambda>_. None) busy_proc"
  "\<exists>h. unwaited (pos busy_proc) 3 = [P_Recv h 2048 [1, 2, 3]]" "peek busy_proc 2048 3 = [1, 2, 3]"
proof -
  let ?p = "ref_pc_proc (\<lambda>_. 0) 4" and ?V = "pc_view busy_pc"
  have B: "booted busy_pc (ref_pc_proc (\<lambda>_. 0) 3) (ref_devs 1) ?p"
    using ref_booted [of "[''d0'']"] by (simp add: busy_pc_def)
  have F: "pc_fds busy_pc = {3}" by (simp add: busy_pc_def ref_pc_def ref_fds_def)
  note S = booted_started [OF B, unfolded started_def]
  have n: "posted ?V (pos ?p) = (\<lambda>_. [])" "log ?V (pos ?p) = (\<lambda>_. [])" using S by simp_all
  have tk: "takes ?V 2048 (unat (3 :: u64))"
    using page_can_take [of 3 2048] by (simp add: pc_view_def busy_pc_def ref_pc_def)
  have pr: "peer ?V 3 (sent ?V (pos ?p) 3) (recvs ?V (pos ?p) 3) = [1, 2, 3]"
    by (simp add: pc_view_def busy_pc_def ref_pc_def)
  have o: "3 \<in> open_fds ?V" using F by (simp add: pc_view_def)
  obtain r p' where r: "psipe_recv (pc_sys busy_pc) 3 2048 3 ?p = (r, p')" "fresh_handle ?V (pos ?p) 3 r"
    "posts ?V 3 ?p [T_In [1, 2, 3]] [P_Recv (u64_of_int r) 2048 [1, 2, 3]] (inflight ?V (pos p')) p'"
    "posted ?V (pos ?p) 3 = [] \<Longrightarrow> peek p' 2048 (length [1 :: u8, 2, 3]) = [1, 2, 3]"
    by (rule recv_step [OF _ o _ _ tk _ _ _ pr]) (use S n inflight_none [OF n(1)] in auto)
  have p': "p' = busy_proc" by (simp add: busy_proc_def r(1))
  show "board_ok (pc_board busy_pc) {3}" using B F by (simp add: booted_def pc_ok_def)
  show "stack_inv (pc_board busy_pc) {3} (\<lambda>_. None) busy_proc"
    using r(3) F p' by (simp add: posts_def pc_view_def)
  show "peek busy_proc 2048 3 = [1, 2, 3]" using r(4) n(1) p' by (simp add: numeral_3_eq_3)
  show "\<exists>h. unwaited (pos busy_proc) 3 = [P_Recv h 2048 [1, 2, 3]]"
    using r(3) n(1) p' by (simp add: posts_def pc_view_def)
qed

end
