(* ===== verification/Stack_Props.thy ===== *)
theory Stack_Props
  imports Ref_Stack
begin

text \<open>
  The properties of whole machines: user programs, module and devices together, each with a witness
  on the computer of \<^verbatim>\<open>Ref_Stack\<close>.
\<close>

text \<open>
  C1. The programs on their machines. The master runs on a computer with \<open>d\<close> devices, the module loaded and
  every device connected; a chiplet program runs on a computer of its own behind each device. Interrupts
  come before any system call, in any order, and while a program sleeps. Then the master and every chiplet
  return, the memory of \<open>C\<close> holds what the sequential reference computes, and on every connection the
  bytes that have arrived at one end are the bytes the device at the other end has sent, so that what
  either program was assumed to be sent is what the other one sends. No byte is left unread and no
  operation queued.
\<close>

theorem offload_on_machines:
  assumes "booted m p0 devs p" "d = length (devs_fds devs)" "pc_matrices m C A B n t k"
    and "int_sized n t k" "0 < t" "d \<le> n * k"
    and "\<forall>i < d. chiplet_on add mul (mc i) (q0 i) (fdc i) (task_msgs (pmem p) C A B n t k d i)
        (behind (pc_board m) (devs_fds devs ! i) (task_msgs (pmem p) C A B n t k d i) 0)"
  shows "\<exists>p'. matmul (pc_sys m) (int n) (int t) (int k) C A B p0 = Inr p' \<and>
    matmul_gold add mul (int n) (int t) (int k) (elems (peek p A (8 * (n * t))))
       (elems (peek p B (8 * (t * k)))) (elems (peek p C (8 * (n * k)))) =
       Inr (elems (peek p' C (8 * (n * k)))) \<and>
    (\<forall>i < d. \<exists>q'. chiplet_main add mul (pc_sys (mc i)) (q0 i) = Inr q' \<and>
       wired m (devs_fds devs ! i) p' (mc i) (fdc i) q')"
  using offloaded_machines [OF assms] by metis

theorem offload_on_machines_witness:
  "\<exists>p'. matmul (pc_sys (ref_pc (\<lambda>fd _ _. pc_part (nat (fd - 3))) [''d0'', ''d1''])) 1 2 3 768 512 640
       (ref_pc_proc pc_mem 3) = Inr p' \<and> elems (peek p' 768 24) = [3, 5, 7]"
proof -
  let ?m = "ref_pc (\<lambda>fd _ _. pc_part (nat (fd - 3))) [''d0'', ''d1'']"
  have b: "booted ?m (ref_pc_proc pc_mem 3) (ref_devs 2) (ref_pc_proc pc_mem 5)"
    using ref_booted [of "[''d0'', ''d1'']"] by (simp add: eval_nat_numeral)
  have c: "\<forall>i < 2. chiplet_on (+) (*) (ref_pc (\<lambda>_ _ k. pc_msgs i ! k) [''d0'']) (ref_pc_proc (\<lambda>_. 0) 3) 3
      (task_msgs (pmem (ref_pc_proc pc_mem 5)) 768 512 640 1 2 3 2 i)
      (behind (pc_board ?m) (devs_fds (ref_devs 2) ! i) (task_msgs (pmem (ref_pc_proc pc_mem 5)) 768 512 640 1 2 3 2 i) 0)"
    using ref_chiplet_on by (simp add: ref_pc_proc_def ref_pc_def pc_msgs_def)
  show ?thesis
    using offload_on_machines [OF b _ ref_pc_matrices _ _ _ c]
    by (auto simp: ref_pc_proc_def pc_matrices_elems ref_gold int_sized_def)
qed

text \<open>
  C2. Module and devices keep the contract the user programs rely on (theory \<^verbatim>\<open>Link\<close>): on a host, a Linux
  and a C library that do what they document, and whatever the schedule of interrupts, \<^verbatim>\<open>ioctl\<close> posts
  operations that complete in their order with the bytes of the transfer, a wait returns after
  completion, and memory changes only where a posted receive writes.
\<close>

theorem module_meets_contract:
  assumes "board_ok b F" "libc_ok b C hp rm"
  shows "link_contract (stack_sys b C) (stack_view b F hp rm)"
  by (rule stack_contract [OF assms])

theorem module_meets_contract_witness:
  "link_contract (stack_sys (ref_board (\<lambda>_ _ _. []) [''d0'', ''d1'']) (ref_libc [''d0'', ''d1'']))
     (stack_view (ref_board (\<lambda>_ _ _. []) [''d0'', ''d1'']) (set (ref_fds [''d0'', ''d1'']))
        (\<lambda>r. span 0 (fst r)) (\<lambda>r. 4096 - fst r))"
  by (rule module_meets_contract [OF ref_board_ok ref_libc_ok])

text \<open>
  C19. Interrupts of any devices in any order keep the invariant of the machine. They change the process's
  memory only in the buffers of receives it has posted, and nothing of what it has posted.
\<close>

theorem interrupts_keep_machine:
  assumes "board_ok b F" "stack_inv b F W p" "set fds \<subseteq> F" "q = fold (take_irq b) fds p"
  shows "stack_inv b F W q \<and> transfers (pos q) = transfers (pos p) \<and> unwaited (pos q) = unwaited (pos p) \<and>
    same_outside (written (pos p)) (pmem p) (pmem q)"
  using calmD [OF irqs_ok [OF assms(1-3)]] unfolding assms(4) by blast

theorem interrupts_keep_machine_witness:
  "peek (fold (take_irq (pc_board busy_pc)) [3, 3] busy_proc) 2051 5 = peek busy_proc 2051 5"
proof -
  have "written (pos busy_proc) \<subseteq> span 2048 3"
  proof
    fix x assume "x \<in> written (pos busy_proc)"
    then obtain fd q where q: "q \<in> set (unwaited (pos busy_proc) fd)" "x \<in> post_region q"
      by (auto simp: written_def)
    then have "fd = 3" using busy_state(2) unfolding stack_inv_def by force
    then show "x \<in> span 2048 3" using q busy_state(3) by (auto simp: numeral_3_eq_3)
  qed
  then have "span 2051 5 \<inter> written (pos busy_proc) = {}" using spans_apart [of 2048 3 2051 5] by auto
  moreover have "same_outside (written (pos busy_proc)) (pmem busy_proc)
      (pmem (fold (take_irq (pc_board busy_pc)) [3, 3] busy_proc))"
    using interrupts_keep_machine [OF busy_state(1,2) _ refl, of "[3, 3]"] by simp
  ultimately show ?thesis by (rule ram_bytes_same [rotated])
qed

text \<open>
  C18. Every wait ends. A process that waits for an operation its descriptor has, complete or queued, sleeps
  for at most as many interrupts as there are queued operations; then the flag of the operation is set,
  whatever other operations and devices do.
\<close>

theorem sleeper_wakes:
  assumes "board_ok b F" "stack_inv b F W p" "fd \<in> F" "s = kernels (pos p) fd"
    "h \<in> op_id ` set (active s @ inactive s)"
  shows "\<exists>op. find_op h (kernels (pos (sleeps b fd h (length (active s)) p)) fd) = Some op \<and> flag op = 1"
proof -
  let ?q = "sleeps b fd h (length (active s)) p"
  have q: "calm b F W p ?q \<and> h \<in> op_id ` set (inactive (kernels (pos ?q) fd))"
    by (rule sleeps_ok [OF assms(1,3,2)]) (use assms(4,5) in auto)
  have "kinv (kernels (pos ?q) fd)" using stack_inv_fd(1) [OF calmD(1) assms(3)] q by (auto simp: fd_ok_def)
  moreover obtain op where "op \<in> set (inactive (kernels (pos ?q) fd))" "op_id op = h" using q by blast
  ultimately show ?thesis using find_op_unique [of "kernels (pos ?q) fd" op] by (auto simp: kinv_def)
qed

theorem sleeper_wakes_witness:
  "\<exists>h op. h \<in> post_id ` set (unwaited (pos busy_proc) 3) \<and>
     find_op h (kernels (pos (sleeps (pc_board busy_pc) 3 h (length (active (kernels (pos busy_proc) 3))) busy_proc)) 3) =
       Some op \<and> flag op = 1"
proof -
  obtain h where h: "unwaited (pos busy_proc) 3 = [P_Recv h 2048 [1, 2, 3]]" using busy_state(3) by blast
  have ok: "fd_ok (pc_board busy_pc) None (pmem busy_proc) (kernels (pos busy_proc) 3) (transfers (pos busy_proc) 3)
      [P_Recv h 2048 [1, 2, 3]]"
    using stack_inv_fd(1) [OF busy_state(2), of 3] by (simp add: h)
  obtain dn act jobs where sp: "[P_Recv h 2048 [1, 2, 3]] = dn @ act"
    "split_posts (pc_board busy_pc) (pmem busy_proc) (kernels (pos busy_proc) 3) dn act jobs"
    using ok unfolding fd_ok_def by blast
  have "h \<in> post_id ` set (dn @ act)" unfolding sp(1) [symmetric] by simp
  then have "h \<in> op_id ` set (active (kernels (pos busy_proc) 3) @ inactive (kernels (pos busy_proc) 3))"
    using split_ids [OF sp(2)] by blast
  from sleeper_wakes [OF busy_state(1,2) _ refl this] show ?thesis using h by auto
qed

end
