(* ===== verification/Spec2Isabelle.thy ===== *)
theory Spec2Isabelle
  imports Device_Props Kernel_Props User_Props Thread_Props Util_Props Old_Props Talk Ref_Drain Stack_Props
begin

text \<open>
  Proto-SIPE is an emulated PCI device (src/src/hw, built into QEMU) that joins two machines: a
  buffer in the memory of one is copied over a socket, the proxy connection, into a buffer of the
  other. Each machine has a Linux kernel module (src/src/sw/kernel) that offers the device to
  programs as ioctls, and there are programs that use it (src/src/sw/userspace). This library models
  all three layers and proves what each does, what they do together, and where the code departs from
  what it is meant to do.

  \<^bold>\<open>How the parts interact.\<close> A program calls \<^verbatim>\<open>ioctl\<close> with a buffer. The module makes an operation of
  it, pins its pages, queues it (\<^verbatim>\<open>psipe_ops_init\<close>) and, when the queue was empty, starts it: it
  maps the pages, writes addresses, length and mode to the device's registers and rings the
  doorbell. The register write runs the device's \<^verbatim>\<open>psipe_execute\<close>, which moves the buffer page by
  page between memory and the connection and raises an MSI. The module's handler acknowledges the
  interrupt, completes the operation at the head of the queue, wakes whoever waits for it and starts
  the next one.

  \<^bold>\<open>The theories.\<close>
  \<^item> \<^verbatim>\<open>Prelude\<close>: machine integers as C converts them, faults, \<^verbatim>\<open>do\<close>/\<^verbatim>\<open>while\<close> loops with fuel and
    their contract (locale \<open>bounded_loop\<close>), \<^verbatim>\<open>for\<close> loops, checked arrays, byte buffers.
  \<^item> \<^verbatim>\<open>Regs\<close> (include/hw/psipe\_hw.h), \<^verbatim>\<open>Hw_Defs\<close> (dma.h, irq.h, proxy.h, psipe.h): the constants
    and structures.
  \<^item> \<^verbatim>\<open>Host\<close>: what the device calls in QEMU and in the C library (sockets, DMA, MSI), a record of
    functions on an unknown environment, with the documented behaviour as \<open>host_contract\<close>.
  \<^item> \<^verbatim>\<open>Irq\<close> (irq.c), \<^verbatim>\<open>Wire\<close> (the integers on the connection, locale \<open>wire_codec\<close>), \<^verbatim>\<open>Dma\<close> (dma.c),
    \<^verbatim>\<open>Proxy\<close> (proxy.c), \<^verbatim>\<open>Psipe\<close> and \<^verbatim>\<open>Device\<close> (psipe.c), \<^verbatim>\<open>Mmio\<close> (mmio.c): the device, one definition
    per function of the source.
  \<^item> \<^verbatim>\<open>Scatter\<close>, \<^verbatim>\<open>Pages\<close>, \<^verbatim>\<open>PageLoops\<close>, \<^verbatim>\<open>Execute\<close>: the abstract view of a run, a scattered buffer and
    its frames on the connection, and the proofs that one page, the page loops and a whole run
    implement it. \<^verbatim>\<open>Adverse\<close>: the same code outside these conditions.
  \<^item> \<^verbatim>\<open>Linux\<close>: the kernel functions the module calls, as functions of the calls made so far, so that
    nothing is assumed of their results; every call is recorded in a trace.
  \<^item> \<^verbatim>\<open>Kdma\<close> (psipe\_dma.c), \<^verbatim>\<open>Kqueue\<close> (psipe\_queue.c and the two transfer ioctls), \<^verbatim>\<open>Kirq\<close>
    (psipe\_irq.c, locale \<open>irq_line\<close>), \<^verbatim>\<open>Kmodule\<close> (psipe\_module.c: ioctl, open, probe, remove, the
    module's init and exit, the names of its nodes): the module.
  \<^item> \<^verbatim>\<open>Ksteps\<close>: the module as a step relation (ioctls, waiters, interrupts), its reachable states and
    their invariant, and the queue contract (locale \<open>work_queue\<close>). A step is one whole ioctl, one
    whole interrupt, or a waiter that enters or leaves.
  \<^item> \<^verbatim>\<open>Kwaiters\<close>: the same with several threads inside the ioctls at once. An ioctl is split at every
    access to a shared operation that \<^verbatim>\<open>ops->lock\<close> does not protect: in a transfer the start after the
    insertion; in a wait the lookup, the increment, the wake-up, the decrement, \<^verbatim>\<open>list_del\<close> and \<^verbatim>\<open>kfree\<close>; in a
    flush the look at each \<^verbatim>\<open>nwaiting\<close> and each \<^verbatim>\<open>kfree\<close>. \<^verbatim>\<open>nwaiting\<close> is exactly the number of registered
    threads. \<^verbatim>\<open>Kcalm\<close>: the runs in which nobody comes too late, where the operation of a registered
    thread is never freed (C15). \<^verbatim>\<open>Kruns\<close>: an ioctl that nobody overtakes is a run of these steps, and
    the runs with a late comer (a waiter, a flush), whose operation is freed under it (C23, C31).
  \<^item> \<^verbatim>\<open>System\<close>: module and device together, the module's \<open>bus\<close> being the device's registers.
    \<^verbatim>\<open>Drain\<close>: a whole queue on the device. The interrupt of one transfer starts the next, and the
    interrupts implement \<open>serial\<close>, the operations one after the other. \<^verbatim>\<open>Talk\<close>: two such machines, whose
    queues implement \<open>talk\<close>, copying buffers from one memory to the other; \<^verbatim>\<open>Ref_Drain\<close>: the requests of
    the witnesses.
  \<^item> \<^verbatim>\<open>Dev_Steps\<close>: the device as a state machine, with any host, any peer and a guest that makes accesses of
    every admitted size, as long as the page counts it announces stay below a cap; its reachable
    states and their invariant; \<^verbatim>\<open>Dev_Safety\<close>: what follows for its arrays. \<^verbatim>\<open>Machine\<close>: the module on the device; what
    the registers keep, every step of the module keeps (locale \<open>bus_invariant\<close>), so that the machine has
    the invariants of both.
  \<^item> \<^verbatim>\<open>Wrappers\<close> (psipe\_wrappers.c): the user side of the ioctls. \<^verbatim>\<open>Link\<close>: what the programs rely on, a
    contract on an abstract view of the system (messages sent, operations posted, memory in use).
  \<^item> \<^verbatim>\<open>Matmul\<close>, \<^verbatim>\<open>Offload\<close> (master-mm.c, chiplet-mm.c): the loops and the partition, and the two programs as
    processes; \<^verbatim>\<open>Chiplet\<close> and \<^verbatim>\<open>Master\<close>: a run of each under the contract; \<^verbatim>\<open>Mm_Main\<close>: the rest of the
    master program, from its arguments to the errors it counts. \<^verbatim>\<open>Ref_Link\<close>, \<^verbatim>\<open>Ref_Main\<close>: a concrete
    system that meets the contract, for the witnesses. \<^verbatim>\<open>Save\<close>: the files both programs save, and a reader
    of their format.
  \<^item> \<^verbatim>\<open>Stack\<close>: the ioctls of \<^verbatim>\<open>Wrappers\<close> run on the module and the devices, one of each behind every
    descriptor; process and devices share memory through a page table, and interrupts are taken before
    any system call and while a process sleeps. \<^verbatim>\<open>Stack_Inv\<close>: the invariant that ties module, device and
    memory to the operations the process has posted; \<^verbatim>\<open>Stack_Steps\<close>, \<^verbatim>\<open>Stack_Submit\<close>: an interrupt, a send
    and a receive keep it; \<^verbatim>\<open>Stack_Irqs\<close>: so do interrupts of all devices in any order; \<^verbatim>\<open>Stack_Laws\<close>: the
    laws of \<^verbatim>\<open>Link\<close>, one by one; \<^verbatim>\<open>Stack_Run\<close>: computers, and master and chiplets on them; \<^verbatim>\<open>Ref_Stack\<close>: a
    concrete computer; \<^verbatim>\<open>Stack_Props\<close>: the properties.
  \<^item> \<^verbatim>\<open>Openmp\<close> (matmul-offload-1o.c): the parallel loop under every interleaving of its iterations, on a
    device with or without its own memory.
  \<^item> \<^verbatim>\<open>Oldprogs\<close> (master0.c, chiplet0.c, master1.c, chiplet1.c): the programs from before the wrappers; the
    ioctl commands they use are parameters. \<^verbatim>\<open>Old_Props\<close>: their properties.
  \<^item> \<^verbatim>\<open>Cstring\<close>: \<^verbatim>\<open>strtol\<close>, \<^verbatim>\<open>printf\<close>'s integers and \<^verbatim>\<open>getopt\<close>; \<^verbatim>\<open>Util\<close> (psipe\_util.c): option parsing.
  \<^item> \<^verbatim>\<open>Examples\<close>: a concrete host, kernel and device on which the witnesses are computed.
  \<^item> \<^verbatim>\<open>Device_Props\<close>, \<^verbatim>\<open>Kernel_Props\<close>, \<^verbatim>\<open>Thread_Props\<close>, \<^verbatim>\<open>User_Props\<close>, \<^verbatim>\<open>Util_Props\<close>: the properties of one
    layer each. Of those that span the layers, \<^verbatim>\<open>Stack_Props\<close> holds the ones of whole machines: the user
    programs on the module on the devices (C1), module and devices as an implementation of \<^verbatim>\<open>Link\<close> (C2),
    waits that end (C18) and the invariant under interrupts (C19). This theory holds the ones of the
    module on its device: a buffer from one machine to the other (C3), any number of buffers in both
    directions (C4), each half of a transfer (C5, C6), one operation from the ioctl to the wait (C17), any
    number of operations queued at once (C20), and the invariant of everything a machine can reach (C21).

  \<^bold>\<open>Integers, faults and fuel.\<close> Unsigned fields are words of their width; \<^verbatim>\<open>int\<close> values are \<open>int\<close> with
  the conversions of the source written out. An access outside an array, a null pointer and a
  division by zero are faults of the result type, so a theorem that a function returns also says
  that it stays inside its arrays. The page loops and the wait for a request take fuel; the theorems
  give the fuel that is enough (one iteration per byte and one more; for the wait, the number of
  requests in the input and one), and more fuel never changes a result. That the wait never returns
  at the end of the connection is a theorem for every fuel.

  \<^bold>\<open>What is not modelled.\<close> The registration of the device's type with QEMU's object model;
  \<^verbatim>\<open>printf\<close>-style reporting and timing. Each of Linux's list and atomic functions is one step, so two
  updates of a list that overlap (\<^verbatim>\<open>list_del\<close> in \<^verbatim>\<open>psipe_ops_wait\<close> takes no lock) are not. The ioctl
  commands of the old programs are defined in no header, so nothing is known of them but what the
  statements about them name. Memory is kept as contents at DMA addresses:
  the pages of a buffer are what the mapping parameter says they are.

  \<^bold>\<open>What is assumed of a whole machine\<close> (\<open>board_ok\<close>, \<open>libc_ok\<close>, \<open>booted\<close> of \<^verbatim>\<open>Stack_Inv\<close> and \<^verbatim>\<open>Stack_Run\<close>). The
  page table is injective and the host, Linux and C library do what they document. A buffer can be taken
  (\<open>can_take\<close>) when its pages are pinned and mapped to addresses on which the device's walk over the page
  list is right; page-aligned scattered buffers are not among them (C36). Memory from \<^verbatim>\<open>kmalloc\<close> has a
  \<^verbatim>\<open>retval\<close> that is not negative, because the module never sets that of an operation it starts at once.
  What the other side contributes to a transfer has arrived when the ioctl is called: a device that is
  still waiting for it would block its machine until then, and that C1 gets the same bytes from the
  programs themselves is its conclusion. A descriptor gives out at most \<open>2 ^ 31\<close> handles, since the wrappers
  cut them to an \<^verbatim>\<open>int\<close>. Processes, one per machine, are sequential, and a system call is not interrupted
  except where it sleeps; several threads inside one module are in \<^verbatim>\<open>Kwaiters\<close>.
\<close>

section \<open>A buffer from one machine to the other\<close>

text \<open>
  C3. End to end. One machine sends, the other receives as many bytes, each through its kernel
  module (\<^verbatim>\<open>psipe_ioctl_send\<close>, \<^verbatim>\<open>psipe_ioctl_recv\<close>) on its device. If each side's connection
  delivers what is named here, then both ioctls return, each side has written to the connection
  exactly what the other one read from it, the receiver's buffer holds the sender's bytes, and
  both devices have raised their interrupt and are idle again.
\<close>

theorem end_to_end:
  assumes s1: "side_ok H1 v1 d1 L1 tr1 (send_dma m1) m1'"
    and s2: "side_ok H2 v2 d2 L2 tr2 (recv_dma m2) m2'"
    and len: "dma_len m1 = dma_len m2" and n: "n = unat (dma_len m1)"
    and c1: "c1 = mapped_config (config (dma d1)) m1'"
    and c2: "c2 = mapped_config (config (dma d2)) m2'" and inj: "sg_inj c2"
    and in1: "inb v1 (env d1) = enc_req PSIPE_REQ_RLN @ enc_len (dma_len m2)"
    and in2: "inb v2 (env d2) = enc_req PSIPE_REQ_SLN @ frames (sg_bytes c1 (ram v1 (env d1)) 0 n)"
    and fuel: "Suc n < fuel1" "Suc n < fuel2"
  shows "\<exists>rv1 t1 tr1' rv2 t2 tr2'.
     psipe_ioctl_send L1 (dev_bus fuel1 H1) d1 tr1 m1 = Inr (rv1, t1, tr1', m1') \<and>
     psipe_ioctl_recv L2 (dev_bus fuel2 H2) d2 tr2 m2 = Inr (rv2, t2, tr2', m2') \<and>
     outb v1 (env t1) = outb v1 (env d1) @ inb v2 (env d2) \<and>
     outb v2 (env t2) = outb v2 (env d2) @ inb v1 (env d1) \<and>
     (\<forall>i < n. ram v2 (env t2) (sg_phys c2 i) = ram v1 (env d1) (sg_phys c1 i)) \<and>
     work_ended H1 t1 \<and> dev_ready t1 \<and> work_ended H2 t2 \<and> dev_ready t2"
proof -
  let ?bs = "sg_bytes c1 (ram v1 (env d1)) 0 n"
  have t32: "trunc32 (dma_len m1) = dma_len m1" "trunc32 (dma_len m2) = dma_len m2"
    using s1 len by (simp_all add: side_ok_def send_dma_def trunc32_id)
  have l: "dma_len m1' = dma_len m1" "dma_len m2' = dma_len m2"
    using s1 s2 mapping_dma_len by (auto simp: side_ok_def mapping_ok_def send_dma_def recv_dma_def)
  note S1 = s1 [unfolded side_ok_def] and S2 = s2 [unfolded side_ok_def]
  obtain rv1 t1 tr1' where t1:
    "psipe_ioctl_send L1 (dev_bus fuel1 H1) d1 tr1 m1 = Inr (rv1, t1, tr1', m1')" "dev_ready t1"
    "work_ended H1 t1" "outb v1 (env t1) = outb v1 (env d1) @ enc_req PSIPE_REQ_SLN @ frames ?bs"
  proof (rule send_on_device [of H1 v1 d1 "dma_len m2" "[]" m1 L1 tr1 m1' fuel1])
    show "inb v1 (env d1) = enc_req PSIPE_REQ_RLN @ enc_len (dma_len m2) @ []" using in1 by simp
    show "Suc (unat (trunc32 (dma_len m1'))) < fuel1" using fuel l t32 n by simp
  qed (use S1 that len l t32 c1 n in simp_all)
  obtain rv2 t2 tr2' where t2:
    "psipe_ioctl_recv L2 (dev_bus fuel2 H2) d2 tr2 m2 = Inr (rv2, t2, tr2', m2')" "dev_ready t2"
    "work_ended H2 t2" "sg_written c2 (ram v2 (env d2)) (ram v2 (env t2)) 0 ?bs"
    "outb v2 (env t2) = outb v2 (env d2) @ enc_req PSIPE_REQ_RLN @ enc_len (dma_len m2)"
  proof (rule recv_on_device [of H2 v2 d2 "[]" ?bs "[]" m2' L2 tr2 m2 fuel2])
    show "inb v2 (env d2) = concat (map enc_req []) @ enc_req PSIPE_REQ_SLN @ frames ?bs @ []"
      using in2 by simp
    show "skipped PSIPE_REQ_SLN []" by (simp add: skipped_def)
    show "length ?bs = unat (trunc32 (dma_len m2'))" using l t32 n len by simp
    show "Suc (length ?bs + length ([] :: u32 list)) < fuel2" using fuel by simp
  qed (use S2 that inj t32 c2 in simp_all)
  have "ram v2 (env t2) (sg_phys c2 i) = ram v1 (env d1) (sg_phys c1 i)" if "i < n" for i
    using t2(4) that by (simp add: sg_written_def sg_bytes_def)
  then show ?thesis using t1 t2 in1 in2 by auto
qed

theorem end_to_end_witness:
  "\<exists>rv1 t1 tr1' rv2 t2 tr2'.
     psipe_ioctl_send ref_linux (dev_bus 20 ref_host)
       (ref_dev DMA_MODE_PASSIVE (enc_req PSIPE_REQ_RLN @ enc_len 16)) [] ref_dma =
         Inr (rv1, t1, tr1', ref_mapped (send_dma ref_dma)) \<and>
     psipe_ioctl_recv ref_linux (dev_bus 20 ref_host)
       (ref_dev DMA_MODE_PASSIVE (enc_req PSIPE_REQ_SLN @
          frames (sg_bytes ref_config (\<lambda>a. 3 * ucast a + 1) 0 16))) [] ref_dma =
         Inr (rv2, t2, tr2', ref_mapped (recv_dma ref_dma)) \<and>
     ram ref_view (env t2) 0x1FF8 = 0xE9 \<and> work_ended ref_host t1 \<and> work_ended ref_host t2"
proof -
  let ?d1 = "ref_dev DMA_MODE_PASSIVE (enc_req PSIPE_REQ_RLN @ enc_len 16)"
  let ?d2 = "ref_dev DMA_MODE_PASSIVE (enc_req PSIPE_REQ_SLN @
      frames (sg_bytes ref_config (\<lambda>a. 3 * ucast a + 1) 0 16))"
  have dl: "dma_len ref_dma = 16" "dma_len (send_dma ref_dma) = 16" "dma_len (recv_dma ref_dma) = 16"
    by (simp_all add: ref_dma_def send_dma_def recv_dma_def)
  have s: "side_ok ref_host ref_view (ref_dev DMA_MODE_PASSIVE i) ref_linux [] m (ref_mapped m)"
    if "dma_len m = 16" for i m
    using that by (simp add: side_ok_def ref_host_contract ref_host_msi_stable ref_mapping_ok)
  have r: "ram ref_view (ref_world i) = (\<lambda>a. 3 * ucast a + 1)" for i by (rule ext) simp
  have p: "sg_phys ref_config 0 = 0x1FF8" by (simp add: ref_sg_phys)
  note e = end_to_end [OF s [where i = "enc_req PSIPE_REQ_RLN @ enc_len 16"]
      s [where i = "enc_req PSIPE_REQ_SLN @ frames (sg_bytes ref_config (\<lambda>a. 3 * ucast a + 1) 0 16)"],
      of ref_dma ref_dma 16 ref_config ref_config 20 20]
  obtain rv1 t1 tr1' rv2 t2 tr2' where t:
    "psipe_ioctl_send ref_linux (dev_bus 20 ref_host) ?d1 [] ref_dma =
       Inr (rv1, t1, tr1', ref_mapped (send_dma ref_dma))"
    "psipe_ioctl_recv ref_linux (dev_bus 20 ref_host) ?d2 [] ref_dma =
       Inr (rv2, t2, tr2', ref_mapped (recv_dma ref_dma))"
    "\<forall>i < 16. ram ref_view (env t2) (sg_phys ref_config i) = 3 * ucast (sg_phys ref_config i) + 1"
    "work_ended ref_host t1" "work_ended ref_host t2"
    using e by (auto simp: dl ref_mapped_config ref_sg_inj r)
  have "ram ref_view (env t2) 0x1FF8 = 0xE9" using t(3) p by (auto dest!: spec [of _ 0])
  with t show ?thesis by blast
qed

text \<open>
  C5. \<^verbatim>\<open>psipe_ioctl_send\<close> on the device, given a peer that answers with enough room: the question
  for the available length goes out first, then the frames of exactly the bytes of the mapped
  buffer; the sender's memory is unchanged and the interrupt is raised.
\<close>

theorem send_transmits_buffer:
  assumes "host_contract H v" "msi_stable H" "dev_ready d" "connected d"
    "inb v (env d) = enc_req PSIPE_REQ_RLN @ enc_len l @ rest" "dma_len m \<le> trunc32 l"
    "mapping_ok L tr (config (dma d)) (send_dma m) m'" "Suc (unat (trunc32 (dma_len m'))) < fuel"
  shows "\<exists>rv t tr'. psipe_ioctl_send L (dev_bus fuel H) d tr m = Inr (rv, t, tr', m') \<and> 0 \<le> rv \<and>
     dev_ready t \<and> work_ended H t \<and> inb v (env t) = rest \<and> ram v (env t) = ram v (env d) \<and>
     outb v (env t) = outb v (env d) @ enc_req PSIPE_REQ_SLN @
       frames (sg_bytes (mapped_config (config (dma d)) m') (ram v (env d)) 0
         (unat (trunc32 (dma_len m'))))"
  by (rule send_on_device [OF assms]) blast

theorem send_transmits_buffer_witness:
  "\<exists>rv t tr'. psipe_ioctl_send ref_linux (dev_bus 20 ref_host)
       (ref_dev DMA_MODE_PASSIVE (enc_req PSIPE_REQ_RLN @ enc_len 100 @ [3])) [] ref_dma =
         Inr (rv, t, tr', ref_mapped (send_dma ref_dma)) \<and>
     work_ended ref_host t \<and> inb ref_view (env t) = [3] \<and>
     outb ref_view (env t) =
       enc_req PSIPE_REQ_SLN @ frames (sg_bytes ref_config (\<lambda>a. 3 * ucast a + 1) 0 16)"
proof -
  let ?d = "ref_dev DMA_MODE_PASSIVE (enc_req PSIPE_REQ_RLN @ enc_len 100 @ [3])"
  have l: "dma_len (send_dma ref_dma) = 16" "dma_len ref_dma = 16"
    "dma_len (ref_mapped (send_dma ref_dma)) = 16"
    by (simp_all add: ref_dma_def send_dma_def ref_mapped_def)
  have r: "ram ref_view (ref_world i) = (\<lambda>a. 3 * ucast a + 1)" for i by (rule ext) simp
  have "inb ref_view (env ?d) = enc_req PSIPE_REQ_RLN @ enc_len 100 @ [3]" by simp
  from send_transmits_buffer [OF ref_host_contract ref_host_msi_stable ref_ready ref_connected this,
      of ref_dma ref_linux "[]" "ref_mapped (send_dma ref_dma)" 20]
  show ?thesis by (auto simp: l ref_mapping_ok ref_mapped_config r)
qed

text \<open>
  C6. \<^verbatim>\<open>psipe_ioctl_recv\<close> on the device: it answers the peer's question with the length of its own
  buffer, stores the frames that follow in the mapped buffer and nowhere else, and raises the
  interrupt; bytes after them stay on the connection.
\<close>

theorem recv_stores_buffer:
  assumes "host_contract H v" "msi_stable H" "dev_ready d" "connected d"
    "inb v (env d) = concat (map enc_req rs) @ enc_req PSIPE_REQ_SLN @ frames ds @ rest"
    "skipped PSIPE_REQ_SLN rs" "length ds = unat (trunc32 (dma_len m'))"
    "mapping_ok L tr (config (dma d)) (recv_dma m) m'"
    "sg_inj (mapped_config (config (dma d)) m')" "Suc (length ds + length rs) < fuel"
  shows "\<exists>rv t tr'. psipe_ioctl_recv L (dev_bus fuel H) d tr m = Inr (rv, t, tr', m') \<and> 0 \<le> rv \<and>
     dev_ready t \<and> work_ended H t \<and> inb v (env t) = rest \<and>
     sg_written (mapped_config (config (dma d)) m') (ram v (env d)) (ram v (env t)) 0 ds \<and>
     outb v (env t) = outb v (env d) @ enc_req PSIPE_REQ_RLN @ enc_len (trunc32 (dma_len m))"
  by (rule recv_on_device [OF assms]) blast

theorem recv_stores_buffer_witness:
  "\<exists>rv t tr'. psipe_ioctl_recv ref_linux (dev_bus 20 ref_host)
       (ref_dev DMA_MODE_ACTIVE (enc_req PSIPE_REQ_SLN @ frames (replicate 16 7))) [] ref_dma =
         Inr (rv, t, tr', ref_mapped (recv_dma ref_dma)) \<and>
     sg_written ref_config (\<lambda>a. 3 * ucast a + 1) (ram ref_view (env t)) 0 (replicate 16 7) \<and>
     outb ref_view (env t) = enc_req PSIPE_REQ_RLN @ enc_len 16"
proof -
  let ?d = "ref_dev DMA_MODE_ACTIVE (enc_req PSIPE_REQ_SLN @ frames (replicate 16 7))"
  have l: "dma_len (recv_dma ref_dma) = 16" "dma_len ref_dma = 16"
    "dma_len (ref_mapped (recv_dma ref_dma)) = 16"
    by (simp_all add: ref_dma_def recv_dma_def ref_mapped_def)
  have r: "ram ref_view (ref_world i) = (\<lambda>a. 3 * ucast a + 1)" for i by (rule ext) simp
  have "inb ref_view (env ?d) =
      concat (map enc_req []) @ enc_req PSIPE_REQ_SLN @ frames (replicate 16 7) @ []" by simp
  from recv_stores_buffer [OF ref_host_contract ref_host_msi_stable ref_ready ref_connected this,
      of "ref_mapped (recv_dma ref_dma)" ref_linux "[]" ref_dma 20]
  show ?thesis by (auto simp: l ref_mapping_ok ref_mapped_config r skipped_def ref_sg_inj)
qed

section \<open>The life of an operation\<close>

lemma send_trace:
  assumes "psipe_ioctl_send L B d tr m = Inr (rv, d', tr', m')" "0 \<le> rv"
  shows "pinned_pages tr' = pinned_pages tr \<and> page_arrays tr' = page_arrays tr \<and>
     dma_npages m' = dma_npages m"
  using assms
  by (auto simp: psipe_ioctl_send_def psipe_dma_write_setup_def map_and_ring_def
      psipe_dma_map_pages_def EMSGSIZE_def Let_def split: if_splits prod.splits)

lemma new_send_op:
  assumes "psipe_ops_new L tr PSIPE_IOCTL_SEND arg = (Some op, tr')"
  shows "op_fn op = psipe_ioctl_send_fn" "flag op = 0" "nwaiting op = 0"
    "pinned_pages tr' = pinned_pages tr" "page_arrays tr' = page_arrays tr"
  using assms by (auto simp: psipe_ops_new_def Let_def split: option.splits prod.splits if_splits)

text \<open>
  C17. A send from the ioctl to the wait, on an idle module: the ioctl gives out a handle and the
  buffer's frames are on the connection; the interrupt the device raised is handled; waiting for
  the handle returns at once. Afterwards nothing is queued, and every page and page array taken on
  the way has been given back.
\<close>

theorem send_lifecycle:
  assumes H: "host_contract H v" "msi_stable H" "dev_ready (hw s)" "connected (hw s)"
    and s: "active s = []" "inactive s = []" "unat (next_id s) < 2 ^ 64 - 1"
    and new: "psipe_ops_new L (trace s) PSIPE_IOCTL_SEND arg = (Some op, tr1)"
    and pin: "psipe_dma_pin_pages L tr1 (op_dma op) = (0, tr2, m)"
    and inb: "inb v (env (hw s)) = enc_req PSIPE_REQ_RLN @ enc_len l @ rest"
    and fits: "dma_len m \<le> trunc32 l"
    and map: "mapping_ok L tr2 (config (dma (hw s))) (send_dma m) m'"
    and fuel: "Suc (unat (trunc32 (dma_len m'))) < fuel"
  shows "\<exists>s1 s2 s3 rv.
     psipe_ioctl L (dev_bus fuel H) s PSIPE_IOCTL_SEND arg = Inr (sint (next_id s), s1) \<and>
     outb v (env (hw s1)) = outb v (env (hw s)) @ enc_req PSIPE_REQ_SLN @
       frames (sg_bytes (mapped_config (config (dma (hw s))) m') (ram v (env (hw s))) 0
         (unat (trunc32 (dma_len m')))) \<and>
     psipe_irq_handler L (dev_bus fuel H) s1 = Inr (IRQ_HANDLED, s2) \<and> \<not> work_ended H (hw s2) \<and>
     psipe_ioctl L (dev_bus fuel H) s2 PSIPE_IOCTL_WAIT (next_id s) = Inr (rv, s3) \<and>
     active s3 = [] \<and> inactive s3 = [] \<and> dev_ready (hw s3) \<and>
     pinned_pages (trace s3) = pinned_pages (trace s) \<and> page_arrays (trace s3) = page_arrays (trace s)"
proof -
  let ?B = "dev_bus fuel H" let ?n = "next_id s"
  note op = new_send_op [OF new]
  obtain r t tr3 where t: "psipe_ioctl_send L ?B (hw s) tr2 m = Inr (r, t, tr3, m')" "0 \<le> r"
    "dev_ready t" "work_ended H t"
    "outb v (env t) = outb v (env (hw s)) @ enc_req PSIPE_REQ_SLN @
       frames (sg_bytes (mapped_config (config (dma (hw s))) m') (ram v (env (hw s))) 0
         (unat (trunc32 (dma_len m'))))"
    by (rule send_on_device [OF H inb fits map fuel])
  note tr = send_trace [OF t(1,2)] and pr = pin_pages_resources(2) [OF pin]
  define o1 where "o1 = op\<lparr>op_dma := m', op_id := ?n\<rparr>"
  define s1 where "s1 = s\<lparr>hw := t, trace := tr3, next_id := ?n + 1, active := [o1]\<rparr>"
  have i1: "psipe_ioctl L ?B s PSIPE_IOCTL_SEND arg = Inr (sint ?n, s1)"
    using t(1,2) new pin op s
    by (simp add: psipe_ioctl_def psipe_ops_init_def Let_def ops_enqueue_def start_op_def
        update_op_def map_op_def s1_def o1_def)
  have ok: "dev_irq_ok H (hw s1)" "work_ended H (hw s1)"
    using t(3,4) H(2) by (simp_all add: s1_def dev_irq_ok_def)
  obtain d' where d': "dev_irq_ok H d'" "\<not> work_ended H d'" "psipe_irq_handler L ?B s1 =
      bindR (psipe_ops_next L ?B (s1\<lparr>hw := d'\<rparr>)) (\<lambda>s. Inr (IRQ_HANDLED, s))"
    using dev.raised_irq [OF ok] by blast
  define tr4 where "tr4 = psipe_dma_unpin_pages (psipe_dma_unmap_pages tr3 m') m' @ [Wake_up_all ?n]"
  define s2 where "s2 = s\<lparr>hw := d', trace := tr4, next_id := ?n + 1, active := [],
      inactive := [o1\<lparr>flag := 1\<rparr>]\<rparr>"
  have i2: "psipe_irq_handler L ?B s1 = Inr (IRQ_HANDLED, s2)"
    unfolding d'(3) using s
    by (simp add: psipe_ops_next_def psipe_ops_current_def psipe_ops_fini_def list_del_def Let_def
        s1_def s2_def tr4_def o1_def)
  define s3 where "s3 = s\<lparr>hw := d', trace := tr4 @ [Kfree_op ?n], next_id := ?n + 1, active := [],
      inactive := []\<rparr>"
  have n1: "\<not> ?n + 1 \<le> ?n" using s(3) by (simp add: word_le_nat_alt unat_word_ariths)
  have i3: "psipe_ioctl L ?B s2 PSIPE_IOCTL_WAIT ?n = Inr (retval op, s3)"
    using n1 op(3)
    by (simp add: psipe_ioctl_def psipe_ops_get_def psipe_ops_wait_def ops_wait_enter_def
        ops_wait_leave_def update_op_def map_op_def find_op_def list_del_def Let_def s2_def s3_def
        o1_def s32_id)
  have "pinned_pages tr4 = pinned_pages (trace s)" "page_arrays tr4 = page_arrays (trace s)"
    using tr pr op(4,5)
    by (simp_all add: tr4_def psipe_dma_unpin_pages_def psipe_dma_unmap_pages_def)
  then have "pinned_pages (trace s3) = pinned_pages (trace s)"
    "page_arrays (trace s3) = page_arrays (trace s)" by (simp_all add: s3_def)
  moreover have "dev_ready (hw s3)" using d'(1) by (simp add: s3_def dev_irq_ok_def)
  ultimately show ?thesis
    using i1 i2 i3 t(5) d'(2)
    by (intro exI [of _ s1] exI [of _ s2] exI [of _ s3] exI [of _ "retval op"])
      (simp add: s1_def s2_def s3_def)
qed

theorem send_lifecycle_witness:
  "\<exists>s1 s2 s3 rv.
     psipe_ioctl ref_linux (dev_bus 20 ref_host)
       (kinit (ref_dev DMA_MODE_PASSIVE (enc_req PSIPE_REQ_RLN @ enc_len 16))) PSIPE_IOCTL_SEND 0 =
         Inr (0, s1) \<and>
     psipe_irq_handler ref_linux (dev_bus 20 ref_host) s1 = Inr (IRQ_HANDLED, s2) \<and>
     psipe_ioctl ref_linux (dev_bus 20 ref_host) s2 PSIPE_IOCTL_WAIT 0 = Inr (rv, s3) \<and>
     pinned_pages (trace s3) = 0"
proof -
  let ?d = "ref_dev DMA_MODE_PASSIVE (enc_req PSIPE_REQ_RLN @ enc_len 16)"
  have k: "hw (kinit ?d) = ?d" "trace (kinit ?d) = []" "next_id (kinit ?d) = 0"
    "active (kinit ?d) = []" "inactive (kinit ?d) = []"
    by (simp_all add: kinit_def)
  have new: "psipe_ops_new ref_linux (trace (kinit ?d)) PSIPE_IOCTL_SEND 0 =
      (Some (ref_queued 0), [] @ [Kmalloc_op, Copy_from_user 0])"
    unfolding k by (rule ref_ops_new)
  have pin: "psipe_dma_pin_pages ref_linux ([] @ [Kmalloc_op, Copy_from_user 0])
      (op_dma (ref_queued 0)) = (0, ([] @ [Kmalloc_op, Copy_from_user 0]) @ [Kmalloc_array 2,
        Pin_user_pages 0x7FFF00001FF8 2 2, Sg_alloc_table], ref_dma)"
    unfolding ref_queued_simps by (rule ref_pin)
  have l: "dma_len ref_dma = 16" "dma_len (send_dma ref_dma) = 16"
    "dma_len (ref_mapped (send_dma ref_dma)) = 16"
    by (simp_all add: ref_dma_def send_dma_def ref_mapped_def)
  have inb: "inb ref_view (env (hw (kinit ?d))) = enc_req PSIPE_REQ_RLN @ enc_len 16 @ []"
    by (simp add: k)
  have rd: "dev_ready (hw (kinit ?d))" "connected (hw (kinit ?d))" by (simp_all add: k)
  from send_lifecycle [OF ref_host_contract ref_host_msi_stable rd k(4,5) _ new pin inb,
      of "ref_mapped (send_dma ref_dma)" 20]
  show ?thesis by (auto simp: k l ref_mapping_ok)
qed

section \<open>One machine\<close>

text \<open>
  C21. Every state a machine reaches from the set-up of its device, by ioctls, interrupts, waiters,
  resets and whatever the host and the peer do: the queue is ordered and its ids are unique, the
  device is idle between two steps, its page size is 4096, its page count has 32 bits and no handle
  lies beyond the register window. If the connection was made, the machine can serve the next
  operation, which is the premise of C17.
\<close>

theorem machine_invariant:
  assumes "machine fuel H L s" "qemu_target_page_size H = 4096"
  shows "kinv s \<and> psipe_dma_is_idle (hw s) \<and> page_size (config (dma (hw s))) = 4096 \<and>
     unat (npages (config (dma (hw s)))) < 2 ^ 32 \<and>
     (\<forall>k \<ge> handle_window. handles (config (dma (hw s))) k = 0) \<and>
     (connected (hw s) \<longrightarrow> serving (hw s))"
  using machine_kinv [OF assms(1)] machine_serving [OF assms]
    dreach_settled [OF machine_dreach [OF assms(1)] assms(2)]
  by (simp add: settled_def plain_def dev_ready_def word_le_nat_alt)

theorem machine_invariant_witness:
  "machine 3 lone_host ref_linux ((kinit lone_dev)\<lparr>hw := psipe_device_reset lone_host lone_dev\<rparr>) \<and>
   kinv ((kinit lone_dev)\<lparr>hw := psipe_device_reset lone_host lone_dev\<rparr>)"
proof -
  have "machine 3 lone_host ref_linux (kinit lone_dev)" by (rule machine_init [OF lone_init])
  from machine_reset [OF this]
  have "machine 3 lone_host ref_linux ((kinit lone_dev)\<lparr>hw := psipe_device_reset lone_host lone_dev\<rparr>)"
    by (simp add: kinit_def)
  then show ?thesis using machine_invariant [OF _ lone_page_size] by blast
qed

section \<open>A burst of operations\<close>

text \<open>
  C20. Many requests at once. An idle module gets any number of send and receive ioctls and then
  the interrupts the device raises, one for each. If the peer's bytes are those the operations ask
  for, in their order, then every ioctl returns the next handle, every operation is completed in
  the order of the requests, and memory and connection are what the operations do one after the
  other: a later send transmits what an earlier receive has stored. Nothing is left queued and the
  interrupt is lowered.
\<close>

theorem burst_is_serial:
  assumes "host_contract H v" "msi_stable H" "serving (hw s)" "kinv s" "active s = []"
    "unat (next_id s) + length reqs < 2 ^ 64" "reqs \<noteq> []"
    "list_all2 (request_of L fuel) reqs jobs"
    "inb v (env (hw s)) = concat (map job_input jobs) @ rest"
  shows "\<exists>u t ops. submit_all L (dev_bus fuel H) s reqs =
       Inr (map sint (next_ids (next_id s) (length reqs)), u) \<and>
     handle_irqs fuel H L (length reqs) u = Inr t \<and> active t = [] \<and> inactive t = inactive s @ ops \<and>
     map op_id ops = next_ids (next_id s) (length reqs) \<and>
     list_all (\<lambda>op. flag op = 1) ops \<and> list_all (\<lambda>op. 0 \<le> retval op) (tl ops) \<and>
     completed (trace t) = completed (trace s) @ next_ids (next_id s) (length reqs) \<and>
     (ram v (env (hw t)), outb v (env (hw t))) =
       serial jobs (ram v (env (hw s)), outb v (env (hw s))) \<and>
     inb v (env (hw t)) = rest \<and> serving (hw t) \<and> \<not> work_ended H (hw t)"
proof -
  have "holds H v (concat (map job_input jobs) @ rest) (mem_out v (hw s)) (hw s)"
    using assms by (simp add: holds_def)
  from burst [OF this assms(8,7,4,6,5)] show ?thesis unfolding holds_def mem_out_def by blast
qed

text \<open>A send, a receive of sixteen bytes into the same buffer, and a send of the buffer again.\<close>

theorem burst_is_serial_witness:
  "\<exists>u t. submit_all ref_linux (dev_bus 20 ref_host)
       (kinit (ref_dev DMA_MODE_PASSIVE (enc_req PSIPE_REQ_RLN @ enc_len 16 @
          enc_req PSIPE_REQ_SLN @ frames (replicate 16 7) @ enc_req PSIPE_REQ_RLN @ enc_len 16)))
       [(PSIPE_IOCTL_SEND, 0), (PSIPE_IOCTL_RECV, 0), (PSIPE_IOCTL_SEND, 0)] = Inr ([0, 1, 2], u) \<and>
     handle_irqs 20 ref_host ref_linux 3 u = Inr t \<and> active t = [] \<and>
     completed (trace t) = [0, 1, 2] \<and>
     outb ref_view (env (hw t)) =
       enc_req PSIPE_REQ_SLN @ frames (sg_bytes ref_config (\<lambda>a. 3 * ucast a + 1) 0 16) @
       enc_req PSIPE_REQ_RLN @ enc_len 16 @
       enc_req PSIPE_REQ_SLN @ frames (replicate 16 7)"
proof -
  let ?ds = "replicate 16 (7 :: u8)"
  let ?i = "enc_req PSIPE_REQ_RLN @ enc_len 16 @ enc_req PSIPE_REQ_SLN @ frames ?ds @
    enc_req PSIPE_REQ_RLN @ enc_len 16"
  let ?s = "kinit (ref_dev DMA_MODE_PASSIVE ?i)"
  let ?reqs = "[(PSIPE_IOCTL_SEND, 0), (PSIPE_IOCTL_RECV, 0), (PSIPE_IOCTL_SEND, 0)]"
  let ?sm = "ref_mapped (send_dma ref_dma)" and ?rm = "ref_mapped (recv_dma ref_dma)"
  let ?jobs = "[Job_Send ?sm 16, Job_Recv ?rm [] ?ds, Job_Send ?sm 16]"
  have k: "hw ?s = ref_dev DMA_MODE_PASSIVE ?i" "trace ?s = []" "next_id ?s = 0" "active ?s = []"
    by (simp_all add: kinit_def)
  have l: "dma_len (send_dma ref_dma) = 16" "dma_len (recv_dma ref_dma) = 16" "dma_len ?rm = 16"
    by (simp_all add: send_dma_def recv_dma_def ref_dma_def ref_mapped_def)
  have sv: "serving (hw ?s)" by (simp add: serving_def plain_def k)
  have rq: "list_all2 (request_of ref_linux 20) ?reqs ?jobs" by (simp add: ref_requests)
  have inb: "inb ref_view (env (hw ?s)) = concat (map job_input ?jobs) @ []" by (simp add: k)
  have n: "unat (next_id ?s) + length ?reqs < 2 ^ 64" "?reqs \<noteq> []" by (simp_all add: k)
  have r: "ram ref_view (ref_world ?i) = (\<lambda>a. 3 * ucast a + 1)" by (rule ext) simp
  have b: "sg_bytes (buffer_config ?sm) mem 0 16 = sg_bytes ref_config mem 0 16" for mem
    by (simp add: sg_bytes_def ref_buffer(4) [OF l(1)])
  have ser: "snd (serial ?jobs (ram ref_view (ref_world ?i), [])) =
      enc_req PSIPE_REQ_SLN @ frames (sg_bytes ref_config (\<lambda>a. 3 * ucast a + 1) 0 16) @
        enc_req PSIPE_REQ_RLN @ enc_len 16 @ enc_req PSIPE_REQ_SLN @ frames ?ds"
    using ref_stored [OF l(2) _ l(1), of ?ds "\<lambda>a. 3 * ucast a + 1"]
    by (simp add: serial_def ref_buffer(2) l b r)
  have ids: "length ?reqs = 3" "map sint (next_ids 0 3) = [0, 1, 2]" "next_ids 0 3 = [0, 1, 2 :: u64]"
    by (simp_all add: numeral_3_eq_3)
  obtain u t where ut: "submit_all ref_linux (dev_bus 20 ref_host) ?s ?reqs =
      Inr (map sint (next_ids 0 3), u)" "handle_irqs 20 ref_host ref_linux 3 u = Inr t" "active t = []"
    "completed (trace t) = completed [] @ next_ids 0 3"
    "(ram ref_view (env (hw t)), outb ref_view (env (hw t))) =
       serial ?jobs (ram ref_view (env (hw ?s)), outb ref_view (env (hw ?s)))"
    using burst_is_serial [OF ref_host_contract ref_host_msi_stable sv kinv_init k(4) n rq inb]
    unfolding k(2,3) ids(1) by blast
  have "outb ref_view (env (hw t)) = snd (serial ?jobs (ram ref_view (ref_world ?i), []))"
    using arg_cong [OF ut(5), of snd] by (simp add: k(1))
  then show ?thesis using ut(1-4) unfolding ser ids(2,3) by (intro exI [of _ u] exI [of _ t]) simp
qed

section \<open>A conversation\<close>

text \<open>
  C4. Two machines. Each side issues its ioctls and takes the interrupts its device raises, the sends
  of one meeting the receives of the other, in both directions. Both queues drain; the two memories
  are what copying the buffers one after the other gives, data that arrived earlier included in what
  is sent later; each side has written exactly the bytes the other one has read, and nothing is left
  on either connection.
\<close>

theorem conversation:
  assumes mm: "mm = (ram v1 (env (hw s1)), ram v2 (env (hw s2)))"
    and t1: "talker H1 v1 L1 fuel1 s1 reqs1 (first_jobs xs mm)"
    and t2: "talker H2 v2 L2 fuel2 s2 reqs2 (second_jobs xs mm)"
  shows "\<exists>u1 t1 u2 t2.
     submit_all L1 (dev_bus fuel1 H1) s1 reqs1 = Inr (map sint (next_ids (next_id s1) (length reqs1)), u1) \<and>
     handle_irqs fuel1 H1 L1 (length reqs1) u1 = Inr t1 \<and> active t1 = [] \<and>
     submit_all L2 (dev_bus fuel2 H2) s2 reqs2 = Inr (map sint (next_ids (next_id s2) (length reqs2)), u2) \<and>
     handle_irqs fuel2 H2 L2 (length reqs2) u2 = Inr t2 \<and> active t2 = [] \<and>
     (ram v1 (env (hw t1)), ram v2 (env (hw t2))) = talk xs mm \<and>
     outb v1 (env (hw t1)) = outb v1 (env (hw s1)) @ inb v2 (env (hw s2)) \<and>
     outb v2 (env (hw t2)) = outb v2 (env (hw s2)) @ inb v1 (env (hw s1)) \<and>
     inb v1 (env (hw t1)) = [] \<and> inb v2 (env (hw t2)) = []"
proof -
  have f: "fst mm = ram v1 (env (hw s1))" "snd mm = ram v2 (env (hw s2))" by (simp_all add: mm)
  note s = talk_serial [of xs mm, unfolded f]
  show ?thesis
    using talker_runs [OF t1 s(1)] talker_runs [OF t2 s(2)] t1 t2
    by (fastforce simp: talker_def)
qed

text \<open>Sixteen bytes each way; the second machine sends back what it has received.\<close>

theorem conversation_witness:
  "\<exists>u1 t1 u2 t2.
     handle_irqs 20 ref_host ref_linux 2 u1 = Inr t1 \<and> active t1 = [] \<and>
     handle_irqs 20 ref_host ref_linux 2 u2 = Inr t2 \<and> active t2 = [] \<and>
     (ram ref_view (env (hw t1)), ram ref_view (env (hw t2))) =
       talk [First_sends ref_out ref_in, Second_sends ref_out ref_in]
         (\<lambda>a. 3 * ucast a + 1, \<lambda>a. 3 * ucast a + 1)"
proof -
  let ?m = "\<lambda>a :: u64. 3 * ucast a + 1 :: u8"
  let ?xs = "[First_sends ref_out ref_in, Second_sends ref_out ref_in]"
  let ?j1 = "first_jobs ?xs (?m, ?m)" and ?j2 = "second_jobs ?xs (?m, ?m)"
  have k: "hw (kinit d) = d" "next_id (kinit d) = 0" "active (kinit d) = []" for d :: "world PSIPEDevice"
    by (simp_all add: kinit_def)
  let ?s1 = "kinit (ref_dev DMA_MODE_PASSIVE (jobs_input ?j1))"
  let ?s2 = "kinit (ref_dev DMA_MODE_PASSIVE (jobs_input ?j2))"
  let ?r1 = "[(PSIPE_IOCTL_SEND, 0), (PSIPE_IOCTL_RECV, 0)]"
  let ?r2 = "[(PSIPE_IOCTL_RECV, 0), (PSIPE_IOCTL_SEND, 0)]"
  have r: "ram ref_view (ref_world i) = ?m" for i by (rule ext) simp
  have "list_all2 (request_of ref_linux 20) ?r1 ?j1" "list_all2 (request_of ref_linux 20) ?r2 ?j2"
    by (simp_all add: first_jobs_def second_jobs_def ref_talk_jobs)
  then have t: "talker ref_host ref_view ref_linux 20 ?s1 ?r1 ?j1"
    "talker ref_host ref_view ref_linux 20 ?s2 ?r2 ?j2"
    by (simp_all add: talker_def ref_host_contract ref_host_msi_stable serving_def plain_def kinv_init k)
  have mm: "(?m, ?m) = (ram ref_view (env (hw ?s1)), ram ref_view (env (hw ?s2)))"
    by (simp only: k r ref_dev_simps)
  have n: "length ?r1 = 2" "length ?r2 = 2" by simp_all
  from conversation [OF mm t, unfolded n] show ?thesis by blast
qed

end
